(* ===== verification/Prelude.thy ===== *)
theory Prelude
  imports Main "HOL-Library.Word" "HOL-Library.Monad_Syntax" "HOL-Library.Signed_Division"
begin

text \<open>
  What every component shares: the C types, arrays and block memory with their bounds checks,
  loops, and the little-endian layout of machine integers.

  A C \<open>int\<close> that only counts or indexes is an \<open>int\<close>; the components prove that these values
  stay in range. An integer whose bits matter (message fields, time stamps, doubles) is a word.
  A computation that C leaves undefined (an access outside an object) is \<open>None\<close>, so a
  definition of type \<open>_ option\<close> that returns \<open>Some\<close> made no such access. \<open>%\<close> and \<open>/\<close>
  on ints are \<open>smod\<close> and \<open>sdiv\<close>, which truncate towards zero as C does.
\<close>

unbundle bit_operations_syntax

type_synonym byte = "8 word"
type_synonym timestamp = "64 word"

named_theorems array_simps \<open>in-range behaviour of arrays and memory blocks\<close>
named_theorems frame_simps \<open>what an operation leaves unchanged\<close>
named_theorems wf_intros \<open>operations keep the well-formedness of their component\<close>

section \<open>Arrays and memory blocks\<close>

definition aget :: "'a list \<Rightarrow> int \<Rightarrow> 'a option" where
  "aget xs i = (if 0 \<le> i \<and> i < int (length xs) then Some (xs ! nat i) else None)"

definition aset :: "'a list \<Rightarrow> int \<Rightarrow> 'a \<Rightarrow> 'a list option" where
  "aset xs i x = (if 0 \<le> i \<and> i < int (length xs) then Some (xs[nat i := x]) else None)"

text \<open>\<open>n\<close> bytes of a block from offset \<open>off\<close>, and the same written.\<close>

definition mem_read :: "'a list \<Rightarrow> int \<Rightarrow> int \<Rightarrow> 'a list option" where
  "mem_read xs off n =
     (if 0 \<le> off \<and> 0 \<le> n \<and> off + n \<le> int (length xs)
      then Some (take (nat n) (drop (nat off) xs)) else None)"

definition mem_write :: "'a list \<Rightarrow> int \<Rightarrow> 'a list \<Rightarrow> 'a list option" where
  "mem_write xs off ys =
     (if 0 \<le> off \<and> off + int (length ys) \<le> int (length xs)
      then Some (take (nat off) xs @ ys @ drop (nat off + length ys) xs) else None)"

definition memcpy :: "'a list \<Rightarrow> int \<Rightarrow> 'a list \<Rightarrow> int \<Rightarrow> int \<Rightarrow> 'a list option" where
  "memcpy dst doff src soff n =
     do { ys \<leftarrow> mem_read src soff n; mem_write dst doff ys }"

text \<open>
  \<open>memcmp\<close>: the difference of the first two bytes that differ, 0 when there are none. C fixes
  only the sign of a non-zero result, and the code only tests it against 0.
\<close>

fun bytes_cmp :: "byte list \<Rightarrow> byte list \<Rightarrow> int" where
  "bytes_cmp (x # xs) (y # ys) = (if x = y then bytes_cmp xs ys else uint x - uint y)"
| "bytes_cmp _ _ = 0"

definition memcmp :: "byte list \<Rightarrow> int \<Rightarrow> byte list \<Rightarrow> int \<Rightarrow> int \<Rightarrow> int option" where
  "memcmp a aoff b boff n =
     do { xs \<leftarrow> mem_read a aoff n; ys \<leftarrow> mem_read b boff n; Some (bytes_cmp xs ys) }"

lemma aget_in [array_simps]: "0 \<le> i \<Longrightarrow> i < int (length xs) \<Longrightarrow> aget xs i = Some (xs ! nat i)"
  by (simp add: aget_def)

lemma aget_int [simp]: "i < length xs \<Longrightarrow> aget xs (int i) = Some (xs ! i)"
  by (simp add: aget_def)

lemma aset_in [array_simps]: "0 \<le> i \<Longrightarrow> i < int (length xs) \<Longrightarrow> aset xs i x = Some (xs[nat i := x])"
  by (simp add: aset_def)

lemma aset_int [simp]: "i < length xs \<Longrightarrow> aset xs (int i) x = Some (xs[i := x])"
  by (simp add: aset_def)

lemma aget_Some_iff: "aget xs i = Some x \<longleftrightarrow> 0 \<le> i \<and> i < int (length xs) \<and> xs ! nat i = x"
  by (auto simp: aget_def)

lemma aset_Some_iff:
  "aset xs i x = Some ys \<longleftrightarrow> 0 \<le> i \<and> i < int (length xs) \<and> ys = xs[nat i := x]"
  by (auto simp: aset_def)

lemma aget_outside: "i < 0 \<or> int (length xs) \<le> i \<Longrightarrow> aget xs i = None"
  by (auto simp: aget_def)

lemma aset_outside: "i < 0 \<or> int (length xs) \<le> i \<Longrightarrow> aset xs i x = None"
  by (auto simp: aset_def)

lemma mem_read_in [array_simps]:
  "0 \<le> off \<Longrightarrow> 0 \<le> n \<Longrightarrow> off + n \<le> int (length xs) \<Longrightarrow>
   mem_read xs off n = Some (take (nat n) (drop (nat off) xs))"
  by (simp add: mem_read_def)

lemma mem_write_in [array_simps]:
  "0 \<le> off \<Longrightarrow> off + int (length ys) \<le> int (length xs) \<Longrightarrow>
   mem_write xs off ys = Some (take (nat off) xs @ ys @ drop (nat off + length ys) xs)"
  by (simp add: mem_write_def)

lemma memcpy_in [array_simps]:
  assumes "0 \<le> doff" "0 \<le> soff" "0 \<le> n" "soff + n \<le> int (length src)" "doff + n \<le> int (length dst)"
  shows "memcpy dst doff src soff n =
    Some (take (nat doff) dst @ take (nat n) (drop (nat soff) src) @ drop (nat doff + nat n) dst)"
proof -
  have "length (take (nat n) (drop (nat soff) src)) = nat n"
    using assms by simp
  then show ?thesis
    using assms by (simp add: memcpy_def mem_read_def mem_write_def)
qed

lemma memcpy_nat [array_simps]:
  assumes "soff + n \<le> length src" "doff + n \<le> length dst"
  shows "memcpy dst (int doff) src (int soff) (int n) =
    Some (take doff dst @ take n (drop soff src) @ drop (doff + n) dst)"
  using assms by (simp add: memcpy_in)

lemma bytes_cmp_eq_0: "length xs = length ys \<Longrightarrow> bytes_cmp xs ys = 0 \<longleftrightarrow> xs = ys"
  by (induction xs ys rule: list_induct2) (auto simp: word_uint_eq_iff)

lemma bytes_cmp_self [simp]: "bytes_cmp xs xs = 0"
  by (simp add: bytes_cmp_eq_0)

lemma memcmp_in [array_simps]:
  "0 \<le> aoff \<Longrightarrow> 0 \<le> boff \<Longrightarrow> 0 \<le> n \<Longrightarrow> aoff + n \<le> int (length a) \<Longrightarrow> boff + n \<le> int (length b) \<Longrightarrow>
   memcmp a aoff b boff n =
     Some (bytes_cmp (take (nat n) (drop (nat aoff) a)) (take (nat n) (drop (nat boff) b)))"
  by (simp add: memcmp_def mem_read_def)

lemma list_all_update [intro]: "list_all P xs \<Longrightarrow> P x \<Longrightarrow> list_all P (xs[i := x])"
  by (auto simp: list_all_iff dest!: set_update_subset_insert [THEN subsetD])

section \<open>Loops\<close>

text \<open>
  \<open>foldM f xs s\<close> runs the body \<open>f\<close> over the elements of \<open>xs\<close> from state \<open>s\<close>, stopping at the
  first undefined step; \<open>for_upto lo hi f s\<close> is \<open>for (i = lo; i < hi; i++)\<close>.
\<close>

primrec foldM :: "('a \<Rightarrow> 's \<Rightarrow> 's option) \<Rightarrow> 'a list \<Rightarrow> 's \<Rightarrow> 's option" where
  "foldM f [] s = Some s"
| "foldM f (x # xs) s = do { s' \<leftarrow> f x s; foldM f xs s' }"

definition for_upto :: "int \<Rightarrow> int \<Rightarrow> (int \<Rightarrow> 's \<Rightarrow> 's option) \<Rightarrow> 's \<Rightarrow> 's option" where
  "for_upto lo hi f s = foldM f [lo..hi - 1] s"

lemma foldM_append: "foldM f (xs @ ys) s = do { s' \<leftarrow> foldM f xs s; foldM f ys s' }"
  by (induction xs arbitrary: s) (auto split: Option.bind_split)

lemma for_upto_done [simp]: "hi \<le> lo \<Longrightarrow> for_upto lo hi f s = Some s"
  by (simp add: for_upto_def)

lemma for_upto_step: "lo < hi \<Longrightarrow> for_upto lo hi f s = do { s' \<leftarrow> f lo s; for_upto (lo + 1) hi f s' }"
  by (simp add: for_upto_def upto_rec1)

lemma for_upto_last:
  "lo \<le> hi \<Longrightarrow> for_upto lo (hi + 1) f s = do { s' \<leftarrow> for_upto lo hi f s; f hi s' }"
  by (simp add: for_upto_def upto_rec2 foldM_append split: Option.bind_split)

text \<open>Total correctness of a loop body that keeps \<open>P i\<close> at step \<open>i\<close>.\<close>

lemma for_upto_rule:
  assumes "lo \<le> hi" and "P lo s"
    and step: "\<And>i s. lo \<le> i \<Longrightarrow> i < hi \<Longrightarrow> P i s \<Longrightarrow> \<exists>s'. f i s = Some s' \<and> P (i + 1) s'"
  shows "\<exists>s'. for_upto lo hi f s = Some s' \<and> P hi s'"
  using assms(1) step
proof (induction rule: int_ge_induct)
  case base
  then show ?case using assms(2) by simp
next
  case (step i)
  then obtain s' where s': "for_upto lo i f s = Some s'" "P i s'"
    by (metis zle_iff_zadd less_le_trans zless_add1_eq)
  from step.hyps step.prems [of i s'] s'(2) obtain s'' where "f i s' = Some s''" "P (i + 1) s''"
    by auto
  with s'(1) step.hyps show ?case by (simp add: for_upto_last)
qed

text \<open>Loops over indices, with the index as a natural number.\<close>

lemma for_upto_nat:
  assumes "P 0 s" and "\<And>i s. i < n \<Longrightarrow> P i s \<Longrightarrow> \<exists>s'. f (int i) s = Some s' \<and> P (Suc i) s'"
  shows "\<exists>s'. for_upto 0 (int n) f s = Some s' \<and> P n s'"
proof -
  have "\<exists>s'. for_upto 0 (int n) f s = Some s' \<and> P (nat (int n)) s'"
  proof (rule for_upto_rule [where P = "\<lambda>i. P (nat i)"])
    fix i s assume i: "0 \<le> i" "i < int n" "P (nat i) s"
    then have "nat (i + 1) = Suc (nat i)" by simp
    then show "\<exists>s'. f i s = Some s' \<and> P (nat (i + 1)) s'"
      using assms(2) [of "nat i" s] i by simp
  qed (use assms(1) in auto)
  then show ?thesis by simp
qed

text \<open>Partial correctness, and frame properties: what every step keeps, the loop keeps.\<close>

lemma foldM_keeps:
  assumes "\<And>x s s'. x \<in> set xs \<Longrightarrow> f x s = Some s' \<Longrightarrow> P s \<Longrightarrow> P s'"
  shows "foldM f xs s = Some t \<Longrightarrow> P s \<Longrightarrow> P t"
  using assms
proof (induction xs arbitrary: s)
  case Nil
  then show ?case by simp
next
  case (Cons x xs)
  from Cons.prems(1) obtain s' where s': "f x s = Some s'" "foldM f xs s' = Some t"
    by (auto simp: Option.bind_eq_Some_conv)
  with Cons.prems have "P s'" by (metis list.set_intros(1))
  then show ?case using Cons.IH [OF s'(2)] Cons.prems(3) by (metis list.set_intros(2))
qed

lemma for_upto_keeps:
  assumes "\<And>i s s'. lo \<le> i \<Longrightarrow> i < hi \<Longrightarrow> f i s = Some s' \<Longrightarrow> P s \<Longrightarrow> P s'"
  shows "for_upto lo hi f s = Some t \<Longrightarrow> P s \<Longrightarrow> P t"
  unfolding for_upto_def by (rule foldM_keeps [where P = P]) (use assms in auto)

text \<open>A loop whose bodies are related by a projection of the state.\<close>

lemma for_upto_map:
  assumes "\<And>i s. f i (g s) = map_option g (f' i s)"
  shows "for_upto lo hi f (g s) = map_option g (for_upto lo hi f' s)"
proof -
  have "foldM f xs (g s) = map_option g (foldM f' xs s)" for xs
  proof (induction xs arbitrary: s)
    case (Cons x xs)
    then show ?case by (cases "f' x s") (simp_all add: assms)
  qed simp
  then show ?thesis by (simp add: for_upto_def)
qed

section \<open>Integers as bytes\<close>

definition le_bytes4 :: "32 word \<Rightarrow> byte list" where
  "le_bytes4 w = [ucast w, ucast (drop_bit 8 w), ucast (drop_bit 16 w), ucast (drop_bit 24 w)]"

fun le_word4 :: "byte list \<Rightarrow> 32 word" where
  "le_word4 (a # b # c # d # _) =
     ucast a OR push_bit 8 (ucast b) OR push_bit 16 (ucast c) OR push_bit 24 (ucast d)"
| "le_word4 _ = 0"

definition le_bytes8 :: "64 word \<Rightarrow> byte list" where
  "le_bytes8 w = le_bytes4 (ucast w) @ le_bytes4 (ucast (drop_bit 32 w))"

definition le_word8 :: "byte list \<Rightarrow> 64 word" where
  "le_word8 bs = ucast (le_word4 bs) OR push_bit 32 (ucast (le_word4 (drop 4 bs)))"

lemma length_le_bytes [simp]: "length (le_bytes4 w) = 4" "length (le_bytes8 v) = 8"
  by (simp_all add: le_bytes4_def le_bytes8_def)

lemma le_word4_append [simp]: "le_word4 (le_bytes4 w @ bs) = w"
proof (rule bit_word_eqI)
  fix n assume "n < LENGTH(32)"
  then have n: "n < 32" by simp
  consider "n < 8" | "8 \<le> n" "n < 16" | "16 \<le> n" "n < 24" | "24 \<le> n"
    by linarith
  then show "bit (le_word4 (le_bytes4 w @ bs)) n = bit w n"
    using n by cases (auto simp: le_bytes4_def bit_simps)
qed

lemma le_word4_le_bytes4 [simp]: "le_word4 (le_bytes4 w) = w"
  using le_word4_append [of w "[]"] by simp

lemma le_word8_append [simp]: "le_word8 (le_bytes8 w @ bs) = w"
proof (rule bit_word_eqI)
  fix n assume "n < LENGTH(64)"
  then have n: "n < 64" by simp
  show "bit (le_word8 (le_bytes8 w @ bs)) n = bit w n"
    using n by (auto simp: le_bytes8_def le_word8_def bit_simps)
qed

lemma le_word8_le_bytes8 [simp]: "le_word8 (le_bytes8 w) = w"
  using le_word8_append [of w "[]"] by simp

text \<open>A C \<open>int\<close> in memory: four bytes, least significant first, two's complement.\<close>

definition int_bytes :: "int \<Rightarrow> byte list" where
  "int_bytes i = le_bytes4 (word_of_int i)"

definition bytes_int :: "byte list \<Rightarrow> int" where
  "bytes_int bs = sint (le_word4 bs)"

definition c_int :: "int \<Rightarrow> bool" where
  "c_int i \<longleftrightarrow> - (2 ^ 31) \<le> i \<and> i < 2 ^ 31"

lemma length_int_bytes [simp]: "length (int_bytes i) = 4"
  by (simp add: int_bytes_def)

lemma sint_word_of_c_int: "c_int i \<Longrightarrow> sint (word_of_int i :: 32 word) = i"
  by (simp add: c_int_def sint_sbintrunc' signed_take_bit_int_eq_self)

lemma bytes_int_append [simp]: "c_int i \<Longrightarrow> bytes_int (int_bytes i @ bs) = i"
  by (simp add: bytes_int_def int_bytes_def sint_word_of_c_int)

lemma bytes_int_int_bytes [simp]: "c_int i \<Longrightarrow> bytes_int (int_bytes i) = i"
  using bytes_int_append [of i "[]"] by simp

section \<open>Truncating remainder\<close>

lemma smod_nonneg [simp]: "0 \<le> a \<Longrightarrow> 0 < b \<Longrightarrow> a smod b = a mod (b::int)"
  by (cases "a = 0") (simp_all add: smod_int_alt_def)

lemma sdiv_nonneg [simp]: "0 \<le> a \<Longrightarrow> 0 < b \<Longrightarrow> a sdiv b = a div (b::int)"
  by (cases "a = 0") (simp_all add: signed_divide_int_def)

section \<open>Windows of a ring\<close>

text \<open>
  The \<open>n\<close> elements of a ring that start at index \<open>i\<close>, and the ring with elements written from
  index \<open>e\<close> on: the contents of a circular buffer, however the code splits its copies.
\<close>

definition window :: "'a list \<Rightarrow> nat \<Rightarrow> nat \<Rightarrow> 'a list" where
  "window xs i n = take n (rotate i xs)"

definition ring_write :: "'a list \<Rightarrow> nat \<Rightarrow> 'a list \<Rightarrow> 'a list" where
  "ring_write xs e ys =
     map (\<lambda>p. let j = (p + length xs - e) mod length xs in if j < length ys then ys ! j else xs ! p)
       [0..<length xs]"

lemma length_window [simp]: "n \<le> length xs \<Longrightarrow> length (window xs i n) = n"
  by (simp add: window_def)

lemma length_ring_write [simp]: "length (ring_write xs e ys) = length xs"
  by (simp add: ring_write_def)

lemma nth_window:
  "j < n \<Longrightarrow> n \<le> length xs \<Longrightarrow> window xs i n ! j = xs ! ((i + j) mod length xs)"
  by (simp add: window_def nth_rotate add.commute)

lemma window_simple: "i + n < length xs \<Longrightarrow> window xs i n = take n (drop i xs)"
  by (simp add: window_def rotate_drop_take)

lemma window_wrap:
  "i < length xs \<Longrightarrow> length xs \<le> i + n \<Longrightarrow> n \<le> length xs \<Longrightarrow>
   window xs i n = drop i xs @ take (n - (length xs - i)) xs"
  by (cases "i = 0") (auto simp: window_def rotate_drop_take min_def)

lemma take_window: "m \<le> n \<Longrightarrow> take m (window xs i n) = window xs i m"
  by (simp add: window_def min_def)

lemma window_mod [simp]: "window xs (i mod length xs) n = window xs i n"
  by (simp add: window_def rotate_conv_mod [symmetric])

lemma drop_window:
  assumes "m \<le> n" "n \<le> length xs"
  shows "drop m (window xs i n) = window xs ((i + m) mod length xs) (n - m)"
proof (rule nth_equalityI)
  show "length (drop m (window xs i n)) = length (window xs ((i + m) mod length xs) (n - m))"
    using assms by simp
next
  fix j assume "j < length (drop m (window xs i n))"
  then have "j < n - m" using assms by simp
  then show "drop m (window xs i n) ! j = window xs ((i + m) mod length xs) (n - m) ! j"
    using assms by (simp add: nth_window add.assoc mod_add_left_eq)
qed

lemma ring_write_simple:
  assumes "e + length ys \<le> length xs" "e < length xs"
  shows "take e xs @ ys @ drop (e + length ys) xs = ring_write xs e ys"
proof (rule nth_equalityI)
  show "length (take e xs @ ys @ drop (e + length ys) xs) = length (ring_write xs e ys)"
    using assms by simp
next
  fix p assume "p < length (take e xs @ ys @ drop (e + length ys) xs)"
  then have p: "p < length xs" using assms by simp
  show "(take e xs @ ys @ drop (e + length ys) xs) ! p = ring_write xs e ys ! p"
  proof (cases "p < e")
    case True
    then have "(p + length xs - e) mod length xs = p + length xs - e"
      using p assms by simp
    moreover have "\<not> p + length xs - e < length ys"
      using True p assms by simp
    ultimately show ?thesis using True p assms by (simp add: ring_write_def nth_append Let_def)
  next
    case False
    then have "(p + length xs - e) mod length xs = p - e"
      using p assms by (simp add: mod_if)
    then show ?thesis using False p assms by (auto simp: ring_write_def nth_append Let_def)
  qed
qed

lemma ring_write_wrap:
  assumes "e < length xs" "length xs \<le> e + length ys" "length ys \<le> length xs"
    and k: "k = length xs - e"
  shows "drop k ys @ take (e - (length ys - k)) (drop (length ys - k) xs) @ take k ys = ring_write xs e ys"
proof (rule nth_equalityI)
  show "length (drop k ys @ take (e - (length ys - k)) (drop (length ys - k) xs) @ take k ys)
      = length (ring_write xs e ys)"
    using assms by simp
next
  fix p assume "p < length (drop k ys @ take (e - (length ys - k)) (drop (length ys - k) xs) @ take k ys)"
  then have p: "p < length xs" using assms by simp
  show "(drop k ys @ take (e - (length ys - k)) (drop (length ys - k) xs) @ take k ys) ! p
      = ring_write xs e ys ! p"
  proof (cases "p < e")
    case True
    then have "(p + length xs - e) mod length xs = p + k"
      using p assms by simp
    then show ?thesis using True p assms
      by (auto simp: ring_write_def nth_append Let_def add.commute)
  next
    case False
    then have "(p + length xs - e) mod length xs = p - e"
      using p assms by (simp add: mod_if)
    then show ?thesis using False p assms
      by (auto simp: ring_write_def nth_append Let_def)
  qed
qed

lemma ring_offset:
  fixes i j c k n :: nat
  assumes "i < n" "c + k \<le> n" "j < c + k" "0 < n"
  shows "((i + j) mod n + n - (i + c) mod n) mod n = (if j < c then n + j - c else j - c)"
proof -
  have "((i + j) mod n + n - (i + c) mod n) mod n = (i + j + (n - (i + c) mod n)) mod n"
  proof -
    have "(i + c) mod n \<le> n" using assms(4) by (simp add: less_imp_le)
    then have eq: "(i + j) mod n + n - (i + c) mod n = (i + j) mod n + (n - (i + c) mod n)"
      by (rule Nat.diff_add_assoc)
    show ?thesis unfolding eq by (rule mod_add_left_eq)
  qed
  also have "\<dots> = (if j < c then n + j - c else j - c)"
  proof (cases "j < c")
    case True
    then have eq: "i + j + (n - (i + c) mod n) = (if i + c < n then n + j - c else n + (n + j - c))"
      using assms by (auto simp: mod_if)
    have "(if i + c < n then n + j - c else n + (n + j - c)) mod n = (n + j - c) mod n"
      by (simp only: mod_add_self1 if_distrib [of "\<lambda>x. x mod n"] if_cancel)
    with True assms show ?thesis unfolding eq by simp
  next
    case False
    then have eq: "i + j + (n - (i + c) mod n) =
        (if i + c < n then n + (j - c) else n + (n + (j - c)))"
      using assms by (auto simp: mod_if)
    have "(if i + c < n then n + (j - c) else n + (n + (j - c))) mod n = (j - c) mod n"
      by (simp only: mod_add_self1 if_distrib [of "\<lambda>x. x mod n"] if_cancel)
    moreover have "j - c < n" using False assms by simp
    ultimately show ?thesis using False unfolding eq by simp
  qed
  finally show ?thesis .
qed

text \<open>Writing behind the last element appends to the window.\<close>

lemma window_ring_write:
  assumes "i < length xs" "c + length ys \<le> length xs"
  shows "window (ring_write xs ((i + c) mod length xs) ys) i (c + length ys) = window xs i c @ ys"
proof (rule nth_equalityI)
  show "length (window (ring_write xs ((i + c) mod length xs) ys) i (c + length ys))
      = length (window xs i c @ ys)"
    using assms by simp
next
  fix j assume "j < length (window (ring_write xs ((i + c) mod length xs) ys) i (c + length ys))"
  then have j: "j < c + length ys" using assms by simp
  have n0: "0 < length xs" using assms(1) by (rule le_less_trans [OF le0])
  note off = ring_offset [OF assms(1,2) j n0]
  have p: "(i + j) mod length xs < length xs" using n0 by simp
  show "window (ring_write xs ((i + c) mod length xs) ys) i (c + length ys) ! j = (window xs i c @ ys) ! j"
    using j assms off p by (auto simp: nth_window ring_write_def Let_def nth_append)
qed

section \<open>Numbers as text\<close>

text \<open>\<open>asprintf\<close> with \<open>%d\<close>.\<close>

fun show_nat :: "nat \<Rightarrow> string" where
  "show_nat n = (if n < 10 then [char_of (48 + n)] else show_nat (n div 10) @ [char_of (48 + n mod 10)])"

declare show_nat.simps [simp del]

definition show_int :: "int \<Rightarrow> string" where
  "show_int i = (if i < 0 then ''-'' @ show_nat (nat (- i)) else show_nat (nat i))"

lemma show_nat_chars: "c \<in> set (show_nat n) \<Longrightarrow> 48 \<le> (of_char c :: nat)"
proof (induction n rule: show_nat.induct)
  case (1 n)
  then show ?case by (subst (asm) (2) show_nat.simps) (auto split: if_splits)
qed

lemma show_int_chars: "c \<in> set (show_int i) \<Longrightarrow> c = CHR ''-'' \<or> 48 \<le> (of_char c :: nat)"
  using show_nat_chars by (auto simp: show_int_def split: if_splits)

text \<open>The characters of a text as the bytes of a block.\<close>

definition text_bytes :: "string \<Rightarrow> byte list" where
  "text_bytes t = map (\<lambda>c. word_of_int (of_char c)) t"

lemma length_text_bytes [simp]: "length (text_bytes t) = length t"
  by (simp add: text_bytes_def)

lemma char_byte [simp]: "char_of (unat (word_of_int (of_char c) :: byte)) = (c :: char)"
proof -
  have "(of_char c :: int) = int (of_char c :: nat)" by (simp add: of_char_def of_bool_def)
  then have "(word_of_int (of_char c) :: byte) = of_nat (of_char c)" by (simp only: of_int_of_nat_eq)
  moreover have "(of_char c :: nat) mod 256 = of_char c" by simp
  ultimately show ?thesis by (simp add: unat_of_nat)
qed

end
