(* ===== verification/Posix.thy ===== *)
theory Posix
  imports Prelude
begin

text \<open>
  The operating system as the programs see it. A run is the \<open>history\<close> of the system calls made
  so far, oldest first, each with its arguments and its result. What a call returns is decided by
  the \<open>posix\<close> parameter, an arbitrary function of the history and the arguments: kernel,
  replicas, other voters and faults are all behind it, and a theorem about every \<open>posix\<close> holds
  whatever they do. The few guarantees of the calls themselves are built in: \<open>read\<close> delivers at
  most as many bytes as were asked for, \<open>write\<close> reports \<open>-1\<close> or at most the bytes it was given,
  \<open>select\<close> reports descriptors of the set it was given and leaves the set alone when it fails.
  A call that never returns is not modelled: \<open>posix\<close> always answers. \<open>SysCall\<close> stands for the calls
  of process set-up (\<open>socket\<close>, \<open>bind\<close>, \<open>mlockall\<close>, \<open>sigaction\<close> and the like), named, with their
  integer and string arguments. \<open>stray_word\<close> is what a program finds in memory it does not own.
\<close>

datatype event =
    SysRead int int "byte list option"
  | SysWrite int "byte list" int
  | SysClose int
  | SysPipe "(int \<times> int) option"
  | SysSelect "int list" int "int list option"
  | SysKill int int int
  | SysWaitpid int
  | SysForkExec "string list" int
  | SysSetscheduler int int int int
  | SysSetpriority int int int
  | SysTimestamp timestamp
  | SysAccept int int
  | SysSendmsg int "byte list" "int list" int
  | SysRecvmsg int "(byte list \<times> int list) option"
  | SysCall string "int list" string int

type_synonym history = "event list"

record posix =
  on_read :: "history \<Rightarrow> int \<Rightarrow> int \<Rightarrow> byte list option"
  on_write :: "history \<Rightarrow> int \<Rightarrow> byte list \<Rightarrow> int"
  on_pipe :: "history \<Rightarrow> (int \<times> int) option"
  on_select :: "history \<Rightarrow> int list \<Rightarrow> int \<Rightarrow> int list option"
  on_kill :: "history \<Rightarrow> int \<Rightarrow> int \<Rightarrow> int"
  on_waitpid :: "history \<Rightarrow> int"
  on_fork_exec :: "history \<Rightarrow> string list \<Rightarrow> int"
  on_setscheduler :: "history \<Rightarrow> int \<Rightarrow> int \<Rightarrow> int \<Rightarrow> int"
  on_setpriority :: "history \<Rightarrow> int \<Rightarrow> int \<Rightarrow> int"
  on_timestamp :: "history \<Rightarrow> timestamp"
  on_accept :: "history \<Rightarrow> int \<Rightarrow> int"
  on_sendmsg :: "history \<Rightarrow> int \<Rightarrow> byte list \<Rightarrow> int list \<Rightarrow> int"
  on_recvmsg :: "history \<Rightarrow> int \<Rightarrow> int \<Rightarrow> (byte list \<times> int list) option"
  on_call :: "history \<Rightarrow> string \<Rightarrow> int list \<Rightarrow> string \<Rightarrow> int"
  rr_priority_max :: int
  stray_word :: "history \<Rightarrow> int \<Rightarrow> int"

section \<open>Descriptors\<close>

text \<open>\<open>read\<close>: the return value, the bytes stored, and the new history.\<close>

definition sys_read :: "posix \<Rightarrow> int \<Rightarrow> int \<Rightarrow> history \<Rightarrow> int \<times> byte list \<times> history" where
  "sys_read K fd n h =
     (case on_read K h fd n of
        None \<Rightarrow> (-1, [], h @ [SysRead fd n None])
      | Some bs \<Rightarrow> let ds = take (nat n) bs
                  in (int (length ds), ds, h @ [SysRead fd n (Some ds)]))"

definition sys_write :: "posix \<Rightarrow> int \<Rightarrow> byte list \<Rightarrow> history \<Rightarrow> int \<times> history" where
  "sys_write K fd bs h =
     (let r = max (-1) (min (int (length bs)) (on_write K h fd bs))
      in (r, h @ [SysWrite fd bs r]))"

definition sys_close :: "int \<Rightarrow> history \<Rightarrow> history" where
  "sys_close fd h = h @ [SysClose fd]"

text \<open>\<open>pipe\<close>: \<open>None\<close> when it fails, otherwise the read end and the write end.\<close>

definition sys_pipe :: "posix \<Rightarrow> history \<Rightarrow> (int \<times> int) option \<times> history" where
  "sys_pipe K h = (on_pipe K h, h @ [SysPipe (on_pipe K h)])"

text \<open>\<open>select\<close> on a read set: the return value, the set afterwards, the new history.\<close>

definition sys_select :: "posix \<Rightarrow> int list \<Rightarrow> int \<Rightarrow> history \<Rightarrow> int \<times> int list \<times> history" where
  "sys_select K fds usec h =
     (case on_select K h fds usec of
        None \<Rightarrow> (-1, fds, h @ [SysSelect fds usec None])
      | Some ready \<Rightarrow> let rs = filter (\<lambda>fd. fd \<in> set ready) (remdups fds)
                     in (int (length rs), rs, h @ [SysSelect fds usec (Some rs)]))"

section \<open>Processes, scheduling, time, sockets\<close>

definition SIGKILL :: int where "SIGKILL = 9"
definition RESTART_SIGNAL :: int where "RESTART_SIGNAL = 36"
definition SCHED_OTHER :: int where "SCHED_OTHER = 0"
definition SCHED_RR :: int where "SCHED_RR = 2"

definition sys_kill :: "posix \<Rightarrow> int \<Rightarrow> int \<Rightarrow> history \<Rightarrow> int \<times> history" where
  "sys_kill K pid sig h = (let r = on_kill K h pid sig in (r, h @ [SysKill pid sig r]))"

definition sys_waitpid :: "posix \<Rightarrow> history \<Rightarrow> int \<times> history" where
  "sys_waitpid K h = (let r = on_waitpid K h in (r, h @ [SysWaitpid r]))"

text \<open>\<open>fork\<close> followed by \<open>execv\<close> in the child, as the parent sees it.\<close>

definition sys_fork_exec :: "posix \<Rightarrow> string list \<Rightarrow> history \<Rightarrow> int \<times> history" where
  "sys_fork_exec K argv h = (let r = on_fork_exec K h argv in (r, h @ [SysForkExec argv r]))"

definition sys_setscheduler :: "posix \<Rightarrow> int \<Rightarrow> int \<Rightarrow> int \<Rightarrow> history \<Rightarrow> int \<times> history" where
  "sys_setscheduler K pid policy prio h =
     (let r = on_setscheduler K h pid policy prio in (r, h @ [SysSetscheduler pid policy prio r]))"

definition sys_setpriority :: "posix \<Rightarrow> int \<Rightarrow> int \<Rightarrow> history \<Rightarrow> int \<times> history" where
  "sys_setpriority K pid nice h =
     (let r = on_setpriority K h pid nice in (r, h @ [SysSetpriority pid nice r]))"

definition sys_timestamp :: "posix \<Rightarrow> history \<Rightarrow> timestamp \<times> history" where
  "sys_timestamp K h = (on_timestamp K h, h @ [SysTimestamp (on_timestamp K h)])"

definition sys_accept :: "posix \<Rightarrow> int \<Rightarrow> history \<Rightarrow> int \<times> history" where
  "sys_accept K sock h = (let r = on_accept K h sock in (r, h @ [SysAccept sock r]))"

text \<open>\<open>sendmsg\<close>: the gathered bytes and the descriptors passed out of band.\<close>

definition sys_sendmsg :: "posix \<Rightarrow> int \<Rightarrow> byte list \<Rightarrow> int list \<Rightarrow> history \<Rightarrow> int \<times> history" where
  "sys_sendmsg K conn bs fds h =
     (let r = on_sendmsg K h conn bs fds in (r, h @ [SysSendmsg conn bs fds r]))"

text \<open>\<open>recvmsg\<close>: the return value, at most \<open>n\<close> bytes, and the descriptors that came with them.\<close>

definition sys_recvmsg :: "posix \<Rightarrow> int \<Rightarrow> int \<Rightarrow> history \<Rightarrow> int \<times> byte list \<times> int list \<times> history" where
  "sys_recvmsg K sock n h =
     (case on_recvmsg K h sock n of
        None \<Rightarrow> (-1, [], [], h @ [SysRecvmsg sock None])
      | Some (bs, fds) \<Rightarrow> let ds = take (nat n) bs
                         in (int (length ds), ds, fds, h @ [SysRecvmsg sock (Some (ds, fds))]))"

definition sys_call :: "posix \<Rightarrow> string \<Rightarrow> int list \<Rightarrow> string \<Rightarrow> history \<Rightarrow> int \<times> history" where
  "sys_call K name args str h =
     (let r = on_call K h name args str in (r, h @ [SysCall name args str r]))"

section \<open>Reading a history\<close>

text \<open>
  The buffers handed to \<open>write\<close> on a descriptor, the descriptors closed, the processes killed:
  what other processes can observe of a run.
\<close>

fun written_to :: "int \<Rightarrow> history \<Rightarrow> byte list list" where
  "written_to fd [] = []"
| "written_to fd (SysWrite fd' bs r # es) =
     (if fd = fd' then bs # written_to fd es else written_to fd es)"
| "written_to fd (_ # es) = written_to fd es"

fun killed :: "int \<Rightarrow> history \<Rightarrow> int list" where
  "killed sig [] = []"
| "killed sig (SysKill pid sig' r # es) =
     (if sig = sig' then pid # killed sig es else killed sig es)"
| "killed sig (_ # es) = killed sig es"

fun writes :: "history \<Rightarrow> (int \<times> byte list) list" where
  "writes [] = []"
| "writes (SysWrite fd bs r # es) = (fd, bs) # writes es"
| "writes (_ # es) = writes es"

lemma writes_append [simp]: "writes (h @ h') = writes h @ writes h'"
  by (induction h rule: writes.induct) auto

lemma written_to_writes: "written_to fd h = map snd (filter (\<lambda>w. fst w = fd) (writes h))"
  by (induction fd h rule: written_to.induct) auto

fun is_write :: "event \<Rightarrow> bool" where
  "is_write (SysWrite _ _ _) = True"
| "is_write _ = False"

lemma written_to_append [simp]: "written_to fd (h @ h') = written_to fd h @ written_to fd h'"
  by (induction fd h rule: written_to.induct) auto

lemma killed_append [simp]: "killed sig (h @ h') = killed sig h @ killed sig h'"
  by (induction sig h rule: killed.induct) auto

lemma written_to_no_write: "\<forall>e \<in> set es. \<not> is_write e \<Longrightarrow> written_to fd es = []"
  by (induction fd es rule: written_to.induct) auto

text \<open>A silent call neither writes nor signals.\<close>

fun is_silent :: "event \<Rightarrow> bool" where
  "is_silent (SysWrite _ _ _) = False"
| "is_silent (SysKill _ _ _) = False"
| "is_silent _ = True"

lemma silent_hist [simp]: "list_all is_silent es \<Longrightarrow> written_to fd es = []"
  "list_all is_silent es \<Longrightarrow> killed sig es = []"
  "list_all is_silent es \<Longrightarrow> writes es = []"
proof -
  show "list_all is_silent es \<Longrightarrow> writes es = []"
    by (induction es rule: writes.induct) auto
  show "list_all is_silent es \<Longrightarrow> written_to fd es = []"
    by (induction fd es rule: written_to.induct) auto
  show "list_all is_silent es \<Longrightarrow> killed sig es = []"
    by (induction sig es rule: killed.induct) auto
qed

definition silently :: "history \<Rightarrow> history \<Rightarrow> bool" where
  "silently h h' \<longleftrightarrow> (\<exists>es. h' = h @ es \<and> list_all is_silent es)"

lemma silently_refl [simp, intro]: "silently h h"
  by (auto simp: silently_def)

lemma silently_trans [trans]: "silently a b \<Longrightarrow> silently b c \<Longrightarrow> silently a c"
  by (auto simp: silently_def)

lemma silently_append [simp]: "silently h (h @ es) \<longleftrightarrow> list_all is_silent es"
  by (simp add: silently_def)

lemma silently_written: "silently h h' \<Longrightarrow> written_to fd h' = written_to fd h"
  and silently_killed: "silently h h' \<Longrightarrow> killed sig h' = killed sig h"
  and silently_writes: "silently h h' \<Longrightarrow> writes h' = writes h"
  by (auto simp: silently_def)

lemma sys_silent [intro]:
  "sys_read K fd n h = (r, bs, h') \<Longrightarrow> silently h h'"
  "sys_pipe K h = (p, h') \<Longrightarrow> silently h h'"
  "sys_select K fds t h = (r, rs, h') \<Longrightarrow> silently h h'"
  "sys_waitpid K h = (r, h') \<Longrightarrow> silently h h'"
  "sys_fork_exec K argv h = (r, h') \<Longrightarrow> silently h h'"
  "sys_timestamp K h = (ts, h') \<Longrightarrow> silently h h'"
  "sys_accept K s h = (r, h') \<Longrightarrow> silently h h'"
  "sys_sendmsg K s b fs h = (r, h') \<Longrightarrow> silently h h'"
  "sys_call K name args str h = (r, h') \<Longrightarrow> silently h h'"
  "silently h (sys_close fd h)"
  by (auto simp: sys_read_def sys_pipe_def sys_select_def sys_waitpid_def sys_fork_exec_def
      sys_timestamp_def sys_accept_def sys_sendmsg_def sys_call_def sys_close_def Let_def split: option.splits)

lemma sys_kill_hist [simp]:
  "killed sig (snd (sys_kill K pid s h)) = killed sig h @ (if sig = s then [pid] else [])"
  "written_to fd (snd (sys_kill K pid s h)) = written_to fd h"
  "writes (snd (sys_kill K pid s h)) = writes h"
  by (simp_all add: sys_kill_def Let_def)

text \<open>The shape of a call's outcome, for case analysis in the components.\<close>

lemma sys_read_cases:
  assumes "sys_read K fd n h = (r, bs, h')"
  obtains (error) "r = -1" "bs = []" "h' = h @ [SysRead fd n None]"
  | (bytes) "r = int (length bs)" "length bs \<le> nat n" "h' = h @ [SysRead fd n (Some bs)]"
  using assms by (auto simp: sys_read_def Let_def split: option.splits)

lemma sys_read_length: "sys_read K fd n h = (r, bs, h') \<Longrightarrow> 0 \<le> r \<Longrightarrow> int (length bs) = r"
  by (auto elim: sys_read_cases)

lemma sys_read_bound: "sys_read K fd n h = (r, bs, h') \<Longrightarrow> 0 \<le> n \<Longrightarrow> -1 \<le> r \<and> r \<le> n"
  by (auto elim!: sys_read_cases)

lemma sys_write_hist: "snd (sys_write K fd bs h) = h @ [SysWrite fd bs (fst (sys_write K fd bs h))]"
  by (simp add: sys_write_def Let_def)

lemma sys_write_views [simp]:
  "writes (snd (sys_write K fd bs h)) = writes h @ [(fd, bs)]"
  "killed sig (snd (sys_write K fd bs h)) = killed sig h"
  by (simp_all add: sys_write_hist)

lemma sys_write_bound: "-1 \<le> fst (sys_write K fd bs h) \<and> fst (sys_write K fd bs h) \<le> int (length bs)"
  by (simp add: sys_write_def Let_def)

lemma sys_select_subset: "sys_select K fds usec h = (r, rs, h') \<Longrightarrow> set rs \<subseteq> set fds"
  by (auto simp: sys_select_def Let_def split: option.splits)

lemma sys_select_timeout: "sys_select K fds usec h = (0, rs, h') \<Longrightarrow> rs = []"
  by (auto simp: sys_select_def Let_def split: option.splits)

fun read_bytes :: "history \<Rightarrow> byte list" where
  "read_bytes [] = []"
| "read_bytes (SysRead fd n (Some bs) # es) = bs @ read_bytes es"
| "read_bytes (_ # es) = read_bytes es"

section \<open>A concrete system\<close>

text \<open>
  A system in which every read fails, every write is complete and nothing else is refused; the
  witnesses change single answers of it.
\<close>

definition quiet :: posix where
  "quiet = \<lparr>on_read = (\<lambda>h fd n. None), on_write = (\<lambda>h fd bs. int (length bs)),
     on_pipe = (\<lambda>h. Some (int (length h) + 3, int (length h) + 4)), on_select = (\<lambda>h fds t. Some []),
     on_kill = (\<lambda>h pid sig. 0), on_waitpid = (\<lambda>h. 0), on_fork_exec = (\<lambda>h argv. 100),
     on_setscheduler = (\<lambda>h pid pol prio. 0), on_setpriority = (\<lambda>h pid nice. 0),
     on_timestamp = (\<lambda>h. 0), on_accept = (\<lambda>h sock. 50), on_sendmsg = (\<lambda>h conn bs fds. int (length bs)),
     on_recvmsg = (\<lambda>h sock n. None), on_call = (\<lambda>h name args str. 0), rr_priority_max = 99,
     stray_word = (\<lambda>h i. 0)\<rparr>"

end
