(* ===== verification/VoteBuff.thy ===== *)
theory VoteBuff
  imports Posix
begin

text \<open>
  \<open>include/vote_buff.h\<close> and \<open>voter/vote_buff.c\<close>: the voter's end of a replica's pipe, a circular
  buffer of \<open>MAX_VOTE_PIPE_BUFF\<close> bytes filled from the pipe by \<open>pipeToBuff\<close> and emptied towards
  an external descriptor by \<open>buffToPipe\<close>. The abstract view of a pipe is its \<open>content\<close>, the bytes
  waiting to be voted on; every operation is a queue operation on it.
\<close>

section \<open>Replication types\<close>

datatype replication_t = NONE | SMR | DMR | TMR | REP_TYPE_ERROR

definition reptypeToEnum :: "string \<Rightarrow> replication_t" where
  "reptypeToEnum type =
     (if type = ''NONE'' then NONE
      else if type = ''SMR'' then SMR
      else if type = ''DMR'' then DMR
      else if type = ''TMR'' then TMR
      else REP_TYPE_ERROR)"

fun reptypeToCount :: "replication_t \<Rightarrow> int" where
  "reptypeToCount SMR = 1"
| "reptypeToCount DMR = 2"
| "reptypeToCount TMR = 3"
| "reptypeToCount _ = 0"

text \<open>The table of names that the header keeps beside the enumeration.\<close>

fun REP_TYPE_T :: "replication_t \<Rightarrow> string" where
  "REP_TYPE_T NONE = ''NONE''"
| "REP_TYPE_T SMR = ''SMR''"
| "REP_TYPE_T DMR = ''DMR''"
| "REP_TYPE_T TMR = ''TMR''"
| "REP_TYPE_T REP_TYPE_ERROR = ''REP_TYPE_ERROR''"

section \<open>Vote pipes\<close>

definition MAX_VOTE_PIPE_BUFF :: int where
  "MAX_VOTE_PIPE_BUFF = 4096"

record vote_pipe =
  rep_info :: string
  fd_in :: int
  fd_out :: int
  timed :: int
  buff_count :: int
  buff_index :: int
  buffer :: "byte list"

definition resetVotePipe :: "vote_pipe \<Rightarrow> history \<Rightarrow> vote_pipe \<times> history" where
  "resetVotePipe vp h =
     (let h1 = (if fd_in vp \<noteq> 0 then sys_close (fd_in vp) h else h);
          vp1 = (if fd_in vp \<noteq> 0 then vp\<lparr>fd_in := 0\<rparr> else vp);
          h2 = (if fd_out vp1 \<noteq> 0 then sys_close (fd_out vp1) h1 else h1);
          vp2 = (if fd_out vp1 \<noteq> 0 then vp1\<lparr>fd_out := 0\<rparr> else vp1)
      in (vp2\<lparr>buff_count := 0, buff_index := 0\<rparr>, h2))"

definition pipeToBuff :: "posix \<Rightarrow> vote_pipe \<Rightarrow> history \<Rightarrow> (int \<times> vote_pipe \<times> history) option" where
  "pipeToBuff K vp h =
     (let (read_count, temp_buffer, h') = sys_read K (fd_in vp) MAX_VOTE_PIPE_BUFF h
      in if read_count > 0 then
           if read_count < MAX_VOTE_PIPE_BUFF - buff_count vp then
             let end_index = (buff_index vp + buff_count vp) smod MAX_VOTE_PIPE_BUFF
             in do {
               buf \<leftarrow>
                 (if end_index > (end_index + read_count) smod MAX_VOTE_PIPE_BUFF then
                    let part_read = read_count - (end_index + read_count) smod MAX_VOTE_PIPE_BUFF
                    in do {
                      b \<leftarrow> memcpy (buffer vp) end_index temp_buffer 0 part_read;
                      memcpy b 0 temp_buffer part_read (read_count - part_read)
                    }
                  else memcpy (buffer vp) end_index temp_buffer 0 read_count);
               Some (0, vp\<lparr>buffer := buf, buff_count := buff_count vp + read_count\<rparr>, h')
             }
           else Some (-1, vp, h')
         else Some (-1, vp, h'))"

text \<open>\<open>copyBuffer\<close> fills the caller's \<open>dst\<close> block, which it returns updated.\<close>

definition copyBuffer :: "vote_pipe \<Rightarrow> byte list \<Rightarrow> int \<Rightarrow> byte list option" where
  "copyBuffer vp dst n =
     (if buff_index vp + n < MAX_VOTE_PIPE_BUFF then
        memcpy dst 0 (buffer vp) (buff_index vp) n
      else
        let part_write = MAX_VOTE_PIPE_BUFF - buff_index vp
        in do {
          d \<leftarrow> memcpy dst 0 (buffer vp) (buff_index vp) part_write;
          memcpy d part_write (buffer vp) 0 (n - part_write)
        })"

definition fakeToPipe :: "vote_pipe \<Rightarrow> int \<Rightarrow> vote_pipe" where
  "fakeToPipe vp n =
     vp\<lparr>buff_index := (buff_index vp + n) smod MAX_VOTE_PIPE_BUFF,
        buff_count := buff_count vp - n\<rparr>"

text \<open>The temporary block of the second branch is \<open>n\<close> bytes of indeterminate content.\<close>

definition buffToPipe :: "posix \<Rightarrow> vote_pipe \<Rightarrow> int \<Rightarrow> int \<Rightarrow> history \<Rightarrow> (int \<times> vote_pipe \<times> history) option" where
  "buffToPipe K vp fd n h =
     (if n > buff_count vp then Some (-1, vp, h)
      else if buff_index vp + n < MAX_VOTE_PIPE_BUFF then
        do {
          bs \<leftarrow> mem_read (buffer vp) (buff_index vp) n;
          Some (0, fakeToPipe vp n, snd (sys_write K fd bs h))
        }
      else
        let part_write = MAX_VOTE_PIPE_BUFF - buff_index vp
        in do {
          t1 \<leftarrow> memcpy (replicate (nat n) 0) 0 (buffer vp) (buff_index vp) part_write;
          t2 \<leftarrow> memcpy t1 part_write (buffer vp) 0 (n - part_write);
          Some (0, fakeToPipe vp n, snd (sys_write K fd t2 h))
        })"

definition compareBuffs :: "vote_pipe \<Rightarrow> vote_pipe \<Rightarrow> int \<Rightarrow> int option" where
  "compareBuffs pipeA pipeB n =
     (if buff_index pipeA \<noteq> buff_index pipeB then Some (-1)
      else if buff_index pipeA + n < MAX_VOTE_PIPE_BUFF then
        memcmp (buffer pipeA) (buff_index pipeA) (buffer pipeB) (buff_index pipeB) n
      else
        let part_cmp = MAX_VOTE_PIPE_BUFF - buff_index pipeA
        in do {
          result \<leftarrow> memcmp (buffer pipeA) (buff_index pipeA) (buffer pipeB) (buff_index pipeB) part_cmp;
          if result \<noteq> 0 then Some result
          else memcmp (buffer pipeA) 0 (buffer pipeB) 0 (n - part_cmp)
        })"

definition copyPipe :: "vote_pipe \<Rightarrow> vote_pipe \<Rightarrow> vote_pipe option" where
  "copyPipe dest src =
     (let d = dest\<lparr>buff_count := buff_count src, buff_index := buff_index src\<rparr>
      in if buff_index src + buff_count src < MAX_VOTE_PIPE_BUFF then
           do {
             b \<leftarrow> memcpy (buffer d) (buff_index d) (buffer src) (buff_index src) (buff_count src);
             Some (d\<lparr>buffer := b\<rparr>)
           }
         else
           let part_cpy = MAX_VOTE_PIPE_BUFF - buff_index src
           in do {
             b \<leftarrow> memcpy (buffer d) (buff_index d) (buffer src) (buff_index src) part_cpy;
             b' \<leftarrow> memcpy b 0 (buffer src) 0 (buff_count src - part_cpy);
             Some (d\<lparr>buffer := b'\<rparr>)
           })"

section \<open>Well-formed pipes and their content\<close>

definition wf_pipe :: "vote_pipe \<Rightarrow> bool" where
  "wf_pipe vp \<longleftrightarrow> length (buffer vp) = nat MAX_VOTE_PIPE_BUFF
     \<and> 0 \<le> buff_index vp \<and> buff_index vp < MAX_VOTE_PIPE_BUFF
     \<and> 0 \<le> buff_count vp \<and> buff_count vp < MAX_VOTE_PIPE_BUFF"

definition content :: "vote_pipe \<Rightarrow> byte list" where
  "content vp = window (buffer vp) (nat (buff_index vp)) (nat (buff_count vp))"

lemma wf_pipeE:
  assumes "wf_pipe vp"
  obtains i c where "buff_index vp = int i" "i < 4096" "buff_count vp = int c" "c < 4096"
    "length (buffer vp) = 4096"
proof
  show "buff_index vp = int (nat (buff_index vp))" "nat (buff_index vp) < 4096"
    "buff_count vp = int (nat (buff_count vp))" "nat (buff_count vp) < 4096"
    "length (buffer vp) = 4096"
    using assms by (simp_all add: wf_pipe_def MAX_VOTE_PIPE_BUFF_def nat_less_iff)
qed

lemma length_content [simp]: "wf_pipe vp \<Longrightarrow> length (content vp) = nat (buff_count vp)"
  by (erule wf_pipeE) (simp add: content_def)

text \<open>Updates that do not concern the ring.\<close>

lemma wf_pipe_ends [simp]:
  "wf_pipe (vp\<lparr>fd_in := a\<rparr>) = wf_pipe vp" "wf_pipe (vp\<lparr>fd_out := a\<rparr>) = wf_pipe vp"
  "wf_pipe (vp\<lparr>rep_info := b\<rparr>) = wf_pipe vp" "wf_pipe (vp\<lparr>timed := a\<rparr>) = wf_pipe vp"
  by (simp_all add: wf_pipe_def)

lemma content_ends [simp]:
  "content (vp\<lparr>fd_in := a\<rparr>) = content vp" "content (vp\<lparr>fd_out := a\<rparr>) = content vp"
  "content (vp\<lparr>rep_info := b\<rparr>) = content vp" "content (vp\<lparr>timed := a\<rparr>) = content vp"
  by (simp_all add: content_def)

subsection \<open>The two copies of the code are one access to the ring\<close>

lemma ring_memcpy_simple:
  assumes "e < length b" "e + length bs \<le> length b"
  shows "memcpy b (int e) bs 0 (int (length bs)) = Some (ring_write b e bs)"
  using assms by (simp add: memcpy_in ring_write_simple)

lemma ring_memcpy_wrap:
  assumes "e < length b" "length b \<le> e + length bs" "length bs \<le> length b" "k = length b - e"
  shows "do { b' \<leftarrow> memcpy b (int e) bs 0 (int k); memcpy b' 0 bs (int k) (int (length bs - k)) }
    = Some (ring_write b e bs)"
proof -
  have "memcpy b (int e) bs 0 (int k) = Some (take e b @ take k bs)"
    using assms memcpy_nat [of 0 k bs e b] by simp
  moreover have "memcpy (take e b @ take k bs) 0 bs (int k) (int (length bs - k)) =
      Some (drop k bs @ take (e - (length bs - k)) (drop (length bs - k) b) @ take k bs)"
    using assms memcpy_nat [of k "length bs - k" bs 0 "take e b @ take k bs"]
    by (simp add: drop_take)
  ultimately show ?thesis
    using ring_write_wrap [OF assms] by simp
qed

text \<open>One equation for both branches of \<open>pipeToBuff\<close>.\<close>

lemma pipeToBuff_eq:
  assumes wf: "wf_pipe vp" and rd: "sys_read K (fd_in vp) MAX_VOTE_PIPE_BUFF h = (r, bs, h')"
  shows "pipeToBuff K vp h =
    (if 0 < r \<and> r < MAX_VOTE_PIPE_BUFF - buff_count vp
     then Some (0, vp\<lparr>buffer := ring_write (buffer vp)
                    ((nat (buff_index vp) + nat (buff_count vp)) mod 4096) bs,
                    buff_count := buff_count vp + r\<rparr>, h')
     else Some (-1, vp, h'))"
proof (cases "0 < r \<and> r < MAX_VOTE_PIPE_BUFF - buff_count vp")
  case False
  then show ?thesis using rd by (auto simp: pipeToBuff_def)
next
  case True
  from wf obtain i c where ic: "buff_index vp = int i" "i < 4096" "buff_count vp = int c" "c < 4096"
    and buf: "length (buffer vp) = 4096" by (rule wf_pipeE)
  define e where "e = (i + c) mod 4096"
  have r: "r = int (length bs)" "0 < length bs" "length bs + c < 4096"
    using sys_read_length [OF rd] True ic by (auto simp: MAX_VOTE_PIPE_BUFF_def)
  have e: "e < 4096" "(int i + int c) smod MAX_VOTE_PIPE_BUFF = int e"
    by (simp_all add: e_def MAX_VOTE_PIPE_BUFF_def zmod_int)
  show ?thesis
  proof (cases "e + length bs < 4096")
    case nowrap: True
    then have "(int e + r) smod MAX_VOTE_PIPE_BUFF = int e + r"
      using r by (simp add: MAX_VOTE_PIPE_BUFF_def)
    moreover have "memcpy (buffer vp) (int e) bs 0 r = Some (ring_write (buffer vp) e bs)"
      unfolding r(1) using nowrap e(1) buf by (intro ring_memcpy_simple) auto
    ultimately show ?thesis
      using True unfolding pipeToBuff_def rd Let_def prod.case ic e e_def [symmetric] nat_int
      by (simp add: r(1))
  next
    case wrap: False
    define k where "k = 4096 - e"
    have "(e + length bs) mod 4096 = length bs - k"
      using wrap e(1) r(3) by (simp add: le_mod_geq k_def)
    then have "int (e + length bs) mod 4096 = int (length bs - k)"
      by (metis of_nat_mod of_nat_numeral)
    then have m: "(int e + r) smod MAX_VOTE_PIPE_BUFF = int (length bs - k)"
      by (simp add: r(1) MAX_VOTE_PIPE_BUFF_def)
    have "k \<le> length bs" "length bs - k < e"
      using wrap e(1) r by (auto simp: k_def)
    then have k: "r - int (length bs - k) = int k" "r - int k = int (length bs - k)"
      "int (length bs - k) < int e"
      using r(1) by auto
    have "do { b' \<leftarrow> memcpy (buffer vp) (int e) bs 0 (int k); memcpy b' 0 bs (int k) (int (length bs - k)) }
      = Some (ring_write (buffer vp) e bs)"
      using wrap e(1) r buf by (intro ring_memcpy_wrap) (auto simp: k_def)
    then obtain b where "memcpy (buffer vp) (int e) bs 0 (int k) = Some b"
      "memcpy b 0 bs (int k) (int (length bs - k)) = Some (ring_write (buffer vp) e bs)"
      by (auto simp: Option.bind_eq_Some_conv)
    then show ?thesis
      using True k(3) unfolding pipeToBuff_def rd Let_def prod.case ic e m k(1,2) e_def [symmetric] nat_int
      by simp
  qed
qed

text \<open>
  Filling: either the pipe's bytes are appended to the content, or (nothing read, an error, or no
  room) the ring is left as it was and the call reports \<open>-1\<close>.
\<close>

lemma pipeToBuff_cases:
  assumes wf: "wf_pipe vp" and rd: "sys_read K (fd_in vp) MAX_VOTE_PIPE_BUFF h = (r, bs, h')"
  obtains (room) vp' where "pipeToBuff K vp h = Some (0, vp', h')" "wf_pipe vp'"
      "content vp' = content vp @ bs" "0 < r" "r < MAX_VOTE_PIPE_BUFF - buff_count vp"
      "buff_count vp' = buff_count vp + r" "buff_index vp' = buff_index vp"
      "fd_in vp' = fd_in vp" "fd_out vp' = fd_out vp" "rep_info vp' = rep_info vp"
  | (none) "pipeToBuff K vp h = Some (-1, vp, h')"
      "r \<le> 0 \<or> MAX_VOTE_PIPE_BUFF - buff_count vp \<le> r"
proof (cases "0 < r \<and> r < MAX_VOTE_PIPE_BUFF - buff_count vp")
  case False
  then show ?thesis using none pipeToBuff_eq [OF assms] by auto
next
  case True
  from wf obtain i c where ic: "buff_index vp = int i" "i < 4096" "buff_count vp = int c" "c < 4096"
    and buf: "length (buffer vp) = 4096" by (rule wf_pipeE)
  have r: "r = int (length bs)" "c + length bs < 4096"
    using sys_read_length [OF rd] True ic by (auto simp: MAX_VOTE_PIPE_BUFF_def)
  let ?vp = "vp\<lparr>buffer := ring_write (buffer vp) ((i + c) mod 4096) bs, buff_count := buff_count vp + r\<rparr>"
  have "wf_pipe ?vp"
    using ic buf r by (simp add: wf_pipe_def MAX_VOTE_PIPE_BUFF_def)
  moreover have "content ?vp = content vp @ bs"
    using window_ring_write [of i "buffer vp" c bs] ic buf r
    by (simp add: content_def nat_add_distrib)
  ultimately show ?thesis
    using room [of ?vp] pipeToBuff_eq [OF assms] True ic by simp
qed

lemma fakeToPipe_wf [wf_intros]:
  "wf_pipe vp \<Longrightarrow> 0 \<le> n \<Longrightarrow> n \<le> buff_count vp \<Longrightarrow> wf_pipe (fakeToPipe vp n)"
  by (simp add: wf_pipe_def fakeToPipe_def MAX_VOTE_PIPE_BUFF_def)

lemma fakeToPipe_content:
  assumes "wf_pipe vp" "0 \<le> n" "n \<le> buff_count vp"
  shows "content (fakeToPipe vp n) = drop (nat n) (content vp)"
proof -
  from assms(1) obtain i c where ic: "buff_index vp = int i" "i < 4096" "buff_count vp = int c" "c < 4096"
    and buf: "length (buffer vp) = 4096" by (rule wf_pipeE)
  from assms(2,3) ic(3) obtain m where m: "n = int m" "m \<le> c"
    by (metis nat_0_le of_nat_le_iff)
  have "nat ((int i + int m) mod 4096) = (i + m) mod 4096"
    by (simp add: nat_mod_distrib nat_add_distrib)
  moreover have "nat (int c - int m) = c - m" by simp
  ultimately show ?thesis
    using ic buf m drop_window [of m c "buffer vp" i]
    by (simp add: content_def fakeToPipe_def MAX_VOTE_PIPE_BUFF_def)
qed

lemma fakeToPipe_fields [simp]:
  "fd_in (fakeToPipe vp n) = fd_in vp" "fd_out (fakeToPipe vp n) = fd_out vp"
  "rep_info (fakeToPipe vp n) = rep_info vp" "timed (fakeToPipe vp n) = timed vp"
  "buffer (fakeToPipe vp n) = buffer vp"
  "buff_count (fakeToPipe vp n) = buff_count vp - n"
  "buff_index (fakeToPipe vp n) = (buff_index vp + n) smod MAX_VOTE_PIPE_BUFF"
  by (simp_all add: fakeToPipe_def)

text \<open>
  Draining: the first \<open>n\<close> bytes of the content go to \<open>write\<close> in one call, whatever that call
  reports, and leave the ring.
\<close>

lemma buffToPipe_eq:
  assumes wf: "wf_pipe vp" and n: "0 \<le> n" "n \<le> buff_count vp"
  shows "buffToPipe K vp fd n h =
    Some (0, fakeToPipe vp n, snd (sys_write K fd (take (nat n) (content vp)) h))"
proof -
  from wf obtain i c where ic: "buff_index vp = int i" "i < 4096" "buff_count vp = int c" "c < 4096"
    and buf: "length (buffer vp) = 4096" by (rule wf_pipeE)
  from n ic(3) obtain m where m: "n = int m" "m \<le> c"
    by (metis nat_0_le of_nat_le_iff)
  have con: "take (nat n) (content vp) = window (buffer vp) i m"
    using ic m by (simp add: content_def take_window)
  show ?thesis
  proof (cases "i + m < 4096")
    case True
    then have "mem_read (buffer vp) (int i) (int m) = Some (window (buffer vp) i m)"
      using buf by (simp add: mem_read_in window_simple)
    then show ?thesis
      using True m ic con by (simp add: buffToPipe_def MAX_VOTE_PIPE_BUFF_def)
  next
    case False
    define k where "k = 4096 - i"
    have k: "MAX_VOTE_PIPE_BUFF - int i = int k" "int m - int k = int (m - k)" "k \<le> m"
      using False ic by (auto simp: k_def MAX_VOTE_PIPE_BUFF_def)
    have "memcpy (replicate m 0) 0 (buffer vp) (int i) (int k) = Some (drop i (buffer vp) @ replicate (m - k) 0)"
      using memcpy_nat [of i k "buffer vp" 0 "replicate m 0"] False ic buf m by (simp add: k_def)
    moreover have "memcpy (drop i (buffer vp) @ replicate (m - k) 0) (int k) (buffer vp) 0 (int (m - k)) =
        Some (drop i (buffer vp) @ take (m - k) (buffer vp))"
      using memcpy_nat [of 0 "m - k" "buffer vp" k "drop i (buffer vp) @ replicate (m - k) 0"] False ic buf m
      by (simp add: k_def)
    moreover have "window (buffer vp) i m = drop i (buffer vp) @ take (m - k) (buffer vp)"
      using window_wrap [of i "buffer vp" m] False ic buf m by (simp add: k_def)
    moreover have "\<not> int i + int m < MAX_VOTE_PIPE_BUFF"
      using False by (simp add: MAX_VOTE_PIPE_BUFF_def)
    ultimately show ?thesis
      using m con unfolding buffToPipe_def ic m(1) k Let_def by simp
  qed
qed

lemma buffToPipe_short: "buff_count vp < n \<Longrightarrow> buffToPipe K vp fd n h = Some (-1, vp, h)"
  by (simp add: buffToPipe_def)

lemma copyBuffer_eq:
  assumes wf: "wf_pipe vp" and n: "0 \<le> n" "n \<le> buff_count vp" and room: "n \<le> int (length dst)"
  shows "copyBuffer vp dst n = Some (take (nat n) (content vp) @ drop (nat n) dst)"
proof -
  from wf obtain i c where ic: "buff_index vp = int i" "i < 4096" "buff_count vp = int c" "c < 4096"
    and buf: "length (buffer vp) = 4096" by (rule wf_pipeE)
  from n ic(3) obtain m where m: "n = int m" "m \<le> c"
    by (metis nat_0_le of_nat_le_iff)
  have con: "take (nat n) (content vp) = window (buffer vp) i m"
    using ic m by (simp add: content_def take_window)
  show ?thesis
  proof (cases "i + m < 4096")
    case True
    then show ?thesis
      using memcpy_nat [of i m "buffer vp" 0 dst] buf room m ic con
      by (simp add: copyBuffer_def MAX_VOTE_PIPE_BUFF_def window_simple)
  next
    case False
    define k where "k = 4096 - i"
    have k: "MAX_VOTE_PIPE_BUFF - int i = int k" "int m - int k = int (m - k)" "k \<le> m"
      using False ic by (auto simp: k_def MAX_VOTE_PIPE_BUFF_def)
    have "memcpy dst 0 (buffer vp) (int i) (int k) = Some (drop i (buffer vp) @ drop k dst)"
      using memcpy_nat [of i k "buffer vp" 0 dst] False ic buf m room by (simp add: k_def)
    moreover have "memcpy (drop i (buffer vp) @ drop k dst) (int k) (buffer vp) 0 (int (m - k)) =
        Some (drop i (buffer vp) @ take (m - k) (buffer vp) @ drop m dst)"
      using memcpy_nat [of 0 "m - k" "buffer vp" k "drop i (buffer vp) @ drop k dst"] False ic buf m room
      by (simp add: k_def)
    moreover have "window (buffer vp) i m = drop i (buffer vp) @ take (m - k) (buffer vp)"
      using window_wrap [of i "buffer vp" m] False ic buf m by (simp add: k_def)
    moreover have "\<not> int i + int m < MAX_VOTE_PIPE_BUFF"
      using False by (simp add: MAX_VOTE_PIPE_BUFF_def)
    ultimately show ?thesis
      using m con unfolding copyBuffer_def ic m(1) k Let_def by simp
  qed
qed

lemma bytes_cmp_append:
  "length xs = length ys \<Longrightarrow>
   bytes_cmp (xs @ us) (ys @ vs) = (if bytes_cmp xs ys \<noteq> 0 then bytes_cmp xs ys else bytes_cmp us vs)"
  by (induction xs ys rule: list_induct2) (auto simp: word_uint_eq_iff)

lemma take_content:
  "0 \<le> n \<Longrightarrow> n \<le> buff_count vp \<Longrightarrow>
   take (nat n) (content vp) = window (buffer vp) (nat (buff_index vp)) (nat n)"
  by (simp add: content_def take_window nat_mono)

text \<open>\<open>memcmp\<close> in one or two parts compares the first \<open>n\<close> bytes of the two contents.\<close>

lemma compareBuffs_eq:
  assumes wf: "wf_pipe a" "wf_pipe b" and n: "0 \<le> n" "n \<le> buff_count a" "n \<le> buff_count b"
  shows "compareBuffs a b n =
    Some (if buff_index a \<noteq> buff_index b then -1
          else bytes_cmp (take (nat n) (content a)) (take (nat n) (content b)))"
proof (cases "buff_index a = buff_index b")
  case False
  then show ?thesis by (simp add: compareBuffs_def)
next
  case same: True
  from wf(1) obtain i c where ic: "buff_index a = int i" "i < 4096" "buff_count a = int c" "c < 4096"
    and buf: "length (buffer a) = 4096" by (rule wf_pipeE)
  from wf(2) obtain i' c' where ic': "buff_index b = int i'" "buff_count b = int c'" "c' < 4096"
    and buf': "length (buffer b) = 4096" by (rule wf_pipeE)
  from n ic(3) obtain m where m: "n = int m" "m \<le> c" by (metis nat_0_le of_nat_le_iff)
  have i': "i' = i" using same ic ic' by simp
  have con: "take m (content a) = window (buffer a) i m" "take m (content b) = window (buffer b) i m"
    using n ic ic' m i' by (simp_all add: content_def take_window)
  show ?thesis
  proof (cases "i + m < 4096")
    case True
    then show ?thesis
      using buf buf' con ic ic' m i'
      by (simp add: compareBuffs_def memcmp_in MAX_VOTE_PIPE_BUFF_def window_simple)
  next
    case False
    define k where "k = 4096 - i"
    have k: "MAX_VOTE_PIPE_BUFF - int i = int k" "int m - int k = int (m - k)"
      "\<not> int i + int m < MAX_VOTE_PIPE_BUFF"
      using False ic by (auto simp: k_def MAX_VOTE_PIPE_BUFF_def)
    have "memcmp (buffer a) (int i) (buffer b) (int i) (int k) =
        Some (bytes_cmp (drop i (buffer a)) (drop i (buffer b)))"
      using ic buf buf' by (simp add: memcmp_in k_def)
    moreover have "memcmp (buffer a) 0 (buffer b) 0 (int (m - k)) =
        Some (bytes_cmp (take (m - k) (buffer a)) (take (m - k) (buffer b)))"
      using ic m buf buf' by (simp add: memcmp_in)
    moreover have "window (buffer x) i m = drop i (buffer x) @ take (m - k) (buffer x)"
      if "length (buffer x) = 4096" for x :: vote_pipe
      using window_wrap [of i "buffer x" m] False ic m that by (simp add: k_def)
    ultimately show ?thesis
      using buf buf' k(3) con unfolding compareBuffs_def ic(1) ic'(1) i' m(1) Let_def k(1,2)
      by (simp add: bytes_cmp_append)
  qed
qed

corollary compareBuffs_0:
  assumes "wf_pipe a" "wf_pipe b" "0 \<le> n" "n \<le> buff_count a" "n \<le> buff_count b"
  shows "\<exists>r. compareBuffs a b n = Some r \<and>
    (r = 0 \<longleftrightarrow> buff_index a = buff_index b \<and> take (nat n) (content a) = take (nat n) (content b))"
proof -
  have "length (take (nat n) (content a)) = length (take (nat n) (content b))"
    using assms by (simp add: nat_mono)
  then show ?thesis using compareBuffs_eq [OF assms] bytes_cmp_eq_0 by auto
qed

text \<open>Copying a pipe: \<open>dest\<close> takes over the content, and keeps its descriptors.\<close>

lemma copyPipe_spec:
  assumes wf: "wf_pipe src" and dest: "length (buffer dest) = nat MAX_VOTE_PIPE_BUFF"
  obtains d where "copyPipe dest src = Some d" "wf_pipe d" "content d = content src"
    "buff_index d = buff_index src" "buff_count d = buff_count src"
    "fd_in d = fd_in dest" "fd_out d = fd_out dest" "rep_info d = rep_info dest" "timed d = timed dest"
proof -
  from wf obtain i c where ic: "buff_index src = int i" "i < 4096" "buff_count src = int c" "c < 4096"
    and buf: "length (buffer src) = 4096" by (rule wf_pipeE)
  have dst: "length (buffer dest) = 4096" using dest by (simp add: MAX_VOTE_PIPE_BUFF_def)
  obtain b where b: "copyPipe dest src = Some (dest\<lparr>buff_count := int c, buff_index := int i, buffer := b\<rparr>)"
    "length b = 4096" "window b i c = window (buffer src) i c"
  proof (cases "i + c < 4096")
    case True
    let ?b = "take i (buffer dest) @ take c (drop i (buffer src)) @ drop (i + c) (buffer dest)"
    have "memcpy (buffer dest) (int i) (buffer src) (int i) (int c) = Some ?b"
      using memcpy_nat [of i c "buffer src" i "buffer dest"] True buf dst by simp
    then show ?thesis
      using that [of ?b] True ic buf dst by (simp add: copyPipe_def MAX_VOTE_PIPE_BUFF_def window_simple)
  next
    case False
    define k where "k = 4096 - i"
    have k: "MAX_VOTE_PIPE_BUFF - int i = int k" "int c - int k = int (c - k)"
      "\<not> int i + int c < MAX_VOTE_PIPE_BUFF" "c - k \<le> i"
      using False ic by (auto simp: k_def MAX_VOTE_PIPE_BUFF_def)
    let ?b = "take (c - k) (buffer src) @ drop (c - k) (take i (buffer dest)) @ drop i (buffer src)"
    have "memcpy (buffer dest) (int i) (buffer src) (int i) (int k) = Some (take i (buffer dest) @ drop i (buffer src))"
      using memcpy_nat [of i k "buffer src" i "buffer dest"] ic buf dst by (simp add: k_def)
    moreover have "memcpy (take i (buffer dest) @ drop i (buffer src)) 0 (buffer src) 0 (int (c - k)) = Some ?b"
      using memcpy_nat [of 0 "c - k" "buffer src" 0 "take i (buffer dest) @ drop i (buffer src)"]
        ic(2,4) buf dst k(4) by simp
    moreover have len: "length ?b = 4096" using ic(2,4) buf dst k(4) by simp
    moreover have "window ?b i c = window (buffer src) i c"
    proof -
      have "drop i ?b = drop i (buffer src)" "take (c - k) ?b = take (c - k) (buffer src)"
        using ic(2,4) buf dst k(4) by simp_all
      moreover have "window ?b i c = drop i ?b @ take (c - (length ?b - i)) ?b"
        by (rule window_wrap) (unfold len, use False ic in simp_all)
      moreover have "window (buffer src) i c = drop i (buffer src) @ take (c - (length (buffer src) - i)) (buffer src)"
        using False ic buf by (intro window_wrap) auto
      moreover have "length ?b - i = k" "length (buffer src) - i = k"
        using len buf by (simp_all only: k_def)
      ultimately show ?thesis by (simp only:)
    qed
    moreover have "copyPipe dest src = Some (dest\<lparr>buff_count := int c, buff_index := int i, buffer := ?b\<rparr>)"
      using calculation(1,2) k(3) by (simp add: copyPipe_def Let_def ic k(1,2) del: of_nat_diff)
    ultimately show ?thesis using that [of ?b] by blast
  qed
  show ?thesis
    by (rule that [OF b(1)]) (use ic b(2,3) in \<open>simp_all add: wf_pipe_def content_def MAX_VOTE_PIPE_BUFF_def\<close>)
qed

lemma resetVotePipe_eq:
  "resetVotePipe vp h =
    (vp\<lparr>fd_in := 0, fd_out := 0, buff_count := 0, buff_index := 0\<rparr>,
     h @ (if fd_in vp \<noteq> 0 then [SysClose (fd_in vp)] else [])
       @ (if fd_out vp \<noteq> 0 then [SysClose (fd_out vp)] else []))"
  by (cases vp) (simp add: resetVotePipe_def sys_close_def Let_def)

lemma resetVotePipe_wf [wf_intros]:
  "length (buffer vp) = nat MAX_VOTE_PIPE_BUFF \<Longrightarrow> wf_pipe (fst (resetVotePipe vp h))"
  by (simp add: resetVotePipe_eq wf_pipe_def MAX_VOTE_PIPE_BUFF_def)

section \<open>The queue a vote pipe implements\<close>

text \<open>
  The contract the voters rely on: filling appends what was read or changes nothing, draining
  hands the oldest bytes to \<open>write\<close> and removes them, skipping removes them unseen.
\<close>

locale vote_queue =
  fixes inv :: "'q \<Rightarrow> bool"
    and contents :: "'q \<Rightarrow> byte list"
    and fill :: "posix \<Rightarrow> 'q \<Rightarrow> history \<Rightarrow> (int \<times> 'q \<times> history) option"
    and drain :: "posix \<Rightarrow> 'q \<Rightarrow> int \<Rightarrow> int \<Rightarrow> history \<Rightarrow> (int \<times> 'q \<times> history) option"
    and skip :: "'q \<Rightarrow> int \<Rightarrow> 'q"
  assumes fill_law: "inv q \<Longrightarrow>
      (\<exists>q' fd n bs. fill K q h = Some (0, q', h @ [SysRead fd n (Some bs)])
         \<and> inv q' \<and> contents q' = contents q @ bs)
    \<or> (\<exists>e. fill K q h = Some (-1, q, h @ [e]))"
    and drain_law: "inv q \<Longrightarrow> 0 \<le> n \<Longrightarrow> n \<le> int (length (contents q)) \<Longrightarrow>
      drain K q fd n h = Some (0, skip q n, snd (sys_write K fd (take (nat n) (contents q)) h))"
    and drain_short: "inv q \<Longrightarrow> int (length (contents q)) < n \<Longrightarrow> drain K q fd n h = Some (-1, q, h)"
    and skip_law: "inv q \<Longrightarrow> 0 \<le> n \<Longrightarrow> n \<le> int (length (contents q)) \<Longrightarrow>
      inv (skip q n) \<and> contents (skip q n) = drop (nat n) (contents q)"

text \<open>
  A run of fills and drains, in any order; it collects the bytes that were accepted (\<open>ins\<close>) and
  the bytes that were written (\<open>outs\<close>).
\<close>

datatype queue_op = Fill | Drain int int

fun queue_op_ok :: "queue_op \<Rightarrow> bool" where
  "queue_op_ok Fill = True"
| "queue_op_ok (Drain fd n) = (0 \<le> n)"

fun queue_run :: "(posix \<Rightarrow> 'q \<Rightarrow> history \<Rightarrow> (int \<times> 'q \<times> history) option)
    \<Rightarrow> (posix \<Rightarrow> 'q \<Rightarrow> int \<Rightarrow> int \<Rightarrow> history \<Rightarrow> (int \<times> 'q \<times> history) option)
    \<Rightarrow> posix \<Rightarrow> queue_op list \<Rightarrow> 'q \<times> byte list \<times> byte list \<times> history
    \<Rightarrow> ('q \<times> byte list \<times> byte list \<times> history) option" where
  "queue_run fill drain K [] s = Some s"
| "queue_run fill drain K (Fill # ops) (q, ins, outs, h) =
     do {
       (r, q', h') \<leftarrow> fill K q h;
       let ins' = (if r = 0 then ins @ read_bytes (drop (length h) h') else ins);
       queue_run fill drain K ops (q', ins', outs, h')
     }"
| "queue_run fill drain K (Drain fd n # ops) (q, ins, outs, h) =
     do {
       (r, q', h') \<leftarrow> drain K q fd n h;
       queue_run fill drain K ops (q', ins, outs @ concat (written_to fd (drop (length h) h')), h')
     }"

context vote_queue begin

lemma drain_cases:
  assumes "inv q" "0 \<le> n"
  shows "\<exists>r q' es. drain K q fd n h = Some (r, q', h @ es) \<and> inv q'
    \<and> contents q = concat (written_to fd es) @ contents q'"
proof (cases "n \<le> int (length (contents q))")
  case True
  then show ?thesis
    using assms drain_law [OF assms True] skip_law [OF assms True] by (simp add: sys_write_hist)
next
  case False
  then show ?thesis using drain_short [OF assms(1)] assms by auto
qed

lemma run_fifo:
  assumes "inv q" "list_all queue_op_ok ops" "pre @ ins = outs @ contents q"
  shows "\<exists>q' ins' outs' h'. queue_run fill drain K ops (q, ins, outs, h) = Some (q', ins', outs', h')
    \<and> inv q' \<and> pre @ ins' = outs' @ contents q'"
  using assms
proof (induction ops arbitrary: q ins outs h)
  case Nil
  then show ?case by simp
next
  case (Cons op ops)
  show ?case
  proof (cases op)
    case Fill
    from fill_law [OF Cons.prems(1), of K h] show ?thesis
    proof (elim disjE exE conjE)
      fix q' fd n bs
      assume f: "fill K q h = Some (0, q', h @ [SysRead fd n (Some bs)])" "inv q'"
        "contents q' = contents q @ bs"
      from Cons.prems(3) f(3) have "pre @ ins @ bs = outs @ contents q'" by (simp flip: append_assoc)
      then show ?thesis using Cons.IH [OF f(2)] Cons.prems(2) f Fill by simp
    next
      fix e assume "fill K q h = Some (-1, q, h @ [e])"
      then show ?thesis using Cons.IH [OF Cons.prems(1)] Cons.prems Fill by simp
    qed
  next
    case (Drain fd n)
    with Cons.prems(2) have "0 \<le> n" by simp
    from drain_cases [OF Cons.prems(1) this, where K = K and fd = fd and h = h] obtain r q' es where
      d: "drain K q fd n h = Some (r, q', h @ es)" "inv q'"
        "contents q = concat (written_to fd es) @ contents q'" by blast
    from Cons.prems(3) d(3) have "pre @ ins = (outs @ concat (written_to fd es)) @ contents q'" by simp
    then show ?thesis using Cons.IH [OF d(2)] Cons.prems(2) d Drain by simp
  qed
qed

end

interpretation vp: vote_queue wf_pipe content pipeToBuff buffToPipe fakeToPipe
proof
  fix K q h assume wf: "wf_pipe q"
  obtain r bs h' where rd: "sys_read K (fd_in q) MAX_VOTE_PIPE_BUFF h = (r, bs, h')"
    by (cases "sys_read K (fd_in q) MAX_VOTE_PIPE_BUFF h") auto
  show "(\<exists>q' fd n bs. pipeToBuff K q h = Some (0, q', h @ [SysRead fd n (Some bs)])
         \<and> wf_pipe q' \<and> content q' = content q @ bs)
    \<or> (\<exists>e. pipeToBuff K q h = Some (-1, q, h @ [e]))"
    using wf rd by (rule pipeToBuff_cases) (use rd in \<open>auto elim!: sys_read_cases\<close>)
next
  fix K q fd n h assume "wf_pipe q" "0 \<le> n" "n \<le> int (length (content q))"
  then show "buffToPipe K q fd n h = Some (0, fakeToPipe q n, snd (sys_write K fd (take (nat n) (content q)) h))"
    by (intro buffToPipe_eq) (auto simp: wf_pipe_def)
next
  fix K q fd n h assume "wf_pipe q" "int (length (content q)) < n"
  then show "buffToPipe K q fd n h = Some (-1, q, h)"
    by (intro buffToPipe_short) (auto simp: wf_pipe_def)
next
  fix q n assume "wf_pipe q" "0 \<le> n" "n \<le> int (length (content q))"
  then show "wf_pipe (fakeToPipe q n) \<and> content (fakeToPipe q n) = drop (nat n) (content q)"
    by (intro conjI fakeToPipe_wf fakeToPipe_content) (auto simp: wf_pipe_def)
qed

section \<open>Properties\<close>

text \<open>A pipe whose three bytes lie across the end of the ring, and a system that delivers two more.\<close>

definition wrapped_pipe :: vote_pipe where
  "wrapped_pipe = \<lparr>rep_info = ''MOV_CMD'', fd_in = 7, fd_out = 0, timed = 0, buff_count = 3,
     buff_index = 4094, buffer = 30 # replicate 4093 0 @ [10, 20]\<rparr>"

definition two_bytes :: posix where
  "two_bytes = quiet\<lparr>on_read := \<lambda>h fd n. Some [40, 50]\<rparr>"

lemma wrapped_pipe_fields [simp]:
  "buff_count wrapped_pipe = 3" "buff_index wrapped_pipe = 4094" "fd_in wrapped_pipe = 7"
  "length (buffer wrapped_pipe) = 4096"
  by (simp_all add: wrapped_pipe_def)

lemma wf_wrapped_pipe [simp]: "wf_pipe wrapped_pipe"
  by (simp add: wf_pipe_def wrapped_pipe_def MAX_VOTE_PIPE_BUFF_def)

lemma content_wrapped_pipe: "content wrapped_pipe = [10, 20, 30]"
proof -
  have "length (buffer wrapped_pipe) = 4096" "buffer wrapped_pipe = 30 # replicate 4093 0 @ [10, 20]"
    by (simp_all add: wrapped_pipe_def)
  then have "drop 4094 (buffer wrapped_pipe) = [10, 20]" "take 1 (buffer wrapped_pipe) = [30]"
    by (simp_all add: drop_Cons')
  moreover have "window (buffer wrapped_pipe) 4094 3
      = drop 4094 (buffer wrapped_pipe) @ take (3 - (4096 - 4094)) (buffer wrapped_pipe)"
    using window_wrap [of 4094 "buffer wrapped_pipe" 3] by (simp add: wrapped_pipe_def)
  ultimately show ?thesis by (simp add: content_def wrapped_pipe_def)
qed

text \<open>\<open>pipeToBuff\<close> makes one \<open>read\<close> of at most \<open>MAX_VOTE_PIPE_BUFF\<close> bytes and never touches memory
  outside the ring. When something arrived and the ring has room for it, the bytes are appended to
  the content and 0 is returned; otherwise (nothing, an error, or too much) the pipe is unchanged,
  -1 is returned, and what was read is lost. Indices stay in range either way.\<close>

theorem pipeToBuff_fills:
  assumes "wf_pipe vp" and "sys_read K (fd_in vp) MAX_VOTE_PIPE_BUFF h = (r, bs, h')"
  shows "\<exists>ret vp'. pipeToBuff K vp h = Some (ret, vp', h') \<and> wf_pipe vp'
    \<and> (if 0 < r \<and> r < MAX_VOTE_PIPE_BUFF - buff_count vp
       then ret = 0 \<and> content vp' = content vp @ bs \<and> buff_index vp' = buff_index vp
       else ret = -1 \<and> vp' = vp)"
  using assms by (rule pipeToBuff_cases) (use assms in auto)

theorem pipeToBuff_fills_witness:
  "\<exists>vp'. pipeToBuff two_bytes wrapped_pipe [] = Some (0, vp', [SysRead 7 4096 (Some [40, 50])])
    \<and> content vp' = [10, 20, 30, 40, 50]"
proof -
  have "sys_read two_bytes (fd_in wrapped_pipe) MAX_VOTE_PIPE_BUFF []
      = (2, [40, 50], [SysRead 7 4096 (Some [40, 50])])"
    by (simp add: sys_read_def two_bytes_def wrapped_pipe_def MAX_VOTE_PIPE_BUFF_def Let_def)
  from pipeToBuff_fills [OF wf_wrapped_pipe this] show ?thesis
    by (auto simp: content_wrapped_pipe MAX_VOTE_PIPE_BUFF_def)
qed

text \<open>C6: A vote pipe is a queue of bytes: over any sequence of fills and drains, whatever the
  system answers, the bytes held before followed by the bytes accepted are the bytes written followed
  by the bytes still held. Nothing is lost, duplicated or reordered where the ring wraps.\<close>

theorem vote_pipe_fifo:
  assumes "wf_pipe vp" and "list_all queue_op_ok ops"
  shows "\<exists>vp' ins outs h'. queue_run pipeToBuff buffToPipe K ops (vp, [], [], h) = Some (vp', ins, outs, h')
    \<and> wf_pipe vp' \<and> content vp @ ins = outs @ content vp'"
  using vp.run_fifo [OF assms, of "content vp" "[]" "[]" K h] by simp

theorem vote_pipe_fifo_witness:
  "\<exists>vp' ins outs h'. queue_run pipeToBuff buffToPipe two_bytes [Fill, Drain 9 4, Fill] (wrapped_pipe, [], [], [])
      = Some (vp', ins, outs, h') \<and> wf_pipe vp' \<and> [10, 20, 30] @ ins = outs @ content vp'"
  using vote_pipe_fifo [of wrapped_pipe "[Fill, Drain 9 4, Fill]" two_bytes "[]"]
  by (simp add: content_wrapped_pipe)

text \<open>C7: \<open>compareBuffs\<close> decides the vote: over two well-formed pipes with at least \<open>n\<close> bytes each it
  returns 0 exactly when both read from the same ring index and their next \<open>n\<close> bytes are the same,
  however the comparison is split at the end of the ring.\<close>

theorem compareBuffs_decides:
  assumes "wf_pipe a" "wf_pipe b" "0 \<le> n" "n \<le> buff_count a" "n \<le> buff_count b"
  shows "compareBuffs a b n \<noteq> None \<and> (compareBuffs a b n = Some 0 \<longleftrightarrow>
      buff_index a = buff_index b \<and> take (nat n) (content a) = take (nat n) (content b))"
  using compareBuffs_0 [OF assms] by auto

theorem compareBuffs_decides_witness:
  "compareBuffs wrapped_pipe (wrapped_pipe\<lparr>rep_info := ''WAY_RES''\<rparr>) 3 = Some 0"
  using compareBuffs_decides [of wrapped_pipe "wrapped_pipe\<lparr>rep_info := ''WAY_RES''\<rparr>" 3]
  by simp

text \<open>\<open>copyPipe\<close> gives the restarted replica's pipe the healthy one's content, count and index,
  without an access outside either ring, and leaves the descriptors of the destination alone.\<close>

theorem copyPipe_copies:
  assumes "wf_pipe src" and "length (buffer dest) = nat MAX_VOTE_PIPE_BUFF"
  shows "\<exists>d. copyPipe dest src = Some d \<and> wf_pipe d \<and> content d = content src
    \<and> buff_index d = buff_index src \<and> buff_count d = buff_count src
    \<and> fd_in d = fd_in dest \<and> fd_out d = fd_out dest"
  using assms by (rule copyPipe_spec) blast

theorem copyPipe_copies_witness:
  "\<exists>d. copyPipe (wrapped_pipe\<lparr>fd_in := 12, buff_index := 0, buff_count := 0\<rparr>) wrapped_pipe = Some d
    \<and> content d = [10, 20, 30] \<and> fd_in d = 12"
  using copyPipe_copies [OF wf_wrapped_pipe, of "wrapped_pipe\<lparr>fd_in := 12, buff_index := 0, buff_count := 0\<rparr>"]
  by (auto simp: content_wrapped_pipe MAX_VOTE_PIPE_BUFF_def)

end
