(* ===== verification/CommTypes.thy ===== *)
theory CommTypes
  imports VoteBuff
begin

text \<open>
  \<open>include/commtypes.h\<close> and \<open>src/commtypes.c\<close>: the typed pipes between components, their textual
  form on a command line, and the messages with their byte layout (x86-64: \<open>int\<close> is four bytes,
  \<open>long\<close> and \<open>double\<close> eight, members aligned to their size, least significant byte first).
  A double travels as its 64-bit pattern.
\<close>

section \<open>Message types\<close>

datatype comm_message_t =
    COMM_ERROR | WAY_REQ | WAY_RES | MOV_CMD | RANGE_POSE_DATA | MAP_UPDATE | COMM_ACK | MSG_BUFFER

fun MESSAGE_T :: "comm_message_t \<Rightarrow> string" where
  "MESSAGE_T COMM_ERROR = ''COMM_ERROR''"
| "MESSAGE_T WAY_REQ = ''WAY_REQ''"
| "MESSAGE_T WAY_RES = ''WAY_RES''"
| "MESSAGE_T MOV_CMD = ''MOV_CMD''"
| "MESSAGE_T RANGE_POSE_DATA = ''RANGE_POSE_DATA''"
| "MESSAGE_T MAP_UPDATE = ''MAP_UPDATE''"
| "MESSAGE_T COMM_ACK = ''COMM_ACK''"
| "MESSAGE_T MSG_BUFFER = ''MSG_BUFFER''"

definition commToEnum :: "string \<Rightarrow> comm_message_t" where
  "commToEnum name =
     (if name = ''WAY_REQ'' then WAY_REQ
      else if name = ''WAY_RES'' then WAY_RES
      else if name = ''MOV_CMD'' then MOV_CMD
      else if name = ''RANGE_POSE_DATA'' then RANGE_POSE_DATA
      else if name = ''MAP_UPDATE'' then MAP_UPDATE
      else if name = ''COMM_ACK'' then COMM_ACK
      else if name = ''MSG_BUFFER'' then MSG_BUFFER
      else COMM_ERROR)"

lemma commToEnum_MESSAGE_T [simp]: "commToEnum (MESSAGE_T t) = t"
  by (cases t) (simp_all add: commToEnum_def)

text \<open>The enumeration's numbers, as they lie in memory.\<close>

fun comm_code :: "comm_message_t \<Rightarrow> int" where
  "comm_code COMM_ERROR = 0"
| "comm_code WAY_REQ = 1"
| "comm_code WAY_RES = 2"
| "comm_code MOV_CMD = 3"
| "comm_code RANGE_POSE_DATA = 4"
| "comm_code MAP_UPDATE = 5"
| "comm_code COMM_ACK = 6"
| "comm_code MSG_BUFFER = 7"

record typed_pipe =
  tp_type :: comm_message_t
  tp_fd_in :: int
  tp_fd_out :: int

section \<open>Typed pipes as text\<close>

text \<open>
  Strings are blocks of characters ended by a NUL. \<open>c_str\<close> reads one from a block; without a NUL
  the read runs off the block.
\<close>

definition NUL :: char where "NUL = CHR 0x00"

fun c_str :: "char list \<Rightarrow> string option" where
  "c_str [] = None"
| "c_str (c # cs) = (if c = NUL then Some [] else map_option ((#) c) (c_str cs))"

definition digit_char :: "int \<Rightarrow> char" where
  "digit_char d = char_of (nat (48 + d))"

text \<open>
  \<open>serializePipe\<close> counts the digits of the descriptor, allocates a block (whose content is
  whatever \<open>g\<close> says), writes type, colons and digits into it by index, and ends it with a NUL.
\<close>

lemma sdiv_10_pos_shrinks:
  assumes "0 < t sdiv (10::int)"
  shows "0 < t \<and> t sdiv 10 < t"
proof -
  have "\<not> t < 0"
  proof
    assume "t < 0"
    then have "t sdiv 10 = - (\<bar>t\<bar> div 10)" by (simp add: signed_divide_int_def)
    moreover have "0 \<le> \<bar>t\<bar> div 10" by simp
    ultimately show False using assms by linarith
  qed
  moreover have "t \<noteq> 0" using assms by auto
  ultimately have "0 < t" by linarith
  then show ?thesis by simp
qed

lemma sdiv_10_shrinks:
  assumes "0 < t sdiv 10 smod (10::int)"
  shows "0 < t \<and> t sdiv 10 < t"
proof (rule sdiv_10_pos_shrinks, rule ccontr)
  let ?u = "t sdiv 10"
  assume "\<not> 0 < ?u"
  then have "?u smod 10 = - (\<bar>?u\<bar> mod 10)" by (cases "?u = 0") (simp_all add: smod_int_alt_def)
  moreover have "0 \<le> \<bar>?u\<bar> mod 10" by simp
  ultimately show False using assms by linarith
qed

function num_len_loop :: "int \<Rightarrow> int \<Rightarrow> int" where
  "num_len_loop temp num_len =
     (let num_len' = num_len + 1; temp' = temp sdiv 10
      in if temp' smod 10 > 0 then num_len_loop temp' num_len' else num_len')"
  by pat_completeness auto

termination
  by (relation "measure (\<lambda>(t, n). nat t)") (auto dest: sdiv_10_shrinks)

declare num_len_loop.simps [simp del]

function write_digits :: "int \<Rightarrow> int \<Rightarrow> int \<Rightarrow> char list \<Rightarrow> (int \<times> char list) option" where
  "write_digits temp num_len index serial =
     do {
       serial' \<leftarrow> aset serial (index + num_len) (digit_char (temp smod 10));
       let temp' = temp sdiv 10;
       if temp' > 0 then write_digits temp' (num_len - 2) (index + 1) serial'
       else Some (index + 1, serial')
     }"
  by pat_completeness auto

termination
  by (relation "measure (\<lambda>(t, _). nat t)") (auto dest: sdiv_10_pos_shrinks)

declare write_digits.simps [simp del]

definition serializePipe_block :: "(nat \<Rightarrow> char) \<Rightarrow> typed_pipe \<Rightarrow> char list option" where
  "serializePipe_block g pipe =
     (let fd = (if tp_fd_in pipe = 0 then tp_fd_out pipe else tp_fd_in pipe);
          num_len = num_len_loop fd 0;
          name = MESSAGE_T (tp_type pipe);
          len = int (length name) + 4 + num_len;
          serial = map g [0..<nat len]
      in do {
        s1 \<leftarrow> mem_write serial 0 name;
        let index = int (length name);
        if tp_fd_in pipe = 0 then
          do {
            s2 \<leftarrow> aset s1 index (CHR '':'');
            s3 \<leftarrow> aset s2 (index + 1) (CHR ''0'');
            s4 \<leftarrow> aset s3 (index + 2) (CHR '':'');
            (i, s5) \<leftarrow> write_digits (tp_fd_out pipe) (num_len - 1) (index + 3) s4;
            aset s5 i NUL
          }
        else
          do {
            s2 \<leftarrow> aset s1 index (CHR '':'');
            (i, s3) \<leftarrow> write_digits (tp_fd_in pipe) (num_len - 1) (index + 1) s2;
            s4 \<leftarrow> aset s3 i (CHR '':'');
            s5 \<leftarrow> aset s4 (i + 1) (CHR ''0'');
            aset s5 (i + 2) NUL
          }
      })"

definition serializePipe :: "(nat \<Rightarrow> char) \<Rightarrow> typed_pipe \<Rightarrow> string option" where
  "serializePipe g pipe = do { block \<leftarrow> serializePipe_block g pipe; c_str block }"

text \<open>
  \<open>atoi\<close>: leading white space, an optional sign, digits up to the first other character.
\<close>

definition is_digit :: "char \<Rightarrow> bool" where
  "is_digit c \<longleftrightarrow> 48 \<le> (of_char c :: int) \<and> of_char c \<le> (57 :: int)"

fun atoi_digits :: "int \<Rightarrow> string \<Rightarrow> int" where
  "atoi_digits acc [] = acc"
| "atoi_digits acc (c # cs) = (if is_digit c then atoi_digits (10 * acc + (of_char c - 48)) cs else acc)"

definition is_space :: "char \<Rightarrow> bool" where
  "is_space c \<longleftrightarrow> (of_char c :: int) \<in> {9, 10, 11, 12, 13, 32}"

fun atoi :: "string \<Rightarrow> int" where
  "atoi [] = 0"
| "atoi (c # cs) =
     (if is_space c then atoi cs
      else if c = CHR ''-'' then - atoi_digits 0 cs
      else if c = CHR ''+'' then atoi_digits 0 cs
      else atoi_digits 0 (c # cs))"

text \<open>
  \<open>deserializePipe\<close> scans for colons without looking for the end of the string: a string with too
  few of them is read past its end. The first number is collected in \<open>digit[10]\<close>, which
  \<open>atoi\<close> reads up to its NUL.
\<close>

fun upto_colon :: "string \<Rightarrow> (string \<times> string) option" where
  "upto_colon [] = None"
| "upto_colon (c # cs) =
     (if c = CHR '':'' then Some ([], cs)
      else map_option (\<lambda>(a, b). (c # a, b)) (upto_colon cs))"

definition deserializePipe :: "string \<Rightarrow> typed_pipe option" where
  "deserializePipe serial =
     do {
       (type, rest) \<leftarrow> upto_colon serial;
       (digit, rest') \<leftarrow> upto_colon rest;
       if length digit < 10 then
         Some \<lparr>tp_type = commToEnum type, tp_fd_in = atoi digit, tp_fd_out = atoi rest'\<rparr>
       else None
     }"

definition resetPipe :: "typed_pipe \<Rightarrow> history \<Rightarrow> typed_pipe \<times> history" where
  "resetPipe pipe h =
     (let p0 = pipe\<lparr>tp_type := COMM_ERROR\<rparr>;
          h1 = (if tp_fd_in p0 \<noteq> 0 then sys_close (tp_fd_in p0) h else h);
          p1 = (if tp_fd_in p0 \<noteq> 0 then p0\<lparr>tp_fd_in := 0\<rparr> else p0);
          h2 = (if tp_fd_out p1 \<noteq> 0 then sys_close (tp_fd_out p1) h1 else h1);
          p2 = (if tp_fd_out p1 \<noteq> 0 then p1\<lparr>tp_fd_out := 0\<rparr> else p1)
      in (p2, h2))"

text \<open>The conversions write into an array of vote pipes or typed pipes that the caller provides.\<close>

definition convertTypedToVote :: "typed_pipe list \<Rightarrow> int \<Rightarrow> vote_pipe list \<Rightarrow> vote_pipe list option" where
  "convertTypedToVote ext_pipes pipe_count new_pipes =
     for_upto 0 pipe_count (\<lambda>i ps. do {
       t \<leftarrow> aget ext_pipes i;
       v \<leftarrow> aget ps i;
       aset ps i (v\<lparr>fd_in := tp_fd_in t, fd_out := tp_fd_out t, rep_info := MESSAGE_T (tp_type t)\<rparr>)
     }) new_pipes"

definition convertVoteToTyped :: "vote_pipe list \<Rightarrow> int \<Rightarrow> typed_pipe list \<Rightarrow> typed_pipe list option" where
  "convertVoteToTyped ext_pipes pipe_count new_pipes =
     for_upto 0 pipe_count (\<lambda>i ps. do {
       v \<leftarrow> aget ext_pipes i;
       aset ps i \<lparr>tp_type = commToEnum (rep_info v), tp_fd_in = fd_in v, tp_fd_out = fd_out v\<rparr>
     }) new_pipes"

section \<open>Messages\<close>

definition RANGER_COUNT :: int where "RANGER_COUNT = 16"
definition MAX_TYPED_PIPE_BUFF :: int where "MAX_TYPED_PIPE_BUFF = 4096"

record comm_way_req =
  padding :: int

record comm_way_res =
  point :: "64 word list"
  n_point :: "64 word list"

record comm_mov_cmd =
  mov_seq_count :: int
  vel_cmd :: "64 word list"

record comm_range_pose_data =
  range_seq_count :: int
  ranges :: "64 word list"
  pose :: "64 word list"

record comm_map_update =
  pose_x :: int
  pose_y :: int
  obs_count :: int
  obs_x :: "byte list"
  obs_y :: "byte list"

record comm_ack =
  hash :: "64 word"
  resend_request :: int

record comm_msg_buffer =
  msg_length :: int
  message :: "byte list"

text \<open>
  The structs in memory. The senders clear the whole struct first, so the padding is zero and two
  equal messages are equal byte by byte, which voting depends on.
\<close>

definition doubles_bytes :: "64 word list \<Rightarrow> byte list" where
  "doubles_bytes ds = concat (map le_bytes8 ds)"

fun bytes_doubles :: "nat \<Rightarrow> byte list \<Rightarrow> 64 word list" where
  "bytes_doubles 0 bs = []"
| "bytes_doubles (Suc n) bs = le_word8 bs # bytes_doubles n (drop 8 bs)"

definition way_req_bytes :: "comm_way_req \<Rightarrow> byte list" where
  "way_req_bytes m = int_bytes (padding m)"

definition way_res_bytes :: "comm_way_res \<Rightarrow> byte list" where
  "way_res_bytes m = doubles_bytes (point m) @ doubles_bytes (n_point m)"

definition mov_cmd_bytes :: "comm_mov_cmd \<Rightarrow> byte list" where
  "mov_cmd_bytes m = int_bytes (mov_seq_count m) @ [0, 0, 0, 0] @ doubles_bytes (vel_cmd m)"

definition range_pose_bytes :: "comm_range_pose_data \<Rightarrow> byte list" where
  "range_pose_bytes m =
     int_bytes (range_seq_count m) @ [0, 0, 0, 0] @ doubles_bytes (ranges m) @ doubles_bytes (pose m)"

definition ack_bytes :: "comm_ack \<Rightarrow> byte list" where
  "ack_bytes m = le_bytes8 (hash m) @ int_bytes (resend_request m) @ [0, 0, 0, 0]"

text \<open>What a receiver finds in its struct after reading \<open>sizeof\<close> bytes into it.\<close>

definition bytes_way_req :: "byte list \<Rightarrow> comm_way_req" where
  "bytes_way_req bs = \<lparr>padding = bytes_int bs\<rparr>"

definition bytes_way_res :: "byte list \<Rightarrow> comm_way_res" where
  "bytes_way_res bs = \<lparr>point = bytes_doubles 3 bs, n_point = bytes_doubles 3 (drop 24 bs)\<rparr>"

definition bytes_mov_cmd :: "byte list \<Rightarrow> comm_mov_cmd" where
  "bytes_mov_cmd bs = \<lparr>mov_seq_count = bytes_int bs, vel_cmd = bytes_doubles 2 (drop 8 bs)\<rparr>"

definition bytes_range_pose :: "byte list \<Rightarrow> comm_range_pose_data" where
  "bytes_range_pose bs =
     \<lparr>range_seq_count = bytes_int bs, ranges = bytes_doubles 16 (drop 8 bs),
      pose = bytes_doubles 3 (drop 136 bs)\<rparr>"

definition bytes_ack :: "byte list \<Rightarrow> comm_ack" where
  "bytes_ack bs = \<lparr>hash = le_word8 bs, resend_request = bytes_int (drop 8 bs)\<rparr>"

subsection \<open>Senders\<close>

definition commSendWaypoints :: "posix \<Rightarrow> typed_pipe \<Rightarrow> 64 word \<Rightarrow> 64 word \<Rightarrow> 64 word \<Rightarrow> 64 word
    \<Rightarrow> 64 word \<Rightarrow> 64 word \<Rightarrow> history \<Rightarrow> int \<times> history" where
  "commSendWaypoints K pipe way_x way_y way_a n_way_x n_way_y n_way_a h =
     (if tp_fd_out pipe = 0 \<or> tp_type pipe \<noteq> WAY_RES then (0, h)
      else sys_write K (tp_fd_out pipe)
        (way_res_bytes \<lparr>point = [way_x, way_y, way_a], n_point = [n_way_x, n_way_y, n_way_a]\<rparr>) h)"

definition commSendWaypointRequest :: "posix \<Rightarrow> typed_pipe \<Rightarrow> int \<Rightarrow> history \<Rightarrow> int \<times> history" where
  "commSendWaypointRequest K pipe pad h =
     (if tp_fd_out pipe = 0 \<or> tp_type pipe \<noteq> WAY_REQ then (0, h)
      else sys_write K (tp_fd_out pipe) (way_req_bytes \<lparr>padding = pad\<rparr>) h)"

definition commSendMoveCommand :: "posix \<Rightarrow> typed_pipe \<Rightarrow> int \<Rightarrow> 64 word \<Rightarrow> 64 word \<Rightarrow> history \<Rightarrow> int \<times> history" where
  "commSendMoveCommand K pipe seq vel_0 vel_1 h =
     (if tp_fd_out pipe = 0 \<or> tp_type pipe \<noteq> MOV_CMD then (0, h)
      else sys_write K (tp_fd_out pipe)
        (mov_cmd_bytes \<lparr>mov_seq_count = seq, vel_cmd = [vel_0, vel_1]\<rparr>) h)"

definition commSendRanger :: "posix \<Rightarrow> typed_pipe \<Rightarrow> int \<Rightarrow> 64 word list \<Rightarrow> 64 word list \<Rightarrow> history
    \<Rightarrow> (int \<times> history) option" where
  "commSendRanger K pipe seq ranger_data pose_data h =
     (if tp_fd_out pipe = 0 \<or> tp_type pipe \<noteq> RANGE_POSE_DATA then Some (0, h)
      else do {
        rs \<leftarrow> mem_read ranger_data 0 RANGER_COUNT;
        ps \<leftarrow> mem_read pose_data 0 3;
        Some (sys_write K (tp_fd_out pipe)
          (range_pose_bytes \<lparr>range_seq_count = seq, ranges = rs, pose = ps\<rparr>) h)
      })"

definition commSendAck :: "posix \<Rightarrow> typed_pipe \<Rightarrow> 64 word \<Rightarrow> int \<Rightarrow> history \<Rightarrow> int \<times> history" where
  "commSendAck K pipe state_hash resend h =
     (if tp_fd_out pipe = 0 \<or> tp_type pipe \<noteq> COMM_ACK then (0, h)
      else sys_write K (tp_fd_out pipe) (ack_bytes \<lparr>hash = state_hash, resend_request = resend\<rparr>) h)"

definition commCopyWaypoints :: "comm_way_res \<Rightarrow> 64 word list \<Rightarrow> 64 word list
    \<Rightarrow> (64 word list \<times> 64 word list) option" where
  "commCopyWaypoints m waypoints n_waypoints =
     do { w \<leftarrow> memcpy waypoints 0 (point m) 0 3; n \<leftarrow> memcpy n_waypoints 0 (n_point m) 0 3; Some (w, n) }"

definition commCopyRanger :: "comm_range_pose_data \<Rightarrow> 64 word list \<Rightarrow> 64 word list
    \<Rightarrow> (int \<times> 64 word list \<times> 64 word list) option" where
  "commCopyRanger m range_data pose_data =
     do {
       r \<leftarrow> memcpy range_data 0 (ranges m) 0 RANGER_COUNT;
       p \<leftarrow> memcpy pose_data 0 (pose m) 0 3;
       Some (range_seq_count m, r, p)
     }"

subsection \<open>Map updates\<close>

text \<open>Three big-endian ints, then the obstacles as pairs of bytes.\<close>

definition be_bytes :: "int \<Rightarrow> byte list" where
  "be_bytes i = rev (int_bytes i)"

definition be_int :: "byte list \<Rightarrow> int" where
  "be_int bs = bytes_int (rev (take 4 bs))"

fun map_obs_loop :: "nat \<Rightarrow> int \<Rightarrow> comm_map_update \<Rightarrow> byte list \<Rightarrow> byte list option" where
  "map_obs_loop 0 index msg buff = Some buff"
| "map_obs_loop (Suc n) index msg buff =
     do {
       x \<leftarrow> aget (obs_x msg) index;
       y \<leftarrow> aget (obs_y msg) index;
       let buff' = buff @ [x, y];
       if int (length buff') > MAX_TYPED_PIPE_BUFF then Some buff'
       else map_obs_loop n (index + 1) msg buff'
     }"

text \<open>
  The block has room for \<open>12 + 2 * obs_count\<close> bytes, which the writes stay within unless the count
  is negative.
\<close>

definition commSendMapUpdate :: "posix \<Rightarrow> typed_pipe \<Rightarrow> comm_map_update \<Rightarrow> history \<Rightarrow> (int \<times> history) option" where
  "commSendMapUpdate K pipe msg h =
     (if tp_fd_out pipe = 0 \<or> tp_type pipe \<noteq> MAP_UPDATE then Some (0, h)
      else if obs_count msg < 0 then None
      else do {
        buff \<leftarrow> map_obs_loop (nat (obs_count msg)) 0 msg
                  (be_bytes (pose_x msg) @ be_bytes (pose_y msg) @ be_bytes (obs_count msg));
        Some (sys_write K (tp_fd_out pipe) buff h)
      })"

text \<open>
  The receiver reads the header, then the obstacles, into one block of \<open>MAX_TYPED_PIPE_BUFF\<close> bytes,
  and copies the obstacles into the caller's arrays.
\<close>

definition commRecvMapUpdate :: "posix \<Rightarrow> typed_pipe \<Rightarrow> comm_map_update \<Rightarrow> history
    \<Rightarrow> (int \<times> comm_map_update \<times> history) option" where
  "commRecvMapUpdate K pipe msg h =
     (if tp_fd_in pipe = 0 \<or> tp_type pipe \<noteq> MAP_UPDATE then Some (0, msg, h)
      else
        let (read_ret, hd_bytes, h1) = sys_read K (tp_fd_in pipe) 12 h
        in if read_ret = 12 then
             let msg1 = msg\<lparr>pose_x := be_int hd_bytes, pose_y := be_int (drop 4 hd_bytes),
                            obs_count := be_int (drop 8 hd_bytes)\<rparr>
             in if obs_count msg1 > 0 then
                  let (read_ret2, bs, h2) = sys_read K (tp_fd_in pipe) (2 * obs_count msg1) h1
                  in do {
                    block \<leftarrow> mem_write (hd_bytes @ replicate (nat MAX_TYPED_PIPE_BUFF - 12) 0) 12 bs;
                    if read_ret2 = 2 * obs_count msg1 then
                      do {
                        msg2 \<leftarrow> for_upto 0 (obs_count msg1) (\<lambda>index m. do {
                          x \<leftarrow> aget block (12 + index * 2);
                          y \<leftarrow> aget block (12 + (index * 2 + 1));
                          ox \<leftarrow> aset (obs_x m) index x;
                          oy \<leftarrow> aset (obs_y m) index y;
                          Some (m\<lparr>obs_x := ox, obs_y := oy\<rparr>)
                        }) msg1;
                        Some (read_ret2, msg2, h2)
                      }
                    else Some (read_ret2, msg1, h2)
                  }
                else Some (read_ret, msg1, h1)
           else Some (read_ret, msg, h1))"

subsection \<open>Message buffers\<close>

definition commSendMsgBuffer :: "posix \<Rightarrow> typed_pipe \<Rightarrow> comm_msg_buffer \<Rightarrow> history \<Rightarrow> (int \<times> history) option" where
  "commSendMsgBuffer K pipe msg h =
     (if tp_fd_out pipe = 0 \<or> tp_type pipe \<noteq> MSG_BUFFER then Some (0, h)
      else do {
        bs \<leftarrow> mem_read (message msg) 0 (msg_length msg);
        Some (sys_write K (tp_fd_out pipe) (int_bytes (msg_length msg) @ bs) h)
      })"

text \<open>
  A short read of the length overwrites only its first bytes. The message block is fresh; the bytes
  that are not read keep what \<open>malloc\<close> left there (\<open>g\<close>).
\<close>

definition commRecvMsgBuffer :: "posix \<Rightarrow> (nat \<Rightarrow> byte) \<Rightarrow> typed_pipe \<Rightarrow> comm_msg_buffer \<Rightarrow> history
    \<Rightarrow> (int \<times> comm_msg_buffer \<times> history) option" where
  "commRecvMsgBuffer K g pipe msg h =
     (if tp_fd_in pipe = 0 \<or> tp_type pipe \<noteq> MSG_BUFFER then Some (0, msg, h)
      else
        let (read_ret, bs, h1) = sys_read K (tp_fd_in pipe) 4 h;
            msg1 = msg\<lparr>msg_length := bytes_int (bs @ drop (length bs) (int_bytes (msg_length msg)))\<rparr>
        in if read_ret = 4 then
             let block = map g [0..<nat (msg_length msg1)]
             in if msg_length msg1 > 0 then
                  let (read_ret2, cs, h2) = sys_read K (tp_fd_in pipe) (msg_length msg1) h1
                  in do {
                    block' \<leftarrow> mem_write block 0 cs;
                    Some (read_ret2, msg1\<lparr>message := block'\<rparr>, h2)
                  }
                else Some (read_ret, msg1\<lparr>message := block\<rparr>, h1)
           else Some (read_ret, msg1, h1))"

end
