(* ===== verification/Tas.thy ===== *)
theory Tas
  imports Posix
begin

text \<open>
  The real-time support library: \<open>tas_lib/taslimited.c\<close> (\<open>sched_set_policy\<close> as the voters link
  it, with \<open>NO_PTHREAD\<close>) and \<open>tas_lib/tas_time.c\<close> (the x86 time stamps). Single-precision floats
  are their 32-bit patterns; the operations of the floating-point unit are the parameter
  \<open>fpu\<close>, so nothing is assumed about rounding.
\<close>

record fpu =
  f_of_timestamp :: "timestamp \<Rightarrow> 32 word"
  f_of_long :: "int \<Rightarrow> 32 word"
  f_div :: "32 word \<Rightarrow> 32 word \<Rightarrow> 32 word"
  f_sub :: "32 word \<Rightarrow> 32 word \<Rightarrow> 32 word"
  f_to_long :: "32 word \<Rightarrow> int"

text \<open>A concrete unit for the witnesses: arithmetic on the patterns as integers.\<close>

definition int_fpu :: fpu where
  "int_fpu = \<lparr>f_of_timestamp = ucast, f_of_long = word_of_int, f_div = (\<lambda>x y. x), f_sub = (-), f_to_long = sint\<rparr>"

text \<open>\<open>CPU_MHZ\<close> is 2301.0, as the pattern of a \<open>float\<close>.\<close>

definition CPU_MHZ :: "32 word" where
  "CPU_MHZ = 0x450FD000"

definition generate_timestamp :: "posix \<Rightarrow> history \<Rightarrow> timestamp \<times> history" where
  "generate_timestamp K h = sys_timestamp K h"

definition diff_time :: "fpu \<Rightarrow> timestamp \<Rightarrow> timestamp \<Rightarrow> 32 word \<Rightarrow> 32 word" where
  "diff_time F current previous cpu_mhz =
     (if current > previous then f_div F (f_of_timestamp F (current - previous)) cpu_mhz else 0)"

definition sched_set_policy :: "posix \<Rightarrow> int \<Rightarrow> int \<Rightarrow> history \<Rightarrow> int \<times> history" where
  "sched_set_policy K pid priority h =
     (if priority \<ge> rr_priority_max K then (-1, h)
      else if priority > 0 then
        let (r, h1) = sys_setscheduler K pid SCHED_RR priority h
        in if r = -1 then (-1, h1) else (0, h1)
      else
        let (r, h1) = sys_setscheduler K pid SCHED_OTHER 0 h
        in if r = -1 then (-1, h1)
           else let nice = priority + (priority * -2) - 20;
                    (r2, h2) = sys_setpriority K pid nice h1
                in if r2 < 0 then (-1, h2) else (0, h2))"

text \<open>
  \<open>InitTAS\<close> and \<open>RefreshTAS\<close>: resource limit, CPU, policy, locked pages. Their failures are only
  reported. \<open>forceMaps\<close>, which touches every page of the process, changes no value.
\<close>

definition cpu_bind :: "posix \<Rightarrow> int \<Rightarrow> int \<Rightarrow> history \<Rightarrow> int \<times> history" where
  "cpu_bind K pid cpu h =
     (let (r, h') = sys_call K ''sched_setaffinity'' [pid, cpu] [] h
      in if r = -1 then (3, h') else (0, h'))"

definition RefreshTAS :: "posix \<Rightarrow> history \<Rightarrow> int \<times> history" where
  "RefreshTAS K h = (0, snd (sys_call K ''mlockall'' [] [] h))"

definition InitTAS :: "posix \<Rightarrow> int \<Rightarrow> int \<Rightarrow> history \<Rightarrow> int \<times> history" where
  "InitTAS K cpu priority h =
     (let (pid, h1) = sys_call K ''getpid'' [] [] h;
          h2 = snd (sys_call K ''setrlimit'' [] [] h1);
          h3 = snd (sys_call K ''getrlimit'' [] [] h2);
          h4 = (if cpu < 0 then h3 else snd (cpu_bind K pid cpu h3));
          h5 = snd (sched_set_policy K pid priority h4)
      in RefreshTAS K h5)"

text \<open>Only scheduling calls are made, so nothing is written, read or closed.\<close>

lemma sched_set_policy_hist:
  obtains r es where "sched_set_policy K pid prio h = (r, h @ es)" "r = 0 \<or> r = -1"
    "\<forall>e \<in> set es. \<not> is_write e" "written_to fd es = []" "killed sig es = []"
proof -
  have "\<exists>r es. sched_set_policy K pid prio h = (r, h @ es) \<and> (r = 0 \<or> r = -1)
    \<and> (\<forall>e \<in> set es. \<not> is_write e) \<and> written_to fd es = [] \<and> killed sig es = []"
    by (auto simp: sched_set_policy_def sys_setscheduler_def sys_setpriority_def Let_def)
  then show ?thesis using that by blast
qed

lemma sched_set_policy_nice:
  "prio \<le> 0 \<Longrightarrow> 0 < rr_priority_max K \<Longrightarrow> on_setscheduler K h pid SCHED_OTHER 0 \<noteq> -1 \<Longrightarrow>
   \<exists>r. SysSetpriority pid (- prio - 20) r \<in> set (snd (sched_set_policy K pid prio h))"
  by (auto simp: sched_set_policy_def sys_setscheduler_def sys_setpriority_def Let_def algebra_simps)

end
