(* ===== verification/FdServer.thy ===== *)
theory FdServer
  imports CommTypes Tas
begin

text \<open>
  \<open>src/fd_server.c\<close> and \<open>src/fd_client.c\<close>: the voter hands a replica its pipe ends over a socket,
  the descriptors out of band and their description (types and directions, CPU and priority) in
  band, and the replica answers with its process id.
\<close>

definition typed_pipe_bytes :: "typed_pipe \<Rightarrow> byte list" where
  "typed_pipe_bytes t = int_bytes (comm_code (tp_type t)) @ int_bytes (tp_fd_in t) @ int_bytes (tp_fd_out t)"

text \<open>A type number that is no enumerator selects no pipe in any component, as \<open>COMM_ERROR\<close>.\<close>

definition comm_of_code :: "int \<Rightarrow> comm_message_t" where
  "comm_of_code i =
     (if i = 1 then WAY_REQ else if i = 2 then WAY_RES else if i = 3 then MOV_CMD
      else if i = 4 then RANGE_POSE_DATA else if i = 5 then MAP_UPDATE else if i = 6 then COMM_ACK
      else if i = 7 then MSG_BUFFER else COMM_ERROR)"

definition bytes_typed_pipe :: "byte list \<Rightarrow> typed_pipe" where
  "bytes_typed_pipe bs =
     \<lparr>tp_type = comm_of_code (bytes_int bs), tp_fd_in = bytes_int (drop 4 bs),
      tp_fd_out = bytes_int (drop 8 bs)\<rparr>"

fun bytes_typed_pipes :: "nat \<Rightarrow> byte list \<Rightarrow> typed_pipe list" where
  "bytes_typed_pipes 0 bs = []"
| "bytes_typed_pipes (Suc n) bs = bytes_typed_pipe bs # bytes_typed_pipes n (drop 12 bs)"

section \<open>The server\<close>

definition blank_typed_pipe :: typed_pipe where
  "blank_typed_pipe = \<lparr>tp_type = COMM_ERROR, tp_fd_in = 0, tp_fd_out = 0\<rparr>"

definition fds_payload :: "typed_pipe list \<Rightarrow> int \<Rightarrow> int \<Rightarrow> byte list" where
  "fds_payload pipes pinned_cpu priority =
     concat (map typed_pipe_bytes pipes) @ int_bytes pinned_cpu @ int_bytes priority"

definition sendFDS :: "posix \<Rightarrow> int \<Rightarrow> vote_pipe list \<Rightarrow> int \<Rightarrow> int \<Rightarrow> int \<Rightarrow> history \<Rightarrow> (int \<times> history) option" where
  "sendFDS K connection_fd pipes pipe_count pinned_cpu priority h =
     do {
       send_pipes \<leftarrow> convertVoteToTyped pipes pipe_count (replicate (nat pipe_count) blank_typed_pipe);
       fds \<leftarrow> for_upto 0 pipe_count (\<lambda>i fds. do {
         p \<leftarrow> aget pipes i;
         Some (fds @ [if fd_in p \<noteq> 0 then fd_in p else fd_out p])
       }) [];
       Some (sys_sendmsg K connection_fd (fds_payload send_pipes pinned_cpu priority) fds h)
     }"

text \<open>\<open>createFDS\<close>: a listening socket with the voter's name; the result and \<open>sd->sock_fd\<close>.\<close>

definition createFDS :: "posix \<Rightarrow> string \<Rightarrow> history \<Rightarrow> int \<times> int \<times> history" where
  "createFDS K name h =
     (let actual_name = ''./'' @ name @ ''_fd_server'';
          (sock, h1) = sys_call K ''socket'' [] [] h
      in if sock < 0 then (-1, sock, h1)
         else let h2 = snd (sys_call K ''unlink'' [] actual_name h1)
         in if length actual_name < 100 then
              let (b, h3) = sys_call K ''bind'' [sock] actual_name h2
              in if b \<noteq> 0 then (-1, sock, h3)
                 else let (l, h4) = sys_call K ''listen'' [sock, 5] [] h3
                 in if l \<noteq> 0 then (-1, sock, h4) else (1, sock, h4)
            else (-1, sock, h2))"

text \<open>
  \<open>acceptSendFDS\<close>: the result, the process id (overwritten by as many of its bytes as arrived) and
  the history.
\<close>

definition acceptSendFDS :: "posix \<Rightarrow> int \<Rightarrow> int \<Rightarrow> vote_pipe list \<Rightarrow> int \<Rightarrow> int \<Rightarrow> int \<Rightarrow> history
    \<Rightarrow> (int \<times> int \<times> history) option" where
  "acceptSendFDS K sock_fd pid pipes pipe_count pinned_cpu priority h =
     (let (connection_fd, h1) = sys_accept K sock_fd h
      in if connection_fd > -1 then
           do {
             (sent, h2) \<leftarrow> sendFDS K connection_fd pipes pipe_count pinned_cpu priority h1;
             if sent < 0 then Some (-1, pid, sys_close connection_fd h2)
             else
               let (r, bs, h3) = sys_read K connection_fd 4 h2;
                   pid' = bytes_int (bs @ drop (length bs) (int_bytes pid))
               in Some (if r \<noteq> 4 then -1 else r, if bs = [] then pid else pid', sys_close connection_fd h3)
           }
         else Some (-1, pid, sys_close connection_fd h1))"

section \<open>The client\<close>

text \<open>
  \<open>requestFDS\<close>: what arrives is scattered over the pipe array and the two ints; then every pipe gets
  the descriptor that came with it, on the side the server marked.
\<close>

definition requestFDS :: "posix \<Rightarrow> int \<Rightarrow> typed_pipe list \<Rightarrow> int \<Rightarrow> int \<Rightarrow> int \<Rightarrow> history
    \<Rightarrow> (int \<times> typed_pipe list \<times> int \<times> int \<times> history) option" where
  "requestFDS K sock_fd pipes pipe_count pinned_cpu priority h =
     (let (r, bs, fds, h1) = sys_recvmsg K sock_fd (12 * pipe_count + 8) h;
          mem = bs @ drop (length bs) (fds_payload (take (nat pipe_count) pipes) pinned_cpu priority);
          n = nat pipe_count
      in if r < 0 then Some (-1, pipes, pinned_cpu, priority, h1)
         else do {
           ps \<leftarrow> for_upto 0 pipe_count (\<lambda>i ps. do {
             p \<leftarrow> aget ps i;
             fd \<leftarrow> aget fds i;
             aset ps i (if tp_fd_in p \<noteq> 0 then p\<lparr>tp_fd_in := fd\<rparr> else p\<lparr>tp_fd_out := fd\<rparr>)
           }) (bytes_typed_pipes n mem @ drop n pipes);
           Some (r, ps, bytes_int (drop (12 * n) mem), bytes_int (drop (12 * n + 4) mem), h1)
         })"

text \<open>
  \<open>connectRecvFDS\<close>: connect to the voter's socket, take the pipes over, start the real-time
  set-up with the received CPU and priority, and answer with the process id. The name is copied into
  \<open>sun_path\<close>, 108 bytes of a structure; a longer one overflows it although the check lets
  199 through.
\<close>

definition connectRecvFDS :: "posix \<Rightarrow> int \<Rightarrow> typed_pipe list \<Rightarrow> int \<Rightarrow> string \<Rightarrow> int \<Rightarrow> int \<Rightarrow> history
    \<Rightarrow> (int \<times> typed_pipe list \<times> int \<times> int \<times> history) option" where
  "connectRecvFDS K pid pipes pipe_count name pinned_cpu priority h =
     (let actual_name = ''./'' @ name @ ''_fd_server'';
          (sock, h1) = sys_call K ''socket'' [] [] h
      in if sock < 0 then Some (-1, pipes, pinned_cpu, priority, h1)
         else if \<not> length actual_name < 200 then
           Some (-1, pipes, pinned_cpu, priority, sys_close sock h1)
         else if 108 < length actual_name then None
         else
           let (c, h2) = sys_call K ''connect'' [sock] actual_name h1
           in if c \<noteq> 0 then Some (-1, pipes, pinned_cpu, priority, sys_close sock h2)
              else do {
                (r, pipes', cpu', prio', h3) \<leftarrow> requestFDS K sock pipes pipe_count pinned_cpu priority h2;
                if r < 0 then Some (-1, pipes', cpu', prio', sys_close sock h3)
                else
                  let h4 = snd (InitTAS K cpu' prio' h3);
                      (w, h5) = sys_write K sock (int_bytes pid) h4
                  in Some (if w < 0 then -1 else 0, pipes', cpu', prio', sys_close sock h5)
              })"

end
