(* ===== verification/Replicas.thy ===== *)
theory Replicas
  imports FdServer
begin

text \<open>
  \<open>include/replicas.h\<close> and \<open>src/replicas.c\<close>: the group of replicas of one voter. A C array of
  replicas is a list; the functions return the arrays they change, with the history of their system
  calls.
\<close>

record replica =
  r_pid :: int
  r_priority :: int
  r_pinned_cpu :: int
  r_name :: "string option"
  r_pipe_count :: int
  vot_pipes :: "vote_pipe list"
  voter_rep_in_copy :: "int list"
  rep_pipes :: "vote_pipe list"

text \<open>The CPU configuration of \<open>include/system_config.h\<close>.\<close>

definition QUAD_PIN_POLICY :: int where "QUAD_PIN_POLICY = -2"
definition CONTROLLER_PIN :: int where "CONTROLLER_PIN = QUAD_PIN_POLICY"

text \<open>Updating one pipe of a replica in place.\<close>

definition upd_vot_pipe :: "replica \<Rightarrow> int \<Rightarrow> vote_pipe \<Rightarrow> replica option" where
  "upd_vot_pipe r i p = do { ps \<leftarrow> aset (vot_pipes r) i p; Some (r\<lparr>vot_pipes := ps\<rparr>) }"

definition upd_rep_pipe :: "replica \<Rightarrow> int \<Rightarrow> vote_pipe \<Rightarrow> replica option" where
  "upd_rep_pipe r i p = do { ps \<leftarrow> aset (rep_pipes r) i p; Some (r\<lparr>rep_pipes := ps\<rparr>) }"

section \<open>Setting replicas up and taking them down\<close>

definition initReplica :: "int \<Rightarrow> string \<Rightarrow> int \<Rightarrow> replica \<Rightarrow> history \<Rightarrow> (replica \<times> history) option" where
  "initReplica index name priority rep h =
     do {
       (rep', h') \<leftarrow> for_upto 0 (r_pipe_count rep) (\<lambda>jndex (r, h). do {
         v \<leftarrow> aget (vot_pipes r) jndex;
         let (v', h1) = resetVotePipe v h;
         r1 \<leftarrow> upd_vot_pipe r jndex v';
         p \<leftarrow> aget (rep_pipes r1) jndex;
         let (p', h2) = resetVotePipe p h1;
         r2 \<leftarrow> upd_rep_pipe r1 jndex p';
         Some (r2, h2)
       }) (rep\<lparr>r_name := Some name, r_pid := -1, r_priority := priority,
              r_pinned_cpu := (if CONTROLLER_PIN = QUAD_PIN_POLICY then index + 1 else CONTROLLER_PIN)\<rparr>, h);
       Some (rep'\<lparr>r_pipe_count := 0\<rparr>, h')
     }"

definition initReplicas :: "replica list \<Rightarrow> int \<Rightarrow> string \<Rightarrow> int \<Rightarrow> history \<Rightarrow> (replica list \<times> history) option" where
  "initReplicas reps rep_num name priority h =
     for_upto 0 rep_num (\<lambda>index (reps, h). do {
       r \<leftarrow> aget reps index;
       (r', h') \<leftarrow> initReplica index name priority r h;
       reps' \<leftarrow> aset reps index r';
       Some (reps', h')
     }) (reps, h)"

definition close_if_open :: "int \<Rightarrow> history \<Rightarrow> history" where
  "close_if_open fd h = (if fd > 0 then sys_close fd h else h)"

definition cleanupReplica :: "posix \<Rightarrow> replica list \<Rightarrow> int \<Rightarrow> history \<Rightarrow> history option" where
  "cleanupReplica K reps rep_index h =
     do {
       rep \<leftarrow> aget reps rep_index;
       let (ret, h1) = sys_kill K (r_pid rep) SIGKILL h;
       for_upto 0 (r_pipe_count rep) (\<lambda>i h. do {
         v \<leftarrow> aget (vot_pipes rep) i;
         p \<leftarrow> aget (rep_pipes rep) i;
         Some (close_if_open (fd_out p) (close_if_open (fd_in p)
                (close_if_open (fd_out v) (close_if_open (fd_in v) h))))
       }) h1
     }"

text \<open>
  One pipe per external pipe: the voter keeps the write end of a pipe towards the replica and the
  read end of a pipe from it. Where \<open>pipe\<close> fails the slot keeps its old descriptors.
\<close>

definition createPipe :: "posix \<Rightarrow> vote_pipe list \<Rightarrow> int \<Rightarrow> replica \<times> history \<Rightarrow> (replica \<times> history) option" where
  "createPipe K ext_pipes p_index = (\<lambda>(rep, h).
     case sys_pipe K h of
       (None, h1) \<Rightarrow> Some (rep, h1)
     | (Some (fd0, fd1), h1) \<Rightarrow> do {
         ext_pipe \<leftarrow> aget ext_pipes p_index;
         v \<leftarrow> aget (vot_pipes rep) p_index;
         p \<leftarrow> aget (rep_pipes rep) p_index;
         let incoming = (fd_in ext_pipe \<noteq> 0);
         r1 \<leftarrow> upd_vot_pipe rep p_index
           (v\<lparr>rep_info := rep_info ext_pipe,
              fd_in := (if incoming then 0 else fd0), fd_out := (if incoming then fd1 else 0)\<rparr>);
         r2 \<leftarrow> upd_rep_pipe r1 p_index
           (p\<lparr>rep_info := rep_info ext_pipe,
              fd_in := (if incoming then fd0 else 0), fd_out := (if incoming then 0 else fd1)\<rparr>);
         copies \<leftarrow> aset (voter_rep_in_copy r2) p_index (if incoming then fd0 else 0);
         Some (r2\<lparr>voter_rep_in_copy := copies, r_pipe_count := p_index + 1\<rparr>, h1)
       })"

definition createPipes :: "posix \<Rightarrow> replica list \<Rightarrow> int \<Rightarrow> vote_pipe list \<Rightarrow> int \<Rightarrow> history
    \<Rightarrow> (replica list \<times> history) option" where
  "createPipes K reps num ext_pipes pipe_count h =
     for_upto 0 num (\<lambda>index (reps, h). do {
       r \<leftarrow> aget reps index;
       (r', h') \<leftarrow> for_upto 0 pipe_count (createPipe K ext_pipes) (r, h);
       reps' \<leftarrow> aset reps index r';
       Some (reps', h')
     }) (reps, h)"

definition forkReplicas :: "posix \<Rightarrow> replica list \<Rightarrow> int \<Rightarrow> string list \<Rightarrow> history
    \<Rightarrow> (replica list \<times> history) option" where
  "forkReplicas K reps num additional_argv h =
     for_upto 0 num (\<lambda>index (reps, h). do {
       curr \<leftarrow> aget reps index;
       name \<leftarrow> r_name curr;
       let (pid, h') = sys_fork_exec K
         ([name, show_int (r_priority curr), show_int (r_pipe_count curr)] @ additional_argv) h;
       reps' \<leftarrow> aset reps index (curr\<lparr>r_pid := pid\<rparr>);
       Some (reps', h')
     }) (reps, h)"

text \<open>The first component is false when the process has exited because a hand-over failed.\<close>

fun accept_all :: "posix \<Rightarrow> int \<Rightarrow> nat \<Rightarrow> int \<Rightarrow> replica list \<Rightarrow> history
    \<Rightarrow> (bool \<times> replica list \<times> history) option" where
  "accept_all K sock 0 i reps h = Some (True, reps, h)"
| "accept_all K sock (Suc n) i reps h =
     do {
       r \<leftarrow> aget reps i;
       (ret, pid, h') \<leftarrow> acceptSendFDS K sock (r_pid r) (rep_pipes r) (r_pipe_count r)
                            (r_pinned_cpu r) (r_priority r) h;
       reps' \<leftarrow> aset reps i (r\<lparr>r_pid := pid\<rparr>);
       if ret < 0 then Some (False, reps', h') else accept_all K sock n (i + 1) reps' h'
     }"

definition startReplicas :: "posix \<Rightarrow> replica list \<Rightarrow> int \<Rightarrow> int \<Rightarrow> string \<Rightarrow> vote_pipe list \<Rightarrow> int \<Rightarrow> int
    \<Rightarrow> history \<Rightarrow> (bool \<times> replica list \<times> history) option" where
  "startReplicas K reps num sock name ext_pipes pipe_count default_priority h =
     do {
       (reps1, h1) \<leftarrow> initReplicas reps num name default_priority h;
       (reps2, h2) \<leftarrow> createPipes K reps1 num ext_pipes pipe_count h1;
       (reps3, h3) \<leftarrow> forkReplicas K reps2 num [] h2;
       accept_all K sock (nat num) 0 reps3 h3
     }"

section \<open>How far the replicas are\<close>

definition pipe_of :: "replica list \<Rightarrow> int \<Rightarrow> int \<Rightarrow> vote_pipe option" where
  "pipe_of reps r p = do { rep \<leftarrow> aget reps r; aget (vot_pipes rep) p }"

definition count_of :: "replica list \<Rightarrow> int \<Rightarrow> int \<Rightarrow> int option" where
  "count_of reps r p = do { v \<leftarrow> pipe_of reps r p; Some (buff_count v) }"

definition bytesReady :: "replica list \<Rightarrow> int \<Rightarrow> int \<Rightarrow> int option" where
  "bytesReady reps num pipe_num =
     for_upto 0 num (\<lambda>r_index m. do {
       c \<leftarrow> count_of reps r_index pipe_num;
       Some (if c < m then c else m)
     }) MAX_VOTE_PIPE_BUFF"

definition aheadRep :: "replica list \<Rightarrow> int \<Rightarrow> int \<Rightarrow> int option" where
  "aheadRep reps num pipe_num =
     for_upto 0 num (\<lambda>r_index mostAhead. do {
       c \<leftarrow> count_of reps r_index pipe_num;
       a \<leftarrow> count_of reps mostAhead pipe_num;
       Some (if c > a then r_index else mostAhead)
     }) 0"

definition behindRep :: "replica list \<Rightarrow> int \<Rightarrow> int \<Rightarrow> int option" where
  "behindRep reps num pipe_num =
     for_upto 1 num (\<lambda>r_index mostBehind. do {
       c \<leftarrow> count_of reps r_index pipe_num;
       b \<leftarrow> count_of reps mostBehind pipe_num;
       if c < b then Some r_index
       else if c = b then do {
         r \<leftarrow> aget reps r_index;
         m \<leftarrow> aget reps mostBehind;
         Some (if r_priority r > r_priority m then r_index else mostBehind)
       }
       else Some mostBehind
     }) 0"

definition rep_gap :: "replica list \<Rightarrow> int \<Rightarrow> int \<Rightarrow> int option" where
  "rep_gap reps num rep_num =
     do {
       first \<leftarrow> aget reps 0;
       for_upto 0 (r_pipe_count first) (\<lambda>p_index gap. do {
         v \<leftarrow> pipe_of reps 0 p_index;
         if fd_in v \<noteq> 0 then do {
           a \<leftarrow> aheadRep reps num p_index;
           ac \<leftarrow> count_of reps a p_index;
           c \<leftarrow> count_of reps rep_num p_index;
           Some (gap + (ac - c))
         }
         else Some gap
       }) 0
     }"

text \<open>Setting the priority of one replica, as far as the scheduler lets it.\<close>

definition set_rep_priority :: "posix \<Rightarrow> int \<Rightarrow> int \<Rightarrow> replica list \<times> history \<Rightarrow> (replica list \<times> history) option" where
  "set_rep_priority K index priority = (\<lambda>(reps, h). do {
     r \<leftarrow> aget reps index;
     let (ret, h') = sched_set_policy K (r_pid r) priority h;
     if ret < 0 then Some (reps, h')
     else do { reps' \<leftarrow> aset reps index (r\<lparr>r_priority := priority\<rparr>); Some (reps', h') }
   })"

definition pick_starting :: "replica list \<Rightarrow> int \<Rightarrow> (int \<times> int) option" where
  "pick_starting reps num =
     for_upto 0 num (\<lambda>index (starting, second). do {
       g \<leftarrow> rep_gap reps num index;
       gs \<leftarrow> rep_gap reps num starting;
       if g > gs then Some (index, second)
       else do {
         g2 \<leftarrow> rep_gap reps num second;
         if g > g2 then Some (starting, if index \<noteq> starting then index else second)
         else Some (starting, second)
       }
     }) (0, 1)"

definition balance_priority :: "int \<Rightarrow> int \<Rightarrow> int \<Rightarrow> int \<Rightarrow> int" where
  "balance_priority starting second default_priority index =
     (if index = starting then default_priority + 2
      else if index = second then default_priority + 1
      else default_priority)"

definition balanceReps :: "posix \<Rightarrow> replica list \<Rightarrow> int \<Rightarrow> int \<Rightarrow> history \<Rightarrow> (replica list \<times> history) option" where
  "balanceReps K reps num default_priority h =
     (if num < 2 then Some (reps, h)
      else do {
        (starting, second) \<leftarrow> pick_starting reps num;
        for_upto 0 num (\<lambda>index.
          set_rep_priority K index (balance_priority starting second default_priority index)) (reps, h)
      })"

section \<open>Restarting one replica from another\<close>

text \<open>
  The restarter is told to fork itself; the voter re-initialises the failed replica's record as an
  array of length one, gives it fresh pipes and hands them to the new process. The result of that
  hand-over is not looked at.
\<close>

definition restartReplica :: "posix \<Rightarrow> replica list \<Rightarrow> int \<Rightarrow> int \<Rightarrow> vote_pipe list \<Rightarrow> int \<Rightarrow> int \<Rightarrow> int
    \<Rightarrow> history \<Rightarrow> (replica list \<times> history) option" where
  "restartReplica K reps num sock ext_pipes restarter restartee default_priority h =
     do {
       h1 \<leftarrow> cleanupReplica K reps restartee h;
       (reps1, h2) \<leftarrow> for_upto 0 num (\<lambda>i s.
         if i \<noteq> restartee then
           set_rep_priority K i (if i = restarter then default_priority + 2 else default_priority) s
         else Some s) (reps, h1);
       healthy \<leftarrow> aget reps1 restarter;
       let (ret, h3) = sys_kill K (r_pid healthy) RESTART_SIGNAL h2;
       failed \<leftarrow> aget reps1 restartee;
       name \<leftarrow> r_name healthy;
       (one, h4) \<leftarrow> initReplicas [failed] 1 name default_priority h3;
       (one', h5) \<leftarrow> createPipes K one 1 ext_pipes (r_pipe_count healthy) h4;
       fresh \<leftarrow> aget one' 0;
       (acc, pid, h6) \<leftarrow> acceptSendFDS K sock (r_pid fresh) (rep_pipes fresh) (r_pipe_count fresh)
                            (r_pinned_cpu fresh) (r_priority fresh) h5;
       reps2 \<leftarrow> aset reps1 restartee (fresh\<lparr>r_pid := pid\<rparr>);
       balanceReps K reps2 num default_priority h6
     }"

section \<open>Well-formed replica groups\<close>

text \<open>
  \<open>wf_rep n\<close>: the arrays of a replica have \<open>n\<close> slots, as many of them in use as \<open>r_pipe_count\<close>
  says, and its vote pipes are well formed. \<open>wf_reps n num\<close>: so are the first \<open>num\<close> replicas.
\<close>

definition wf_rep :: "nat \<Rightarrow> replica \<Rightarrow> bool" where
  "wf_rep n r \<longleftrightarrow> length (vot_pipes r) = n \<and> length (rep_pipes r) = n \<and> length (voter_rep_in_copy r) = n
     \<and> 0 \<le> r_pipe_count r \<and> r_pipe_count r \<le> int n \<and> (\<forall>v \<in> set (vot_pipes r). wf_pipe v)"

definition wf_reps :: "nat \<Rightarrow> nat \<Rightarrow> replica list \<Rightarrow> bool" where
  "wf_reps n num reps \<longleftrightarrow> num \<le> length reps \<and> (\<forall>r < num. wf_rep n (reps ! r))"

definition vpipe :: "replica list \<Rightarrow> nat \<Rightarrow> nat \<Rightarrow> vote_pipe" where
  "vpipe reps r p = vot_pipes (reps ! r) ! p"

lemma wf_repsD: "wf_reps n num reps \<Longrightarrow> r < num \<Longrightarrow> r < length reps \<and> wf_rep n (reps ! r)"
  by (auto simp: wf_reps_def)

lemma wf_rep_pipe: "wf_rep n r \<Longrightarrow> p < n \<Longrightarrow> wf_pipe (vot_pipes r ! p)"
  by (auto simp: wf_rep_def)

lemma wf_reps_pipe: "wf_reps n num reps \<Longrightarrow> r < num \<Longrightarrow> p < n \<Longrightarrow> wf_pipe (vpipe reps r p)"
  unfolding vpipe_def by (auto dest: wf_repsD intro: wf_rep_pipe)

lemma pipe_of_wf [simp]:
  assumes "wf_reps n num reps" "r < num" "p < n"
  shows "pipe_of reps (int r) (int p) = Some (vpipe reps r p)"
    "count_of reps (int r) (int p) = Some (buff_count (vpipe reps r p))"
proof -
  have "r < length reps" "p < length (vot_pipes (reps ! r))"
    using wf_repsD [OF assms(1,2)] assms(3) by (auto simp: wf_rep_def)
  then show "pipe_of reps (int r) (int p) = Some (vpipe reps r p)"
    by (simp add: pipe_of_def vpipe_def)
  then show "count_of reps (int r) (int p) = Some (buff_count (vpipe reps r p))"
    by (simp add: count_of_def)
qed

lemma count_bounds:
  "wf_reps n num reps \<Longrightarrow> r < num \<Longrightarrow> p < n \<Longrightarrow>
   0 \<le> buff_count (vpipe reps r p) \<and> buff_count (vpipe reps r p) < MAX_VOTE_PIPE_BUFF"
  using wf_reps_pipe by (auto simp: wf_pipe_def)

section \<open>The scores\<close>

lemma bytesReady_eq:
  assumes wf: "wf_reps n num reps" and p: "p < n" and num: "0 < num"
  shows "bytesReady reps (int num) (int p) = Some (Min ((\<lambda>r. buff_count (vpipe reps r p)) ` {..<num}))"
proof -
  let ?c = "\<lambda>r. buff_count (vpipe reps r p)"
  have "\<exists>m. bytesReady reps (int num) (int p) = Some m \<and> m = Min (insert MAX_VOTE_PIPE_BUFF (?c ` {..<num}))"
    unfolding bytesReady_def
  proof (rule for_upto_nat [where P = "\<lambda>i m. m = Min (insert MAX_VOTE_PIPE_BUFF (?c ` {..<i}))"])
    fix i m assume i: "i < num" "m = Min (insert MAX_VOTE_PIPE_BUFF (?c ` {..<i}))"
    have "insert MAX_VOTE_PIPE_BUFF (?c ` {..<Suc i}) = insert (?c i) (insert MAX_VOTE_PIPE_BUFF (?c ` {..<i}))"
      by (auto simp: lessThan_Suc)
    then have "Min (insert MAX_VOTE_PIPE_BUFF (?c ` {..<Suc i})) = min (?c i) m"
      using i(2) by (simp add: Min_insert)
    then show "\<exists>s'. do { c \<leftarrow> count_of reps (int i) (int p); Some (if c < m then c else m) } = Some s' \<and>
        s' = Min (insert MAX_VOTE_PIPE_BUFF (?c ` {..<Suc i}))"
      using i(1) wf p by (simp add: min_def)
  qed simp
  moreover have "Min (insert MAX_VOTE_PIPE_BUFF (?c ` {..<num})) = Min (?c ` {..<num})"
  proof -
    have "Min (?c ` {..<num}) \<le> ?c 0" using num by (intro Min_le) auto
    also have "\<dots> < MAX_VOTE_PIPE_BUFF" using count_bounds [OF wf _ p] num by blast
    finally have lt: "Min (?c ` {..<num}) < MAX_VOTE_PIPE_BUFF" .
    have "finite (?c ` {..<num})" "?c ` {..<num} \<noteq> {}" using num by auto
    then have "Min (insert MAX_VOTE_PIPE_BUFF (?c ` {..<num})) = min MAX_VOTE_PIPE_BUFF (Min (?c ` {..<num}))"
      by (rule Min_insert)
    with lt show ?thesis by (simp only: min_def not_le [symmetric] if_False)
  qed
  ultimately show ?thesis by simp
qed

lemma bytesReady_cases:
  assumes "wf_reps n num reps" "p < n" "0 < num"
  obtains m where "bytesReady reps (int num) (int p) = Some m" "0 \<le> m" "m < MAX_VOTE_PIPE_BUFF"
    "\<And>r. r < num \<Longrightarrow> m \<le> buff_count (vpipe reps r p)"
    "\<exists>r < num. m = buff_count (vpipe reps r p)"
proof -
  let ?c = "\<lambda>r. buff_count (vpipe reps r p)"
  let ?S = "?c ` {..<num}"
  have fin: "finite ?S" "?S \<noteq> {}" using assms(3) by auto
  have "Min ?S \<in> ?S" using fin by (rule Min_in)
  then obtain r where r: "r < num" "Min ?S = ?c r" by blast
  have le: "Min ?S \<le> ?c k" if "k < num" for k
    using fin(1) that by (intro Min_le) auto
  show ?thesis
    by (rule that [OF bytesReady_eq [OF assms]])
      (use r le count_bounds [OF assms(1) r(1) assms(2)] in auto)
qed

lemma aheadRep_max:
  assumes wf: "wf_reps n num reps" and p: "p < n" and num: "0 < num"
  obtains a where "aheadRep reps (int num) (int p) = Some (int a)" "a < num"
    "\<And>r. r < num \<Longrightarrow> buff_count (vpipe reps r p) \<le> buff_count (vpipe reps a p)"
proof -
  let ?c = "\<lambda>r. buff_count (vpipe reps r p)"
  have "\<exists>m. aheadRep reps (int num) (int p) = Some m
    \<and> (\<exists>a. m = int a \<and> a < num \<and> (\<forall>r < num. ?c r \<le> ?c a))"
    unfolding aheadRep_def
  proof (rule for_upto_nat [where P = "\<lambda>i m. \<exists>a. m = int a \<and> a < num \<and> (\<forall>r < i. ?c r \<le> ?c a)"])
    fix i m assume i: "i < num" and "\<exists>a. m = int a \<and> a < num \<and> (\<forall>r < i. ?c r \<le> ?c a)"
    then obtain a where a: "m = int a" "a < num" "\<forall>r < i. ?c r \<le> ?c a" by blast
    have "\<forall>r < Suc i. ?c r \<le> ?c (if ?c a < ?c i then i else a)"
      using a(3) by (auto simp: less_Suc_eq)
    then show "\<exists>s'. do { c \<leftarrow> count_of reps (int i) (int p); b \<leftarrow> count_of reps m (int p);
          Some (if b < c then int i else m) } = Some s' \<and>
        (\<exists>a. s' = int a \<and> a < num \<and> (\<forall>r < Suc i. ?c r \<le> ?c a))"
      using i wf p a by (auto split: if_splits)
  qed (use num in auto)
  then show ?thesis using that by blast
qed

text \<open>The replica that is behind: fewest bytes, and among those the highest priority.\<close>

lemma behindRep_eq:
  assumes wf: "wf_reps n num reps" and p: "p < n" and num: "0 < num"
  shows "\<exists>b < num. behindRep reps (int num) (int p) = Some (int b)
    \<and> (\<forall>r < num. buff_count (vpipe reps b p) \<le> buff_count (vpipe reps r p))
    \<and> (\<forall>r < num. buff_count (vpipe reps r p) = buff_count (vpipe reps b p)
         \<longrightarrow> r_priority (reps ! r) \<le> r_priority (reps ! b))"
proof -
  let ?c = "\<lambda>r. buff_count (vpipe reps r p)"
  let ?pr = "\<lambda>r. r_priority (reps ! r)"
  let ?best = "\<lambda>i b. b < num \<and> (\<forall>r < i. ?c b < ?c r \<or> ?c b = ?c r \<and> ?pr r \<le> ?pr b)"
  have "\<exists>m. behindRep reps (int num) (int p) = Some m \<and> (\<exists>b. m = int b \<and> ?best (nat (int num)) b)"
    unfolding behindRep_def
  proof (rule for_upto_rule [where P = "\<lambda>i m. \<exists>b. m = int b \<and> ?best (nat i) b"])
    show "1 \<le> int num" "\<exists>b. 0 = int b \<and> ?best (nat 1) b" using num by auto
  next
    fix k m assume k: "1 \<le> k" "k < int num" and "\<exists>b. m = int b \<and> ?best (nat k) b"
    then obtain b where b: "m = int b" "?best (nat k) b" by blast
    obtain i where i: "k = int i" "i < num" using k by (metis nat_0_le zero_le_one order_trans of_nat_less_iff)
    have len: "i < length reps" "b < length reps"
      using wf_repsD [OF wf] i b by auto
    let ?b' = "if ?c i < ?c b \<or> ?c i = ?c b \<and> ?pr b < ?pr i then i else b"
    have "?best (Suc i) ?b'"
      using b(2) i by (auto simp: less_Suc_eq)
    moreover have "nat (k + 1) = Suc i" using i by simp
    moreover have "do { c \<leftarrow> count_of reps k (int p); d \<leftarrow> count_of reps m (int p);
        if c < d then Some k
        else if c = d then do { r \<leftarrow> aget reps k; m' \<leftarrow> aget reps m;
          Some (if r_priority m' < r_priority r then k else m) }
        else Some m } = Some (int ?b')"
      using b i wf p len by simp
    ultimately show "\<exists>s'. do { c \<leftarrow> count_of reps k (int p); d \<leftarrow> count_of reps m (int p);
        if c < d then Some k
        else if c = d then do { r \<leftarrow> aget reps k; m' \<leftarrow> aget reps m;
          Some (if r_priority m' < r_priority r then k else m) }
        else Some m } = Some s' \<and> (\<exists>b. s' = int b \<and> ?best (nat (k + 1)) b)"
      by auto
  qed
  then obtain b where b: "behindRep reps (int num) (int p) = Some (int b)" "?best num b" by auto
  then show ?thesis by (intro exI [of _ b]) (fastforce simp: order_le_less)
qed

section \<open>Balancing\<close>

text \<open>How far replica \<open>r\<close> lies behind the leader, summed over the pipes that come from the replicas.\<close>

definition pipe_gap :: "replica list \<Rightarrow> nat \<Rightarrow> nat \<Rightarrow> nat \<Rightarrow> int" where
  "pipe_gap reps num r p =
     (if fd_in (vpipe reps 0 p) \<noteq> 0
      then Max ((\<lambda>k. buff_count (vpipe reps k p)) ` {..<num}) - buff_count (vpipe reps r p) else 0)"

definition gap :: "replica list \<Rightarrow> nat \<Rightarrow> nat \<Rightarrow> int" where
  "gap reps num r = (\<Sum>p < nat (r_pipe_count (reps ! 0)). pipe_gap reps num r p)"

lemma rep_gap_eq:
  assumes wf: "wf_reps n num reps" and r: "r < num"
  shows "rep_gap reps (int num) (int r) = Some (gap reps num r)"
proof -
  define c where "c = nat (r_pipe_count (reps ! 0))"
  have w0: "wf_rep n (reps ! 0)" "0 < length reps" using wf_repsD [OF wf, of 0] r by auto
  have c: "r_pipe_count (reps ! 0) = int c" "c \<le> n" using w0 by (auto simp: wf_rep_def c_def)
  have first: "aget reps 0 = Some (reps ! 0)" using aget_int [OF w0(2)] by simp
  have "\<exists>g. rep_gap reps (int num) (int r) = Some g \<and> g = (\<Sum>p < c. pipe_gap reps num r p)"
    unfolding rep_gap_def first Option.bind.simps c(1)
  proof (rule for_upto_nat [where P = "\<lambda>i g. g = (\<Sum>p < i. pipe_gap reps num r p)"])
    fix i g assume i: "i < c" and g: "g = (\<Sum>p < i. pipe_gap reps num r p)"
    have p: "i < n" using i c by simp
    obtain a where a: "aheadRep reps (int num) (int i) = Some (int a)" "a < num"
      "\<And>k. k < num \<Longrightarrow> buff_count (vpipe reps k i) \<le> buff_count (vpipe reps a i)"
      using aheadRep_max [OF wf p] r by (metis le_less_trans le0)
    have "Max ((\<lambda>k. buff_count (vpipe reps k i)) ` {..<num}) = buff_count (vpipe reps a i)"
      using a(2,3) by (intro Max_eqI) auto
    moreover have "pipe_of reps 0 (int i) = Some (vpipe reps 0 i)"
      using pipe_of_wf(1) [OF wf _ p, of 0] r by simp
    ultimately show "\<exists>s'. do { v \<leftarrow> pipe_of reps 0 (int i);
        if fd_in v \<noteq> 0 then do { a \<leftarrow> aheadRep reps (int num) (int i); ac \<leftarrow> count_of reps a (int i);
          c \<leftarrow> count_of reps (int r) (int i); Some (g + (ac - c)) } else Some g } = Some s'
      \<and> s' = (\<Sum>p < Suc i. pipe_gap reps num r p)"
      using a(1,2) wf p r g by (simp add: pipe_gap_def)
  qed simp
  then show ?thesis by (simp add: gap_def c_def)
qed

text \<open>The starting replica has the largest gap, and the first of these.\<close>

lemma pick_starting_max:
  assumes wf: "wf_reps n num reps" and num: "2 \<le> num"
  shows "\<exists>st sec. pick_starting reps (int num) = Some (int st, int sec) \<and> st < num \<and> sec < num
    \<and> (\<forall>r < num. gap reps num r \<le> gap reps num st)
    \<and> (\<forall>r < st. gap reps num r < gap reps num st)"
proof -
  let ?g = "gap reps num"
  let ?P = "\<lambda>i p. \<exists>st sec. p = (int st, int sec) \<and> st < num \<and> sec < num
     \<and> (\<forall>r < i. ?g r \<le> ?g st) \<and> (\<forall>r < st. ?g r < ?g st)"
  have "\<exists>p. pick_starting reps (int num) = Some p \<and> ?P num p"
    unfolding pick_starting_def
  proof (rule for_upto_nat [where P = ?P])
    show "?P 0 (0, 1)" using num by (intro exI [of _ 0] exI [of _ 1]) simp
  next
    fix i p assume i: "i < num" and "?P i p"
    then obtain st sec where st: "p = (int st, int sec)" "st < num" "sec < num"
      "\<forall>r < i. ?g r \<le> ?g st" "\<forall>r < st. ?g r < ?g st" by blast
    note eqs = rep_gap_eq [OF wf i] rep_gap_eq [OF wf st(2)] rep_gap_eq [OF wf st(3)]
    let ?st' = "if ?g st < ?g i then i else st"
    let ?sec' = "if \<not> ?g st < ?g i \<and> ?g sec < ?g i \<and> i \<noteq> st then i else sec"
    have step: "(case p of (starting, second) \<Rightarrow> do {
        g \<leftarrow> rep_gap reps (int num) (int i);
        gs \<leftarrow> rep_gap reps (int num) starting;
        if gs < g then Some (int i, second)
        else do {
          g2 \<leftarrow> rep_gap reps (int num) second;
          if g2 < g then Some (starting, if int i \<noteq> starting then int i else second)
          else Some (starting, second)
        } }) = Some (int ?st', int ?sec')"
      by (simp add: st(1) eqs)
    have "\<forall>r < Suc i. ?g r \<le> ?g ?st'" "\<forall>r < ?st'. ?g r < ?g ?st'"
      using st(4,5) by (auto simp: less_Suc_eq intro: less_imp_le le_less_trans)
    then have "?P (Suc i) (int ?st', int ?sec')"
      using st(2,3) i by (intro exI [of _ ?st'] exI [of _ ?sec']) simp
    then show "\<exists>s'. (case p of (starting, second) \<Rightarrow> do {
        g \<leftarrow> rep_gap reps (int num) (int i);
        gs \<leftarrow> rep_gap reps (int num) starting;
        if gs < g then Some (int i, second)
        else do {
          g2 \<leftarrow> rep_gap reps (int num) second;
          if g2 < g then Some (starting, if int i \<noteq> starting then int i else second)
          else Some (starting, second)
        } }) = Some s' \<and> ?P (Suc i) s'"
      using step by blast
  qed
  then show ?thesis by blast
qed

text \<open>Groups that differ in the priorities only: all that balancing changes.\<close>

definition prio_eq :: "replica list \<Rightarrow> replica list \<Rightarrow> bool" where
  "prio_eq a b \<longleftrightarrow> length a = length b \<and> (\<forall>i < length a. \<exists>x. b ! i = (a ! i)\<lparr>r_priority := x\<rparr>)"

lemma own_priority: "\<exists>x. r = r\<lparr>r_priority := x\<rparr>" for r :: replica
  by (rule exI [of _ "r_priority r"]) simp

lemma prio_eq_refl [simp]: "prio_eq a a"
  using own_priority by (auto simp: prio_eq_def)

lemma prio_eq_trans [trans]: "prio_eq a b \<Longrightarrow> prio_eq b c \<Longrightarrow> prio_eq a c"
  by (fastforce simp: prio_eq_def)

lemma prio_eq_update: "i < length a \<Longrightarrow> prio_eq a (a[i := (a ! i)\<lparr>r_priority := x\<rparr>])"
  using own_priority by (auto simp: prio_eq_def nth_list_update)

lemma prio_eqD:
  assumes "prio_eq a b" "i < length a"
  shows "vot_pipes (b ! i) = vot_pipes (a ! i)" "rep_pipes (b ! i) = rep_pipes (a ! i)"
    "voter_rep_in_copy (b ! i) = voter_rep_in_copy (a ! i)" "r_pipe_count (b ! i) = r_pipe_count (a ! i)"
    "r_pid (b ! i) = r_pid (a ! i)" "r_name (b ! i) = r_name (a ! i)"
  using assms by (auto simp: prio_eq_def)

lemma prio_eq_length: "prio_eq a b \<Longrightarrow> length b = length a"
  by (simp add: prio_eq_def)

lemma prio_eq_vpipe: "prio_eq a b \<Longrightarrow> r < length a \<Longrightarrow> vpipe b r p = vpipe a r p"
  by (simp add: vpipe_def prio_eqD)

lemma prio_eq_wf [wf_intros]: "prio_eq a b \<Longrightarrow> wf_reps n num a \<Longrightarrow> wf_reps n num b"
  by (auto simp: wf_reps_def wf_rep_def prio_eqD prio_eq_length)

lemma sched_set_policy_sched:
  obtains r es where "sched_set_policy K pid prio h = (r, h @ es)" "r = 0 \<or> r = -1" "list_all is_silent es"
proof -
  have "\<exists>r es. sched_set_policy K pid prio h = (r, h @ es) \<and> (r = 0 \<or> r = -1) \<and> list_all is_silent es"
    by (auto simp: sched_set_policy_def sys_setscheduler_def sys_setpriority_def Let_def)
  then show ?thesis using that by blast
qed

lemma set_rep_priority_eq:
  assumes "i < length reps"
  obtains es where "list_all is_silent es"
    "set_rep_priority K (int i) prio (reps, h) =
      Some (if fst (sched_set_policy K (r_pid (reps ! i)) prio h) < 0 then reps
            else reps[i := (reps ! i)\<lparr>r_priority := prio\<rparr>], h @ es)"
proof (rule sched_set_policy_sched)
  fix r es assume "sched_set_policy K (r_pid (reps ! i)) prio h = (r, h @ es)" "r = 0 \<or> r = -1"
    "list_all is_silent es"
  then show ?thesis using that [of es] assms by (auto simp: set_rep_priority_def)
qed

text \<open>A loop that sets priorities, as \<open>balanceReps\<close> and \<open>restartReplica\<close> have it.\<close>

lemma set_priorities_loop:
  assumes "num \<le> length reps"
    and body: "\<And>i s. i < num \<Longrightarrow> f (int i) s = (if skip i then Some s else set_rep_priority K (int i) (pr i) s)"
  shows "\<exists>reps' es. for_upto 0 (int num) f (reps, h) = Some (reps', h @ es) \<and> prio_eq reps reps'
    \<and> list_all is_silent es
    \<and> ((\<forall>pid h. \<forall>i < num. 0 \<le> fst (sched_set_policy K pid (pr i) h)) \<longrightarrow>
         (\<forall>i < num. \<not> skip i \<longrightarrow> r_priority (reps' ! i) = pr i))"
proof -
  let ?acc = "\<forall>pid h. \<forall>i < num. 0 \<le> fst (sched_set_policy K pid (pr i) h)"
  let ?P = "\<lambda>k s. \<exists>reps' es. s = (reps', h @ es) \<and> prio_eq reps reps' \<and> list_all is_silent es
    \<and> (?acc \<longrightarrow> (\<forall>i < k. \<not> skip i \<longrightarrow> r_priority (reps' ! i) = pr i))"
  have "\<exists>s'. for_upto 0 (int num) f (reps, h) = Some s' \<and> ?P num s'"
  proof (rule for_upto_nat [where P = ?P])
    show "?P 0 (reps, h)" by (intro exI [of _ reps] exI [of _ "[]"]) simp
  next
    fix i s assume i: "i < num" and "?P i s"
    then obtain a es where a: "s = (a, h @ es)" "prio_eq reps a" "list_all is_silent es"
      "?acc \<longrightarrow> (\<forall>i' < i. \<not> skip i' \<longrightarrow> r_priority (a ! i') = pr i')" by blast
    have len: "i < length a" using i assms(1) prio_eq_length [OF a(2)] by simp
    show "\<exists>s'. f (int i) s = Some s' \<and> ?P (Suc i) s'"
    proof (cases "skip i")
      case True
      then show ?thesis using a i body by (auto simp: less_Suc_eq)
    next
      case False
      obtain es' where es': "list_all is_silent es'" "set_rep_priority K (int i) (pr i) (a, h @ es) =
          Some (if fst (sched_set_policy K (r_pid (a ! i)) (pr i) (h @ es)) < 0 then a
                else a[i := (a ! i)\<lparr>r_priority := pr i\<rparr>], (h @ es) @ es')"
        by (rule set_rep_priority_eq [OF len])
      let ?a' = "if fst (sched_set_policy K (r_pid (a ! i)) (pr i) (h @ es)) < 0 then a
                else a[i := (a ! i)\<lparr>r_priority := pr i\<rparr>]"
      have "prio_eq reps ?a'" using a(2) prio_eq_trans [OF a(2) prio_eq_update [OF len]] by simp
      moreover have "?acc \<longrightarrow> (\<forall>i' < Suc i. \<not> skip i' \<longrightarrow> r_priority (?a' ! i') = pr i')"
      proof
        assume acc: ?acc
        then have "0 \<le> fst (sched_set_policy K (r_pid (a ! i)) (pr i) (h @ es))" using i by blast
        then have "?a' = a[i := (a ! i)\<lparr>r_priority := pr i\<rparr>]" by simp
        then show "\<forall>i' < Suc i. \<not> skip i' \<longrightarrow> r_priority (?a' ! i') = pr i'"
          using acc a(4) len by (auto simp: less_Suc_eq)
      qed
      ultimately have "?P (Suc i) (?a', h @ (es @ es'))"
        using a(3) es'(1) by (intro exI [of _ ?a'] exI [of _ "es @ es'"]) simp
      then show ?thesis using es'(2) a(1) body [OF i] False by simp
    qed
  qed
  then show ?thesis by blast
qed

lemma balanceReps_frame:
  assumes wf: "wf_reps n num reps" and num: "0 < num"
  obtains reps' es where "balanceReps K reps (int num) d h = Some (reps', h @ es)"
    "prio_eq reps reps'" "list_all is_silent es"
proof (cases "num < 2")
  case True
  then show ?thesis using that [of reps "[]"] by (simp add: balanceReps_def)
next
  case False
  then obtain st sec where st: "pick_starting reps (int num) = Some (int st, int sec)"
    using pick_starting_max [OF wf] by auto
  obtain reps' es where "for_upto 0 (int num)
      (\<lambda>index. set_rep_priority K index (balance_priority (int st) (int sec) d index)) (reps, h)
      = Some (reps', h @ es)" "prio_eq reps reps'" "list_all is_silent es"
    using set_priorities_loop [where skip = "\<lambda>i. False" and pr = "\<lambda>i. balance_priority (int st) (int sec) d (int i)"
        and num = num and reps = reps and K = K and h = h
        and f = "\<lambda>index. set_rep_priority K index (balance_priority (int st) (int sec) d index)"] wf
    by (auto simp: wf_reps_def)
  then show ?thesis using that st False by (simp add: balanceReps_def)
qed

section \<open>Handing over and tearing down\<close>

lemma close_if_open_silent [simp]: "silently h h' \<Longrightarrow> silently h (close_if_open fd h')"
  by (auto simp: close_if_open_def intro: silently_trans)

lemma cleanupReplica_eq:
  assumes "i < length reps" "wf_rep n (reps ! i)"
  obtains h' where "cleanupReplica K reps (int i) h = Some h'"
    "silently (snd (sys_kill K (r_pid (reps ! i)) SIGKILL h)) h'"
proof -
  define c where "c = nat (r_pipe_count (reps ! i))"
  have c: "r_pipe_count (reps ! i) = int c" "c \<le> length (vot_pipes (reps ! i))"
    "c \<le> length (rep_pipes (reps ! i))"
    using assms(2) by (auto simp: wf_rep_def c_def)
  let ?h1 = "snd (sys_kill K (r_pid (reps ! i)) SIGKILL h)"
  have "\<exists>h'. for_upto 0 (int c) (\<lambda>j h. do {
         v \<leftarrow> aget (vot_pipes (reps ! i)) j; p \<leftarrow> aget (rep_pipes (reps ! i)) j;
         Some (close_if_open (fd_out p) (close_if_open (fd_in p)
                (close_if_open (fd_out v) (close_if_open (fd_in v) h)))) }) ?h1 = Some h'
    \<and> silently ?h1 h'"
    by (rule for_upto_nat [where P = "\<lambda>j h. silently ?h1 h"]) (use c in auto)
  then show ?thesis
    using that assms(1) c(1) by (auto simp: cleanupReplica_def split_beta)
qed

lemma convertVoteToTyped_total:
  assumes "n \<le> length ps" "n \<le> length ts"
  shows "\<exists>ts'. convertVoteToTyped ps (int n) ts = Some ts' \<and> length ts' = length ts"
  unfolding convertVoteToTyped_def
  by (rule for_upto_nat [where P = "\<lambda>i t. length t = length ts"]) (use assms in auto)

lemma acceptSendFDS_silent:
  assumes "0 \<le> n" "n \<le> int (length ps)"
  obtains r pid' h' where "acceptSendFDS K sock pid ps n cpu prio h = Some (r, pid', h')" "silently h h'"
proof -
  obtain k where n: "n = int k" "k \<le> length ps" using assms by (metis nat_0_le of_nat_le_iff)
  obtain conn h1 where acc: "sys_accept K sock h = (conn, h1)" by (cases "sys_accept K sock h")
  have s1: "silently h h1" using acc by blast
  show ?thesis
  proof (cases "conn > -1")
    case False
    then show ?thesis using that acc s1 by (auto simp: acceptSendFDS_def intro: silently_trans)
  next
    case True
    obtain ts where ts: "convertVoteToTyped ps (int k) (replicate k blank_typed_pipe) = Some ts"
      using convertVoteToTyped_total [of k ps "replicate k blank_typed_pipe"] n(2) by auto
    have "\<exists>fds. for_upto 0 (int k) (\<lambda>i fds. do { p \<leftarrow> aget ps i;
        Some (fds @ [if fd_in p \<noteq> 0 then fd_in p else fd_out p]) }) [] = Some fds \<and> True"
      by (rule for_upto_nat [where P = "\<lambda>i fds. True"]) (use n in auto)
    then obtain fds where fds: "for_upto 0 (int k) (\<lambda>i fds. do { p \<leftarrow> aget ps i;
        Some (fds @ [if fd_in p \<noteq> 0 then fd_in p else fd_out p]) }) [] = Some fds" by blast
    obtain s h2 where snd: "sys_sendmsg K conn (fds_payload ts cpu prio) fds h1 = (s, h2)"
      by (cases "sys_sendmsg K conn (fds_payload ts cpu prio) fds h1")
    obtain r bs h3 where rd: "sys_read K conn 4 h2 = (r, bs, h3)" by (cases "sys_read K conn 4 h2") auto
    have "silently h h2" "silently h h3" using s1 snd rd by (blast intro: silently_trans)+
    then have cl: "silently h (sys_close conn h2)" "silently h (sys_close conn h3)"
      by (blast intro: silently_trans)+
    show ?thesis
      using acc True ts fds snd rd n(1) cl that
      by (cases "s < 0") (auto simp: acceptSendFDS_def sendFDS_def)
  qed
qed

definition cleared :: "vote_pipe \<Rightarrow> vote_pipe" where
  "cleared v = v\<lparr>fd_in := 0, fd_out := 0, buff_count := 0, buff_index := 0\<rparr>"

lemma reset_cleared: "fst (resetVotePipe v h) = cleared v" "silently h (snd (resetVotePipe v h))"
  by (simp_all add: resetVotePipe_eq cleared_def)

lemma cleared_wf [wf_intros]: "wf_pipe v \<Longrightarrow> wf_pipe (cleared v)"
  by (simp add: wf_pipe_def cleared_def MAX_VOTE_PIPE_BUFF_def)

text \<open>The pipes below \<open>k\<close> replaced, the others as they were.\<close>

lemma wf_rep_vot_pipes:
  "wf_rep n r \<Longrightarrow> j < n \<Longrightarrow> wf_pipe v \<Longrightarrow> wf_rep n (r\<lparr>vot_pipes := (vot_pipes r)[j := v]\<rparr>)"
  by (auto simp: wf_rep_def dest!: set_update_subset_insert [THEN subsetD])

lemma initReplica_eq:
  assumes wf: "wf_rep n rep"
  obtains rep' h' where "initReplica index name prio rep h = Some (rep', h')" "silently h h'"
    "wf_rep n rep'" "r_pipe_count rep' = 0" "r_name rep' = Some name" "r_priority rep' = prio"
    "\<And>j. j < n \<Longrightarrow> vot_pipes rep' ! j =
       (if j < nat (r_pipe_count rep) then cleared (vot_pipes rep ! j) else vot_pipes rep ! j)"
proof -
  define c where "c = nat (r_pipe_count rep)"
  have c: "r_pipe_count rep = int c" "c \<le> n" using wf by (auto simp: wf_rep_def c_def)
  let ?r0 = "rep\<lparr>r_name := Some name, r_pid := -1, r_priority := prio,
              r_pinned_cpu := (if CONTROLLER_PIN = QUAD_PIN_POLICY then index + 1 else CONTROLLER_PIN)\<rparr>"
  let ?P = "\<lambda>k (r, h'). silently h h' \<and> wf_rep n r \<and> r_name r = Some name \<and> r_priority r = prio
    \<and> (\<forall>j < n. vot_pipes r ! j = (if j < k then cleared (vot_pipes rep ! j) else vot_pipes rep ! j))"
  have "\<exists>s'. for_upto 0 (int c) (\<lambda>jndex (r, h). do {
         v \<leftarrow> aget (vot_pipes r) jndex;
         let (v', h1) = resetVotePipe v h;
         r1 \<leftarrow> upd_vot_pipe r jndex v';
         p \<leftarrow> aget (rep_pipes r1) jndex;
         let (p', h2) = resetVotePipe p h1;
         r2 \<leftarrow> upd_rep_pipe r1 jndex p';
         Some (r2, h2) }) (?r0, h) = Some s' \<and> ?P c s'"
  proof (rule for_upto_nat [where P = ?P])
    show "?P 0 (?r0, h)" using wf by (simp add: wf_rep_def)
  next
    fix i s assume i: "i < c" and "?P i s"
    then obtain r g where r: "s = (r, g)" "silently h g" "wf_rep n r" "r_name r = Some name"
      "r_priority r = prio"
      "\<forall>j < n. vot_pipes r ! j = (if j < i then cleared (vot_pipes rep ! j) else vot_pipes rep ! j)"
      by (cases s) auto
    have len: "i < length (vot_pipes r)" "i < length (rep_pipes r)" "i < n"
      using r(3) i c by (auto simp: wf_rep_def)
    let ?h1 = "snd (resetVotePipe (vot_pipes r ! i) g)"
    let ?h2 = "snd (resetVotePipe (rep_pipes r ! i) ?h1)"
    let ?r1 = "r\<lparr>vot_pipes := (vot_pipes r)[i := cleared (vot_pipes r ! i)]\<rparr>"
    let ?r2 = "?r1\<lparr>rep_pipes := (rep_pipes r)[i := cleared (rep_pipes r ! i)]\<rparr>"
    have "wf_rep n ?r1"
      using wf_rep_vot_pipes [OF r(3) len(3)] wf_rep_pipe [OF r(3) len(3)] cleared_wf by blast
    moreover have "silently h ?h2"
      using r(2) reset_cleared(2) silently_trans by blast
    ultimately have "?P (Suc i) (?r2, ?h2)"
      using r len c i by (auto simp: wf_rep_def nth_list_update less_Suc_eq)
    then show "\<exists>s'. (case s of (r, h) \<Rightarrow> do {
         v \<leftarrow> aget (vot_pipes r) (int i);
         let (v', h1) = resetVotePipe v h;
         r1 \<leftarrow> upd_vot_pipe r (int i) v';
         p \<leftarrow> aget (rep_pipes r1) (int i);
         let (p', h2) = resetVotePipe p h1;
         r2 \<leftarrow> upd_rep_pipe r1 (int i) p';
         Some (r2, h2) }) = Some s' \<and> ?P (Suc i) s'"
      using len by (auto simp: r(1) upd_vot_pipe_def upd_rep_pipe_def split_beta reset_cleared(1))
  qed
  then obtain r h' where r: "?P c (r, h')" "for_upto 0 (int c) (\<lambda>jndex (r, h). do {
         v \<leftarrow> aget (vot_pipes r) jndex;
         let (v', h1) = resetVotePipe v h;
         r1 \<leftarrow> upd_vot_pipe r jndex v';
         p \<leftarrow> aget (rep_pipes r1) jndex;
         let (p', h2) = resetVotePipe p h1;
         r2 \<leftarrow> upd_rep_pipe r1 jndex p';
         Some (r2, h2) }) (?r0, h) = Some (r, h')" by fast
  show ?thesis
  proof (rule that)
    show "initReplica index name prio rep h = Some (r\<lparr>r_pipe_count := 0\<rparr>, h')"
      using r(2) by (simp add: initReplica_def c(1))
  qed (use r(1) c in \<open>auto simp: wf_rep_def\<close>)
qed

text \<open>A system that always has descriptors left; 0 is in use, as the code takes 0 for none.\<close>

definition pipes_ok :: "posix \<Rightarrow> bool" where
  "pipes_ok K \<longleftrightarrow> (\<forall>h. \<exists>a b. on_pipe K h = Some (a, b) \<and> 0 < a \<and> 0 < b)"

definition same_ring :: "vote_pipe \<Rightarrow> vote_pipe \<Rightarrow> bool" where
  "same_ring a b \<longleftrightarrow> buff_count b = buff_count a \<and> buff_index b = buff_index a \<and> buffer b = buffer a"

lemma same_ring_refl [simp]: "same_ring a a"
  by (simp add: same_ring_def)

lemma same_ring_wf: "same_ring a b \<Longrightarrow> wf_pipe b = wf_pipe a"
  by (simp add: same_ring_def wf_pipe_def)

lemma same_ring_content: "same_ring a b \<Longrightarrow> content b = content a"
  by (simp add: same_ring_def content_def)

lemma same_ring_trans: "same_ring a b \<Longrightarrow> same_ring b c \<Longrightarrow> same_ring a c"
  by (simp add: same_ring_def)

lemma createPipe_eq:
  assumes wf: "wf_rep n rep" and i: "i < n" "i < length ext"
  obtains rep' h' where "createPipe K ext (int i) (rep, h) = Some (rep', h')" "silently h h'" "wf_rep n rep'"
    "r_name rep' = r_name rep" "r_pid rep' = r_pid rep" "r_priority rep' = r_priority rep"
    "\<And>j. j < n \<Longrightarrow> same_ring (vot_pipes rep ! j) (vot_pipes rep' ! j)"
    "\<And>j. j \<noteq> i \<Longrightarrow> vot_pipes rep' ! j = vot_pipes rep ! j"
    "pipes_ok K \<Longrightarrow> r_pipe_count rep' = int i + 1 \<and>
       (fd_in (vot_pipes rep' ! i) \<noteq> 0) = (fd_in (ext ! i) = 0)"
proof (cases "sys_pipe K h")
  case (Pair p h1)
  have sil: "silently h h1" using Pair by blast
  have len: "i < length (vot_pipes rep)" "i < length (rep_pipes rep)" "i < length (voter_rep_in_copy rep)"
    using wf i(1) by (auto simp: wf_rep_def)
  show ?thesis
  proof (cases p)
    case None
    then have "on_pipe K h = None" using Pair by (simp add: sys_pipe_def)
    then have "\<not> pipes_ok K" by (auto simp: pipes_ok_def intro: exI [of _ h])
    then show ?thesis using that [of rep h1] Pair None wf sil by (simp add: createPipe_def)
  next
    case (Some q)
    obtain a b where q: "q = (a, b)" by (cases q)
    have ok: "pipes_ok K \<Longrightarrow> 0 < a" using Pair Some q by (auto simp: sys_pipe_def pipes_ok_def) (metis Pair_inject option.inject)
    let ?in = "fd_in (ext ! i) \<noteq> 0"
    let ?v = "(vot_pipes rep ! i)\<lparr>rep_info := rep_info (ext ! i),
       fd_in := (if ?in then 0 else a), fd_out := (if ?in then b else 0)\<rparr>"
    let ?p = "(rep_pipes rep ! i)\<lparr>rep_info := rep_info (ext ! i),
       fd_in := (if ?in then a else 0), fd_out := (if ?in then 0 else b)\<rparr>"
    let ?rep' = "rep\<lparr>vot_pipes := (vot_pipes rep)[i := ?v], rep_pipes := (rep_pipes rep)[i := ?p],
       voter_rep_in_copy := (voter_rep_in_copy rep)[i := (if ?in then a else 0)],
       r_pipe_count := int i + 1\<rparr>"
    have "createPipe K ext (int i) (rep, h) = Some (?rep', h1)"
      using len i(2) Pair Some q by (simp add: createPipe_def upd_vot_pipe_def upd_rep_pipe_def Let_def)
    moreover have "wf_rep n ?rep'"
      using wf_rep_vot_pipes [OF wf i(1), of ?v] wf_rep_pipe [OF wf i(1)] i(1) wf
      by (auto simp: wf_rep_def)
    moreover have "same_ring (vot_pipes rep ! j) (vot_pipes ?rep' ! j)" if "j < n" for j
      using that len by (auto simp: same_ring_def nth_list_update)
    moreover have "pipes_ok K \<Longrightarrow> (fd_in (vot_pipes ?rep' ! i) \<noteq> 0) = (fd_in (ext ! i) = 0)"
      using ok len by auto
    ultimately show ?thesis using that [of ?rep' h1] sil len by simp
  qed
qed

lemma createPipe_loop:
  assumes wf: "wf_rep n rep" and m: "m \<le> n" "m \<le> length ext"
  obtains rep' h' where "for_upto 0 (int m) (createPipe K ext) (rep, h) = Some (rep', h')"
    "silently h h'" "wf_rep n rep'"
    "r_name rep' = r_name rep" "r_priority rep' = r_priority rep"
    "\<And>j. j < n \<Longrightarrow> same_ring (vot_pipes rep ! j) (vot_pipes rep' ! j)"
    "pipes_ok K \<Longrightarrow> (0 < m \<longrightarrow> r_pipe_count rep' = int m) \<and>
       (\<forall>j < m. (fd_in (vot_pipes rep' ! j) \<noteq> 0) = (fd_in (ext ! j) = 0))"
proof -
  let ?P = "\<lambda>i (r, g). silently h g \<and> wf_rep n r \<and> r_name r = r_name rep \<and> r_priority r = r_priority rep
    \<and> (\<forall>j < n. same_ring (vot_pipes rep ! j) (vot_pipes r ! j))
    \<and> (pipes_ok K \<longrightarrow> (0 < i \<longrightarrow> r_pipe_count r = int i) \<and>
        (\<forall>j < i. (fd_in (vot_pipes r ! j) \<noteq> 0) = (fd_in (ext ! j) = 0)))"
  have "\<exists>s'. for_upto 0 (int m) (createPipe K ext) (rep, h) = Some s' \<and> ?P m s'"
  proof (rule for_upto_nat [where P = ?P])
    show "?P 0 (rep, h)" using wf by simp
  next
    fix i s assume i: "i < m" and "?P i s"
    then obtain r g where r: "s = (r, g)" "?P i (r, g)" by (cases s) auto
    have wfr: "wf_rep n r" and len: "i < n" "i < length ext" using r(2) i m by auto
    obtain r' g' where r': "createPipe K ext (int i) (r, g) = Some (r', g')" "silently g g'" "wf_rep n r'"
      "r_name r' = r_name r" "r_pid r' = r_pid r" "r_priority r' = r_priority r"
      "\<And>j. j < n \<Longrightarrow> same_ring (vot_pipes r ! j) (vot_pipes r' ! j)"
      "\<And>j. j \<noteq> i \<Longrightarrow> vot_pipes r' ! j = vot_pipes r ! j"
      "pipes_ok K \<Longrightarrow> r_pipe_count r' = int i + 1 \<and>
        (fd_in (vot_pipes r' ! i) \<noteq> 0) = (fd_in (ext ! i) = 0)"
      by (rule createPipe_eq [OF wfr len, where K = K and h = g]) blast
    have "\<forall>j < n. same_ring (vot_pipes rep ! j) (vot_pipes r' ! j)"
      using r(2) r'(7) same_ring_trans by auto
    moreover have "silently h g'" using r(2) r'(2) silently_trans by auto
    moreover have "pipes_ok K \<longrightarrow> (\<forall>j < Suc i. (fd_in (vot_pipes r' ! j) \<noteq> 0) = (fd_in (ext ! j) = 0))"
      using r(2) r'(8,9) by (auto simp: less_Suc_eq)
    ultimately have "?P (Suc i) (r', g')" using r(2) r'(3,4,6,9) by simp
    then show "\<exists>s'. createPipe K ext (int i) s = Some s' \<and> ?P (Suc i) s'" using r(1) r'(1) by auto
  qed
  then show ?thesis using that by auto
qed

text \<open>
  The net effect of \<open>restartReplica\<close>: the failed replica is killed, the healthy one is told to fork,
  nothing is written, the pipes of the others stay as they are, and the failed replica has fresh
  pipes with empty rings.
\<close>

lemma restartReplica_eq:
  assumes wf: "wf_reps n num reps" and idx: "healthy < num" "failed < num" "healthy \<noteq> failed"
    and name: "r_name (reps ! healthy) = Some nm"
    and ext: "r_pipe_count (reps ! healthy) \<le> int (length ext)"
  obtains reps' h' where
    "restartReplica K reps (int num) sock ext (int healthy) (int failed) d h = Some (reps', h')"
    "wf_reps n num reps'" "length reps' = length reps"
    "writes h' = writes h"
    "\<And>sig. killed sig h' = killed sig h @ (if sig = SIGKILL then [r_pid (reps ! failed)] else [])
        @ (if sig = RESTART_SIGNAL then [r_pid (reps ! healthy)] else [])"
    "\<And>i. i < num \<Longrightarrow> i \<noteq> failed \<Longrightarrow> \<exists>x. reps' ! i = (reps ! i)\<lparr>r_priority := x\<rparr>"
    "\<And>j. j < n \<Longrightarrow> same_ring (if j < nat (r_pipe_count (reps ! failed)) then cleared (vpipe reps failed j)
        else vpipe reps failed j) (vpipe reps' failed j)"
    "r_name (reps' ! failed) = Some nm"
    "pipes_ok K \<Longrightarrow> r_pipe_count (reps ! healthy) = int n \<Longrightarrow> r_pipe_count (reps' ! failed) = int n \<and>
       (\<forall>j < n. (fd_in (vpipe reps' failed j) \<noteq> 0) = (fd_in (ext ! j) = 0))"
proof -
  have len: "healthy < length reps" "failed < length reps" "num \<le> length reps"
    and wr: "wf_rep n (reps ! healthy)" "wf_rep n (reps ! failed)"
    using wf idx by (auto simp: wf_reps_def)
  obtain h1 where h1: "cleanupReplica K reps (int failed) h = Some h1"
    "silently (snd (sys_kill K (r_pid (reps ! failed)) SIGKILL h)) h1"
    by (rule cleanupReplica_eq [OF len(2) wr(2)])
  have "\<exists>reps1 es. for_upto 0 (int num) (\<lambda>i s. if i \<noteq> int failed then
        set_rep_priority K i (if i = int healthy then d + 2 else d) s else Some s) (reps, h1)
      = Some (reps1, h1 @ es) \<and> prio_eq reps reps1 \<and> list_all is_silent es"
    using set_priorities_loop [OF len(3), where skip = "\<lambda>i. i = failed" and K = K and h = h1
        and pr = "\<lambda>i. if i = healthy then d + 2 else d"
        and f = "\<lambda>i s. if i \<noteq> int failed then
          set_rep_priority K i (if i = int healthy then d + 2 else d) s else Some s"] by fastforce
  then obtain reps1 es where loop: "for_upto 0 (int num) (\<lambda>i s. if i \<noteq> int failed then
        set_rep_priority K i (if i = int healthy then d + 2 else d) s else Some s) (reps, h1)
      = Some (reps1, h1 @ es)" "prio_eq reps reps1" "list_all is_silent es" by blast
  note eqs = prio_eqD [OF loop(2) len(1)] prio_eqD [OF loop(2) len(2)]
  have len1: "healthy < length reps1" "failed < length reps1" using len prio_eq_length [OF loop(2)] by auto
  obtain ret h3 where k2: "sys_kill K (r_pid (reps ! healthy)) RESTART_SIGNAL (h1 @ es) = (ret, h3)"
    by (cases "sys_kill K (r_pid (reps ! healthy)) RESTART_SIGNAL (h1 @ es)")
  have wr1: "wf_rep n (reps1 ! failed)" using wr(2) eqs by (simp add: wf_rep_def)
  obtain one h4 where one: "initReplica 0 nm d (reps1 ! failed) h3 = Some (one, h4)" "silently h3 h4"
    "wf_rep n one" "r_pipe_count one = 0" "r_name one = Some nm" "r_priority one = d"
    "\<And>j. j < n \<Longrightarrow> vot_pipes one ! j = (if j < nat (r_pipe_count (reps1 ! failed))
        then cleared (vot_pipes (reps1 ! failed) ! j) else vot_pipes (reps1 ! failed) ! j)"
    by (rule initReplica_eq [OF wr1, where index = 0 and name = nm and prio = d and h = h3]) blast
  have init: "initReplicas [reps1 ! failed] 1 nm d h3 = Some ([one], h4)"
    using one(1) by (simp add: initReplicas_def for_upto_step aget_def aset_def)
  define m where "m = nat (r_pipe_count (reps ! healthy))"
  have m: "r_pipe_count (reps ! healthy) = int m" "m \<le> n" "m \<le> length ext"
    using wr(1) ext by (auto simp: wf_rep_def m_def)
  obtain fresh h5 where fresh: "for_upto 0 (int m) (createPipe K ext) (one, h4) = Some (fresh, h5)"
    "silently h4 h5" "wf_rep n fresh" "r_name fresh = r_name one" "r_priority fresh = r_priority one"
    "\<And>j. j < n \<Longrightarrow> same_ring (vot_pipes one ! j) (vot_pipes fresh ! j)"
    "pipes_ok K \<Longrightarrow> (0 < m \<longrightarrow> r_pipe_count fresh = int m) \<and>
       (\<forall>j < m. (fd_in (vot_pipes fresh ! j) \<noteq> 0) = (fd_in (ext ! j) = 0))"
    by (rule createPipe_loop [OF one(3) m(2,3), where K = K and h = h4]) blast
  have create: "createPipes K [one] 1 ext (int m) h4 = Some ([fresh], h5)"
    using fresh(1) by (simp add: createPipes_def for_upto_step aget_def aset_def)
  obtain acc pid h6 where accept: "acceptSendFDS K sock (r_pid fresh) (rep_pipes fresh) (r_pipe_count fresh)
      (r_pinned_cpu fresh) (r_priority fresh) h5 = Some (acc, pid, h6)" "silently h5 h6"
    by (rule acceptSendFDS_silent [of "r_pipe_count fresh" "rep_pipes fresh"])
      (use fresh(3) in \<open>auto simp: wf_rep_def\<close>)
  let ?reps2 = "reps1[failed := fresh\<lparr>r_pid := pid\<rparr>]"
  have wf2: "wf_reps n num ?reps2"
    using prio_eq_wf [OF loop(2) wf] fresh(3) len1
    by (auto simp: wf_reps_def nth_list_update wf_rep_def)
  obtain reps' es' where bal: "balanceReps K ?reps2 (int num) d h6 = Some (reps', h6 @ es')"
    "prio_eq ?reps2 reps'" "list_all is_silent es'"
    by (rule balanceReps_frame [OF wf2, of K d h6]) (use idx in auto)
  have run: "restartReplica K reps (int num) sock ext (int healthy) (int failed) d h = Some (reps', h6 @ es')"
    using h1(1) loop(1) k2 init create accept(1) bal(1) len1 eqs m(1) name
    by (simp add: restartReplica_def aget_def)
  have h36: "silently h3 (h6 @ es')"
    using one(2) fresh(2) accept(2) bal(3) silently_trans by (metis silently_append)
  have kill1: "killed sig (h1 @ es) = killed sig h @ (if sig = SIGKILL then [r_pid (reps ! failed)] else [])"
    for sig using silently_killed [OF h1(2)] loop(3) by simp
  have kill2: "killed sig h3 = killed sig (h1 @ es) @ (if sig = RESTART_SIGNAL then [r_pid (reps ! healthy)] else [])"
    for sig using sys_kill_hist(1) [of sig K "r_pid (reps ! healthy)" RESTART_SIGNAL "h1 @ es"] k2 by simp
  have wr2: "writes h3 = writes h"
    using sys_kill_hist(3) [of K "r_pid (reps ! healthy)" RESTART_SIGNAL "h1 @ es"] k2
      silently_writes [OF h1(2)] loop(3) by simp
  have f': "vot_pipes (reps' ! failed) = vot_pipes fresh" "r_name (reps' ! failed) = Some nm"
    "r_pipe_count (reps' ! failed) = r_pipe_count fresh"
    using prio_eqD [OF bal(2), of failed] len1 fresh(4) one(5) by auto
  show ?thesis
  proof (rule that [OF run])
    show "wf_reps n num reps'" using prio_eq_wf [OF bal(2) wf2] .
    show "length reps' = length reps" using prio_eq_length [OF bal(2)] prio_eq_length [OF loop(2)] by simp
    show "writes (h6 @ es') = writes h"
      using silently_writes [OF h36] wr2 by simp
    show "killed sig (h6 @ es') = killed sig h @ (if sig = SIGKILL then [r_pid (reps ! failed)] else [])
        @ (if sig = RESTART_SIGNAL then [r_pid (reps ! healthy)] else [])" for sig
      using silently_killed [OF h36] kill1 kill2 by simp
    show "\<exists>x. reps' ! i = (reps ! i)\<lparr>r_priority := x\<rparr>" if ne: "i < num" "i \<noteq> failed" for i
    proof -
      have i: "i < length reps" using ne(1) len(3) by simp
      then obtain x where "reps1 ! i = (reps ! i)\<lparr>r_priority := x\<rparr>"
        using loop(2) by (auto simp: prio_eq_def)
      moreover obtain y where "reps' ! i = (reps1 ! i)\<lparr>r_priority := y\<rparr>"
        using bal(2) ne(2) i prio_eq_length [OF loop(2)] by (auto simp: prio_eq_def)
      ultimately show ?thesis by auto
    qed
    show "same_ring (if j < nat (r_pipe_count (reps ! failed)) then cleared (vpipe reps failed j)
        else vpipe reps failed j) (vpipe reps' failed j)" if "j < n" for j
      using fresh(6) [OF that] one(7) [OF that] by (auto simp: vpipe_def f'(1) eqs split: if_splits)
    show "r_name (reps' ! failed) = Some nm" by (rule f'(2))
    assume ok: "pipes_ok K" "r_pipe_count (reps ! healthy) = int n"
    then have "m = n" using m(1) by simp
    moreover have "n = 0 \<Longrightarrow> r_pipe_count fresh = 0" using fresh(3) by (simp add: wf_rep_def)
    ultimately show "r_pipe_count (reps' ! failed) = int n \<and>
       (\<forall>j < n. (fd_in (vpipe reps' failed j) \<noteq> 0) = (fd_in (ext ! j) = 0))"
      using fresh(7) [OF ok(1)] f' by (cases "n = 0") (auto simp: vpipe_def)
  qed
qed

section \<open>Starting the group\<close>

text \<open>Loops that treat the replicas one by one.\<close>

definition each_replica :: "(int \<Rightarrow> replica \<Rightarrow> history \<Rightarrow> (replica \<times> history) option) \<Rightarrow> int
    \<Rightarrow> replica list \<times> history \<Rightarrow> (replica list \<times> history) option" where
  "each_replica F index s = (case s of (reps, h) \<Rightarrow> do {
     r \<leftarrow> aget reps index;
     (r', h') \<leftarrow> F index r h;
     reps' \<leftarrow> aset reps index r';
     Some (reps', h') })"

lemma each_replica_loop:
  assumes len: "num \<le> length reps"
    and body: "\<And>i h. i < num \<Longrightarrow> \<exists>r' h'. F (int i) (reps ! i) h = Some (r', h') \<and> silently h h' \<and> Q i r'"
  shows "\<exists>reps' h'. for_upto 0 (int num) (each_replica F) (reps, h) = Some (reps', h') \<and> silently h h'
    \<and> length reps' = length reps \<and> (\<forall>i < num. Q i (reps' ! i))"
proof -
  let ?P = "\<lambda>k (a, g). silently h g \<and> length a = length reps \<and> (\<forall>i < k. Q i (a ! i))
    \<and> (\<forall>i. k \<le> i \<longrightarrow> a ! i = reps ! i)"
  have "\<exists>s'. for_upto 0 (int num) (each_replica F) (reps, h) = Some s' \<and> ?P num s'"
  proof (rule for_upto_nat [where P = ?P])
    show "?P 0 (reps, h)" by simp
  next
    fix i s assume i: "i < num" and "?P i s"
    then obtain a g where a: "s = (a, g)" "?P i (a, g)" by (cases s) auto
    obtain r' g' where r': "F (int i) (reps ! i) g = Some (r', g')" "silently g g'" "Q i r'"
      using body [OF i] by blast
    have "each_replica F (int i) s = Some (a[i := r'], g')"
      using a i len r'(1) by (simp add: each_replica_def)
    moreover have "?P (Suc i) (a[i := r'], g')"
      using a i len r'(2,3) silently_trans by (auto simp: less_Suc_eq nth_list_update)
    ultimately show "\<exists>s'. each_replica F (int i) s = Some s' \<and> ?P (Suc i) s'" by blast
  qed
  then show ?thesis by fast
qed

lemma wf_rep_pid [simp]: "wf_rep n (r\<lparr>r_pid := p\<rparr>) = wf_rep n r"
  by (simp add: wf_rep_def)

lemma accept_all_eq:
  assumes "wf_reps n (k + m) reps"
  obtains ok reps' h' where "accept_all K sock m (int k) reps h = Some (ok, reps', h')" "silently h h'"
    "length reps' = length reps" "\<And>i. \<exists>p. reps' ! i = (reps ! i)\<lparr>r_pid := p\<rparr>"
proof -
  have id: "\<exists>p. r = r\<lparr>r_pid := p\<rparr>" for r :: replica by (rule exI [of _ "r_pid r"]) simp
  have "\<exists>ok reps' h'. accept_all K sock m (int k) reps h = Some (ok, reps', h') \<and> silently h h'
    \<and> length reps' = length reps \<and> (\<forall>i. \<exists>p. reps' ! i = (reps ! i)\<lparr>r_pid := p\<rparr>)"
    using assms
  proof (induction m arbitrary: k reps h)
    case 0
    then show ?case using id by auto
  next
    case (Suc m)
    have k: "k < length reps" "wf_rep n (reps ! k)" using Suc.prems by (auto simp: wf_reps_def)
    obtain ret pid h1 where acc: "acceptSendFDS K sock (r_pid (reps ! k)) (rep_pipes (reps ! k)) (r_pipe_count (reps ! k))
        (r_pinned_cpu (reps ! k)) (r_priority (reps ! k)) h = Some (ret, pid, h1)" "silently h h1"
      by (rule acceptSendFDS_silent [of "r_pipe_count (reps ! k)" "rep_pipes (reps ! k)"])
        (use k(2) in \<open>auto simp: wf_rep_def\<close>)
    let ?reps = "reps[k := (reps ! k)\<lparr>r_pid := pid\<rparr>]"
    have same: "\<exists>p. ?reps ! i = (reps ! i)\<lparr>r_pid := p\<rparr>" for i
      using id k(1) by (cases "i = k") auto
    have wf': "wf_reps n (Suc k + m) ?reps"
      using Suc.prems by (auto simp: wf_reps_def nth_list_update)
    show ?case
    proof (cases "ret < 0")
      case True
      then show ?thesis using acc k(1) same by auto
    next
      case False
      obtain ok reps' h' where rec: "accept_all K sock m (int (Suc k)) ?reps h1 = Some (ok, reps', h')" "silently h1 h'"
        "length reps' = length ?reps" "\<forall>i. \<exists>p. reps' ! i = (?reps ! i)\<lparr>r_pid := p\<rparr>"
        using Suc.IH [OF wf'] by blast
      have "\<exists>p. reps' ! i = (reps ! i)\<lparr>r_pid := p\<rparr>" for i
        using rec(4) [rule_format, of i] same [of i] by auto
      then show ?thesis
        using acc k(1) False rec silently_trans by (auto simp: add.commute)
    qed
  qed
  then show ?thesis using that by blast
qed

text \<open>A started group: old pipes cleared, new descriptors, everything else silent.\<close>

lemma startReplicas_eq:
  assumes wf: "wf_reps n num reps" and ext: "n \<le> length ext" and ok: "pipes_ok K"
  obtains res reps' h' where "startReplicas K reps (int num) sock nm ext (int n) d h = Some (res, reps', h')"
    "silently h h'" "length reps' = length reps" "wf_reps n num reps'"
    "\<And>r. r < num \<Longrightarrow> r_pipe_count (reps' ! r) = int n \<and> r_name (reps' ! r) = Some nm"
    "\<And>r j. r < num \<Longrightarrow> j < n \<Longrightarrow> (fd_in (vpipe reps' r j) \<noteq> 0) = (fd_in (ext ! j) = 0)"
    "\<And>r j. r < num \<Longrightarrow> j < n \<Longrightarrow> same_ring (if j < nat (r_pipe_count (reps ! r)) then cleared (vpipe reps r j)
        else vpipe reps r j) (vpipe reps' r j)"
proof -
  let ?ring = "\<lambda>r j. if j < nat (r_pipe_count (reps ! r)) then cleared (vpipe reps r j) else vpipe reps r j"
  have len: "num \<le> length reps" using wf by (simp add: wf_reps_def)
  let ?Q1 = "\<lambda>i r'. wf_rep n r' \<and> r_pipe_count r' = 0 \<and> r_name r' = Some nm
     \<and> (\<forall>j < n. vot_pipes r' ! j = ?ring i j)"
  have b1: "\<exists>r' h'. initReplica (int i) nm d (reps ! i) h = Some (r', h') \<and> silently h h' \<and> ?Q1 i r'" if "i < num" for i h
  proof -
    have wr: "wf_rep n (reps ! i)" using wf that by (simp add: wf_reps_def)
    show ?thesis
      by (rule initReplica_eq [OF wr, where index = "int i" and name = nm and prio = d and h = h])
        (simp add: vpipe_def)
  qed
  obtain reps1 h1 where l1: "for_upto 0 (int num) (each_replica (\<lambda>i. initReplica i nm d)) (reps, h) = Some (reps1, h1)"
    "silently h h1" "length reps1 = length reps" "\<forall>i < num. ?Q1 i (reps1 ! i)"
    using each_replica_loop [where F = "\<lambda>i. initReplica i nm d" and Q = ?Q1 and num = num and reps = reps and h = h, OF len b1]
    by blast
  have i1: "initReplicas reps (int num) nm d h = Some (reps1, h1)"
    using l1(1) by (simp add: initReplicas_def each_replica_def [abs_def])
  let ?Q2 = "\<lambda>i r'. wf_rep n r' \<and> r_pipe_count r' = int n \<and> r_name r' = Some nm
     \<and> (\<forall>j < n. same_ring (?ring i j) (vot_pipes r' ! j) \<and> (fd_in (vot_pipes r' ! j) \<noteq> 0) = (fd_in (ext ! j) = 0))"
  have b2: "\<exists>r' h'. for_upto 0 (int n) (createPipe K ext) (reps1 ! i, h) = Some (r', h') \<and> silently h h' \<and> ?Q2 i r'"
    if "i < num" for i h
  proof -
    have q: "wf_rep n (reps1 ! i)" "r_name (reps1 ! i) = Some nm" "\<forall>j < n. vot_pipes (reps1 ! i) ! j = ?ring i j"
      using l1(4) that by auto
    obtain r' h' where r': "for_upto 0 (int n) (createPipe K ext) (reps1 ! i, h) = Some (r', h')"
      "silently h h'" "wf_rep n r'" "r_name r' = r_name (reps1 ! i)"
      "\<And>j. j < n \<Longrightarrow> same_ring (vot_pipes (reps1 ! i) ! j) (vot_pipes r' ! j)"
      "(0 < n \<longrightarrow> r_pipe_count r' = int n) \<and> (\<forall>j < n. (fd_in (vot_pipes r' ! j) \<noteq> 0) = (fd_in (ext ! j) = 0))"
      by (rule createPipe_loop [OF q(1) order_refl ext, where K = K and h = h]) (use ok in blast)
    have "n = 0 \<Longrightarrow> r_pipe_count r' = 0" using r'(3) by (simp add: wf_rep_def)
    then have "?Q2 i r'" using r' q by (cases "n = 0") auto
    then show ?thesis using r'(1,2) by blast
  qed
  have len1: "num \<le> length reps1" using len l1(3) by simp
  obtain reps2 h2 where l2: "for_upto 0 (int num) (each_replica (\<lambda>i r h. for_upto 0 (int n) (createPipe K ext) (r, h))) (reps1, h1) = Some (reps2, h2)"
    "silently h1 h2" "length reps2 = length reps1" "\<forall>i < num. ?Q2 i (reps2 ! i)"
    using each_replica_loop [where F = "\<lambda>i r h. for_upto 0 (int n) (createPipe K ext) (r, h)" and Q = ?Q2
        and num = num and reps = reps1 and h = h1, OF len1 b2] by blast
  have i2: "createPipes K reps1 (int num) ext (int n) h1 = Some (reps2, h2)"
    using l2(1) by (simp add: createPipes_def each_replica_def [abs_def])
  let ?F = "\<lambda>i :: int. \<lambda>curr h. do { name \<leftarrow> r_name curr;
      let (pid, h') = sys_fork_exec K ([name, show_int (r_priority curr), show_int (r_pipe_count curr)] @ []) h;
      Some (curr\<lparr>r_pid := pid\<rparr>, h') }"
  have b3: "\<exists>r' h'. ?F (int i) (reps2 ! i) h = Some (r', h') \<and> silently h h' \<and> ?Q2 i r'" if "i < num" for i h
    using l2(4) that by (auto simp: wf_rep_def split_beta sys_fork_exec_def Let_def)
  have len2: "num \<le> length reps2" using len1 l2(3) by simp
  obtain reps3 h3 where l3: "for_upto 0 (int num) (each_replica ?F) (reps2, h2) = Some (reps3, h3)"
    "silently h2 h3" "length reps3 = length reps2" "\<forall>i < num. ?Q2 i (reps3 ! i)"
    using each_replica_loop [where F = ?F and Q = ?Q2 and num = num and reps = reps2 and h = h2, OF len2 b3] by blast
  have "each_replica ?F = (\<lambda>index (reps, h). do {
       curr \<leftarrow> aget reps index;
       name \<leftarrow> r_name curr;
       let (pid, h') = sys_fork_exec K ([name, show_int (r_priority curr), show_int (r_pipe_count curr)] @ []) h;
       reps' \<leftarrow> aset reps index (curr\<lparr>r_pid := pid\<rparr>);
       Some (reps', h') })"
    by (auto simp: each_replica_def split_beta Let_def fun_eq_iff)
  then have i3: "forkReplicas K reps2 (int num) [] h2 = Some (reps3, h3)"
    using l3(1) by (simp add: forkReplicas_def)
  have wf3: "wf_reps n (0 + num) reps3" using l3(3,4) len2 by (simp add: wf_reps_def)
  obtain res reps4 h4 where acc: "accept_all K sock num (int 0) reps3 h3 = Some (res, reps4, h4)" "silently h3 h4"
    "length reps4 = length reps3" "\<And>i. \<exists>p. reps4 ! i = (reps3 ! i)\<lparr>r_pid := p\<rparr>"
    by (rule accept_all_eq [OF wf3, of K sock h3]) blast
  have q4: "?Q2 i (reps4 ! i)" if "i < num" for i
  proof -
    obtain p where p: "reps4 ! i = (reps3 ! i)\<lparr>r_pid := p\<rparr>" using acc(4) [of i] by blast
    have "?Q2 i (reps3 ! i)" using l3(4) that by blast
    then show ?thesis unfolding p wf_rep_pid by simp
  qed
  show ?thesis
  proof (rule that)
    show "startReplicas K reps (int num) sock nm ext (int n) d h = Some (res, reps4, h4)"
      using i1 i2 i3 acc(1) by (simp add: startReplicas_def)
    show "silently h h4" using l1(2) l2(2) l3(2) acc(2) silently_trans by metis
    show "length reps4 = length reps" using l1(3) l2(3) l3(3) acc(3) by simp
    show "wf_reps n num reps4" using q4 acc(3) l3(3) len2 by (simp add: wf_reps_def)
  qed (use q4 in \<open>auto simp: vpipe_def\<close>)
qed

section \<open>Properties\<close>

text \<open>
  A group of three for the witnesses: one pipe each, from the replica to the voter, with 5, 2 and 2
  zero bytes waiting.
\<close>

definition zero_pipe :: "int \<Rightarrow> int \<Rightarrow> vote_pipe" where
  "zero_pipe fd count = \<lparr>rep_info = ''MOV_CMD'', fd_in = fd, fd_out = 0, timed = 0, buff_count = count,
     buff_index = 0, buffer = replicate 4096 0\<rparr>"

definition sample_replica :: "int \<Rightarrow> int \<Rightarrow> int \<Rightarrow> replica" where
  "sample_replica pid prio count = \<lparr>r_pid = pid, r_priority = prio, r_pinned_cpu = 1, r_name = Some ''Filter'',
     r_pipe_count = 1, vot_pipes = [zero_pipe (pid + 20) count], voter_rep_in_copy = [0],
     rep_pipes = [zero_pipe 0 0]\<rparr>"

definition sample_group :: "replica list" where
  "sample_group = [sample_replica 101 5 5, sample_replica 102 5 2, sample_replica 103 6 2]"

lemma less_3_cases: "(\<forall>r < 3. P r) \<longleftrightarrow> P 0 \<and> P (Suc 0) \<and> P (2::nat)"
proof -
  have "r < 3 \<longleftrightarrow> r = 0 \<or> r = Suc 0 \<or> r = 2" for r :: nat by linarith
  then show ?thesis by auto
qed

lemma wf_zero_pipe [simp]: "0 \<le> c \<Longrightarrow> c < 4096 \<Longrightarrow> wf_pipe (zero_pipe fd c)"
  by (simp add: wf_pipe_def zero_pipe_def MAX_VOTE_PIPE_BUFF_def)

lemma sample_group_wf: "wf_reps 1 3 sample_group"
  by (simp add: wf_reps_def sample_group_def less_3_cases wf_rep_def sample_replica_def)

lemma sample_group_counts [simp]:
  "buff_count (vpipe sample_group 0 0) = 5" "buff_count (vpipe sample_group (Suc 0) 0) = 2"
  "buff_count (vpipe sample_group 2 0) = 2" "fd_in (vpipe sample_group 0 0) = 121"
  "r_priority (sample_group ! 0) = 5" "r_priority (sample_group ! Suc 0) = 5"
  "r_priority (sample_group ! 2) = 6" "r_pipe_count (sample_group ! 0) = 1"
  by (simp_all add: sample_group_def sample_replica_def vpipe_def zero_pipe_def)

lemma lessThan_3: "{..<3} = {0, Suc 0, 2}"
  by auto

text \<open>\<open>bytesReady\<close> is the number of bytes that every replica has delivered on the pipe: the minimum
  of their counts, for any number of replicas.\<close>

theorem bytesReady_min:
  assumes "wf_reps n num reps" "p < n" "0 < num"
  shows "bytesReady reps (int num) (int p) = Some (Min ((\<lambda>r. buff_count (vpipe reps r p)) ` {..<num}))"
  using assms by (rule bytesReady_eq)

theorem bytesReady_min_witness: "bytesReady sample_group 3 0 = Some 2"
  using bytesReady_min [OF sample_group_wf, of 0]
  by (simp add: lessThan_3)

text \<open>\<open>behindRep\<close>, which picks the replica a time-out is blamed on, returns a replica with the
  fewest bytes on the pipe and, among those, one with the highest priority: the replica that was
  given the CPU first and still has not answered.\<close>

theorem behindRep_min:
  assumes "wf_reps n num reps" "p < n" "0 < num"
  shows "\<exists>b < num. behindRep reps (int num) (int p) = Some (int b)
    \<and> (\<forall>r < num. buff_count (vpipe reps b p) \<le> buff_count (vpipe reps r p))
    \<and> (\<forall>r < num. buff_count (vpipe reps r p) = buff_count (vpipe reps b p)
         \<longrightarrow> r_priority (reps ! r) \<le> r_priority (reps ! b))"
  using assms by (rule behindRep_eq)

theorem behindRep_min_witness: "behindRep sample_group 3 0 = Some 2"
proof -
  obtain b where b: "b < 3" "behindRep sample_group 3 0 = Some (int b)"
    "\<forall>r < 3. buff_count (vpipe sample_group b 0) \<le> buff_count (vpipe sample_group r 0)"
    "\<forall>r < 3. buff_count (vpipe sample_group r 0) = buff_count (vpipe sample_group b 0)
       \<longrightarrow> r_priority (sample_group ! r) \<le> r_priority (sample_group ! b)"
    using behindRep_min [OF sample_group_wf, of 0] by auto
  from b(1) consider "b = 0" | "b = Suc 0" | "b = 2" by linarith
  then show ?thesis using b(2-4) unfolding less_3_cases by cases simp_all
qed

text \<open>\<open>balanceReps\<close> serves the replica that is furthest behind first: where the scheduler accepts
  the priorities, a replica with the largest gap to the leader gets the highest priority, strictly
  above every other, and nothing but priorities changes: no byte is written, no process signalled.\<close>

theorem balanceReps_serves_slowest:
  assumes wf: "wf_reps n num reps" and num: "2 \<le> num"
    and accepted: "\<And>pid p h. d \<le> p \<Longrightarrow> p \<le> d + 2 \<Longrightarrow> 0 \<le> fst (sched_set_policy K pid p h)"
  shows "\<exists>reps' h' st. balanceReps K reps (int num) d h = Some (reps', h') \<and> prio_eq reps reps'
    \<and> silently h h' \<and> st < num \<and> (\<forall>r < num. gap reps num r \<le> gap reps num st)
    \<and> r_priority (reps' ! st) = d + 2 \<and> (\<forall>r < num. r \<noteq> st \<longrightarrow> r_priority (reps' ! r) < d + 2)"
proof -
  obtain st sec where st: "pick_starting reps (int num) = Some (int st, int sec)" "st < num"
    "\<forall>r < num. gap reps num r \<le> gap reps num st"
    using pick_starting_max [OF wf num] by auto
  let ?pr = "\<lambda>i. balance_priority (int st) (int sec) d (int i)"
  have acc: "\<forall>pid h. \<forall>i < num. 0 \<le> fst (sched_set_policy K pid (?pr i) h)"
    using accepted by (simp add: balance_priority_def)
  obtain reps' es where loop: "for_upto 0 (int num)
      (\<lambda>index. set_rep_priority K index (balance_priority (int st) (int sec) d index)) (reps, h)
      = Some (reps', h @ es)" "prio_eq reps reps'" "list_all is_silent es"
      "\<forall>i < num. r_priority (reps' ! i) = ?pr i"
    using set_priorities_loop [where skip = "\<lambda>i. False" and pr = ?pr
        and num = num and reps = reps and K = K and h = h
        and f = "\<lambda>index. set_rep_priority K index (balance_priority (int st) (int sec) d index)"] wf acc
    by (auto simp: wf_reps_def)
  have "balanceReps K reps (int num) d h = Some (reps', h @ es)"
    using loop(1) st(1) num by (simp add: balanceReps_def)
  then show ?thesis
    using loop st by (intro exI [of _ reps'] exI [of _ "h @ es"] exI [of _ st])
      (auto simp: balance_priority_def)
qed

theorem balanceReps_serves_slowest_witness:
  "\<exists>reps' h' st. balanceReps quiet sample_group 3 5 [] = Some (reps', h') \<and> st \<in> {1, 2}
    \<and> r_priority (reps' ! st) = 7"
proof -
  have acc: "\<And>pid p h. 5 \<le> p \<Longrightarrow> p \<le> 5 + 2 \<Longrightarrow> 0 \<le> fst (sched_set_policy quiet pid p h)"
    by (simp add: sched_set_policy_def quiet_def sys_setscheduler_def Let_def)
  from balanceReps_serves_slowest [where d = 5 and K = quiet and h = "[]", OF sample_group_wf _ acc]
  obtain reps' h' st where b: "balanceReps quiet sample_group 3 5 [] = Some (reps', h')" "st < 3"
    "\<forall>r < 3. gap sample_group 3 r \<le> gap sample_group 3 st" "r_priority (reps' ! st) = 7"
    by auto
  have "gap sample_group 3 r = 5 - buff_count (vpipe sample_group r 0)" for r
    by (simp add: gap_def pipe_gap_def lessThan_3)
  with b(3) have "st \<noteq> 0" unfolding less_3_cases by (intro notI) simp
  with b show ?thesis by (intro exI [of _ reps'] exI [of _ h'] exI [of _ st]) auto
qed

end
