(* ===== verification/VoterArgs.thy ===== *)
theory VoterArgs
  imports CommTypes
begin

text \<open>
  The command-line arguments of the voters: \<open>rep_info:fd_in:fd_out:time\<close>, one per external pipe
  (\<open>parsePipe\<close> in \<open>voter/voterd.c\<close>, with an identical copy in \<open>voter/voters.c\<close>).
\<close>

text \<open>\<open>sscanf\<close> with \<open>%d\<close>: white space, a sign, at least one digit; the number and what is left.\<close>

fun scan_digits :: "int \<Rightarrow> string \<Rightarrow> int \<times> string" where
  "scan_digits acc [] = (acc, [])"
| "scan_digits acc (c # cs) =
     (if is_digit c then scan_digits (10 * acc + (of_char c - 48)) cs else (acc, c # cs))"

definition scan_unsigned :: "string \<Rightarrow> (int \<times> string) option" where
  "scan_unsigned s = (case s of c # cs \<Rightarrow> if is_digit c then Some (scan_digits 0 s) else None | [] \<Rightarrow> None)"

fun scan_int :: "string \<Rightarrow> (int \<times> string) option" where
  "scan_int [] = None"
| "scan_int (c # cs) =
     (if is_space c then scan_int cs
      else if c = CHR ''-'' then map_option (\<lambda>(i, r). (- i, r)) (scan_unsigned cs)
      else if c = CHR ''+'' then scan_unsigned cs
      else scan_unsigned (c # cs))"

definition scan_colon_int :: "string \<Rightarrow> (int \<times> string) option" where
  "scan_colon_int s = (case s of c # cs \<Rightarrow> if c = CHR '':'' then scan_int cs else None | [] \<Rightarrow> None)"

text \<open>
  The type is copied into a block of exactly its length, so no NUL ends it: as a string it goes on
  with whatever follows the block (\<open>tail\<close>). Without a colon among the first 100 characters, or
  with fewer than three numbers, the code uses variables it never set.
\<close>

definition parsePipe :: "string \<Rightarrow> string \<Rightarrow> vote_pipe \<Rightarrow> vote_pipe option" where
  "parsePipe tail serial pipe =
     (let str_length = length (takeWhile (\<lambda>c. c \<noteq> CHR '':'') serial)
      in if str_length < 100 \<and> str_length < length serial then
           do {
             (inn, r1) \<leftarrow> scan_colon_int (drop str_length serial);
             (out, r2) \<leftarrow> scan_colon_int r1;
             (timed', r3) \<leftarrow> scan_colon_int r2;
             Some (pipe\<lparr>rep_info := take str_length serial @ tail, fd_in := inn, fd_out := out,
                        timed := (if timed' \<noteq> 0 then 1 else 0)\<rparr>)
           }
         else None)"

end
