(* ===== verification/VoterD.thy ===== *)
theory VoterD
  imports Replicas VoterArgs
begin

text \<open>
  \<open>voter/voterd.c\<close>: the voter of one controller. It hands what arrives on its external pipes to
  every replica, votes on what the replicas send back, and replaces a replica that disagrees or that
  is late. The globals of the program are the record \<open>voterd\<close>, with the history of the system
  calls and a flag that \<open>exit\<close> sets; a function of the program takes the record and returns it
  updated.
\<close>

definition REP_MAX :: int where "REP_MAX = 3"
definition PIPE_LIMIT :: int where "PIPE_LIMIT = 10"
definition PERIOD_USEC :: int where "PERIOD_USEC = 120"
definition VOTER_PRIO_OFFSET :: int where "VOTER_PRIO_OFFSET = 5"
definition VOTER_PIN :: int where "VOTER_PIN = 0"

record voterd =
  voting_timeout :: int
  current_timer :: int
  timer_start_index :: "int list"
  timer_stop_index :: "int list"
  timer_started :: bool
  watchdog :: timestamp
  replicas :: "replica list"
  voter_priority :: int
  replica_priority :: int
  sd_sock :: int
  rep_type :: replication_t
  rep_count :: int
  controller_name :: string
  pipe_count :: int
  ext_pipes :: "vote_pipe list"
  hist :: history
  exited :: bool

section \<open>Access to the replicas' pipes\<close>

definition put_pipe :: "int \<Rightarrow> int \<Rightarrow> vote_pipe \<Rightarrow> voterd \<Rightarrow> voterd option" where
  "put_pipe r p v s =
     do {
       rep \<leftarrow> aget (replicas s) r;
       rep' \<leftarrow> upd_vot_pipe rep p v;
       reps \<leftarrow> aset (replicas s) r rep';
       Some (s\<lparr>replicas := reps\<rparr>)
     }"

text \<open>A change of the array of replicas that a function of \<open>Replicas\<close> makes.\<close>

definition on_replicas :: "(replica list \<Rightarrow> history \<Rightarrow> (replica list \<times> history) option) \<Rightarrow> voterd \<Rightarrow> voterd option" where
  "on_replicas f s = do { (reps, h) \<leftarrow> f (replicas s) (hist s); Some (s\<lparr>replicas := reps, hist := h\<rparr>) }"

section \<open>Writing\<close>

definition writeBuffer :: "posix \<Rightarrow> int \<Rightarrow> byte list \<Rightarrow> int \<Rightarrow> voterd \<Rightarrow> voterd option" where
  "writeBuffer K fd buf n s =
     do {
       bs \<leftarrow> mem_read buf 0 n;
       Some (s\<lparr>hist := snd (sys_write K fd bs (hist s))\<rparr>)
     }"

definition start_timer :: "posix \<Rightarrow> int \<Rightarrow> voterd \<Rightarrow> voterd" where
  "start_timer K timer s =
     (let (t, h) = generate_timestamp K (hist s)
      in s\<lparr>current_timer := timer, timer_started := True, watchdog := t, hist := h\<rparr>)"

text \<open>The timer starts when a pipe of the given index array is used and no timer runs.\<close>

definition timer_check :: "posix \<Rightarrow> int list \<Rightarrow> int \<Rightarrow> voterd \<Rightarrow> voterd" where
  "timer_check K indices pipe s =
     (if timer_started s then s
      else if pipe = indices ! 0 then start_timer K 0 s
      else if pipe = indices ! 1 then start_timer K 1 s
      else s)"

definition processData :: "posix \<Rightarrow> vote_pipe \<Rightarrow> int \<Rightarrow> voterd \<Rightarrow> voterd option" where
  "processData K pipe pipe_index s =
     do {
       let s1 = timer_check K (timer_start_index s) pipe_index s;
       s2 \<leftarrow> on_replicas (\<lambda>reps. balanceReps K reps (rep_count s1) (replica_priority s1)) s1;
       for_upto 0 (rep_count s2) (\<lambda>r_index s. do {
         v \<leftarrow> pipe_of (replicas s) r_index pipe_index;
         writeBuffer K (fd_out v) (buffer pipe) (buff_count pipe) s
       }) s2
     }"

text \<open>\<open>sendPipe\<close>: one replica's bytes leave, the others drop as many.\<close>

definition sendPipe :: "posix \<Rightarrow> int \<Rightarrow> int \<Rightarrow> voterd \<Rightarrow> voterd option" where
  "sendPipe K pipe_num replica_num s =
     do {
       bytes_avail \<leftarrow> bytesReady (replicas s) (rep_count s) pipe_num;
       if bytes_avail = 0 then Some s
       else do {
         let s1 = (if pipe_num = timer_stop_index s ! 0 \<or> pipe_num = timer_stop_index s ! 1
                   then s\<lparr>timer_started := False\<rparr> else s);
         for_upto 0 (rep_count s1) (\<lambda>r_index s. do {
           v \<leftarrow> pipe_of (replicas s) r_index pipe_num;
           if replica_num = r_index then do {
             ext \<leftarrow> aget (ext_pipes s) pipe_num;
             (retval, v', h) \<leftarrow> buffToPipe K v (fd_out ext) bytes_avail (hist s);
             put_pipe r_index pipe_num v' (s\<lparr>hist := h\<rparr>)
           }
           else put_pipe r_index pipe_num (fakeToPipe v bytes_avail) s
         }) s1
       }
     }"

section \<open>Restarting a replica\<close>

text \<open>
  \<open>stealPipes\<close>: what the replica has not read yet is read from the voter's copies of its read ends,
  into the buffers and counts the caller allocated.
\<close>

definition stealPipes :: "posix \<Rightarrow> int \<Rightarrow> byte list list \<Rightarrow> int list \<Rightarrow> voterd
    \<Rightarrow> (byte list list \<times> int list \<times> voterd) option" where
  "stealPipes K rep_num bufs counts s =
     do {
       rep \<leftarrow> aget (replicas s) rep_num;
       select_set \<leftarrow> for_upto 0 (r_pipe_count rep) (\<lambda>i fds. do {
         fd \<leftarrow> aget (voter_rep_in_copy rep) i;
         Some (if fd \<noteq> 0 then fds @ [fd] else fds)
       }) [];
       let (retval, ready, h1) = sys_select K select_set 0 (hist s);
       if retval > 0 then do {
         (bufs', counts', h2) \<leftarrow> for_upto 0 (r_pipe_count rep) (\<lambda>i (bufs, counts, h). do {
           fd \<leftarrow> aget (voter_rep_in_copy rep) i;
           if fd \<in> set ready then do {
             b \<leftarrow> aget bufs i;
             let (r, bs, h') = sys_read K fd MAX_VOTE_PIPE_BUFF h;
             b' \<leftarrow> mem_write b 0 bs;
             bufs' \<leftarrow> aset bufs i b';
             counts' \<leftarrow> aset counts i r;
             Some (bufs', counts', h')
           }
           else Some (bufs, counts, h)
         }) (bufs, counts, h1);
         Some (bufs', counts', s\<lparr>hist := h2\<rparr>)
       }
       else Some (bufs, counts, s\<lparr>hist := h1\<rparr>)
     }"

definition returnPipes :: "posix \<Rightarrow> int \<Rightarrow> byte list list \<Rightarrow> int list \<Rightarrow> voterd \<Rightarrow> voterd option" where
  "returnPipes K rep_num bufs counts s =
     do {
       rep \<leftarrow> aget (replicas s) rep_num;
       for_upto 0 (r_pipe_count rep) (\<lambda>i s. do {
         c \<leftarrow> aget counts i;
         if c > 0 then do {
           v \<leftarrow> pipe_of (replicas s) rep_num i;
           b \<leftarrow> aget bufs i;
           writeBuffer K (fd_out v) b c s
         }
         else Some s
       }) s
     }"

text \<open>
  The buffers are freed with one loop over \<open>PIPE_LIMIT\<close> slots of an array that has \<open>pipe_count\<close> of
  them: beyond the end, \<open>free\<close> gets whatever word lies there, and survives only a null pointer.
\<close>

definition free_buffers :: "posix \<Rightarrow> int \<Rightarrow> voterd \<Rightarrow> voterd option" where
  "free_buffers K allocated s =
     (if \<forall>i \<in> set [allocated..PIPE_LIMIT - 1]. stray_word K (hist s) i = 0 then Some s else None)"

definition restart_prep :: "posix \<Rightarrow> int \<Rightarrow> int \<Rightarrow> voterd \<Rightarrow> voterd option" where
  "restart_prep K restartee restarter s =
     do {
       (bufs, counts, s1) \<leftarrow> stealPipes K restarter
         (replicate (nat (pipe_count s)) (replicate (nat MAX_VOTE_PIPE_BUFF) 0))
         (replicate (nat (pipe_count s)) 0) s;
       let s2 = s1\<lparr>timer_started := False\<rparr>;
       s3 \<leftarrow> on_replicas (\<lambda>reps. restartReplica K reps (rep_count s2) (sd_sock s2) (ext_pipes s2)
               restarter restartee (replica_priority s2)) s2;
       s4 \<leftarrow> for_upto 0 (pipe_count s3) (\<lambda>i s. do {
         v \<leftarrow> pipe_of (replicas s) restarter i;
         if fd_in v \<noteq> 0 then do {
           w \<leftarrow> pipe_of (replicas s) restartee i;
           w' \<leftarrow> copyPipe w v;
           s' \<leftarrow> put_pipe restartee i w' s;
           sendPipe K i restarter s'
         }
         else Some s
       }) s3;
       s5 \<leftarrow> returnPipes K restartee bufs counts s4;
       s6 \<leftarrow> returnPipes K restarter bufs counts s5;
       free_buffers K (pipe_count s6) s6
     }"

definition startAll :: "posix \<Rightarrow> voterd \<Rightarrow> voterd option" where
  "startAll K s =
     do {
       (ok, reps, h) \<leftarrow> startReplicas K (replicas s) (rep_count s) (sd_sock s) (controller_name s)
         (ext_pipes s) (pipe_count s) (replica_priority s) (hist s);
       Some (s\<lparr>replicas := reps, hist := h, exited := \<not> ok\<rparr>)
     }"

definition voterRestartHandler :: "posix \<Rightarrow> voterd \<Rightarrow> voterd option" where
  "voterRestartHandler K s =
     (case rep_type s of
        SMR \<Rightarrow> do {
          h1 \<leftarrow> cleanupReplica K (replicas s) 0 (hist s);
          let h2 = snd (sys_waitpid K h1);
          s1 \<leftarrow> startAll K (s\<lparr>hist := h2\<rparr>);
          if exited s1 then Some s1
          else for_upto 0 (pipe_count s1) (\<lambda>p_index s. do {
            ext \<leftarrow> aget (ext_pipes s) p_index;
            if fd_in ext \<noteq> 0 then processData K ext p_index s else Some s
          }) s1
        }
      | NONE \<Rightarrow> Some s
      | REP_TYPE_ERROR \<Rightarrow> Some s
      | _ \<Rightarrow> do {
          stop \<leftarrow> aget (timer_stop_index s) (current_timer s);
          restartee \<leftarrow> behindRep (replicas s) (rep_count s) stop;
          restart_prep K restartee ((restartee + (rep_count s - 1)) smod rep_count s) s
        })"

section \<open>Voting\<close>

text \<open>
  The loop of the TMR branch, with the number of replicas still to try: the first replica whose
  successor agrees with it is believed, and when the third one does not agree that one is replaced.
\<close>

primrec tmr_vote :: "posix \<Rightarrow> int \<Rightarrow> int \<Rightarrow> nat \<Rightarrow> int \<Rightarrow> voterd \<Rightarrow> voterd option" where
  "tmr_vote K pipe_num bytes_avail 0 r_index s = Some s"
| "tmr_vote K pipe_num bytes_avail (Suc n) r_index s =
     do {
       a \<leftarrow> pipe_of (replicas s) r_index pipe_num;
       b \<leftarrow> pipe_of (replicas s) ((r_index + 1) smod rep_count s) pipe_num;
       ab \<leftarrow> compareBuffs a b bytes_avail;
       if ab = 0 then do {
         c \<leftarrow> pipe_of (replicas s) ((r_index + 2) smod rep_count s) pipe_num;
         ac \<leftarrow> compareBuffs a c bytes_avail;
         if ac \<noteq> 0 then restart_prep K ((r_index + 2) smod rep_count s) r_index s
         else sendPipe K pipe_num r_index s
       }
       else tmr_vote K pipe_num bytes_avail n (r_index + 1) s
     }"

definition checkSDC :: "posix \<Rightarrow> int \<Rightarrow> voterd \<Rightarrow> voterd option" where
  "checkSDC K pipe_num s =
     do {
       bytes_avail \<leftarrow> bytesReady (replicas s) (rep_count s) pipe_num;
       if bytes_avail = 0 then Some s
       else case rep_type s of
         SMR \<Rightarrow> sendPipe K pipe_num 0 s
       | DMR \<Rightarrow> do {
           a \<leftarrow> pipe_of (replicas s) 0 pipe_num;
           b \<leftarrow> pipe_of (replicas s) 1 pipe_num;
           cmp \<leftarrow> compareBuffs a b bytes_avail;
           sendPipe K pipe_num 0 s
         }
       | TMR \<Rightarrow> tmr_vote K pipe_num bytes_avail (nat (rep_count s)) 0 s
       | _ \<Rightarrow> Some s
     }"

definition processFromRep :: "posix \<Rightarrow> int \<Rightarrow> int \<Rightarrow> voterd \<Rightarrow> voterd option" where
  "processFromRep K replica_num pipe_num s =
     do {
       let s1 = timer_check K (timer_stop_index s) pipe_num s;
       v \<leftarrow> pipe_of (replicas s1) replica_num pipe_num;
       (ret, v', h) \<leftarrow> pipeToBuff K v (hist s1);
       s2 \<leftarrow> put_pipe replica_num pipe_num v' (s1\<lparr>hist := h\<rparr>);
       if ret = 0 then do {
         s3 \<leftarrow> on_replicas (\<lambda>reps. balanceReps K reps (rep_count s2) (replica_priority s2)) s2;
         checkSDC K pipe_num s3
       }
       else Some s2
     }"

section \<open>The main loop\<close>

definition checkSync :: "voterd \<Rightarrow> bool option" where
  "checkSync s =
     for_upto 0 (pipe_count s) (\<lambda>p_index nsync. do {
       votes \<leftarrow> count_of (replicas s) 0 p_index;
       for_upto 1 (rep_count s) (\<lambda>r_index nsync. do {
         c \<leftarrow> count_of (replicas s) r_index p_index;
         Some (if votes \<noteq> c then False else nsync)
       }) nsync
     }) True"

text \<open>The read set of one round: external pipes only when all is voted on and no timer runs.\<close>

definition ext_read_set :: "voterd \<Rightarrow> int list option" where
  "ext_read_set s =
     do {
       check_inputs \<leftarrow> checkSync s;
       if check_inputs \<and> \<not> timer_started s then
         for_upto 0 (pipe_count s) (\<lambda>p_index fds. do {
           ext \<leftarrow> aget (ext_pipes s) p_index;
           Some (if fd_in ext \<noteq> 0 then fds @ [fd_in ext] else fds)
         }) []
       else Some []
     }"

definition rep_read_set :: "voterd \<Rightarrow> int list option" where
  "rep_read_set s =
     for_upto 0 (pipe_count s) (\<lambda>p_index.
       for_upto 0 (rep_count s) (\<lambda>r_index fds. do {
         v \<leftarrow> pipe_of (replicas s) r_index p_index;
         Some (if fd_in v \<noteq> 0 then fds @ [fd_in v] else fds)
       })) []"

text \<open>The first external pipe that is ready is read and handled; the loop stops there.\<close>

primrec ext_round :: "posix \<Rightarrow> int list \<Rightarrow> nat \<Rightarrow> int \<Rightarrow> voterd \<Rightarrow> voterd option" where
  "ext_round K ready 0 p_index s = Some s"
| "ext_round K ready (Suc n) p_index s =
     do {
       ext \<leftarrow> aget (ext_pipes s) p_index;
       if fd_in ext \<noteq> 0 \<and> fd_in ext \<in> set ready then do {
         let (r, bs, h) = sys_read K (fd_in ext) MAX_VOTE_PIPE_BUFF (hist s);
         b \<leftarrow> mem_write (buffer ext) 0 bs;
         let ext' = ext\<lparr>buffer := b, buff_count := r\<rparr>;
         exts \<leftarrow> aset (ext_pipes s) p_index ext';
         let s' = s\<lparr>ext_pipes := exts, hist := h\<rparr>;
         if r > 0 then processData K ext' p_index s' else Some s'
       }
       else ext_round K ready n (p_index + 1) s
     }"

definition rep_round :: "posix \<Rightarrow> int list \<Rightarrow> voterd \<Rightarrow> voterd option" where
  "rep_round K ready s =
     for_upto 0 (pipe_count s) (\<lambda>p_index s.
       for_upto 0 (rep_count s) (\<lambda>r_index s. do {
         v \<leftarrow> pipe_of (replicas s) r_index p_index;
         if fd_in v \<noteq> 0 \<and> fd_in v \<in> set ready then processFromRep K r_index p_index s else Some s
       }) s) s"

text \<open>\<open>watch\<close> is the timer part of a round: the time to wait in \<open>select\<close>, and a restart when it is up.\<close>

definition watch :: "posix \<Rightarrow> fpu \<Rightarrow> voterd \<Rightarrow> (int \<times> voterd) option" where
  "watch K F s =
     (if timer_started s then
        let (current, h) = generate_timestamp K (hist s);
            s1 = s\<lparr>hist := h\<rparr>;
            remaining = f_to_long F (f_sub F (f_of_long F (voting_timeout s1))
                                        (diff_time F current (watchdog s1) CPU_MHZ))
        in if remaining > 0 then Some (remaining, s1)
           else do { s2 \<leftarrow> voterRestartHandler K s1; Some (50000, s2) }
      else Some (50000, s))"

definition doOneUpdate :: "posix \<Rightarrow> fpu \<Rightarrow> voterd \<Rightarrow> voterd option" where
  "doOneUpdate K F s =
     do {
       (usec, s1) \<leftarrow> watch K F s;
       if exited s1 then Some s1
       else do {
         ext_fds \<leftarrow> ext_read_set s1;
         rep_fds \<leftarrow> rep_read_set s1;
         let (retval, ready, h) = sys_select K (ext_fds @ rep_fds) usec (hist s1);
         let s2 = s1\<lparr>hist := h\<rparr>;
         if retval > 0 then do {
           s3 \<leftarrow> ext_round K ready (nat (pipe_count s2)) 0 s2;
           rep_round K ready s3
         }
         else Some s2
       }
     }"

text \<open>\<open>while(1)\<close>: \<open>n\<close> rounds of the loop that never ends.\<close>

primrec updates :: "posix \<Rightarrow> fpu \<Rightarrow> nat \<Rightarrow> voterd \<Rightarrow> voterd option" where
  "updates K F 0 s = Some s"
| "updates K F (Suc n) s =
     (if exited s then Some s else do { s' \<leftarrow> doOneUpdate K F s; updates K F n s' })"

section \<open>Starting up\<close>

definition initVoterD :: "posix \<Rightarrow> voterd \<Rightarrow> voterd option" where
  "initVoterD K s =
     do {
       let s1 = s\<lparr>replica_priority := voter_priority s - VOTER_PRIO_OFFSET\<rparr>;
       let (r, sock, h) = createFDS K (controller_name s1) (hist s1);
       s2 \<leftarrow> startAll K (s1\<lparr>sd_sock := sock, hist := h\<rparr>);
       if exited s2 then Some s2
       else do {
         let s3 = s2\<lparr>hist := snd (InitTAS K VOTER_PIN (voter_priority s2) (hist s2))\<rparr>;
         s4 \<leftarrow> for_upto 0 (pipe_count s3) (\<lambda>p_index s. do {
           ext \<leftarrow> aget (ext_pipes s) p_index;
           if fd_in ext \<noteq> 0 then do {
             let (r, bs, h) = sys_read K (fd_in ext) 0 (hist s);
             exts \<leftarrow> aset (ext_pipes s) p_index (ext\<lparr>buff_count := r\<rparr>);
             Some (s\<lparr>ext_pipes := exts, hist := h\<rparr>)
           }
           else Some s
         }) s3;
         for_upto 0 (rep_count s4) (\<lambda>r_index s. do {
           rep \<leftarrow> aget (replicas s) r_index;
           for_upto 0 (r_pipe_count rep) (\<lambda>p_index s. do {
             v \<leftarrow> pipe_of (replicas s) r_index p_index;
             if fd_in v \<noteq> 0 then do {
               let (r, bs, h) = sys_read K (fd_in v) 0 (hist s);
               put_pipe r_index p_index (v\<lparr>buff_count := r\<rparr>) (s\<lparr>hist := h\<rparr>)
             }
             else Some s
           }) s
         }) s4
       }
     }"

text \<open>
  \<open>parseArgs\<close>. The arguments are read before their number is checked. \<open>malloc\<close> gives blocks of
  indeterminate content: \<open>g 0\<close> for the external pipes, \<open>g (2 * i + 1)\<close> and \<open>g (2 * i + 2)\<close> for the
  pipes of replica \<open>i\<close>; \<open>tail\<close> is the memory behind the type of a pipe.
\<close>

definition malloc_pipes :: "(int \<Rightarrow> int \<Rightarrow> vote_pipe) \<Rightarrow> int \<Rightarrow> int \<Rightarrow> vote_pipe list" where
  "malloc_pipes g block n = map (g block) [0..n - 1]"

definition set_timer_indices :: "voterd \<Rightarrow> voterd option" where
  "set_timer_indices s =
     do {
       (s', _, _) \<leftarrow> for_upto 0 (pipe_count s) (\<lambda>i (s, c_in_pipe, c_out_pipe). do {
         ext \<leftarrow> aget (ext_pipes s) i;
         if timed ext \<noteq> 0 then
           if fd_in ext \<noteq> 0 then do {
             ts \<leftarrow> aset (timer_start_index s) c_in_pipe i;
             Some (s\<lparr>timer_start_index := ts\<rparr>, c_in_pipe + 1, c_out_pipe)
           }
           else do {
             ts \<leftarrow> aset (timer_stop_index s) c_out_pipe i;
             Some (s\<lparr>timer_stop_index := ts\<rparr>, c_in_pipe, c_out_pipe + 1)
           }
         else Some (s, c_in_pipe, c_out_pipe)
       }) (s, 0, 0 :: int);
       Some s'
     }"

definition parseArgs :: "(int \<Rightarrow> int \<Rightarrow> vote_pipe) \<Rightarrow> (int \<Rightarrow> string) \<Rightarrow> string list \<Rightarrow> voterd \<Rightarrow> (int \<times> voterd) option" where
  "parseArgs g tail argv s =
     do {
       let required_args = 5;
       let argc = int (length argv);
       name \<leftarrow> aget argv 1;
       type \<leftarrow> aget argv 2;
       timeout \<leftarrow> aget argv 3;
       prio \<leftarrow> aget argv 4;
       let s1 = s\<lparr>controller_name := name, rep_type := reptypeToEnum type,
                  rep_count := reptypeToCount (reptypeToEnum type),
                  voting_timeout := (if atoi timeout = 0 then PERIOD_USEC else atoi timeout),
                  voter_priority := atoi prio\<rparr>;
       if argc < required_args then Some (-1, s1)
       else do {
         let s2 = s1\<lparr>pipe_count := pipe_count s1 + min (argc - required_args) PIPE_LIMIT\<rparr>;
         exts \<leftarrow> for_upto 0 (min (argc - required_args) PIPE_LIMIT) (\<lambda>i exts. do {
           serial \<leftarrow> aget argv (i + required_args);
           e \<leftarrow> aget exts i;
           e' \<leftarrow> parsePipe (tail i) serial e;
           aset exts i e'
         }) (malloc_pipes g 0 (pipe_count s2));
         reps \<leftarrow> for_upto 0 (rep_count s2) (\<lambda>i reps. do {
           r \<leftarrow> aget reps i;
           aset reps i (r\<lparr>vot_pipes := malloc_pipes g (2 * i + 1) (pipe_count s2),
                          voter_rep_in_copy := map (\<lambda>j. fd_in (g (2 * i + 1) j)) [0..pipe_count s2 - 1],
                          rep_pipes := malloc_pipes g (2 * i + 2) (pipe_count s2)\<rparr>)
         }) (replicas s2);
         s3 \<leftarrow> set_timer_indices (s2\<lparr>ext_pipes := exts, replicas := reps\<rparr>);
         Some (0, s3)
       }
     }"

text \<open>The globals before \<open>main\<close>, and the first \<open>n\<close> rounds of the program.\<close>

definition blank_replica :: replica where
  "blank_replica = \<lparr>r_pid = 0, r_priority = 0, r_pinned_cpu = 0, r_name = None, r_pipe_count = 0,
     vot_pipes = [], voter_rep_in_copy = [], rep_pipes = []\<rparr>"

definition voterd_globals :: voterd where
  "voterd_globals =
     \<lparr>voting_timeout = 0, current_timer = 0, timer_start_index = [0, 0], timer_stop_index = [0, 0],
      timer_started = False, watchdog = 0, replicas = replicate (nat REP_MAX) blank_replica,
      voter_priority = 0, replica_priority = 0, sd_sock = 0, rep_type = NONE, rep_count = 0,
      controller_name = [], pipe_count = 0, ext_pipes = [], hist = [], exited = False\<rparr>"

definition voterd_main :: "posix \<Rightarrow> fpu \<Rightarrow> (int \<Rightarrow> int \<Rightarrow> vote_pipe) \<Rightarrow> (int \<Rightarrow> string) \<Rightarrow> string list \<Rightarrow> nat
    \<Rightarrow> voterd option" where
  "voterd_main K F g tail argv n =
     do {
       (ret, s) \<leftarrow> parseArgs g tail argv voterd_globals;
       if ret < 0 then Some (s\<lparr>exited := True\<rparr>)
       else do { s' \<leftarrow> initVoterD K s; updates K F n s' }
     }"

end
