(* ===== verification/VoterDInv.thy ===== *)
theory VoterDInv
  imports VoterD
begin

text \<open>
  The invariant of \<open>voter/voterd.c\<close> and what its operations do under it: the replicas' pipes stay
  well formed and in step through sending, restarting and voting, and no operation makes an
  undefined access. The net effect of \<open>sendPipe\<close> and \<open>restart_prep\<close> on the pipes, the descriptors
  written to and the processes signalled is stated once here, for the properties to use.
\<close>

section \<open>The group of replicas, well formed and in lockstep\<close>

text \<open>
  \<open>good_group n num ext f k\<close>: the first \<open>num\<close> replicas have \<open>n\<close> well-formed pipes each, which run
  opposite to the external pipes, and the pipes that are voted on are read from one common ring
  index in all of them. While replica \<open>f\<close> is being replaced, only its first \<open>k\<close> pipes are in step.
\<close>

definition in_step :: "vote_pipe \<Rightarrow> vote_pipe \<Rightarrow> bool" where
  "in_step a b \<longleftrightarrow> buff_index a = buff_index b"

definition good_group :: "nat \<Rightarrow> nat \<Rightarrow> vote_pipe list \<Rightarrow> nat \<Rightarrow> nat \<Rightarrow> replica list \<Rightarrow> bool" where
  "good_group n num ext f k reps \<longleftrightarrow> wf_reps n num reps
     \<and> (\<forall>r < num. r_pipe_count (reps ! r) = int n \<and> r_name (reps ! r) \<noteq> None)
     \<and> (\<forall>p < n. \<forall>r < num. (fd_in (vpipe reps r p) \<noteq> 0) = (fd_in (ext ! p) = 0))
     \<and> (\<forall>p < n. \<forall>r < num. \<forall>r' < num. fd_in (ext ! p) = 0 \<longrightarrow> (r = f \<or> r' = f \<longrightarrow> p < k) \<longrightarrow>
          in_step (vpipe reps r p) (vpipe reps r' p))"

lemma good_group_index:
  "good_group n num ext f k reps \<Longrightarrow> p < n \<Longrightarrow> fd_in (ext ! p) = 0 \<Longrightarrow> r < num \<Longrightarrow> r' < num \<Longrightarrow>
   (r = f \<or> r' = f \<Longrightarrow> p < k) \<Longrightarrow> buff_index (vpipe reps r p) = buff_index (vpipe reps r' p)"
  unfolding good_group_def in_step_def by blast

lemma good_group_wf: "good_group n num ext f k reps \<Longrightarrow> wf_reps n num reps"
  by (simp add: good_group_def)

lemma good_group_all: "good_group n num ext f n reps = good_group n num ext f' n reps"
  by (auto simp: good_group_def)

lemma good_groupD:
  assumes "good_group n num ext f k reps" "r < num"
  shows "r < length reps" "wf_rep n (reps ! r)" "r_pipe_count (reps ! r) = int n"
    "\<exists>nm. r_name (reps ! r) = Some nm" "length (vot_pipes (reps ! r)) = n"
    "length (voter_rep_in_copy (reps ! r)) = n" "length (rep_pipes (reps ! r)) = n"
  using assms by (auto simp: good_group_def wf_reps_def wf_rep_def)

lemma good_group_dir:
  "good_group n num ext f k reps \<Longrightarrow> p < n \<Longrightarrow> r < num \<Longrightarrow>
   (fd_in (vpipe reps r p) \<noteq> 0) = (fd_in (ext ! p) = 0)"
  by (simp add: good_group_def)

lemma prio_eq_good [wf_intros]:
  assumes "prio_eq a b" "good_group n num ext f k a"
  shows "good_group n num ext f k b"
proof -
  have "num \<le> length a" using assms(2) by (simp add: good_group_def wf_reps_def)
  then show ?thesis
    using assms prio_eq_wf [OF assms(1)] by (simp add: good_group_def prio_eqD prio_eq_vpipe)
qed

text \<open>One pipe of one replica replaced.\<close>

definition set_pipe :: "replica list \<Rightarrow> nat \<Rightarrow> nat \<Rightarrow> vote_pipe \<Rightarrow> replica list" where
  "set_pipe reps r p v = reps[r := (reps ! r)\<lparr>vot_pipes := (vot_pipes (reps ! r))[p := v]\<rparr>]"

lemma length_set_pipe [simp]: "length (set_pipe reps r p v) = length reps"
  by (simp add: set_pipe_def)

lemma vpipe_set_pipe:
  "r < length reps \<Longrightarrow> p < length (vot_pipes (reps ! r)) \<Longrightarrow>
   vpipe (set_pipe reps r p v) r' p' = (if r' = r \<and> p' = p then v else vpipe reps r' p')"
  by (auto simp: set_pipe_def vpipe_def nth_list_update)

lemma set_pipe_fields [simp]:
  "r_pipe_count (set_pipe reps r p v ! i) = r_pipe_count (reps ! i)"
  "r_name (set_pipe reps r p v ! i) = r_name (reps ! i)"
  "r_pid (set_pipe reps r p v ! i) = r_pid (reps ! i)"
  "r_priority (set_pipe reps r p v ! i) = r_priority (reps ! i)"
  "length (vot_pipes (set_pipe reps r p v ! i)) = length (vot_pipes (reps ! i))"
  "rep_pipes (set_pipe reps r p v ! i) = rep_pipes (reps ! i)"
  "voter_rep_in_copy (set_pipe reps r p v ! i) = voter_rep_in_copy (reps ! i)"
proof -
  have "set_pipe reps r p v ! i = (if r < length reps \<and> i = r
      then (reps ! i)\<lparr>vot_pipes := (vot_pipes (reps ! i))[p := v]\<rparr> else reps ! i)"
    by (auto simp: set_pipe_def list_update_beyond)
  then show
    "r_pipe_count (set_pipe reps r p v ! i) = r_pipe_count (reps ! i)"
    "r_name (set_pipe reps r p v ! i) = r_name (reps ! i)"
    "r_pid (set_pipe reps r p v ! i) = r_pid (reps ! i)"
    "r_priority (set_pipe reps r p v ! i) = r_priority (reps ! i)"
    "length (vot_pipes (set_pipe reps r p v ! i)) = length (vot_pipes (reps ! i))"
    "rep_pipes (set_pipe reps r p v ! i) = rep_pipes (reps ! i)"
    "voter_rep_in_copy (set_pipe reps r p v ! i) = voter_rep_in_copy (reps ! i)"
    by simp_all
qed

lemma set_pipe_wf:
  assumes "wf_reps n num reps" "r < num" "p < n" "wf_pipe v"
  shows "wf_reps n num (set_pipe reps r p v)"
proof -
  have "wf_rep n ((reps ! r)\<lparr>vot_pipes := (vot_pipes (reps ! r))[p := v]\<rparr>)"
    using assms wf_rep_vot_pipes by (auto simp: wf_reps_def)
  then show ?thesis using assms by (auto simp: wf_reps_def set_pipe_def nth_list_update)
qed

lemma put_pipe_eq:
  assumes "wf_reps n num (replicas s)" "r < num" "p < n"
  shows "put_pipe (int r) (int p) v s = Some (s\<lparr>replicas := set_pipe (replicas s) r p v\<rparr>)"
  using assms by (auto simp: put_pipe_def upd_vot_pipe_def wf_reps_def wf_rep_def set_pipe_def)

text \<open>A new pipe with the old descriptors and, where it matters, the common index.\<close>

lemma set_pipe_good:
  assumes g: "good_group n num ext f k reps" and r: "r < num" "p < n" "wf_pipe v"
    and v: "fd_in v = fd_in (vpipe reps r p)"
    and idx: "\<And>r'. fd_in (ext ! p) = 0 \<Longrightarrow> r' < num \<Longrightarrow> r' \<noteq> r \<Longrightarrow> (r = f \<or> r' = f \<Longrightarrow> p < k') \<Longrightarrow>
        buff_index v = buff_index (vpipe reps r' p)"
    and k': "k' = k \<or> k' = Suc k \<and> r = f \<and> p = k \<or> k' = Suc k \<and> fd_in (ext ! k) \<noteq> 0"
  shows "good_group n num ext f k' (set_pipe reps r p v)"
proof -
  have len: "r < length reps" "p < length (vot_pipes (reps ! r))"
    using good_groupD [OF g r(1)] r(2) by auto
  note vp = vpipe_set_pipe [OF len]
  have "wf_reps n num (set_pipe reps r p v)" using g r by (intro set_pipe_wf) (auto simp: good_group_def)
  moreover have "in_step (vpipe (set_pipe reps r p v) r1 q) (vpipe (set_pipe reps r p v) r2 q)"
    if "q < n" "r1 < num" "r2 < num" "fd_in (ext ! q) = 0" "r1 = f \<or> r2 = f \<longrightarrow> q < k'" for q r1 r2
  proof -
    have old: "in_step (vpipe reps r1 q) (vpipe reps r2 q)" if "r1 = f \<or> r2 = f \<longrightarrow> q < k"
      using good_group_index [OF g \<open>q < n\<close> \<open>fd_in (ext ! q) = 0\<close> \<open>r1 < num\<close> \<open>r2 < num\<close>] that
      by (auto simp: in_step_def)
    show ?thesis
    proof (cases "q = p \<and> (r1 = r \<or> r2 = r)")
      case True
      then show ?thesis
        using that idx [of r1] idx [of r2] by (cases "r1 = r"; cases "r2 = r") (auto simp: vp in_step_def)
    next
      case False
      moreover have "r1 = f \<or> r2 = f \<longrightarrow> q < k \<or> r1 = r2"
        using that k' False by (auto simp: less_Suc_eq)
      ultimately show ?thesis using old by (cases "r1 = r2") (auto simp: vp in_step_def)
    qed
  qed
  moreover have "(fd_in (vpipe (set_pipe reps r p v) r1 q) \<noteq> 0) = (fd_in (ext ! q) = 0)"
    if "q < n" "r1 < num" for q r1
    using good_group_dir [OF g that] v by (auto simp: vp)
  ultimately show ?thesis
    using g unfolding good_group_def set_pipe_fields by blast
qed

section \<open>Sending\<close>

text \<open>All replicas drop \<open>b\<close> bytes of pipe \<open>p\<close>.\<close>

definition skip_pipe :: "nat \<Rightarrow> int \<Rightarrow> replica \<Rightarrow> replica" where
  "skip_pipe p b r = r\<lparr>vot_pipes := (vot_pipes r)[p := fakeToPipe (vot_pipes r ! p) b]\<rparr>"

definition advance :: "nat \<Rightarrow> nat \<Rightarrow> int \<Rightarrow> replica list \<Rightarrow> replica list" where
  "advance num p b reps = map (skip_pipe p b) (take num reps) @ drop num reps"

lemma advance_0 [simp]: "advance 0 p b reps = reps"
  by (simp add: advance_def)

lemma length_advance [simp]: "length (advance num p b reps) = length reps"
  by (simp add: advance_def)

lemma nth_advance:
  "num \<le> length reps \<Longrightarrow> i < length reps \<Longrightarrow>
   advance num p b reps ! i = (if i < num then skip_pipe p b (reps ! i) else reps ! i)"
  by (simp add: advance_def nth_append min_def)

lemma advance_Suc:
  assumes "i < length reps" "p < length (vot_pipes (reps ! i))"
  shows "set_pipe (advance i p b reps) i p (fakeToPipe (vpipe reps i p) b) = advance (Suc i) p b reps"
proof (rule nth_equalityI)
  fix j assume "j < length (set_pipe (advance i p b reps) i p (fakeToPipe (vpipe reps i p) b))"
  then show "set_pipe (advance i p b reps) i p (fakeToPipe (vpipe reps i p) b) ! j = advance (Suc i) p b reps ! j"
    using assms by (auto simp: set_pipe_def nth_advance skip_pipe_def vpipe_def nth_list_update less_Suc_eq)
qed simp

lemma vpipe_advance:
  assumes "num \<le> length reps" "r < num" "p < length (vot_pipes (reps ! r))"
  shows "vpipe (advance num p b reps) r q = (if q = p then fakeToPipe (vpipe reps r p) b else vpipe reps r q)"
  using assms by (auto simp: vpipe_def nth_advance skip_pipe_def)

lemma advance_wf:
  assumes wf: "wf_reps n num reps" and m: "m \<le> num" and p: "p < n"
    and b: "0 \<le> b" "\<And>r. r < num \<Longrightarrow> b \<le> buff_count (vpipe reps r p)"
  shows "wf_reps n num (advance m p b reps)"
proof -
  have "wf_rep n (skip_pipe p b (reps ! r))" if "r < num" for r
  proof -
    have "wf_pipe (fakeToPipe (vpipe reps r p) b)"
      using wf_reps_pipe [OF wf that p] b that by (auto intro: fakeToPipe_wf)
    then show ?thesis
      using wf_rep_vot_pipes [of n "reps ! r" p] wf that p by (simp add: skip_pipe_def vpipe_def wf_reps_def)
  qed
  then show ?thesis using wf m by (auto simp: wf_reps_def nth_advance)
qed

lemma advance_good:
  assumes g: "good_group n num ext f k reps" and p: "p < n"
    and b: "0 \<le> b" "\<And>r. r < num \<Longrightarrow> b \<le> buff_count (vpipe reps r p)"
  shows "good_group n num ext f k (advance num p b reps)"
proof -
  have len: "num \<le> length reps" "\<And>r. r < num \<Longrightarrow> p < length (vot_pipes (reps ! r))"
    using g good_groupD [OF g] p by (auto simp: good_group_def wf_reps_def)
  have vp: "vpipe (advance num p b reps) r q = (if q = p then fakeToPipe (vpipe reps r p) b else vpipe reps r q)"
    if "r < num" for r q using vpipe_advance [OF len(1) that len(2)] that by simp
  have "in_step (vpipe (advance num p b reps) r q) (vpipe (advance num p b reps) r' q)"
    if "q < n" "r < num" "r' < num" "fd_in (ext ! q) = 0" "r = f \<or> r' = f \<longrightarrow> q < k" for q r r'
  proof -
    have "buff_index (vpipe reps r q) = buff_index (vpipe reps r' q)"
      using good_group_index [OF g that(1,4,2,3)] that(5) by blast
    then show ?thesis using that by (auto simp: vp in_step_def)
  qed
  moreover have "(fd_in (vpipe (advance num p b reps) r q) \<noteq> 0) = (fd_in (ext ! q) = 0)"
    if "q < n" "r < num" for q r using good_group_dir [OF g that] that by (auto simp: vp)
  moreover have "r_pipe_count (advance num p b reps ! r) = int n \<and> r_name (advance num p b reps ! r) \<noteq> None"
    if "r < num" for r
    using good_groupD [OF g that] that len(1) by (auto simp: nth_advance skip_pipe_def)
  ultimately show ?thesis
    using advance_wf [OF good_group_wf [OF g] order_refl p b] unfolding good_group_def by blast
qed

text \<open>
  The contract of \<open>sendPipe\<close>: with \<open>b\<close> bytes available in all replicas, the first \<open>b\<close> bytes of the
  chosen replica go out in one \<open>write\<close>, and every replica's pipe moves on by \<open>b\<close>.
\<close>

lemma sendPipe_eq:
  assumes wf: "wf_reps n num (replicas s)" and num: "rep_count s = int num" and p: "p < n" "p < length (ext_pipes s)"
    and l: "l < num" and avail: "bytesReady (replicas s) (int num) (int p) = Some b"
  shows "sendPipe K (int p) (int l) s = Some
    (if b = 0 then s
     else s\<lparr>timer_started := timer_started s \<and> int p \<noteq> timer_stop_index s ! 0 \<and> int p \<noteq> timer_stop_index s ! 1,
            replicas := advance num p b (replicas s),
            hist := snd (sys_write K (fd_out (ext_pipes s ! p)) (take (nat b) (content (vpipe (replicas s) l p))) (hist s))\<rparr>)"
proof (cases "b = 0")
  case True
  then show ?thesis using avail num by (simp add: sendPipe_def)
next
  case False
  have num0: "0 < num" using l by simp
  from wf p(1) num0 obtain m where "bytesReady (replicas s) (int num) (int p) = Some m" "0 \<le> m"
    "\<And>r. r < num \<Longrightarrow> m \<le> buff_count (vpipe (replicas s) r p)" by (rule bytesReady_cases) blast
  then have b: "0 \<le> b" "\<And>r. r < num \<Longrightarrow> b \<le> buff_count (vpipe (replicas s) r p)" using avail by auto
  define s1 where "s1 = s\<lparr>timer_started := timer_started s \<and> int p \<noteq> timer_stop_index s ! 0 \<and> int p \<noteq> timer_stop_index s ! 1\<rparr>"
  have s1: "(if int p = timer_stop_index s ! 0 \<or> int p = timer_stop_index s ! 1
      then s\<lparr>timer_started := False\<rparr> else s) = s1" "replicas s1 = replicas s" "hist s1 = hist s"
      "rep_count s1 = rep_count s" "ext_pipes s1 = ext_pipes s"
    by (auto simp: s1_def)
  let ?h = "snd (sys_write K (fd_out (ext_pipes s ! p)) (take (nat b) (content (vpipe (replicas s) l p))) (hist s))"
  let ?body = "\<lambda>r_index t. do {
           v \<leftarrow> pipe_of (replicas t) r_index (int p);
           if int l = r_index then do {
             ext \<leftarrow> aget (ext_pipes t) (int p);
             (retval, v', h) \<leftarrow> buffToPipe K v (fd_out ext) b (hist t);
             put_pipe r_index (int p) v' (t\<lparr>hist := h\<rparr>)
           }
           else put_pipe r_index (int p) (fakeToPipe v b) t }"
  let ?st = "\<lambda>i::nat. s1\<lparr>replicas := advance i p b (replicas s), hist := (if l < i then ?h else hist s)\<rparr>"
  have len: "num \<le> length (replicas s)" "\<And>r. r < num \<Longrightarrow> p < length (vot_pipes (replicas s ! r))"
    using wf p(1) by (auto simp: wf_reps_def wf_rep_def)
  have "\<exists>t. for_upto 0 (int num) ?body s1 = Some t \<and> t = ?st num"
  proof (rule for_upto_nat [where P = "\<lambda>i t. t = ?st i"])
    show "s1 = ?st 0" by (simp add: s1_def)
  next
    fix i t assume i: "i < num" and t: "t = ?st i"
    have wfi: "wf_reps n num (replicas t)" using advance_wf [OF wf _ p(1) b, of i] i t by simp
    have vp: "vpipe (replicas t) i p = vpipe (replicas s) i p"
      using i len by (simp add: t vpipe_def nth_advance)
    have vpw: "wf_pipe (vpipe (replicas s) i p)" using wf_reps_pipe [OF wf i p(1)] .
    have adv: "set_pipe (replicas t) i p (fakeToPipe (vpipe (replicas s) i p) b) = advance (Suc i) p b (replicas s)"
      using advance_Suc [of i "replicas s" p b] i len by (simp add: t)
    have get: "pipe_of (replicas t) (int i) (int p) = Some (vpipe (replicas s) i p)"
      using pipe_of_wf(1) [OF wfi i p(1)] vp by simp
    have "?body (int i) t = Some (?st (Suc i))"
    proof (cases "i = l")
      case True
      have "buffToPipe K (vpipe (replicas s) i p) (fd_out (ext_pipes s ! p)) b (hist s)
          = Some (0, fakeToPipe (vpipe (replicas s) i p) b, ?h)"
        using buffToPipe_eq [OF vpw b(1) b(2) [OF i]] True by simp
      moreover have "put_pipe (int i) (int p) v (t\<lparr>hist := h\<rparr>)
          = Some (t\<lparr>hist := h, replicas := set_pipe (replicas t) i p v\<rparr>)" for v h
        using put_pipe_eq [of n num "t\<lparr>hist := h\<rparr>" i p v] wfi i p by simp
      ultimately show ?thesis using get adv True p(2) by (simp add: t s1)
    next
      case False
      then have "?body (int i) t = Some (t\<lparr>replicas := advance (Suc i) p b (replicas s)\<rparr>)"
        using get put_pipe_eq [OF wfi i p(1)] adv by simp
      then show ?thesis using False by (simp add: t)
    qed
    then show "\<exists>t'. ?body (int i) t = Some t' \<and> t' = ?st (Suc i)" by blast
  qed
  then show ?thesis
    using False l unfolding sendPipe_def num avail Option.bind.simps Let_def s1(1)
    by (simp add: s1(4) num) (simp add: s1_def)
qed

section \<open>The restart\<close>

lemma stealPipes_eq:
  assumes r: "r < length (replicas s)" "voter_rep_in_copy (replicas s ! r) = fds" "length fds = n"
      "r_pipe_count (replicas s ! r) = int n"
    and bufs: "length bufs = n" "list_all (\<lambda>b. length b = 4096) bufs"
    and counts: "length counts = n" "list_all (\<lambda>c. c \<le> 4096) counts"
  obtains bufs' counts' h' where "stealPipes K (int r) bufs counts s = Some (bufs', counts', s\<lparr>hist := h'\<rparr>)"
    "silently (hist s) h'" "length bufs' = n" "list_all (\<lambda>b. length b = 4096) bufs'"
    "length counts' = n" "list_all (\<lambda>c. c \<le> 4096) counts'"
proof -
  have "\<exists>set. for_upto 0 (int n) (\<lambda>i f. do { fd \<leftarrow> aget fds i; Some (if fd \<noteq> 0 then f @ [fd] else f) }) [] = Some set \<and> True"
    by (rule for_upto_nat [where P = "\<lambda>i s. True"]) (use r(3) in auto)
  then obtain sel where sel: "for_upto 0 (int n) (\<lambda>i f. do { fd \<leftarrow> aget fds i; Some (if fd \<noteq> 0 then f @ [fd] else f) }) [] = Some sel"
    by blast
  obtain retval ready h1 where select: "sys_select K sel 0 (hist s) = (retval, ready, h1)"
    by (cases "sys_select K sel 0 (hist s)") auto
  have sil: "silently (hist s) h1" using select by blast
  let ?body = "\<lambda>i (bufs, counts, h). do {
           fd \<leftarrow> aget fds i;
           if fd \<in> set ready then do {
             b \<leftarrow> aget bufs i;
             let (r, bs, h') = sys_read K fd MAX_VOTE_PIPE_BUFF h;
             b' \<leftarrow> mem_write b 0 bs;
             bufs' \<leftarrow> aset bufs i b';
             counts' \<leftarrow> aset counts i r;
             Some (bufs', counts', h')
           }
           else Some (bufs, counts, h) }"
  let ?P = "\<lambda>(b :: byte list list, c :: int list, h). silently (hist s) h \<and> length b = n \<and> list_all (\<lambda>b. length b = 4096) b
    \<and> length c = n \<and> list_all (\<lambda>c. c \<le> 4096) c"
  have "\<exists>t. for_upto 0 (int n) ?body (bufs, counts, h1) = Some t \<and> ?P t"
  proof (rule for_upto_nat [where P = "\<lambda>i. ?P"])
    show "?P (bufs, counts, h1)" using sil bufs counts by simp
  next
    fix i t assume i: "i < n" and "?P t"
    then obtain b c h where t: "t = (b, c, h)" "?P (b, c, h)" by (cases t) auto
    show "\<exists>t'. ?body (int i) t = Some t' \<and> ?P t'"
    proof (cases "fds ! i \<in> set ready")
      case False
      then show ?thesis using t i r(3) by auto
    next
      case True
      obtain ret bs h' where rd: "sys_read K (fds ! i) MAX_VOTE_PIPE_BUFF h = (ret, bs, h')"
        by (cases "sys_read K (fds ! i) MAX_VOTE_PIPE_BUFF h") auto
      have "silently (hist s) h'" using t(2) rd silently_trans by blast
      moreover have "length bs \<le> 4096" "ret \<le> 4096"
        using rd by (auto elim!: sys_read_cases simp: MAX_VOTE_PIPE_BUFF_def)
      moreover have "length (b ! i) = 4096" using t(2) i by (simp add: list_all_length)
      moreover have "\<And>x. length x = 4096 \<Longrightarrow> list_all (\<lambda>b. length b = 4096) (b[i := x])"
        using t(2) i by (auto simp: list_all_length nth_list_update)
      moreover have "list_all (\<lambda>c. c \<le> 4096) (c[i := ret])"
        using t(2) i \<open>ret \<le> 4096\<close> by (auto simp: list_all_length nth_list_update)
      ultimately show ?thesis using t i r(3) True rd by (simp add: mem_write_in)
    qed
  qed
  then obtain b c h2 where loop: "for_upto 0 (int n) ?body (bufs, counts, h1) = Some (b, c, h2)" "?P (b, c, h2)"
    by fast
  show ?thesis
  proof (cases "retval > 0")
    case True
    then show ?thesis
      using that [of b c h2] r sel select loop by (simp add: stealPipes_def)
  next
    case False
    then show ?thesis
      using that [of bufs counts h1] r sel select sil bufs counts by (simp add: stealPipes_def)
  qed
qed

text \<open>The writes that return stolen bytes to a replica.\<close>

definition given_back :: "replica list \<Rightarrow> nat \<Rightarrow> byte list list \<Rightarrow> nat \<Rightarrow> (int \<times> byte list) list" where
  "given_back reps r stolen n =
     concat (map (\<lambda>i. if stolen ! i = [] then [] else [(fd_out (vpipe reps r i), stolen ! i)]) [0..<n])"

definition stolen_bytes :: "byte list list \<Rightarrow> int list \<Rightarrow> byte list list" where
  "stolen_bytes bufs counts = map (\<lambda>(b, c). take (nat c) b) (zip bufs counts)"

lemma returnPipes_eq:
  assumes wf: "wf_reps n num (replicas s)" and r: "r < num" "r_pipe_count (replicas s ! r) = int n"
    and bufs: "length bufs = n" "list_all (\<lambda>b. length b = 4096) bufs"
    and counts: "length counts = n" "list_all (\<lambda>c. c \<le> 4096) counts"
  obtains h' where "returnPipes K (int r) bufs counts s = Some (s\<lparr>hist := h'\<rparr>)"
    "writes h' = writes (hist s) @ given_back (replicas s) r (stolen_bytes bufs counts) n"
    "\<And>sig. killed sig h' = killed sig (hist s)"
proof -
  let ?st = "stolen_bytes bufs counts"
  let ?P = "\<lambda>i t. \<exists>h'. t = s\<lparr>hist := h'\<rparr> \<and> writes h' = writes (hist s) @ given_back (replicas s) r ?st i
     \<and> (\<forall>sig. killed sig h' = killed sig (hist s))"
  have len: "r < length (replicas s)" using wf r(1) by (auto simp: wf_reps_def)
  have "\<exists>t. returnPipes K (int r) bufs counts s = Some t \<and> ?P n t"
    unfolding returnPipes_def aget_int [OF len] Option.bind.simps r(2)
  proof (rule for_upto_nat [where P = ?P])
    show "?P 0 s" by (intro exI [of _ "hist s"]) (simp add: given_back_def)
  next
    fix i t assume i: "i < n" and "?P i t"
    then obtain h' where t: "t = s\<lparr>hist := h'\<rparr>" "writes h' = writes (hist s) @ given_back (replicas s) r ?st i"
      "\<forall>sig. killed sig h' = killed sig (hist s)" by blast
    let ?v = "vpipe (replicas s) r i"
    have bl: "length (bufs ! i) = 4096" "counts ! i \<le> 4096"
      using bufs counts i by (simp_all add: list_all_length)
    have st: "?st ! i = take (nat (counts ! i)) (bufs ! i)"
      using bufs(1) counts(1) i by (simp add: stolen_bytes_def)
    show "\<exists>t'. do { c \<leftarrow> aget counts (int i);
        if c > 0 then do { v \<leftarrow> pipe_of (replicas t) (int r) (int i); b \<leftarrow> aget bufs (int i);
          writeBuffer K (fd_out v) b c t } else Some t } = Some t' \<and> ?P (Suc i) t'"
    proof (cases "counts ! i > 0")
      case True
      have "writeBuffer K (fd_out ?v) (bufs ! i) (counts ! i) t
          = Some (s\<lparr>hist := snd (sys_write K (fd_out ?v) (?st ! i) h')\<rparr>)"
        using True bl by (simp add: writeBuffer_def mem_read_in st t(1))
      moreover have "?st ! i \<noteq> []" using True bl by (auto simp: st)
      ultimately show ?thesis
        using True i counts(1) bufs(1) pipe_of_wf(1) [OF wf r(1) i] t
        by (intro exI [of _ "s\<lparr>hist := snd (sys_write K (fd_out ?v) (?st ! i) h')\<rparr>"])
          (auto simp: given_back_def)
    next
      case False
      then have "?st ! i = []" by (simp add: st)
      then show ?thesis
        using False i counts(1) t by (intro exI [of _ t]) (auto simp: given_back_def)
    qed
  qed
  then show ?thesis using that by blast
qed

text \<open>
  What the restart sends: on every voted pipe, as many bytes of the healthy replica as all replicas
  but the failed one have delivered.
\<close>

definition rest_ready :: "replica list \<Rightarrow> nat \<Rightarrow> nat \<Rightarrow> nat \<Rightarrow> int" where
  "rest_ready reps num f p = Min ((\<lambda>r. buff_count (vpipe reps r p)) ` ({..<num} - {f}))"

definition restart_sends :: "vote_pipe list \<Rightarrow> replica list \<Rightarrow> nat \<Rightarrow> nat \<Rightarrow> nat \<Rightarrow> nat \<Rightarrow> (int \<times> byte list) list" where
  "restart_sends ext reps num f l n =
     concat (map (\<lambda>p. if fd_in (ext ! p) = 0 \<and> rest_ready reps num f p \<noteq> 0
       then [(fd_out (ext ! p), take (nat (rest_ready reps num f p)) (content (vpipe reps l p)))] else []) [0..<n])"

lemma good_group_Suc:
  assumes "good_group n num ext f k reps" "fd_in (ext ! k) \<noteq> 0"
  shows "good_group n num ext f (Suc k) reps"
  using assms unfolding good_group_def by (metis less_Suc_eq)

lemma copy_and_send:
  assumes g: "good_group n num (ext_pipes t) f i (replicas t)" and num: "rep_count t = int num"
    and idx: "i < n" "i < length (ext_pipes t)" "f < num" "l < num" "l \<noteq> f"
    and voted: "fd_in (ext_pipes t ! i) = 0"
    and timer: "timer_started t = False"
  obtains reps' where
    "do { w \<leftarrow> pipe_of (replicas t) (int f) (int i); w' \<leftarrow> copyPipe w (vpipe (replicas t) l i);
          t' \<leftarrow> put_pipe (int f) (int i) w' t; sendPipe K (int i) (int l) t' } =
     Some (t\<lparr>replicas := reps', hist := (if rest_ready (replicas t) num f i = 0 then hist t else
       snd (sys_write K (fd_out (ext_pipes t ! i))
         (take (nat (rest_ready (replicas t) num f i)) (content (vpipe (replicas t) l i))) (hist t)))\<rparr>)"
    "good_group n num (ext_pipes t) f (Suc i) reps'" "length reps' = length (replicas t)"
    "\<And>r p. r < num \<Longrightarrow> p \<noteq> i \<Longrightarrow> vpipe reps' r p = vpipe (replicas t) r p"
proof -
  let ?R = "replicas t" and ?ext = "ext_pipes t"
  note wf = good_group_wf [OF g]
  have wl: "wf_pipe (vpipe ?R l i)" and wff: "wf_pipe (vpipe ?R f i)"
    using wf_reps_pipe [OF wf _ idx(1)] idx by auto
  have lenf: "length (buffer (vpipe ?R f i)) = nat MAX_VOTE_PIPE_BUFF" using wff by (simp add: wf_pipe_def)
  obtain d where d: "copyPipe (vpipe ?R f i) (vpipe ?R l i) = Some d" "wf_pipe d"
    "content d = content (vpipe ?R l i)" "buff_index d = buff_index (vpipe ?R l i)"
    "buff_count d = buff_count (vpipe ?R l i)" "fd_in d = fd_in (vpipe ?R f i)"
    by (rule copyPipe_spec [OF wl lenf]) blast
  let ?R1 = "set_pipe ?R f i d"
  have len: "f < length ?R" "i < length (vot_pipes (?R ! f))" "num \<le> length ?R"
    using good_groupD [OF g idx(3)] idx(1) wf by (auto simp: wf_reps_def)
  note vp1 = vpipe_set_pipe [OF len(1,2)]
  have g1: "good_group n num ?ext f (Suc i) ?R1"
  proof (rule set_pipe_good [OF g idx(3) idx(1) d(2) d(6)])
    fix r' assume "fd_in (?ext ! i) = 0" "r' < num" "r' \<noteq> f"
    then show "buff_index d = buff_index (vpipe ?R r' i)"
      using good_group_index [OF g idx(1) voted idx(4), of r'] idx(5) d(4) by simp
  qed simp
  note wf1 = good_group_wf [OF g1]
  have num0: "0 < num" using idx by simp
  let ?c = "\<lambda>r. buff_count (vpipe ?R r i)"
  have counts: "(\<lambda>r. buff_count (vpipe ?R1 r i)) ` {..<num} = ?c ` ({..<num} - {f})"
  proof -
    have "{..<num} = insert f ({..<num} - {f})" using idx(3) by auto
    then have "(\<lambda>r. buff_count (vpipe ?R1 r i)) ` {..<num}
        = insert (?c l) ((\<lambda>r. buff_count (vpipe ?R1 r i)) ` ({..<num} - {f}))"
      using vp1 d(5) by (metis (no_types, lifting) image_insert)
    also have "(\<lambda>r. buff_count (vpipe ?R1 r i)) ` ({..<num} - {f}) = ?c ` ({..<num} - {f})"
      using vp1 by (intro image_cong) auto
    also have "insert (?c l) (?c ` ({..<num} - {f})) = ?c ` ({..<num} - {f})"
      using idx(4,5) by (intro insert_absorb imageI) auto
    finally show ?thesis .
  qed
  let ?b = "rest_ready ?R num f i"
  have avail: "bytesReady ?R1 (int num) (int i) = Some ?b"
    using bytesReady_eq [OF wf1 idx(1) num0] counts by (simp add: rest_ready_def)
  from wf1 idx(1) num0 obtain m where "bytesReady ?R1 (int num) (int i) = Some m" "0 \<le> m"
    "\<And>r. r < num \<Longrightarrow> m \<le> buff_count (vpipe ?R1 r i)" by (rule bytesReady_cases) blast
  then have b: "0 \<le> ?b" "\<And>r. r < num \<Longrightarrow> ?b \<le> buff_count (vpipe ?R1 r i)" using avail by auto
  let ?R2 = "if ?b = 0 then ?R1 else advance num i ?b ?R1"
  have l1: "vpipe ?R1 l i = vpipe ?R l i" using vp1 idx(5) by simp
  have "sendPipe K (int i) (int l) (t\<lparr>replicas := ?R1\<rparr>) = Some (t\<lparr>replicas := ?R2,
      hist := (if ?b = 0 then hist t else snd (sys_write K (fd_out (?ext ! i))
         (take (nat ?b) (content (vpipe ?R l i))) (hist t)))\<rparr>)"
    using sendPipe_eq [of n num "t\<lparr>replicas := ?R1\<rparr>" i l ?b K] wf1 num idx avail l1 timer by auto
  moreover have "put_pipe (int f) (int i) d t = Some (t\<lparr>replicas := ?R1\<rparr>)"
    using put_pipe_eq [OF wf idx(3,1)] .
  ultimately have run: "do { w \<leftarrow> pipe_of ?R (int f) (int i); w' \<leftarrow> copyPipe w (vpipe ?R l i);
          t' \<leftarrow> put_pipe (int f) (int i) w' t; sendPipe K (int i) (int l) t' } =
     Some (t\<lparr>replicas := ?R2, hist := (if ?b = 0 then hist t else snd (sys_write K (fd_out (?ext ! i))
         (take (nat ?b) (content (vpipe ?R l i))) (hist t)))\<rparr>)"
    using pipe_of_wf(1) [OF wf idx(3,1)] d(1) by simp
  have "good_group n num ?ext f (Suc i) ?R2"
    using g1 advance_good [OF g1 idx(1) b] by simp
  moreover have "vpipe ?R2 r p = vpipe ?R r p" if "r < num" "p \<noteq> i" for r p
    using that vp1 vpipe_advance [of num ?R1 r i ?b p] len(3) good_groupD(5) [OF g1 that(1)] idx(1) by auto
  ultimately show ?thesis using that [OF run] by simp
qed

text \<open>No stray pointer lies behind the array of stolen buffers.\<close>

definition no_strays :: "posix \<Rightarrow> bool" where
  "no_strays K \<longleftrightarrow> (\<forall>h i. stray_word K h i = 0)"

definition copy_send_step :: "posix \<Rightarrow> int \<Rightarrow> int \<Rightarrow> int \<Rightarrow> voterd \<Rightarrow> voterd option" where
  "copy_send_step K restartee restarter i s = do {
     v \<leftarrow> pipe_of (replicas s) restarter i;
     if fd_in v \<noteq> 0 then do {
       w \<leftarrow> pipe_of (replicas s) restartee i;
       w' \<leftarrow> copyPipe w v;
       s' \<leftarrow> put_pipe restartee i w' s;
       sendPipe K i restarter s'
     }
     else Some s }"

lemma copy_send_loop:
  assumes g: "good_group n num (ext_pipes s) f 0 (replicas s)" and num: "rep_count s = int num"
    and n: "n \<le> length (ext_pipes s)" and idx: "f < num" "l < num" "l \<noteq> f"
    and timer: "timer_started s = False"
  obtains reps' h' where "for_upto 0 (int n) (copy_send_step K (int f) (int l)) s = Some (s\<lparr>replicas := reps', hist := h'\<rparr>)"
    "good_group n num (ext_pipes s) f n reps'" "length reps' = length (replicas s)"
    "writes h' = writes (hist s) @ restart_sends (ext_pipes s) (replicas s) num f l n"
    "\<And>sig. killed sig h' = killed sig (hist s)"
proof -
  let ?R = "replicas s" and ?ext = "ext_pipes s"
  let ?P = "\<lambda>i t. \<exists>reps h. t = s\<lparr>replicas := reps, hist := h\<rparr> \<and> good_group n num ?ext f i reps
     \<and> length reps = length ?R \<and> (\<forall>r < num. \<forall>p. i \<le> p \<longrightarrow> vpipe reps r p = vpipe ?R r p)
     \<and> writes h = writes (hist s) @ restart_sends ?ext ?R num f l i
     \<and> (\<forall>sig. killed sig h = killed sig (hist s))"
  have "\<exists>t. for_upto 0 (int n) (copy_send_step K (int f) (int l)) s = Some t \<and> ?P n t"
  proof (rule for_upto_nat [where P = ?P])
    show "?P 0 s" using g by (intro exI [of _ ?R] exI [of _ "hist s"]) (simp add: restart_sends_def)
  next
    fix i t assume i: "i < n" and "?P i t"
    then obtain reps h where t: "t = s\<lparr>replicas := reps, hist := h\<rparr>" and gi: "good_group n num ?ext f i reps"
      and len: "length reps = length ?R"
      and rest: "\<And>r p. r < num \<Longrightarrow> i \<le> p \<Longrightarrow> vpipe reps r p = vpipe ?R r p"
      and w: "writes h = writes (hist s) @ restart_sends ?ext ?R num f l i"
      and k: "\<forall>sig. killed sig h = killed sig (hist s)" by blast
    have vl: "pipe_of (replicas t) (int l) (int i) = Some (vpipe reps l i)"
      using pipe_of_wf(1) [OF good_group_wf [OF gi] idx(2) i] t by simp
    have dir: "(fd_in (vpipe reps l i) \<noteq> 0) = (fd_in (?ext ! i) = 0)"
      using good_group_dir [OF gi i idx(2)] .
    have sends: "restart_sends ?ext ?R num f l (Suc i) = restart_sends ?ext ?R num f l i @
        (if fd_in (?ext ! i) = 0 \<and> rest_ready ?R num f i \<noteq> 0
         then [(fd_out (?ext ! i), take (nat (rest_ready ?R num f i)) (content (vpipe ?R l i)))] else [])"
      by (simp add: restart_sends_def)
    show "\<exists>t'. copy_send_step K (int f) (int l) (int i) t = Some t' \<and> ?P (Suc i) t'"
    proof (cases "fd_in (?ext ! i) = 0")
      case False
      then have "copy_send_step K (int f) (int l) (int i) t = Some t"
        using vl dir by (simp add: copy_send_step_def)
      moreover have "?P (Suc i) t"
        using t good_group_Suc [OF gi False] len rest w k sends False
        by (intro exI [of _ reps] exI [of _ h]) auto
      ultimately show ?thesis by blast
    next
      case True
      have ready: "rest_ready reps num f i = rest_ready ?R num f i"
        unfolding rest_ready_def using rest by (intro arg_cong [of _ _ Min] image_cong) auto
      have cont: "content (vpipe reps l i) = content (vpipe ?R l i)" using rest idx(2) by simp
      let ?h' = "if rest_ready ?R num f i = 0 then h else snd (sys_write K (fd_out (?ext ! i))
         (take (nat (rest_ready ?R num f i)) (content (vpipe ?R l i))) h)"
      obtain reps' where step:
        "do { w \<leftarrow> pipe_of (replicas t) (int f) (int i); w' \<leftarrow> copyPipe w (vpipe (replicas t) l i);
          t' \<leftarrow> put_pipe (int f) (int i) w' t; sendPipe K (int i) (int l) t' } =
         Some (t\<lparr>replicas := reps', hist := (if rest_ready (replicas t) num f i = 0 then hist t else
           snd (sys_write K (fd_out (ext_pipes t ! i))
             (take (nat (rest_ready (replicas t) num f i)) (content (vpipe (replicas t) l i))) (hist t)))\<rparr>)"
        "good_group n num (ext_pipes t) f (Suc i) reps'" "length reps' = length (replicas t)"
        "\<And>r p. r < num \<Longrightarrow> p \<noteq> i \<Longrightarrow> vpipe reps' r p = vpipe (replicas t) r p"
        by (rule copy_and_send [of n num t f i l K]) (use gi num i n idx True timer t in auto)
      have "copy_send_step K (int f) (int l) (int i) t = Some (s\<lparr>replicas := reps', hist := ?h'\<rparr>)"
        using step(1) vl dir True t ready cont by (simp add: copy_send_step_def)
      moreover have "?P (Suc i) (s\<lparr>replicas := reps', hist := ?h'\<rparr>)"
        using step(2,3,4) t len rest w k sends True
        by (intro exI [of _ reps'] exI [of _ ?h']) auto
      ultimately show ?thesis by blast
    qed
  qed
  then show ?thesis using that by blast
qed

lemma restart_prep_eq:
  assumes g: "good_group n num (ext_pipes s) 0 n (replicas s)"
    and cnt: "rep_count s = int num" "pipe_count s = int n" "length (ext_pipes s) = n"
    and idx: "f < num" "l < num" "l \<noteq> f" and ok: "pipes_ok K" "no_strays K"
  obtains reps' h' stolen where
    "restart_prep K (int f) (int l) s = Some (s\<lparr>timer_started := False, replicas := reps', hist := h'\<rparr>)"
    "good_group n num (ext_pipes s) 0 n reps'" "length reps' = length (replicas s)" "length stolen = n"
    "writes h' = writes (hist s) @ restart_sends (ext_pipes s) (replicas s) num f l n
       @ given_back reps' f stolen n @ given_back reps' l stolen n"
    "killed SIGKILL h' = killed SIGKILL (hist s) @ [r_pid (replicas s ! f)]"
    "killed RESTART_SIGNAL h' = killed RESTART_SIGNAL (hist s) @ [r_pid (replicas s ! l)]"
proof -
  let ?R = "replicas s" and ?ext = "ext_pipes s"
  note gl = good_groupD [OF g idx(2)] and gf = good_groupD [OF g idx(1)]
  obtain nm where nm: "r_name (?R ! l) = Some nm" using gl(4) by blast
  let ?bufs = "replicate n (replicate (nat MAX_VOTE_PIPE_BUFF) (0 :: byte))" and ?cnts = "replicate n (0 :: int)"
  have init: "list_all (\<lambda>b. length b = 4096) ?bufs" "list_all (\<lambda>c. c \<le> 4096) ?cnts"
    by (simp_all add: list_all_length MAX_VOTE_PIPE_BUFF_def)
  obtain bufs counts h1 where steal: "stealPipes K (int l) ?bufs ?cnts s = Some (bufs, counts, s\<lparr>hist := h1\<rparr>)"
    "silently (hist s) h1" "length bufs = n" "list_all (\<lambda>b. length b = 4096) bufs"
    "length counts = n" "list_all (\<lambda>c. c \<le> 4096) counts"
    by (rule stealPipes_eq [OF gl(1) refl gl(6) gl(3) length_replicate init(1) length_replicate init(2), of K]) blast
  obtain reps1 h2 where rr: "restartReplica K ?R (int num) (sd_sock s) ?ext (int l) (int f) (replica_priority s) h1
      = Some (reps1, h2)" "wf_reps n num reps1" "length reps1 = length ?R" "writes h2 = writes h1"
    "\<And>sig. killed sig h2 = killed sig h1 @ (if sig = SIGKILL then [r_pid (?R ! f)] else [])
        @ (if sig = RESTART_SIGNAL then [r_pid (?R ! l)] else [])"
    "\<And>i. i < num \<Longrightarrow> i \<noteq> f \<Longrightarrow> \<exists>x. reps1 ! i = (?R ! i)\<lparr>r_priority := x\<rparr>"
    "r_name (reps1 ! f) = Some nm"
    "r_pipe_count (reps1 ! f) = int n \<and> (\<forall>j < n. (fd_in (vpipe reps1 f j) \<noteq> 0) = (fd_in (?ext ! j) = 0))"
  proof (rule restartReplica_eq [OF good_group_wf [OF g] idx(2,1,3) nm, of ?ext K "sd_sock s" "replica_priority s" h1])
    show "r_pipe_count (?R ! l) \<le> int (length ?ext)" using gl(3) cnt(3) by simp
  qed (use gl(3) ok(1) in blast)
  have others: "vpipe reps1 r p = vpipe ?R r p" "r_pipe_count (reps1 ! r) = int n" "r_name (reps1 ! r) \<noteq> None"
    if "r < num" "r \<noteq> f" for r p
    using rr(6) [OF that] good_groupD(3,4) [OF g that(1)] by (auto simp: vpipe_def)
  have g1: "good_group n num ?ext f 0 reps1"
    unfolding good_group_def
  proof (intro conjI allI impI)
    show "wf_reps n num reps1" by (rule rr(2))
    show "r_pipe_count (reps1 ! r) = int n" "r_name (reps1 ! r) \<noteq> None" if "r < num" for r
      using that others(2,3) [of r] rr(7,8) by (cases "r = f"; simp)+
    show "(fd_in (vpipe reps1 r p) \<noteq> 0) = (fd_in (?ext ! p) = 0)" if "p < n" "r < num" for p r
      using that others(1) [of r p] rr(8) good_group_dir [OF g that] by (cases "r = f") auto
    show "in_step (vpipe reps1 r p) (vpipe reps1 r' p)"
      if "p < n" "r < num" "r' < num" "fd_in (?ext ! p) = 0" "r = f \<or> r' = f \<longrightarrow> p < 0" for p r r'
      using that others(1) good_group_index [OF g that(1,4,2,3)] by (auto simp: in_step_def)
  qed
  let ?s3 = "s\<lparr>timer_started := False, replicas := reps1, hist := h2\<rparr>"
  have sends: "restart_sends ?ext reps1 num f l n = restart_sends ?ext ?R num f l n"
  proof -
    have "rest_ready reps1 num f p = rest_ready ?R num f p" for p
      unfolding rest_ready_def using others(1) by (intro arg_cong [of _ _ Min] image_cong) auto
    then show ?thesis by (simp only: restart_sends_def others(1) [OF idx(2,3)])
  qed
  obtain reps2 h3 where loop: "for_upto 0 (int n) (copy_send_step K (int f) (int l)) ?s3
      = Some (?s3\<lparr>replicas := reps2, hist := h3\<rparr>)"
    "good_group n num ?ext f n reps2" "length reps2 = length reps1"
    "writes h3 = writes h2 @ restart_sends ?ext reps1 num f l n" "\<And>sig. killed sig h3 = killed sig h2"
  proof (rule copy_send_loop [of n num ?s3 f l K])
    show "good_group n num (ext_pipes ?s3) f 0 (replicas ?s3)" "rep_count ?s3 = int num"
      "n \<le> length (ext_pipes ?s3)" "timer_started ?s3 = False" using g1 cnt by simp_all
  qed (use idx in simp_all)
  let ?s4 = "s\<lparr>timer_started := False, replicas := reps2, hist := h3\<rparr>"
  note wf2 = good_group_wf [OF loop(2)]
  obtain h4 where ret1: "returnPipes K (int f) bufs counts ?s4 = Some (?s4\<lparr>hist := h4\<rparr>)"
    "writes h4 = writes h3 @ given_back reps2 f (stolen_bytes bufs counts) n" "\<And>sig. killed sig h4 = killed sig h3"
  proof (rule returnPipes_eq [OF _ idx(1) _ steal(3-6), of ?s4 K])
    show "wf_reps n num (replicas ?s4)" "r_pipe_count (replicas ?s4 ! f) = int n"
      using wf2 good_groupD(3) [OF loop(2) idx(1)] by simp_all
  qed simp
  obtain h5 where ret2: "returnPipes K (int l) bufs counts (?s4\<lparr>hist := h4\<rparr>) = Some (?s4\<lparr>hist := h5\<rparr>)"
    "writes h5 = writes h4 @ given_back reps2 l (stolen_bytes bufs counts) n" "\<And>sig. killed sig h5 = killed sig h4"
  proof (rule returnPipes_eq [OF _ idx(2) _ steal(3-6), of "?s4\<lparr>hist := h4\<rparr>" K])
    show "wf_reps n num (replicas (?s4\<lparr>hist := h4\<rparr>))" "r_pipe_count (replicas (?s4\<lparr>hist := h4\<rparr>) ! l) = int n"
      using wf2 good_groupD(3) [OF loop(2) idx(2)] by simp_all
  qed simp
  have run: "restart_prep K (int f) (int l) s = Some (s\<lparr>timer_started := False, replicas := reps2, hist := h5\<rparr>)"
    using steal(1) rr(1) loop(1) ret1(1) ret2(1) ok(2) cnt
    by (simp add: restart_prep_def on_replicas_def copy_send_step_def [symmetric, abs_def] free_buffers_def no_strays_def)
  show ?thesis
  proof (rule that)
    show "restart_prep K (int f) (int l) s = Some (s\<lparr>timer_started := False, replicas := reps2, hist := h5\<rparr>)"
      by (rule run)
    show "good_group n num ?ext 0 n reps2" using loop(2) good_group_all by blast
    show "length reps2 = length ?R" using loop(3) rr(3) by simp
    show "length (stolen_bytes bufs counts) = n" using steal by (simp add: stolen_bytes_def)
    show "writes h5 = writes (hist s) @ restart_sends ?ext ?R num f l n
       @ given_back reps2 f (stolen_bytes bufs counts) n @ given_back reps2 l (stolen_bytes bufs counts) n"
      using ret2(2) ret1(2) loop(4) rr(4) silently_writes [OF steal(2)] sends by simp
    show "killed SIGKILL h5 = killed SIGKILL (hist s) @ [r_pid (?R ! f)]"
      using ret2(3) ret1(3) loop(5) rr(5) silently_killed [OF steal(2)] by (simp add: SIGKILL_def RESTART_SIGNAL_def)
    show "killed RESTART_SIGNAL h5 = killed RESTART_SIGNAL (hist s) @ [r_pid (?R ! l)]"
      using ret2(3) ret1(3) loop(5) rr(5) silently_killed [OF steal(2)] by (simp add: SIGKILL_def RESTART_SIGNAL_def)
  qed
qed

section \<open>The invariant of the voter\<close>

text \<open>
  An external pipe's block holds at most a ring full of bytes. Its count is what the last \<open>read\<close>
  returned, -1 included; only the SMR restart hands it to \<open>write\<close> unchecked.
\<close>

definition ext_ok :: "replication_t \<Rightarrow> vote_pipe \<Rightarrow> bool" where
  "ext_ok ty e \<longleftrightarrow> length (buffer e) = nat MAX_VOTE_PIPE_BUFF \<and> buff_count e \<le> MAX_VOTE_PIPE_BUFF
     \<and> (ty = SMR \<longrightarrow> 0 \<le> buff_count e)"

definition vd_setup :: "voterd \<Rightarrow> bool" where
  "vd_setup s \<longleftrightarrow> rep_type s \<in> {SMR, DMR, TMR} \<and> rep_count s = reptypeToCount (rep_type s)
     \<and> 0 < pipe_count s \<and> int (length (ext_pipes s)) = pipe_count s
     \<and> list_all (ext_ok (rep_type s)) (ext_pipes s)
     \<and> length (timer_start_index s) = 2 \<and> length (timer_stop_index s) = 2
     \<and> list_all (\<lambda>i. 0 \<le> i \<and> i < pipe_count s) (timer_stop_index s)
     \<and> (current_timer s = 0 \<or> current_timer s = 1)"

definition vd_group :: "voterd \<Rightarrow> bool" where
  "vd_group s \<longleftrightarrow> good_group (nat (pipe_count s)) (nat (rep_count s)) (ext_pipes s) 0 (nat (pipe_count s)) (replicas s)"

definition vd_ok :: "voterd \<Rightarrow> bool" where
  "vd_ok s \<longleftrightarrow> vd_setup s \<and> vd_group s"

text \<open>What the voter needs of the system it runs on.\<close>

definition system_ok :: "posix \<Rightarrow> replication_t \<Rightarrow> bool" where
  "system_ok K ty \<longleftrightarrow> pipes_ok K \<and> no_strays K \<and> (ty = SMR \<longrightarrow> (\<forall>h fd n. on_read K h fd n \<noteq> None))"

lemma vd_okE:
  assumes "vd_ok s"
  obtains n num where "pipe_count s = int n" "0 < n" "rep_count s = int num" "0 < num" "num \<le> 3"
    "length (ext_pipes s) = n" "good_group n num (ext_pipes s) 0 n (replicas s)"
    "rep_type s \<in> {SMR, DMR, TMR}" "int num = reptypeToCount (rep_type s)"
proof (rule that)
  show "pipe_count s = int (nat (pipe_count s))" "0 < nat (pipe_count s)"
    "rep_count s = int (nat (rep_count s))" "0 < nat (rep_count s)" "nat (rep_count s) \<le> 3"
    "length (ext_pipes s) = nat (pipe_count s)"
    "good_group (nat (pipe_count s)) (nat (rep_count s)) (ext_pipes s) 0 (nat (pipe_count s)) (replicas s)"
    "rep_type s \<in> {SMR, DMR, TMR}" "int (nat (rep_count s)) = reptypeToCount (rep_type s)"
    using assms by (auto simp: vd_ok_def vd_setup_def vd_group_def)
qed

lemma vd_ok_regroup:
  assumes "vd_ok s" "pipe_count s = int n" "rep_count s = int num" "good_group n num (ext_pipes s) 0 n reps"
  shows "vd_ok (s\<lparr>replicas := reps\<rparr>)"
proof -
  have "vd_setup (s\<lparr>replicas := reps\<rparr>)" using assms(1) by (simp add: vd_ok_def vd_setup_def)
  moreover have "nat (rep_count s) = num" "nat (pipe_count s) = n" using assms(2,3) by simp_all
  ultimately show ?thesis using assms(4) by (simp add: vd_ok_def vd_group_def)
qed

lemma vd_ok_hist [simp]:
  "vd_ok (s\<lparr>hist := h\<rparr>) = vd_ok s" "vd_ok (s\<lparr>timer_started := t\<rparr>) = vd_ok s"
  "vd_ok (s\<lparr>watchdog := w\<rparr>) = vd_ok s" "vd_ok (s\<lparr>exited := x\<rparr>) = vd_ok s"
  by (simp_all add: vd_ok_def vd_setup_def vd_group_def)

text \<open>The configuration that no operation after start-up changes.\<close>

definition same_config :: "voterd \<Rightarrow> voterd \<Rightarrow> bool" where
  "same_config s s' \<longleftrightarrow> rep_type s' = rep_type s \<and> rep_count s' = rep_count s \<and> pipe_count s' = pipe_count s
     \<and> map fd_in (ext_pipes s') = map fd_in (ext_pipes s) \<and> map fd_out (ext_pipes s') = map fd_out (ext_pipes s)
     \<and> timer_start_index s' = timer_start_index s \<and> timer_stop_index s' = timer_stop_index s"

lemma same_config_refl [simp]: "same_config s s"
  by (simp add: same_config_def)

lemma same_config_trans: "same_config a b \<Longrightarrow> same_config b c \<Longrightarrow> same_config a c"
  by (simp add: same_config_def)

text \<open>An operation is safe when it makes no undefined access, keeps the invariant and the configuration.\<close>

definition safe :: "(voterd \<Rightarrow> voterd option) \<Rightarrow> voterd \<Rightarrow> bool" where
  "safe f s \<longleftrightarrow> (\<exists>s'. f s = Some s' \<and> vd_ok s' \<and> same_config s s')"

lemma safe_bind:
  assumes "safe f s" "\<And>s'. vd_ok s' \<Longrightarrow> same_config s s' \<Longrightarrow> safe g s'"
  shows "safe (\<lambda>s. do { s' \<leftarrow> f s; g s' }) s"
  using assms same_config_trans unfolding safe_def by fastforce

lemma safe_loop:
  assumes "vd_ok s" and "\<And>i t. i < n \<Longrightarrow> vd_ok t \<Longrightarrow> same_config s t \<Longrightarrow> safe (f (int i)) t"
  shows "safe (for_upto 0 (int n) f) s"
proof -
  have "\<exists>t. for_upto 0 (int n) f s = Some t \<and> vd_ok t \<and> same_config s t"
    by (rule for_upto_nat [where P = "\<lambda>i t. vd_ok t \<and> same_config s t"])
      (use assms same_config_trans in \<open>unfold safe_def, auto, blast?\<close>)
  then show ?thesis by (simp add: safe_def)
qed

lemma safe_Some [simp]: "vd_ok s \<Longrightarrow> safe Some s"
  by (simp add: safe_def)

section \<open>Every operation is safe\<close>

lemma timer_check_ok [simp]: "vd_ok s \<Longrightarrow> vd_ok (timer_check K ix p s)"
  by (auto simp: timer_check_def start_timer_def vd_ok_def vd_setup_def vd_group_def split_beta Let_def)

lemma timer_check_config [simp]: "same_config s (timer_check K ix p s)"
  by (auto simp: timer_check_def start_timer_def same_config_def split_beta Let_def)

lemma balance_safe:
  assumes "vd_ok s"
  shows "safe (on_replicas (\<lambda>reps. balanceReps K reps (rep_count s) d)) s"
proof -
  obtain n num where s: "pipe_count s = int n" "rep_count s = int num" "0 < num"
    "good_group n num (ext_pipes s) 0 n (replicas s)" using assms by (rule vd_okE)
  obtain reps' es where b: "balanceReps K (replicas s) (int num) d (hist s) = Some (reps', hist s @ es)"
    "prio_eq (replicas s) reps'"
    by (rule balanceReps_frame [OF good_group_wf [OF s(4)] s(3), of K d "hist s"])
  have "vd_ok (s\<lparr>replicas := reps', hist := hist s @ es\<rparr>)"
    using vd_ok_regroup [OF assms s(1,2) prio_eq_good [OF b(2) s(4)]] by simp
  then show ?thesis using b(1) s(2) by (simp add: safe_def on_replicas_def same_config_def)
qed

lemma sendPipe_safe:
  assumes ok: "vd_ok s" and p: "0 \<le> p" "p < pipe_count s" and l: "0 \<le> l" "l < rep_count s"
  shows "safe (sendPipe K p l) s"
proof -
  obtain n num where s: "pipe_count s = int n" "rep_count s = int num" "0 < num"
    "length (ext_pipes s) = n" "good_group n num (ext_pipes s) 0 n (replicas s)" using ok by (rule vd_okE)
  obtain p' l' where pl: "p = int p'" "p' < n" "l = int l'" "l' < num"
    using p l s by (metis nat_0_le of_nat_less_iff)
  from good_group_wf [OF s(5)] pl(2) s(3) obtain b where b: "bytesReady (replicas s) (int num) (int p') = Some b"
    "0 \<le> b" "\<And>r. r < num \<Longrightarrow> b \<le> buff_count (vpipe (replicas s) r p')" by (rule bytesReady_cases) blast
  have g: "good_group n num (ext_pipes s) 0 n (advance num p' b (replicas s))"
    using advance_good [OF s(5) pl(2) b(2,3)] .
  have "p' < length (ext_pipes s)" using pl(2) s(4) by simp
  moreover have "vd_ok (s\<lparr>timer_started := t, replicas := advance num p' b (replicas s), hist := h\<rparr>)" for t h
    using vd_ok_regroup [of "s\<lparr>timer_started := t\<rparr>" n num "advance num p' b (replicas s)"] ok g s by simp
  ultimately show ?thesis
    using sendPipe_eq [OF good_group_wf [OF s(5)] s(2) pl(2) _ pl(4) b(1), of K] ok
    by (auto simp: safe_def pl same_config_def)
qed

lemma restart_prep_safe:
  assumes ok: "vd_ok s" and f: "0 \<le> f" "f < rep_count s" and l: "0 \<le> l" "l < rep_count s" and ne: "l \<noteq> f"
    and sys: "pipes_ok K" "no_strays K"
  shows "safe (restart_prep K f l) s"
proof -
  obtain n num where s: "pipe_count s = int n" "rep_count s = int num"
    "length (ext_pipes s) = n" "good_group n num (ext_pipes s) 0 n (replicas s)" using ok by (rule vd_okE)
  obtain f' l' where fl: "f = int f'" "f' < num" "l = int l'" "l' < num"
    using f l s by (metis nat_0_le of_nat_less_iff)
  obtain reps' h' where r: "restart_prep K (int f') (int l') s
      = Some (s\<lparr>timer_started := False, replicas := reps', hist := h'\<rparr>)"
    "good_group n num (ext_pipes s) 0 n reps'"
    by (rule restart_prep_eq [OF s(4) s(2,1,3) fl(2,4) _ sys]) (use ne fl in blast)+
  then show ?thesis
    using vd_ok_regroup [of "s\<lparr>timer_started := False\<rparr>" n num reps'] ok s
    by (simp add: safe_def fl same_config_def)
qed

lemma safe_from: "safe f t \<Longrightarrow> same_config s t \<Longrightarrow> g s = f t \<Longrightarrow> safe g s"
  unfolding safe_def using same_config_trans by fastforce

lemma safe_write:
  assumes "vd_ok s" "0 \<le> n" "n \<le> int (length buf)"
  shows "safe (writeBuffer K fd buf n) s"
  using assms by (simp add: safe_def writeBuffer_def mem_read_in same_config_def)

lemma processData_safe:
  assumes ok: "vd_ok s" and p: "0 \<le> p" "p < pipe_count s"
    and buf: "0 \<le> buff_count e" "buff_count e \<le> int (length (buffer e))"
  shows "safe (processData K e p) s"
proof -
  let ?s1 = "timer_check K (timer_start_index s) p s"
  let ?loop = "\<lambda>s2. for_upto 0 (rep_count s2) (\<lambda>r_index s. do {
         v \<leftarrow> pipe_of (replicas s) r_index p;
         writeBuffer K (fd_out v) (buffer e) (buff_count e) s }) s2"
  have "safe ?loop t" if t: "vd_ok t" "pipe_count t = pipe_count s" for t
  proof -
    obtain n num where "pipe_count t = int n" "rep_count t = int num" using t(1) by (rule vd_okE)
    moreover have "safe (\<lambda>s. do { v \<leftarrow> pipe_of (replicas s) (int i) p;
         writeBuffer K (fd_out v) (buffer e) (buff_count e) s }) u"
      if u0: "i < num" "vd_ok u" "same_config t u" "pipe_count t = int n" "rep_count t = int num" for i u n num
    proof -
      obtain n' num' where u: "pipe_count u = int n'" "rep_count u = int num'"
        "good_group n' num' (ext_pipes u) 0 n' (replicas u)" using \<open>vd_ok u\<close> by (rule vd_okE)
      obtain p' where p': "p = int p'" "p' < n'"
        using p t(2) u0(3) u(1) by (metis nat_0_le of_nat_less_iff same_config_def)
      have "i < num'" using u0(1,3,5) u(2) by (simp add: same_config_def)
      then have "pipe_of (replicas u) (int i) p = Some (vpipe (replicas u) i p')"
        using pipe_of_wf(1) [OF good_group_wf [OF u(3)]] p' by simp
      then show ?thesis using safe_write [OF u0(2) buf] by (simp add: safe_def)
    qed
    ultimately show ?thesis
      using safe_loop [OF t(1), where f = "\<lambda>r_index s. do { v \<leftarrow> pipe_of (replicas s) r_index p;
        writeBuffer K (fd_out v) (buffer e) (buff_count e) s }"] by (simp add: safe_def)
  qed
  moreover have "safe (on_replicas (\<lambda>reps. balanceReps K reps (rep_count ?s1) (replica_priority ?s1))) ?s1"
    using ok by (intro balance_safe) simp
  ultimately have "safe (\<lambda>s1. do {
      s2 \<leftarrow> on_replicas (\<lambda>reps. balanceReps K reps (rep_count ?s1) (replica_priority ?s1)) s1; ?loop s2 }) ?s1"
    by (intro safe_bind) (auto simp: same_config_def timer_check_def start_timer_def split_beta Let_def)
  then show ?thesis by (rule safe_from) (simp_all add: processData_def Let_def)
qed

lemma tmr_vote_safe:
  assumes ok: "vd_ok s" and type: "rep_type s = TMR" and p: "0 \<le> p" "p < pipe_count s"
    and b: "bytesReady (replicas s) (rep_count s) p = Some b"
    and sys: "pipes_ok K" "no_strays K" and r: "0 \<le> r" "r + int k \<le> 3"
  shows "safe (tmr_vote K p b k r) s"
proof -
  obtain n num where s: "pipe_count s = int n" "rep_count s = int num" "0 < num"
    "good_group n num (ext_pipes s) 0 n (replicas s)" "int num = reptypeToCount (rep_type s)"
    using ok by (rule vd_okE)
  have num: "num = 3" using s(5) type by simp
  obtain p' where p': "p = int p'" "p' < n" using p s(1) by (metis nat_0_le of_nat_less_iff)
  note wf = good_group_wf [OF s(4)]
  from wf p'(2) s(3) obtain c where "bytesReady (replicas s) (int num) (int p') = Some c" "0 \<le> c"
    "\<And>r. r < num \<Longrightarrow> c \<le> buff_count (vpipe (replicas s) r p')" by (rule bytesReady_cases) blast
  then have c: "0 \<le> b" "\<And>r. r < num \<Longrightarrow> b \<le> buff_count (vpipe (replicas s) r p')" using b s(2) p' by auto
  have get: "pipe_of (replicas s) (i smod rep_count s) p = Some (vpipe (replicas s) (nat (i mod 3)) p')"
    if "0 \<le> i" for i
    using pipe_of_wf(1) [OF wf _ p'(2), of "nat (i mod 3)"] that s(2) num p'(1) by (simp add: nat_less_iff)
  have cmp: "\<exists>x. compareBuffs (vpipe (replicas s) i p') (vpipe (replicas s) j p') b = Some x" if "i < 3" "j < 3" for i j
    using compareBuffs_eq [of "vpipe (replicas s) i p'" "vpipe (replicas s) j p'" b] that num c
      wf_reps_pipe [OF wf _ p'(2)] by auto
  show ?thesis using r
  proof (induction k arbitrary: r)
    case 0
    then show ?case using ok by (simp add: safe_def)
  next
    case (Suc k)
    have r3: "r < 3" using Suc.prems by simp
    then have get0: "pipe_of (replicas s) r p = Some (vpipe (replicas s) (nat (r mod 3)) p')"
      using get [of r] Suc.prems(1) s(2) num by simp
    have m: "nat (i mod 3) < 3" for i :: int by (simp add: nat_less_iff)
    obtain x where x: "compareBuffs (vpipe (replicas s) (nat (r mod 3)) p') (vpipe (replicas s) (nat ((r + 1) mod 3)) p') b = Some x"
      using cmp m by blast
    obtain y where y: "compareBuffs (vpipe (replicas s) (nat (r mod 3)) p') (vpipe (replicas s) (nat ((r + 2) mod 3)) p') b = Some y"
      using cmp m by blast
    have "safe (restart_prep K ((r + 2) smod rep_count s) r) s"
    proof (rule restart_prep_safe [OF ok _ _ Suc.prems(1) _ _ sys])
      show "0 \<le> (r + 2) smod rep_count s" "(r + 2) smod rep_count s < rep_count s" "r < rep_count s"
        using Suc.prems(1) r3 s(2) num by simp_all
      have "r = 0 \<or> r = 1 \<or> r = 2" using r3 Suc.prems(1) by auto
      then show "r \<noteq> (r + 2) smod rep_count s" using s(2) num by auto
    qed
    moreover have "safe (sendPipe K p r) s"
      using sendPipe_safe [OF ok p Suc.prems(1)] r3 s(2) num by simp
    moreover have "safe (tmr_vote K p b k (r + 1)) s" using Suc by simp
    ultimately show ?case
      using get0 get [of "r + 1"] get [of "r + 2"] x y Suc.prems(1) by (simp add: safe_def)
  qed
qed

lemma checkSDC_safe:
  assumes ok: "vd_ok s" and p: "0 \<le> p" "p < pipe_count s" and sys: "pipes_ok K" "no_strays K"
  shows "safe (checkSDC K p) s"
proof -
  obtain n num where s: "pipe_count s = int n" "rep_count s = int num" "0 < num"
    "good_group n num (ext_pipes s) 0 n (replicas s)" "rep_type s \<in> {SMR, DMR, TMR}"
    "int num = reptypeToCount (rep_type s)" using ok by (rule vd_okE)
  obtain p' where p': "p = int p'" "p' < n" using p s(1) by (metis nat_0_le of_nat_less_iff)
  note wf = good_group_wf [OF s(4)]
  from wf p'(2) s(3) obtain b where b: "bytesReady (replicas s) (int num) (int p') = Some b" "0 \<le> b"
    "\<And>r. r < num \<Longrightarrow> b \<le> buff_count (vpipe (replicas s) r p')" by (rule bytesReady_cases) blast
  have send: "safe (sendPipe K p 0) s" using sendPipe_safe [OF ok p] s(2,3) by simp
  consider "b = 0" | "rep_type s = SMR" "b \<noteq> 0" | "rep_type s = DMR" "b \<noteq> 0" | "rep_type s = TMR" "b \<noteq> 0"
    using s(5) by blast
  then show ?thesis
  proof cases
    case 1
    then show ?thesis using b ok s(2) p' by (simp add: checkSDC_def safe_def)
  next
    case 2
    then show ?thesis using b(1) s(2) p' send by (simp add: checkSDC_def safe_def)
  next
    case 3
    then have num: "num = 2" using s(6) by simp
    obtain x where "compareBuffs (vpipe (replicas s) 0 p') (vpipe (replicas s) 1 p') b = Some x"
      using compareBuffs_eq [of "vpipe (replicas s) 0 p'" "vpipe (replicas s) 1 p'" b] num b(2,3)
        wf_reps_pipe [OF wf _ p'(2)] by auto
    moreover have "pipe_of (replicas s) 0 p = Some (vpipe (replicas s) 0 p')"
      "pipe_of (replicas s) 1 p = Some (vpipe (replicas s) 1 p')"
      using pipe_of_wf(1) [OF wf _ p'(2), of 0] pipe_of_wf(1) [OF wf _ p'(2), of 1] num p'(1) by simp_all
    ultimately show ?thesis using 3 b(1) s(2) p' send by (simp add: checkSDC_def safe_def)
  next
    case 4
    then have "safe (tmr_vote K p b (nat (rep_count s)) 0) s"
      using tmr_vote_safe [OF ok 4(1) p _ sys] b(1) s(2,6) p' by simp
    then show ?thesis using 4 b(1) s(2) p' by (simp add: checkSDC_def safe_def)
  qed
qed

lemma processFromRep_safe:
  assumes ok: "vd_ok s" and r: "0 \<le> r" "r < rep_count s" and p: "0 \<le> p" "p < pipe_count s"
    and sys: "pipes_ok K" "no_strays K"
  shows "safe (processFromRep K r p) s"
proof -
  define s1 where "s1 = timer_check K (timer_stop_index s) p s"
  have ok1: "vd_ok s1" and c1: "same_config s s1" using ok by (simp_all add: s1_def)
  obtain n num where s: "pipe_count s1 = int n" "rep_count s1 = int num"
    "good_group n num (ext_pipes s1) 0 n (replicas s1)" using ok1 by (rule vd_okE)
  obtain r' p' where rp: "r = int r'" "r' < num" "p = int p'" "p' < n"
    using r p c1 s by (metis nat_0_le of_nat_less_iff same_config_def)
  note wf = good_group_wf [OF s(3)]
  let ?v = "vpipe (replicas s1) r' p'"
  have wv: "wf_pipe ?v" using wf_reps_pipe [OF wf rp(2,4)] .
  obtain n1 bs h' where rd: "sys_read K (fd_in ?v) MAX_VOTE_PIPE_BUFF (hist s1) = (n1, bs, h')"
    by (cases "sys_read K (fd_in ?v) MAX_VOTE_PIPE_BUFF (hist s1)") auto
  have "\<exists>ret v. pipeToBuff K ?v (hist s1) = Some (ret, v, h') \<and> wf_pipe v \<and> buff_index v = buff_index ?v \<and> fd_in v = fd_in ?v"
    using wv rd by (rule pipeToBuff_cases) (use wv in auto)
  then obtain ret v where v: "pipeToBuff K ?v (hist s1) = Some (ret, v, h')" "wf_pipe v"
    "buff_index v = buff_index ?v" "fd_in v = fd_in ?v" by blast
  let ?R2 = "set_pipe (replicas s1) r' p' v"
  have g2: "good_group n num (ext_pipes s1) 0 n ?R2"
  proof (rule set_pipe_good [OF s(3) rp(2,4) v(2,4)])
    fix r1 assume "fd_in (ext_pipes s1 ! p') = 0" "r1 < num"
    then show "buff_index v = buff_index (vpipe (replicas s1) r1 p')"
      using good_group_index [OF s(3) rp(4) _ rp(2), of r1] rp(4) v(3) by simp
  qed simp
  let ?s2 = "s1\<lparr>hist := h', replicas := ?R2\<rparr>"
  have ok2: "vd_ok ?s2" using vd_ok_regroup [of "s1\<lparr>hist := h'\<rparr>" n num ?R2] ok1 s g2 by simp
  have c2: "same_config s1 ?s2" by (simp add: same_config_def)
  have put: "put_pipe r p v (s1\<lparr>hist := h'\<rparr>) = Some ?s2"
    using put_pipe_eq [of n num "s1\<lparr>hist := h'\<rparr>" r' p' v] wf rp by simp
  have get: "pipe_of (replicas s1) r p = Some ?v" using pipe_of_wf(1) [OF wf rp(2,4)] rp by simp
  have "safe (\<lambda>t. do { s3 \<leftarrow> on_replicas (\<lambda>reps. balanceReps K reps (rep_count ?s2) (replica_priority ?s2)) t; checkSDC K p s3 }) ?s2"
  proof (rule safe_bind)
    show "safe (on_replicas (\<lambda>reps. balanceReps K reps (rep_count ?s2) (replica_priority ?s2))) ?s2"
      by (rule balance_safe [OF ok2])
    fix t assume "vd_ok t" "same_config ?s2 t"
    then show "safe (checkSDC K p) t"
      using checkSDC_safe [OF _ p(1) _ sys] p(2) c1 by (simp add: same_config_def)
  qed
  then have "safe (\<lambda>t. if ret = 0 then do { s3 \<leftarrow> on_replicas (\<lambda>reps. balanceReps K reps (rep_count ?s2) (replica_priority ?s2)) t;
      checkSDC K p s3 } else Some t) ?s2"
    using ok2 by (simp add: safe_def)
  then show ?thesis
  proof (rule safe_from)
    show "same_config s ?s2" using c1 c2 by (rule same_config_trans)
  qed (simp add: processFromRep_def s1_def [symmetric] get v(1) put)
qed

lemma startAll_safe:
  assumes ok: "vd_ok s" and sys: "pipes_ok K"
  shows "safe (startAll K) s"
proof -
  obtain n num where s: "pipe_count s = int n" "rep_count s = int num" "length (ext_pipes s) = n"
    "good_group n num (ext_pipes s) 0 n (replicas s)" using ok by (rule vd_okE)
  have le: "n \<le> length (ext_pipes s)" using s(3) by simp
  obtain res reps' h' where st: "startReplicas K (replicas s) (int num) (sd_sock s) (controller_name s) (ext_pipes s)
      (int n) (replica_priority s) (hist s) = Some (res, reps', h')"
    "wf_reps n num reps'"
    "\<And>r. r < num \<Longrightarrow> r_pipe_count (reps' ! r) = int n \<and> r_name (reps' ! r) = Some (controller_name s)"
    "\<And>r j. r < num \<Longrightarrow> j < n \<Longrightarrow> (fd_in (vpipe reps' r j) \<noteq> 0) = (fd_in (ext_pipes s ! j) = 0)"
    "\<And>r j. r < num \<Longrightarrow> j < n \<Longrightarrow> same_ring (if j < nat (r_pipe_count (replicas s ! r))
        then cleared (vpipe (replicas s) r j) else vpipe (replicas s) r j) (vpipe reps' r j)"
    by (rule startReplicas_eq [OF good_group_wf [OF s(4)] le sys]) blast
  have "buff_index (vpipe reps' r j) = 0" if "r < num" "j < n" for r j
    using st(5) [OF that] good_groupD(3) [OF s(4) that(1)] that(2) by (simp add: same_ring_def cleared_def)
  then have "good_group n num (ext_pipes s) 0 n reps'"
    using st(2,3,4) by (simp add: good_group_def in_step_def)
  then have "vd_ok (s\<lparr>replicas := reps', hist := h', exited := \<not> res\<rparr>)"
    using vd_ok_regroup [OF ok s(1,2)] by simp
  then show ?thesis using st(1) s(1,2) by (simp add: safe_def startAll_def same_config_def)
qed

lemma ext_ok_nth: "vd_ok s \<Longrightarrow> p < length (ext_pipes s) \<Longrightarrow> ext_ok (rep_type s) (ext_pipes s ! p)"
  by (simp add: vd_ok_def vd_setup_def list_all_length)

lemma voterRestartHandler_safe:
  assumes ok: "vd_ok s" and sys: "system_ok K (rep_type s)"
  shows "safe (voterRestartHandler K) s"
proof -
  obtain n num where s: "pipe_count s = int n" "rep_count s = int num" "0 < num" "length (ext_pipes s) = n"
    "good_group n num (ext_pipes s) 0 n (replicas s)" "rep_type s \<in> {SMR, DMR, TMR}"
    "int num = reptypeToCount (rep_type s)" using ok by (rule vd_okE)
  have sys': "pipes_ok K" "no_strays K" using sys by (simp_all add: system_ok_def)
  show ?thesis
  proof (cases "rep_type s = SMR")
    case True
    obtain h1 where h1: "cleanupReplica K (replicas s) (int 0) (hist s) = Some h1"
      by (rule cleanupReplica_eq [OF good_groupD(1,2) [OF s(5,3)]]) blast
    let ?s0 = "s\<lparr>hist := snd (sys_waitpid K h1)\<rparr>"
    let ?resend = "\<lambda>s1. for_upto 0 (pipe_count s1) (\<lambda>p_index s. do {
            ext \<leftarrow> aget (ext_pipes s) p_index;
            if fd_in ext \<noteq> 0 then processData K ext p_index s else Some s }) s1"
    have "safe (\<lambda>s. do { s1 \<leftarrow> startAll K s; if exited s1 then Some s1 else ?resend s1 }) ?s0"
    proof (rule safe_bind)
      show "safe (startAll K) ?s0" using startAll_safe [OF _ sys'(1)] ok by simp
      fix t assume t: "vd_ok t" "same_config ?s0 t"
      have "safe (for_upto 0 (int n) (\<lambda>p_index s. do {
            ext \<leftarrow> aget (ext_pipes s) p_index;
            if fd_in ext \<noteq> 0 then processData K ext p_index s else Some s })) t"
      proof (rule safe_loop [OF t(1)])
        fix i u assume i: "i < n" and u: "vd_ok u" "same_config t u"
        have len: "i < length (ext_pipes u)" "int i < pipe_count u" "rep_type u = SMR"
        proof -
          have "pipe_count u = int n" "rep_type u = SMR" using u(2) t(2) s(1) True by (simp_all add: same_config_def)
          moreover have "int (length (ext_pipes u)) = pipe_count u" using u(1) by (simp add: vd_ok_def vd_setup_def)
          ultimately show "i < length (ext_pipes u)" "int i < pipe_count u" "rep_type u = SMR" using i by auto
        qed
        have "ext_ok SMR (ext_pipes u ! i)" using ext_ok_nth [OF u(1) len(1)] len(3) by simp
        then have "safe (processData K (ext_pipes u ! i) (int i)) u"
          using u(1) len by (intro processData_safe) (auto simp: ext_ok_def MAX_VOTE_PIPE_BUFF_def)
        then show "safe (\<lambda>s. do { ext \<leftarrow> aget (ext_pipes s) (int i);
            if fd_in ext \<noteq> 0 then processData K ext (int i) s else Some s }) u"
          using len(1) u(1) by (simp add: safe_def)
      qed
      moreover have "pipe_count t = int n" using t(2) s(1) by (simp add: same_config_def)
      ultimately show "safe (\<lambda>s1. if exited s1 then Some s1 else ?resend s1) t"
        using t(1) by (simp add: safe_def)
    qed
    then show ?thesis
      by (rule safe_from) (use True h1 in \<open>simp_all add: voterRestartHandler_def Let_def same_config_def\<close>)
  next
    case False
    then have num: "2 \<le> num" "rep_type s = DMR \<or> rep_type s = TMR" using s(6,7) by auto
    have "length (timer_stop_index s) = 2" "current_timer s = 0 \<or> current_timer s = 1"
      "list_all (\<lambda>i. 0 \<le> i \<and> i < pipe_count s) (timer_stop_index s)"
      using ok by (auto simp: vd_ok_def vd_setup_def)
    then obtain stop where stop: "aget (timer_stop_index s) (current_timer s) = Some stop" "0 \<le> stop" "stop < int n"
      using s(1) by (auto simp: list_all_length aget_def)
    obtain p where p: "stop = int p" "p < n" using stop(2,3) by (metis nat_0_le of_nat_less_iff)
    obtain b where b: "b < num" "behindRep (replicas s) (int num) (int p) = Some (int b)"
      using behindRep_eq [OF good_group_wf [OF s(5)] p(2) s(3)] by blast
    let ?l = "(int b + (int num - 1)) smod int num"
    have l: "?l = (int b + (int num - 1)) mod int num" using num(1) by simp
    have "?l \<noteq> int b"
    proof
      assume "?l = int b"
      then have "(int b + (int num - 1)) mod int num = int b mod int num" using b(1) l by simp
      then have "int num dvd int num - 1" by (simp add: mod_eq_dvd_iff)
      then show False using num(1) by (auto dest: zdvd_imp_le)
    qed
    moreover have "0 \<le> ?l" "?l < int num" using l num(1) by simp_all
    ultimately have "safe (restart_prep K (int b) ?l) s"
      using restart_prep_safe [OF ok _ _ _ _ _ sys', of "int b" ?l] b(1) s(2) by simp
    then show ?thesis
      using num(2) stop(1) b(2) p(1) s(2) by (auto simp: voterRestartHandler_def safe_def)
  qed
qed

lemma config_eqs:
  "same_config s t \<Longrightarrow> pipe_count t = pipe_count s" "same_config s t \<Longrightarrow> rep_count t = rep_count s"
  "same_config s t \<Longrightarrow> rep_type t = rep_type s"
  by (simp_all add: same_config_def)

text \<open>New data in one external pipe's block.\<close>

lemma ext_update_ok:
  assumes ok: "vd_ok s" and p: "p < length (ext_pipes s)" and e: "ext_ok (rep_type s) e"
    "fd_in e = fd_in (ext_pipes s ! p)" "fd_out e = fd_out (ext_pipes s ! p)"
  shows "vd_ok (s\<lparr>ext_pipes := (ext_pipes s)[p := e]\<rparr>)"
    and "same_config s (s\<lparr>ext_pipes := (ext_pipes s)[p := e]\<rparr>)"
proof -
  have fd: "fd_in ((ext_pipes s)[p := e] ! j) = fd_in (ext_pipes s ! j)" for j
    using e(2) p by (cases "j = p") simp_all
  have "vd_group (s\<lparr>ext_pipes := (ext_pipes s)[p := e]\<rparr>)"
    using ok by (simp add: vd_ok_def vd_group_def good_group_def fd)
  moreover have "list_all (ext_ok (rep_type s)) ((ext_pipes s)[p := e])"
    using ok e(1) p by (auto simp: vd_ok_def vd_setup_def list_all_length nth_list_update)
  ultimately show "vd_ok (s\<lparr>ext_pipes := (ext_pipes s)[p := e]\<rparr>)"
    using ok by (simp add: vd_ok_def vd_setup_def)
  show "same_config s (s\<lparr>ext_pipes := (ext_pipes s)[p := e]\<rparr>)"
    using e(2,3) by (simp add: same_config_def map_update) (metis list_update_id map_update)
qed

lemma ext_round_safe:
  assumes ok: "vd_ok s" and sys: "system_ok K (rep_type s)" and p: "0 \<le> p" "p + int k \<le> pipe_count s"
  shows "safe (ext_round K ready k p) s"
  using p
proof (induction k arbitrary: p)
  case 0
  then show ?case using ok by (simp add: safe_def)
next
  case (Suc k)
  obtain n num where s: "pipe_count s = int n" "length (ext_pipes s) = n" using ok by (rule vd_okE)
  obtain p' where p': "p = int p'" "p' < length (ext_pipes s)"
    using Suc.prems s by (metis nat_0_le of_nat_less_iff less_le_trans zless_iff_Suc_zadd)
  let ?e = "ext_pipes s ! p'"
  have eok: "ext_ok (rep_type s) ?e" using ext_ok_nth [OF ok p'(2)] .
  show ?case
  proof (cases "fd_in ?e \<noteq> 0 \<and> fd_in ?e \<in> set ready")
    case False
    then show ?thesis using Suc p' by (auto simp: safe_def)
  next
    case True
    obtain r bs h where rd: "sys_read K (fd_in ?e) MAX_VOTE_PIPE_BUFF (hist s) = (r, bs, h)"
      by (cases "sys_read K (fd_in ?e) MAX_VOTE_PIPE_BUFF (hist s)") auto
    have r: "r \<le> 4096" "length bs \<le> 4096" "r = -1 \<or> r = int (length bs)"
      using rd by (auto elim!: sys_read_cases simp: MAX_VOTE_PIPE_BUFF_def)
    have nonneg: "rep_type s = SMR \<longrightarrow> 0 \<le> r"
    proof
      assume "rep_type s = SMR"
      then have "on_read K (hist s) (fd_in ?e) MAX_VOTE_PIPE_BUFF \<noteq> None" using sys by (simp add: system_ok_def)
      then show "0 \<le> r" using rd by (auto simp: sys_read_def Let_def)
    qed
    have len: "length (buffer ?e) = 4096" using eok by (simp add: ext_ok_def MAX_VOTE_PIPE_BUFF_def)
    let ?b = "bs @ drop (length bs) (buffer ?e)"
    let ?e' = "?e\<lparr>buffer := ?b, buff_count := r\<rparr>"
    let ?s' = "s\<lparr>ext_pipes := (ext_pipes s)[p' := ?e'], hist := h\<rparr>"
    have wr: "mem_write (buffer ?e) 0 bs = Some ?b" using len r(2) by (simp add: mem_write_in)
    have e': "ext_ok (rep_type s) ?e'"
      using len r nonneg by (simp add: ext_ok_def MAX_VOTE_PIPE_BUFF_def)
    have upd: "vd_ok ?s'" "same_config s ?s'"
      using ext_update_ok [OF ok p'(2) e'] by (simp_all add: same_config_def)
    have "safe (processData K ?e' p) ?s'" if "r > 0"
      using that upd(1) Suc.prems len r(1,2) by (intro processData_safe) auto
    then have "safe (\<lambda>t. if r > 0 then processData K ?e' p t else Some t) ?s'"
      using upd(1) by (simp add: safe_def)
    then show ?thesis
      by (rule safe_from) (use upd(2) True p' rd wr in \<open>simp_all add: Let_def\<close>)
  qed
qed

lemma rep_round_safe:
  assumes ok: "vd_ok s" and sys: "pipes_ok K" "no_strays K"
  shows "safe (rep_round K ready) s"
proof -
  obtain n num where s: "pipe_count s = int n" "rep_count s = int num" using ok by (rule vd_okE)
  let ?body = "\<lambda>p r s. do { v \<leftarrow> pipe_of (replicas s) r p;
         if fd_in v \<noteq> 0 \<and> fd_in v \<in> set ready then processFromRep K r p s else Some s }"
  have inner: "safe (?body (int i) (int j)) t"
    if t: "vd_ok t" "pipe_count t = int n" "rep_count t = int num" and ij: "i < n" "j < num" for i j t
  proof -
    obtain n' num' where t': "pipe_count t = int n'" "rep_count t = int num'"
      "good_group n' num' (ext_pipes t) 0 n' (replicas t)" using t(1) by (rule vd_okE)
    then have "pipe_of (replicas t) (int j) (int i) = Some (vpipe (replicas t) j i)"
      using pipe_of_wf(1) [OF good_group_wf [OF t'(3)]] t ij by simp
    then show ?thesis
      using processFromRep_safe [OF t(1) _ _ _ _ sys, of "int j" "int i"] t ij by (simp add: safe_def)
  qed
  have outer: "safe (\<lambda>u. for_upto 0 (rep_count u) (?body (int i)) u) t"
    if t: "vd_ok t" "same_config s t" and i: "i < n" for i t
  proof -
    have "safe (for_upto 0 (int num) (?body (int i))) t"
      using inner i config_eqs [OF t(2)] s by (intro safe_loop [OF t(1)]) (simp add: config_eqs)
    then show ?thesis using config_eqs(2) [OF t(2)] s(2) by (simp add: safe_def)
  qed
  have "safe (for_upto 0 (int n) (\<lambda>p u. for_upto 0 (rep_count u) (?body p) u)) s"
    using outer by (intro safe_loop [OF ok]) blast
  then show ?thesis using s(1) by (simp add: safe_def rep_round_def)
qed

lemma checkSync_total:
  assumes ok: "vd_ok s"
  shows "\<exists>b. checkSync s = Some b"
proof -
  obtain n num where s: "pipe_count s = int n" "rep_count s = int num" "0 < num"
    "good_group n num (ext_pipes s) 0 n (replicas s)" using ok by (rule vd_okE)
  note wf = good_group_wf [OF s(4)]
  have "\<exists>b. for_upto 1 (int num) (\<lambda>r_index nsync. do {
         c \<leftarrow> count_of (replicas s) r_index (int i);
         Some (if votes \<noteq> c then False else nsync) }) x = Some b \<and> True" if "i < n" for i votes x
  proof (rule for_upto_rule [where P = "\<lambda>_ _. True"])
    fix r y assume "1 \<le> r" "r < int num"
    then obtain r' where "r = int r'" "r' < num" by (metis nat_0_le of_nat_less_iff zero_le_one order_trans)
    then show "\<exists>b. do { c \<leftarrow> count_of (replicas s) r (int i); Some (if votes \<noteq> c then False else y) } = Some b \<and> True"
      using pipe_of_wf(2) [OF wf _ that] by simp
  qed (use s(3) in simp_all)
  moreover have "count_of (replicas s) 0 (int i) = Some (buff_count (vpipe (replicas s) 0 i))" if "i < n" for i
    using pipe_of_wf(2) [OF wf s(3) that] by simp
  ultimately have "\<exists>b. checkSync s = Some b \<and> True"
    unfolding checkSync_def s(1,2) by (intro for_upto_nat [where P = "\<lambda>_ _. True"]) auto
  then show ?thesis by blast
qed

lemma read_sets_total:
  assumes ok: "vd_ok s"
  shows "\<exists>fs. ext_read_set s = Some fs" "\<exists>fs. rep_read_set s = Some fs"
proof -
  obtain n num where s: "pipe_count s = int n" "rep_count s = int num" "length (ext_pipes s) = n"
    "good_group n num (ext_pipes s) 0 n (replicas s)" using ok by (rule vd_okE)
  note wf = good_group_wf [OF s(4)]
  have "\<exists>fs. for_upto 0 (int n) (\<lambda>p_index fds. do { ext \<leftarrow> aget (ext_pipes s) p_index;
           Some (if fd_in ext \<noteq> 0 then fds @ [fd_in ext] else fds) }) [] = Some fs \<and> True"
    by (rule for_upto_nat [where P = "\<lambda>_ _. True"]) (use s(3) in auto)
  then show "\<exists>fs. ext_read_set s = Some fs"
    using checkSync_total [OF ok] s(1) by (auto simp: ext_read_set_def)
  have "\<exists>fs. for_upto 0 (int num) (\<lambda>r_index fds. do { v \<leftarrow> pipe_of (replicas s) r_index (int i);
         Some (if fd_in v \<noteq> 0 then fds @ [fd_in v] else fds) }) x = Some fs \<and> True" if "i < n" for i x
    by (rule for_upto_nat [where P = "\<lambda>_ _. True"]) (use pipe_of_wf(1) [OF wf _ that] in auto)
  then have "\<exists>fs. rep_read_set s = Some fs \<and> True"
    unfolding rep_read_set_def s(1,2) by (rule for_upto_nat [where P = "\<lambda>_ _. True", rotated]) simp_all
  then show "\<exists>fs. rep_read_set s = Some fs" by blast
qed

lemma watch_safe:
  assumes ok: "vd_ok s" and sys: "system_ok K (rep_type s)"
  shows "\<exists>t s'. watch K F s = Some (t, s') \<and> vd_ok s' \<and> same_config s s'"
proof -
  obtain c h where c: "generate_timestamp K (hist s) = (c, h)" by (cases "generate_timestamp K (hist s)")
  have "safe (voterRestartHandler K) (s\<lparr>hist := h\<rparr>)"
    using voterRestartHandler_safe [of "s\<lparr>hist := h\<rparr>"] ok sys by simp
  then show ?thesis
    using ok c by (auto simp: watch_def safe_def Let_def same_config_def)
qed

lemma doOneUpdate_safe:
  assumes ok: "vd_ok s" and sys: "system_ok K (rep_type s)"
  shows "safe (doOneUpdate K F) s"
proof -
  obtain us s1 where w: "watch K F s = Some (us, s1)" "vd_ok s1" "same_config s s1"
    using watch_safe [OF assms] by blast
  obtain fs gs where sets: "ext_read_set s1 = Some fs" "rep_read_set s1 = Some gs"
    using read_sets_total [OF w(2)] by blast
  obtain ret ready h where sel: "sys_select K (fs @ gs) us (hist s1) = (ret, ready, h)"
    by (cases "sys_select K (fs @ gs) us (hist s1)") auto
  let ?s2 = "s1\<lparr>hist := h\<rparr>"
  have ok2: "vd_ok ?s2" and c2: "same_config s ?s2" using w by (simp_all add: same_config_def)
  have sys2: "system_ok K (rep_type ?s2)" "pipes_ok K" "no_strays K"
    using sys config_eqs(3) [OF c2] by (simp_all add: system_ok_def)
  have "safe (\<lambda>s2. do { s3 \<leftarrow> ext_round K ready (nat (pipe_count s2)) 0 s2; rep_round K ready s3 }) ?s2"
  proof -
    have "safe (ext_round K ready (nat (pipe_count ?s2)) 0) ?s2"
      using ext_round_safe [OF ok2 sys2(1), of 0 "nat (pipe_count ?s2)"] ok2
      by (auto simp: vd_ok_def vd_setup_def)
    then show ?thesis
      using rep_round_safe [OF _ sys2(2,3)] same_config_trans unfolding safe_def by fastforce
  qed
  then have "safe (\<lambda>s2. if exited s1 then Some s1 else if ret > 0 then
      do { s3 \<leftarrow> ext_round K ready (nat (pipe_count s2)) 0 s2; rep_round K ready s3 } else Some s2) ?s2"
    using ok2 w(2) by (auto simp: safe_def same_config_def)
  then show ?thesis
    by (rule safe_from) (use c2 w(1) sets sel in \<open>simp_all\<close>, simp add: doOneUpdate_def)
qed

end
