(* ===== verification/VoterDProps.thy ===== *)
theory VoterDProps
  imports VoterDInv
begin

text \<open>
  What \<open>voter/voterd.c\<close> promises: the vote of the TMR group refines a majority of three, a single
  faulty replica is masked and replaced, the loop never makes an undefined access, inputs reach all
  replicas alike.
\<close>

section \<open>The majority of three\<close>

text \<open>The abstract vote: what to do with three answers.\<close>

datatype verdict = Agreed nat | Dissent nat nat | NoMajority

definition majority3 :: "'a \<Rightarrow> 'a \<Rightarrow> 'a \<Rightarrow> verdict" where
  "majority3 a b c =
     (if a = b then (if a = c then Agreed 0 else Dissent 2 0)
      else if b = c then Dissent 0 1
      else if c = a then Dissent 1 2
      else NoMajority)"

lemma majority3_dissent:
  assumes "f < 3" "i < 3" "j < 3" "distinct [f, i, j]" and "ans f \<noteq> ans i" "ans i = ans j"
  shows "\<exists>l. majority3 (ans 0) (ans 1) (ans 2) = Dissent f l \<and> (l = i \<or> l = j) \<and> l \<noteq> f"
proof -
  have three: "x = 0 \<or> x = 1 \<or> x = 2" if "x < 3" for x :: nat using that by auto
  consider "f = 0" "i = 1" "j = 2" | "f = 0" "i = 2" "j = 1" | "f = 1" "i = 0" "j = 2"
    | "f = 1" "i = 2" "j = 0" | "f = 2" "i = 0" "j = 1" | "f = 2" "i = 1" "j = 0"
    using three [OF assms(1)] three [OF assms(2)] three [OF assms(3)] assms(4) by force
  then show ?thesis using assms(5,6) unfolding majority3_def by cases simp_all
qed

text \<open>The answer of replica \<open>r\<close> on pipe \<open>p\<close>: the bytes that are up for the vote.\<close>

definition answer :: "voterd \<Rightarrow> nat \<Rightarrow> int \<Rightarrow> nat \<Rightarrow> byte list" where
  "answer s p b r = take (nat b) (content (vpipe (replicas s) r p))"

lemma tmr_facts:
  assumes ok: "vd_ok s" and type: "rep_type s = TMR" and p: "int p < pipe_count s"
  shows "rep_count s = 3" "good_group (length (ext_pipes s)) 3 (ext_pipes s) 0 (length (ext_pipes s)) (replicas s)"
    "p < length (ext_pipes s)" "pipe_count s = int (length (ext_pipes s))"
proof -
  obtain n num where s: "pipe_count s = int n" "rep_count s = int num" "length (ext_pipes s) = n"
    "good_group n num (ext_pipes s) 0 n (replicas s)" "int num = reptypeToCount (rep_type s)"
    using ok by (rule vd_okE)
  have "num = 3" using s(5) type by simp
  with s p show "rep_count s = 3" "good_group (length (ext_pipes s)) 3 (ext_pipes s) 0 (length (ext_pipes s)) (replicas s)"
    "p < length (ext_pipes s)" "pipe_count s = int (length (ext_pipes s))" by simp_all
qed

lemma checkSDC_verdict:
  assumes ok: "vd_ok s" and type: "rep_type s = TMR" and p: "int p < pipe_count s"
    and voted: "fd_in (ext_pipes s ! p) = 0"
    and b: "bytesReady (replicas s) 3 (int p) = Some b" "b \<noteq> 0"
  shows "checkSDC K (int p) s =
    (case majority3 (answer s p b 0) (answer s p b 1) (answer s p b 2) of
       Agreed l \<Rightarrow> sendPipe K (int p) (int l) s
     | Dissent f l \<Rightarrow> restart_prep K (int f) (int l) s
     | NoMajority \<Rightarrow> Some s)"
proof -
  note T = tmr_facts [OF ok type p]
  note wf = good_group_wf [OF T(2)]
  from wf T(3) obtain c where "bytesReady (replicas s) (int 3) (int p) = Some c" "0 \<le> c"
    "\<And>r. r < 3 \<Longrightarrow> c \<le> buff_count (vpipe (replicas s) r p)" by (rule bytesReady_cases) auto
  then have c: "0 \<le> b" "\<And>r. r < 3 \<Longrightarrow> b \<le> buff_count (vpipe (replicas s) r p)" using b by auto
  have get: "pipe_of (replicas s) 0 (int p) = Some (vpipe (replicas s) 0 p)"
    "pipe_of (replicas s) 1 (int p) = Some (vpipe (replicas s) 1 p)"
    "pipe_of (replicas s) 2 (int p) = Some (vpipe (replicas s) 2 p)"
    using pipe_of_wf(1) [OF wf _ T(3), of 0] pipe_of_wf(1) [OF wf _ T(3), of 1]
      pipe_of_wf(1) [OF wf _ T(3), of 2] by simp_all
  have cmp: "\<exists>x. compareBuffs (vpipe (replicas s) i p) (vpipe (replicas s) j p) b = Some x
      \<and> (x = 0 \<longleftrightarrow> answer s p b i = answer s p b j)" if "i < 3" "j < 3" for i j
    using compareBuffs_0 [OF wf_reps_pipe [OF wf that(1) T(3)] wf_reps_pipe [OF wf that(2) T(3)] c(1) c(2) [OF that(1)] c(2) [OF that(2)]]
      good_group_index [OF T(2,3) voted that] T(3) by (simp add: answer_def)
  obtain x01 where x01: "compareBuffs (vpipe (replicas s) 0 p) (vpipe (replicas s) 1 p) b = Some x01"
    "x01 = 0 \<longleftrightarrow> answer s p b 0 = answer s p b 1" using cmp [of 0 1] by auto
  obtain x02 where x02: "compareBuffs (vpipe (replicas s) 0 p) (vpipe (replicas s) 2 p) b = Some x02"
    "x02 = 0 \<longleftrightarrow> answer s p b 0 = answer s p b 2" using cmp [of 0 2] by auto
  obtain x12 where x12: "compareBuffs (vpipe (replicas s) 1 p) (vpipe (replicas s) 2 p) b = Some x12"
    "x12 = 0 \<longleftrightarrow> answer s p b 1 = answer s p b 2" using cmp [of 1 2] by auto
  obtain x10 where x10: "compareBuffs (vpipe (replicas s) 1 p) (vpipe (replicas s) 0 p) b = Some x10"
    "x10 = 0 \<longleftrightarrow> answer s p b 1 = answer s p b 0" using cmp [of 1 0] by auto
  obtain x20 where x20: "compareBuffs (vpipe (replicas s) 2 p) (vpipe (replicas s) 0 p) b = Some x20"
    "x20 = 0 \<longleftrightarrow> answer s p b 2 = answer s p b 0" using cmp [of 2 0] by auto
  obtain x21 where x21: "compareBuffs (vpipe (replicas s) 2 p) (vpipe (replicas s) 1 p) b = Some x21"
    "x21 = 0 \<longleftrightarrow> answer s p b 2 = answer s p b 1" using cmp [of 2 1] by auto
  have idx: "(0 + 1) smod rep_count s = 1" "(0 + 2) smod rep_count s = 2" "(1 + 1) smod rep_count s = 2"
    "(1 + 2) smod rep_count s = 0" "(2 + 1) smod rep_count s = 0" "(2 + 2) smod rep_count s = 1"
    using T(1) by simp_all
  have v0: "tmr_vote K (int p) b (Suc n) 0 s = (if x01 = 0 then
      if x02 \<noteq> 0 then restart_prep K 2 0 s else sendPipe K (int p) 0 s else tmr_vote K (int p) b n (0 + 1) s)" for n
    unfolding tmr_vote.simps get idx Option.bind.simps x01(1) x02(1) ..
  have v1: "tmr_vote K (int p) b (Suc n) 1 s = (if x12 = 0 then
      if x10 \<noteq> 0 then restart_prep K 0 1 s else sendPipe K (int p) 1 s else tmr_vote K (int p) b n (1 + 1) s)" for n
    unfolding tmr_vote.simps get idx Option.bind.simps x12(1) x10(1) ..
  have v2: "tmr_vote K (int p) b (Suc n) 2 s = (if x20 = 0 then
      if x21 \<noteq> 0 then restart_prep K 1 2 s else sendPipe K (int p) 2 s else tmr_vote K (int p) b n (2 + 1) s)" for n
    unfolding tmr_vote.simps get idx Option.bind.simps x20(1) x21(1) ..
  have "checkSDC K (int p) s = tmr_vote K (int p) b (Suc (Suc (Suc 0))) 0 s"
    using b T(1) type by (simp add: checkSDC_def numeral_3_eq_3 [symmetric])
  also have "\<dots> = (if x01 = 0 then if x02 \<noteq> 0 then restart_prep K 2 0 s else sendPipe K (int p) 0 s
      else if x12 = 0 then if x10 \<noteq> 0 then restart_prep K 0 1 s else sendPipe K (int p) 1 s
      else if x20 = 0 then if x21 \<noteq> 0 then restart_prep K 1 2 s else sendPipe K (int p) 2 s
      else Some s)"
    using v0 [of "Suc (Suc 0)"] v1 [of "Suc 0"] v2 [of 0] by simp
  finally show ?thesis
    unfolding x01(2) x02(2) x12(2) x10(2) x20(2) x21(2) majority3_def by auto
qed

section \<open>Net effects of the remaining steps\<close>

lemma timer_check_fields [simp]:
  "replicas (timer_check K ix p s) = replicas s" "ext_pipes (timer_check K ix p s) = ext_pipes s"
  "writes (hist (timer_check K ix p s)) = writes (hist s)"
  "killed sig (hist (timer_check K ix p s)) = killed sig (hist s)"
  "rep_type (timer_check K ix p s) = rep_type s" "rep_count (timer_check K ix p s) = rep_count s"
  "pipe_count (timer_check K ix p s) = pipe_count s"
  by (simp_all add: timer_check_def start_timer_def generate_timestamp_def sys_timestamp_def Let_def)

lemma balance_effect:
  assumes ok: "vd_ok s"
  obtains reps h where "on_replicas (\<lambda>reps. balanceReps K reps (rep_count s) d) s = Some (s\<lparr>replicas := reps, hist := h\<rparr>)"
    "vd_ok (s\<lparr>replicas := reps, hist := h\<rparr>)" "prio_eq (replicas s) reps" "silently (hist s) h"
proof -
  obtain n num where s: "pipe_count s = int n" "rep_count s = int num" "0 < num"
    "good_group n num (ext_pipes s) 0 n (replicas s)" using ok by (rule vd_okE)
  obtain reps' es where b: "balanceReps K (replicas s) (int num) d (hist s) = Some (reps', hist s @ es)"
    "prio_eq (replicas s) reps'" "list_all is_silent es"
    by (rule balanceReps_frame [OF good_group_wf [OF s(4)] s(3), of K d "hist s"])
  show ?thesis
  proof (rule that)
    show "on_replicas (\<lambda>reps. balanceReps K reps (rep_count s) d) s = Some (s\<lparr>replicas := reps', hist := hist s @ es\<rparr>)"
      using b(1) s(2) by (simp add: on_replicas_def)
    show "vd_ok (s\<lparr>replicas := reps', hist := hist s @ es\<rparr>)"
      using vd_ok_regroup [OF ok s(1,2) prio_eq_good [OF b(2) s(4)]] by simp
  qed (use b in simp_all)
qed

text \<open>
  \<open>processFromRep\<close> when the pipe delivers: the bytes are queued and the vote is taken in a state
  that differs from the old one in that pipe, in priorities and in the timer only.
\<close>

lemma processFromRep_fill:
  assumes ok: "vd_ok s" and r: "int r < rep_count s" and p: "int p < pipe_count s"
    and rd: "on_read K (hist (timer_check K (timer_stop_index s) (int p) s)) (fd_in (vpipe (replicas s) r p)) MAX_VOTE_PIPE_BUFF = Some bs"
    and room: "0 < length bs" "buff_count (vpipe (replicas s) r p) + int (length bs) < MAX_VOTE_PIPE_BUFF"
  obtains t where "processFromRep K (int r) (int p) s = checkSDC K (int p) t" "vd_ok t" "same_config s t"
    "ext_pipes t = ext_pipes s" "writes (hist t) = writes (hist s)" "\<And>sig. killed sig (hist t) = killed sig (hist s)"
    "content (vpipe (replicas t) r p) = content (vpipe (replicas s) r p) @ bs"
    "buff_count (vpipe (replicas t) r p) = buff_count (vpipe (replicas s) r p) + int (length bs)"
    "\<And>r' p'. int r' < rep_count s \<Longrightarrow> r' \<noteq> r \<or> p' \<noteq> p \<Longrightarrow> vpipe (replicas t) r' p' = vpipe (replicas s) r' p'"
    "\<And>r'. int r' < rep_count s \<Longrightarrow> r_pid (replicas t ! r') = r_pid (replicas s ! r')"
    "\<And>r'. int r' < rep_count s \<Longrightarrow> fd_in (vpipe (replicas t) r' p) = fd_in (vpipe (replicas s) r' p)"
proof -
  define s1 where "s1 = timer_check K (timer_stop_index s) (int p) s"
  have f1: "replicas s1 = replicas s" "ext_pipes s1 = ext_pipes s" "writes (hist s1) = writes (hist s)"
    "killed sig (hist s1) = killed sig (hist s)" for sig by (simp_all add: s1_def)
  have ok1: "vd_ok s1" and c1: "same_config s s1" using ok by (simp_all add: s1_def)
  obtain n num where s: "pipe_count s1 = int n" "rep_count s1 = int num"
    "good_group n num (ext_pipes s1) 0 n (replicas s1)" using ok1 by (rule vd_okE)
  have rp: "r < num" "p < n" using r p s config_eqs [OF c1] by simp_all
  note wf = good_group_wf [OF s(3)]
  let ?v = "vpipe (replicas s1) r p"
  have wv: "wf_pipe ?v" using wf_reps_pipe [OF wf rp] .
  have short: "length bs < 4096" using room(2) wv by (simp add: wf_pipe_def MAX_VOTE_PIPE_BUFF_def f1(1))
  then have read: "sys_read K (fd_in ?v) MAX_VOTE_PIPE_BUFF (hist s1)
      = (int (length bs), bs, hist s1 @ [SysRead (fd_in ?v) MAX_VOTE_PIPE_BUFF (Some bs)])"
    using rd by (simp add: sys_read_def s1_def Let_def MAX_VOTE_PIPE_BUFF_def)
  let ?h = "hist s1 @ [SysRead (fd_in ?v) MAX_VOTE_PIPE_BUFF (Some bs)]"
  have bound: "0 < int (length bs)" "int (length bs) < MAX_VOTE_PIPE_BUFF - buff_count ?v"
    using room f1(1) by simp_all
  obtain v where v: "pipeToBuff K ?v (hist s1) = Some (0, v, ?h)" "wf_pipe v" "content v = content ?v @ bs"
    "buff_count v = buff_count ?v + int (length bs)" "buff_index v = buff_index ?v" "fd_in v = fd_in ?v"
    using wv read by (rule pipeToBuff_cases) (use bound in auto)
  let ?R2 = "set_pipe (replicas s1) r p v"
  have g2: "good_group n num (ext_pipes s1) 0 n ?R2"
  proof (rule set_pipe_good [OF s(3) rp v(2,6)])
    fix r1 assume "fd_in (ext_pipes s1 ! p) = 0" "r1 < num"
    then show "buff_index v = buff_index (vpipe (replicas s1) r1 p)"
      using good_group_index [OF s(3) rp(2) _ rp(1), of r1] rp(2) v(5) by simp
  qed simp
  let ?s2 = "s1\<lparr>hist := ?h, replicas := ?R2\<rparr>"
  have ok2: "vd_ok ?s2" using vd_ok_regroup [of "s1\<lparr>hist := ?h\<rparr>" n num ?R2] ok1 s g2 by simp
  obtain reps h where b: "on_replicas (\<lambda>reps. balanceReps K reps (rep_count ?s2) (replica_priority ?s2)) ?s2
      = Some (?s2\<lparr>replicas := reps, hist := h\<rparr>)" "vd_ok (?s2\<lparr>replicas := reps, hist := h\<rparr>)"
      "prio_eq (replicas ?s2) reps" "silently (hist ?s2) h"
    by (rule balance_effect [OF ok2])
  let ?t = "?s2\<lparr>replicas := reps, hist := h\<rparr>"
  have put: "put_pipe (int r) (int p) v (s1\<lparr>hist := ?h\<rparr>) = Some ?s2"
    using put_pipe_eq [of n num "s1\<lparr>hist := ?h\<rparr>" r p v] wf rp by simp
  have get: "pipe_of (replicas s1) (int r) (int p) = Some ?v" using pipe_of_wf(1) [OF wf rp] .
  have len: "num \<le> length (replicas s1)" "r < length (replicas s1)" "p < length (vot_pipes (replicas s1 ! r))"
    using good_groupD [OF s(3) rp(1)] wf rp by (auto simp: wf_reps_def)
  have vp: "vpipe reps r' p' = (if r' = r \<and> p' = p then v else vpipe (replicas s) r' p')"
    if "int r' < rep_count s" for r' p'
    using prio_eq_vpipe [OF b(3), of r' p'] vpipe_set_pipe [OF len(2,3), of v r' p'] that len(1) s(2)
      config_eqs(2) [OF c1] by (simp add: f1(1))
  have pid: "r_pid (reps ! r') = r_pid (replicas s ! r')" if "int r' < rep_count s" for r'
    using prio_eqD(5) [OF b(3), of r'] that len(1) s(2) config_eqs(2) [OF c1] by (simp add: f1(1))
  show ?thesis
  proof (rule that [of ?t])
    show "processFromRep K (int r) (int p) s = checkSDC K (int p) ?t"
      using b(1) put get v(1) by (simp add: processFromRep_def s1_def [symmetric])
    show "vd_ok ?t" by (rule b(2))
    show "same_config s ?t" using c1 by (simp add: same_config_def)
    show "writes (hist ?t) = writes (hist s)" using silently_writes [OF b(4)] f1(3) by simp
    show "killed sig (hist ?t) = killed sig (hist s)" for sig using silently_killed [OF b(4)] f1(4) by simp
  qed (use f1 v vp pid r in auto)
qed

section \<open>A sample voter for the witnesses\<close>

text \<open>
  Two external pipes, 0 going out to descriptor 9 and 1 coming in from descriptor 8, and replicas
  101, 102, 103 with the given bytes waiting on pipe 0.
\<close>

definition ring_pipe :: "int \<Rightarrow> int \<Rightarrow> byte list \<Rightarrow> vote_pipe" where
  "ring_pipe i out bs = \<lparr>rep_info = ''MOV_CMD'', fd_in = i, fd_out = out, timed = 1, buff_count = int (length bs),
     buff_index = 0, buffer = bs @ replicate (4096 - length bs) 0\<rparr>"

definition sample_rep :: "int \<Rightarrow> byte list \<Rightarrow> replica" where
  "sample_rep pid bs = \<lparr>r_pid = pid, r_priority = 5, r_pinned_cpu = 1, r_name = Some ''Filter'',
     r_pipe_count = 2, vot_pipes = [ring_pipe (pid + 100) 0 bs, ring_pipe 0 (pid + 200) []],
     voter_rep_in_copy = [0, pid + 300],
     rep_pipes = [ring_pipe 0 (pid + 400) [], ring_pipe (pid + 300) 0 []]\<rparr>"

definition sample_voter :: "replication_t \<Rightarrow> byte list list \<Rightarrow> voterd" where
  "sample_voter ty answers =
     \<lparr>voting_timeout = 120, current_timer = 0, timer_start_index = [1, 1], timer_stop_index = [0, 0],
      timer_started = False, watchdog = 0,
      replicas = map (\<lambda>(pid, bs). sample_rep pid bs) (zip [101, 102, 103] answers),
      voter_priority = 10, replica_priority = 5, sd_sock = 4, rep_type = ty, rep_count = reptypeToCount ty,
      controller_name = ''Filter'', pipe_count = 2, ext_pipes = [ring_pipe 0 9 [], ring_pipe 8 0 [7, 7]],
      hist = [], exited = False\<rparr>"

lemma ring_pipe_fields [simp]:
  "fd_in (ring_pipe i out bs) = i" "fd_out (ring_pipe i out bs) = out"
  "buff_count (ring_pipe i out bs) = int (length bs)" "buff_index (ring_pipe i out bs) = 0"
  by (simp_all add: ring_pipe_def)

lemma ring_pipe_wf [simp]: "length bs < 4096 \<Longrightarrow> wf_pipe (ring_pipe i out bs)"
  by (simp add: ring_pipe_def wf_pipe_def MAX_VOTE_PIPE_BUFF_def)

lemma ring_pipe_content [simp]: "length bs < 4096 \<Longrightarrow> content (ring_pipe i out bs) = bs"
  by (simp add: ring_pipe_def content_def window_simple)

lemma less_2_cases: "(\<forall>p < 2. P p) \<longleftrightarrow> P 0 \<and> P (Suc 0)"
  by (auto simp: numeral_2_eq_2 less_Suc_eq)

lemma sample_tmr_ok:
  assumes "length a < 4096" "length b < 4096" "length c < 4096"
  shows "vd_ok (sample_voter TMR [a, b, c])"
  using assms
  by (simp add: vd_ok_def vd_setup_def vd_group_def good_group_def sample_voter_def sample_rep_def ext_ok_def
      wf_reps_def wf_rep_def in_step_def vpipe_def less_3_cases less_2_cases MAX_VOTE_PIPE_BUFF_def)
    (simp add: ring_pipe_def)

lemma sample_dmr_ok:
  assumes "length a < 4096" "length b < 4096"
  shows "vd_ok (sample_voter DMR [a, b])"
  using assms
  by (simp add: vd_ok_def vd_setup_def vd_group_def good_group_def sample_voter_def sample_rep_def ext_ok_def
      wf_reps_def wf_rep_def in_step_def vpipe_def less_2_cases MAX_VOTE_PIPE_BUFF_def)
    (simp add: ring_pipe_def)

lemma sample_voter_fields [simp]:
  "rep_type (sample_voter ty as) = ty" "rep_count (sample_voter ty as) = reptypeToCount ty"
  "pipe_count (sample_voter ty as) = 2" "hist (sample_voter ty as) = []" "exited (sample_voter ty as) = False"
  "ext_pipes (sample_voter ty as) = [ring_pipe 0 9 [], ring_pipe 8 0 [7, 7]]"
  by (simp_all add: sample_voter_def)

lemma sample_tmr_pipes [simp]:
  "vpipe (replicas (sample_voter TMR [a, b, c])) 0 0 = ring_pipe 201 0 a"
  "vpipe (replicas (sample_voter TMR [a, b, c])) (Suc 0) 0 = ring_pipe 202 0 b"
  "vpipe (replicas (sample_voter TMR [a, b, c])) 2 0 = ring_pipe 203 0 c"
  "r_pid (replicas (sample_voter TMR [a, b, c]) ! 0) = 101"
  "r_pid (replicas (sample_voter TMR [a, b, c]) ! Suc 0) = 102"
  "r_pid (replicas (sample_voter TMR [a, b, c]) ! 2) = 103"
  by (simp_all add: sample_voter_def vpipe_def sample_rep_def)

lemma sample_tmr_ready:
  assumes "length a < 4096" "length b < 4096" "length c < 4096"
  shows "bytesReady (replicas (sample_voter TMR [a, b, c])) 3 0 = Some (int (min (length a) (min (length b) (length c))))"
proof -
  have "bytesReady (replicas (sample_voter TMR [a, b, c])) (int 3) (int 0)
      = Some (Min ((\<lambda>r. buff_count (vpipe (replicas (sample_voter TMR [a, b, c])) r 0)) ` {..<3}))"
  proof (rule bytesReady_eq)
    show "wf_reps 2 3 (replicas (sample_voter TMR [a, b, c]))"
      using good_group_wf [OF tmr_facts(2) [OF sample_tmr_ok [OF assms], of 0]] by (simp add: numeral_2_eq_2)
  qed simp_all
  then show ?thesis by (simp add: lessThan_3 min_def)
qed

lemma quiet_system_ok: "pipes_ok quiet" "no_strays quiet"
  by (simp_all add: pipes_ok_def no_strays_def quiet_def)

section \<open>Properties\<close>

subsection \<open>The vote\<close>

text \<open>C1: The vote of a TMR group refines the majority of three: on the bytes that all three replicas
  have delivered, \<open>checkSDC\<close> sends when all agree, replaces exactly the replica that disagrees with
  the other two (with the first of these as the donor), and does nothing when no two agree.\<close>

theorem tmr_vote_majority:
  assumes "vd_ok s" "rep_type s = TMR" "int p < pipe_count s" "fd_in (ext_pipes s ! p) = 0"
    and "bytesReady (replicas s) 3 (int p) = Some b" "b \<noteq> 0"
  shows "checkSDC K (int p) s =
    (case majority3 (answer s p b 0) (answer s p b 1) (answer s p b 2) of
       Agreed l \<Rightarrow> sendPipe K (int p) (int l) s
     | Dissent f l \<Rightarrow> restart_prep K (int f) (int l) s
     | NoMajority \<Rightarrow> Some s)"
  using assms by (rule checkSDC_verdict)

theorem tmr_vote_majority_witness:
  "checkSDC quiet 0 (sample_voter TMR [[1, 2], [3, 2], [1, 2]])
    = restart_prep quiet 1 2 (sample_voter TMR [[1, 2], [3, 2], [1, 2]])"
  using tmr_vote_majority [of "sample_voter TMR [[1, 2], [3, 2], [1, 2]]" 0 2 quiet]
    sample_tmr_ready [of "[1, 2]" "[3, 2]" "[1, 2]"]
  by (simp add: sample_tmr_ok answer_def majority3_def)

lemma tmr_unanimous:
  assumes ok: "vd_ok s" and type: "rep_type s = TMR" and p: "int p < pipe_count s"
    and voted: "fd_in (ext_pipes s ! p) = 0"
    and b: "bytesReady (replicas s) 3 (int p) = Some b" "b \<noteq> 0"
    and agree: "answer s p b 0 = v" "answer s p b 1 = v" "answer s p b 2 = v"
  shows "\<exists>s'. checkSDC K (int p) s = Some s' \<and> vd_ok s'
    \<and> writes (hist s') = writes (hist s) @ [(fd_out (ext_pipes s ! p), v)]
    \<and> (\<forall>sig. killed sig (hist s') = killed sig (hist s))
    \<and> (\<forall>r < 3. content (vpipe (replicas s) r p) = v @ content (vpipe (replicas s') r p))
    \<and> (\<forall>r < 3. \<forall>q. q \<noteq> p \<longrightarrow> vpipe (replicas s') r q = vpipe (replicas s) r q)
    \<and> (timer_started s' \<longleftrightarrow> timer_started s \<and> int p \<noteq> timer_stop_index s ! 0 \<and> int p \<noteq> timer_stop_index s ! 1)
    \<and> rep_type s' = rep_type s \<and> pipe_count s' = pipe_count s \<and> ext_pipes s' = ext_pipes s"
proof -
  note T = tmr_facts [OF ok type p]
  let ?n = "length (ext_pipes s)"
  note wf = good_group_wf [OF T(2)]
  from wf T(3) obtain c where "bytesReady (replicas s) (int 3) (int p) = Some c" "0 \<le> c"
    "\<And>r. r < 3 \<Longrightarrow> c \<le> buff_count (vpipe (replicas s) r p)" by (rule bytesReady_cases) auto
  then have c: "0 \<le> b" "\<And>r. r < 3 \<Longrightarrow> b \<le> buff_count (vpipe (replicas s) r p)" using b by auto
  have run: "checkSDC K (int p) s = sendPipe K (int p) (int 0) s"
    using checkSDC_verdict [OF ok type p voted b] agree by (simp add: majority3_def)
  have num: "rep_count s = int 3" and avail: "bytesReady (replicas s) (int 3) (int p) = Some b"
    using T(1) b(1) by simp_all
  define s' where "s' = s\<lparr>timer_started := timer_started s \<and> int p \<noteq> timer_stop_index s ! 0 \<and> int p \<noteq> timer_stop_index s ! 1,
     replicas := advance 3 p b (replicas s), hist := snd (sys_write K (fd_out (ext_pipes s ! p)) v (hist s))\<rparr>"
  have send: "sendPipe K (int p) (int 0) s = Some s'"
    using sendPipe_eq [OF wf num T(3) T(3) _ avail, of 0 K] b(2) agree(1) by (simp add: answer_def s'_def)
  obtain s'' where "sendPipe K (int p) (int 0) s = Some s''" "vd_ok s''"
    using sendPipe_safe [OF ok, of "int p" "int 0" K] p T(1) by (auto simp: safe_def)
  then have ok': "vd_ok s'" using send by simp
  have vp: "vpipe (replicas s') r q = (if q = p then fakeToPipe (vpipe (replicas s) r p) b else vpipe (replicas s) r q)"
    if "r < 3" for r q
    using vpipe_advance [of 3 "replicas s" r p b q] that good_groupD(5) [OF T(2) that] T(3) wf
    by (simp add: s'_def wf_reps_def)
  have ans: "take (nat b) (content (vpipe (replicas s) r p)) = v" if "r < 3" for r
  proof -
    have "r = 0 \<or> r = 1 \<or> r = 2" using that by auto
    then show ?thesis using agree by (auto simp: answer_def)
  qed
  have "content (vpipe (replicas s) r p) = v @ content (vpipe (replicas s') r p)" if "r < 3" for r
    using fakeToPipe_content [OF wf_reps_pipe [OF wf that T(3)] c(1) c(2) [OF that]] ans [OF that] vp [OF that]
    by (simp add: append_take_drop_id flip: ans [OF that])
  then show ?thesis
    using run send ok' vp by (intro exI [of _ s']) (simp add: s'_def)
qed

text \<open>When the three replicas agree, \<open>checkSDC\<close> makes exactly one \<open>write\<close>: the agreed bytes, to
  the external descriptor of the pipe. Every replica's queue moves on by that many bytes, nobody is
  signalled, and the timer stops if the pipe is one a timer waits for.\<close>

theorem tmr_unanimous_sends_once:
  assumes ok: "vd_ok s" and type: "rep_type s = TMR" and p: "int p < pipe_count s"
    and voted: "fd_in (ext_pipes s ! p) = 0"
    and b: "bytesReady (replicas s) 3 (int p) = Some b" "b \<noteq> 0"
    and agree: "answer s p b 0 = v" "answer s p b 1 = v" "answer s p b 2 = v"
  shows "\<exists>s'. checkSDC K (int p) s = Some s' \<and> vd_ok s'
    \<and> writes (hist s') = writes (hist s) @ [(fd_out (ext_pipes s ! p), v)]
    \<and> (\<forall>sig. killed sig (hist s') = killed sig (hist s))
    \<and> (\<forall>r < 3. content (vpipe (replicas s) r p) = v @ content (vpipe (replicas s') r p))
    \<and> (\<forall>r < 3. \<forall>q. q \<noteq> p \<longrightarrow> vpipe (replicas s') r q = vpipe (replicas s) r q)
    \<and> (timer_started s' \<longleftrightarrow> timer_started s \<and> int p \<noteq> timer_stop_index s ! 0 \<and> int p \<noteq> timer_stop_index s ! 1)"
  using tmr_unanimous [OF assms, of K] by blast

theorem tmr_unanimous_sends_once_witness:
  "\<exists>s'. checkSDC quiet 0 (sample_voter TMR [[1, 2], [1, 2, 3], [1, 2]]) = Some s'
    \<and> writes (hist s') = [(9, [1, 2])] \<and> content (vpipe (replicas s') 1 0) = [3]"
proof -
  let ?s = "sample_voter TMR [[1, 2], [1, 2, 3], [1, 2]]"
  have ready: "bytesReady (replicas ?s) 3 (int 0) = Some 2"
    using sample_tmr_ready [of "[1, 2]" "[1, 2, 3]" "[1, 2]"] by simp
  obtain s' where "checkSDC quiet (int 0) ?s = Some s'" "writes (hist s') = [(9, [1, 2])]"
    "\<forall>r < 3. content (vpipe (replicas ?s) r 0) = [1, 2] @ content (vpipe (replicas s') r 0)"
    using tmr_unanimous_sends_once [of ?s 0 2 "[1, 2]" quiet] ready by (auto simp: sample_tmr_ok answer_def)
  then show ?thesis by (intro exI [of _ s']) (auto simp: less_3_cases)
qed

lemma tmr_masks:
  assumes ok: "vd_ok s" and type: "rep_type s = TMR" and p: "int p < pipe_count s"
    and voted: "fd_in (ext_pipes s ! p) = 0"
    and b: "bytesReady (replicas s) 3 (int p) = Some b" "b \<noteq> 0"
    and who: "f < 3" "i < 3" "j < 3" "distinct [f, i, j]" and faulty: "answer s p b f \<noteq> v"
    and healthy: "answer s p b i = v" "answer s p b j = v"
    and sys: "pipes_ok K" "no_strays K"
  shows "\<exists>s' l before more after. checkSDC K (int p) s = Some s' \<and> vd_ok s'
    \<and> writes (hist s') = writes (hist s) @ before @ (fd_out (ext_pipes s ! p), v @ more) # after
    \<and> (l = i \<or> l = j) \<and> take (length (v @ more)) (content (vpipe (replicas s) l p)) = v @ more
    \<and> killed SIGKILL (hist s') = killed SIGKILL (hist s) @ [r_pid (replicas s ! f)]
    \<and> killed RESTART_SIGNAL (hist s') = killed RESTART_SIGNAL (hist s) @ [r_pid (replicas s ! l)]"
proof -
  note T = tmr_facts [OF ok type p]
  let ?n = "length (ext_pipes s)" and ?ext = "ext_pipes s"
  note wf = good_group_wf [OF T(2)]
  from wf T(3) obtain c where "bytesReady (replicas s) (int 3) (int p) = Some c" "0 \<le> c"
    "\<And>r. r < 3 \<Longrightarrow> c \<le> buff_count (vpipe (replicas s) r p)" by (rule bytesReady_cases) auto
  then have c: "0 \<le> b" "\<And>r. r < 3 \<Longrightarrow> b \<le> buff_count (vpipe (replicas s) r p)" using b by auto
  note less = who(1-3)
  have ans: "answer s p b f \<noteq> answer s p b i" "answer s p b i = answer s p b j"
    using faulty healthy by simp_all
  obtain l where l: "majority3 (answer s p b 0) (answer s p b 1) (answer s p b 2) = Dissent f l"
    "l = i \<or> l = j" "l \<noteq> f" using majority3_dissent [of f i j "answer s p b", OF who ans] by blast
  have l3: "l < 3" using l(2) less by auto
  obtain reps' h' stolen where r: "restart_prep K (int f) (int l) s
      = Some (s\<lparr>timer_started := False, replicas := reps', hist := h'\<rparr>)"
    "writes h' = writes (hist s) @ restart_sends ?ext (replicas s) 3 f l ?n
       @ given_back reps' f stolen ?n @ given_back reps' l stolen ?n"
    "killed SIGKILL h' = killed SIGKILL (hist s) @ [r_pid (replicas s ! f)]"
    "killed RESTART_SIGNAL h' = killed RESTART_SIGNAL (hist s) @ [r_pid (replicas s ! l)]"
    by (rule restart_prep_eq [OF T(2) _ T(4) refl less(1) l3 l(3) sys]) (use T(1) in auto)
  have "safe (restart_prep K (int f) (int l)) s"
    using restart_prep_safe [OF ok, of "int f" "int l" K] less(1) l3 l(3) T(1) sys by simp
  then have ok': "vd_ok (s\<lparr>timer_started := False, replicas := reps', hist := h'\<rparr>)" using r(1) by (simp add: safe_def)
  let ?b' = "rest_ready (replicas s) 3 f p"
  have rr: "b \<le> ?b'" "?b' \<le> buff_count (vpipe (replicas s) l p)"
    unfolding rest_ready_def using c(2) l3 l(3) by (auto intro!: Min.boundedI Min_le)
  have wl: "answer s p b l = v" using l(2) healthy by auto
  let ?sent = "take (nat ?b') (content (vpipe (replicas s) l p))"
  have len: "length (content (vpipe (replicas s) l p)) = nat (buff_count (vpipe (replicas s) l p))"
    using wf_reps_pipe [OF wf l3 T(3)] by simp
  have sent: "?sent = v @ drop (nat b) ?sent"
  proof -
    have "take (nat b) ?sent = v" using wl rr(1) by (simp add: answer_def min_def nat_mono)
    then show ?thesis by (metis append_take_drop_id)
  qed
  have b'0: "?b' \<noteq> 0" using rr(1) c(1) b(2) by linarith
  have "[0..<?n] = [0..<p] @ p # [Suc p..<?n]"
    using T(3) upt_add_eq_append [of 0 p "?n - p"] by (simp add: upt_conv_Cons)
  then have split: "restart_sends ?ext (replicas s) 3 f l ?n =
      restart_sends ?ext (replicas s) 3 f l p @ (fd_out (?ext ! p), ?sent) #
      concat (map (\<lambda>q. if fd_in (?ext ! q) = 0 \<and> rest_ready (replicas s) 3 f q \<noteq> 0
       then [(fd_out (?ext ! q), take (nat (rest_ready (replicas s) 3 f q)) (content (vpipe (replicas s) l q)))] else []) [Suc p..<?n])"
    using voted b'0 by (simp add: restart_sends_def)
  have "take (length ?sent) (content (vpipe (replicas s) l p)) = ?sent" by (simp add: min_def)
  with sent have pre: "take (length (v @ drop (nat b) ?sent)) (content (vpipe (replicas s) l p)) = v @ drop (nat b) ?sent"
    by metis
  have run: "checkSDC K (int p) s = Some (s\<lparr>timer_started := False, replicas := reps', hist := h'\<rparr>)"
    using checkSDC_verdict [OF ok type p voted b, of K] l(1) r(1) by simp
  let ?s' = "s\<lparr>timer_started := False, replicas := reps', hist := h'\<rparr>"
  have "\<exists>after. writes h' = writes (hist s) @ restart_sends ?ext (replicas s) 3 f l p
      @ (fd_out (?ext ! p), v @ drop (nat b) ?sent) # after"
    using r(2) split sent by auto
  then obtain after where w: "writes h' = writes (hist s) @ restart_sends ?ext (replicas s) 3 f l p
      @ (fd_out (?ext ! p), v @ drop (nat b) ?sent) # after" by blast
  show ?thesis
    by (rule exI [of _ ?s'], rule exI [of _ l], rule exI [of _ "restart_sends ?ext (replicas s) 3 f l p"],
        rule exI [of _ "drop (nat b) ?sent"], rule exI [of _ after])
      (use run ok' w l(2) pre r(3,4) in simp)
qed



text \<open>C15: A restart can put bytes on the wire that no two replicas agreed on. The vote is over the bytes
  that all three have delivered; the restart sends what the two healthy ones have, as the donor has it.
  Here the replicas agree on 1, 2 against 3, 2, but on the third byte they say 9 and 8: the 9 is
  sent.\<close>

theorem restart_sends_unvoted_byte:
  "\<exists>s'. checkSDC quiet 0 (sample_voter TMR [[1, 2, 9], [1, 2, 8], [3, 2]]) = Some s'
    \<and> (9, [1, 2, 9]) \<in> set (writes (hist s'))"
proof -
  let ?s = "sample_voter TMR [[1, 2, 9], [1, 2, 8], [3, 2]]"
  have ok: "vd_ok ?s" by (rule sample_tmr_ok) simp_all
  have ready: "bytesReady (replicas ?s) 3 (int 0) = Some 2"
    using sample_tmr_ready [of "[1, 2, 9]" "[1, 2, 8]" "[3, 2]"] by simp
  have g: "good_group 2 3 (ext_pipes ?s) 0 2 (replicas ?s)"
    using tmr_facts(2) [OF ok, of 0] by (simp add: numeral_2_eq_2)
  obtain reps' h' stolen where r: "restart_prep quiet (int 2) (int 0) ?s
      = Some (?s\<lparr>timer_started := False, replicas := reps', hist := h'\<rparr>)"
    "writes h' = writes (hist ?s) @ restart_sends (ext_pipes ?s) (replicas ?s) 3 2 0 2
       @ given_back reps' 2 stolen 2 @ given_back reps' 0 stolen 2"
  proof (rule restart_prep_eq [OF g _ _ _ _ _ _ quiet_system_ok, where f = 2 and l = 0])
  qed simp_all
  have "{..<3} - {2} = {0, Suc 0}" by auto
  then have "rest_ready (replicas ?s) 3 2 0 = 3" by (simp add: rest_ready_def)
  then have "(9, [1, 2, 9]) \<in> set (restart_sends (ext_pipes ?s) (replicas ?s) 3 2 0 2)"
    by (simp add: restart_sends_def upt_rec numeral_2_eq_2)
  moreover have "checkSDC quiet (int 0) ?s = restart_prep quiet (int 2) (int 0) ?s"
    using checkSDC_verdict [OF ok _ _ _ ready, of quiet] by (simp add: answer_def majority3_def)
  ultimately show ?thesis using r by simp
qed

subsection \<open>The timer\<close>



subsection \<open>The loop\<close>

lemma updates_safe:
  assumes "vd_ok s" "system_ok K (rep_type s)"
  shows "safe (updates K F n) s"
  using assms
proof (induction n arbitrary: s)
  case 0
  then show ?case by (simp add: safe_def)
next
  case (Suc n)
  have "safe (\<lambda>s. do { s' \<leftarrow> doOneUpdate K F s; updates K F n s' }) s"
  proof (rule safe_bind [OF doOneUpdate_safe [OF Suc.prems]])
    fix t assume "vd_ok t" "same_config s t"
    then show "safe (updates K F n) t" using Suc.IH [of t] Suc.prems(2) config_eqs(3) by simp
  qed
  then show ?case using Suc.prems(1) by (simp add: safe_def)
qed



subsection \<open>Inputs\<close>

text \<open>An input reaches every replica alike: \<open>processData\<close> writes the bytes that arrived, once per
  replica in their order, to each one's end of that pipe, and nothing else; nobody is signalled.\<close>

theorem processData_distributes:
  assumes ok: "vd_ok s" and p: "int p < pipe_count s"
    and buf: "0 \<le> buff_count e" "buff_count e \<le> int (length (buffer e))"
  shows "\<exists>s'. processData K e (int p) s = Some s' \<and> vd_ok s'
    \<and> writes (hist s') = writes (hist s) @
        map (\<lambda>r. (fd_out (vpipe (replicas s) r p), take (nat (buff_count e)) (buffer e))) [0..<nat (rep_count s)]
    \<and> (\<forall>sig. killed sig (hist s') = killed sig (hist s))"
proof -
  let ?s1 = "timer_check K (timer_start_index s) (int p) s"
  let ?bs = "take (nat (buff_count e)) (buffer e)"
  have ok1: "vd_ok ?s1" using ok by simp
  obtain reps h where b: "on_replicas (\<lambda>reps. balanceReps K reps (rep_count ?s1) (replica_priority ?s1)) ?s1
      = Some (?s1\<lparr>replicas := reps, hist := h\<rparr>)" "vd_ok (?s1\<lparr>replicas := reps, hist := h\<rparr>)"
      "prio_eq (replicas ?s1) reps" "silently (hist ?s1) h"
    by (rule balance_effect [OF ok1])
  let ?s2 = "?s1\<lparr>replicas := reps, hist := h\<rparr>"
  obtain n num where s: "pipe_count ?s2 = int n" "rep_count ?s2 = int num"
    "good_group n num (ext_pipes ?s2) 0 n (replicas ?s2)" using b(2) by (rule vd_okE)
  have p': "p < n" and num: "rep_count s = int num" using p s(1,2) by simp_all
  have vp: "vpipe reps r p = vpipe (replicas s) r p" if "r < num" for r
    using prio_eq_vpipe [OF b(3), of r p] that good_group_wf [OF s(3)] prio_eq_length [OF b(3)]
    by (simp add: wf_reps_def)
  let ?ws = "\<lambda>k. map (\<lambda>r. (fd_out (vpipe (replicas s) r p), ?bs)) [0..<k]"
  let ?P = "\<lambda>k t. \<exists>h'. t = ?s2\<lparr>hist := h'\<rparr> \<and> writes h' = writes (hist s) @ ?ws k
     \<and> (\<forall>sig. killed sig h' = killed sig (hist s))"
  let ?body = "\<lambda>r_index t. do { v \<leftarrow> pipe_of (replicas t) r_index (int p);
     writeBuffer K (fd_out v) (buffer e) (buff_count e) t }"
  have "\<exists>t. for_upto 0 (int num) ?body ?s2 = Some t \<and> ?P num t"
  proof (rule for_upto_nat [where P = ?P])
    show "?P 0 ?s2"
      using silently_writes [OF b(4)] silently_killed [OF b(4)] by (intro exI [of _ h]) simp
  next
    fix i t assume i: "i < num" and "?P i t"
    then obtain h' where t: "t = ?s2\<lparr>hist := h'\<rparr>" "writes h' = writes (hist s) @ ?ws i"
      "\<forall>sig. killed sig h' = killed sig (hist s)" by blast
    let ?h'' = "snd (sys_write K (fd_out (vpipe reps i p)) ?bs h')"
    have "pipe_of (replicas t) (int i) (int p) = Some (vpipe reps i p)"
      using pipe_of_wf(1) [OF good_group_wf [OF s(3)] i p'] t(1) by simp
    then have "?body (int i) t = Some (?s2\<lparr>hist := ?h''\<rparr>)"
      using buf t(1) by (simp add: writeBuffer_def mem_read_in)
    moreover have "?P (Suc i) (?s2\<lparr>hist := ?h''\<rparr>)"
      using t(2,3) vp [OF i] by (intro exI [of _ ?h'']) simp
    ultimately show "\<exists>t'. ?body (int i) t = Some t' \<and> ?P (Suc i) t'" by blast
  qed
  then obtain h' where loop: "for_upto 0 (int num) ?body ?s2 = Some (?s2\<lparr>hist := h'\<rparr>)"
    "writes h' = writes (hist s) @ ?ws num" "\<forall>sig. killed sig h' = killed sig (hist s)" by blast
  have "processData K e (int p) s = Some (?s2\<lparr>hist := h'\<rparr>)"
    using b(1) loop(1) num by (simp add: processData_def)
  moreover have "vd_ok (?s2\<lparr>hist := h'\<rparr>)" using b(2) by simp
  ultimately show ?thesis using loop(2,3) num by (intro exI [of _ "?s2\<lparr>hist := h'\<rparr>"]) simp
qed

theorem processData_distributes_witness:
  "\<exists>s'. processData quiet (ring_pipe 8 0 [7, 7]) 1 (sample_voter TMR [[], [], []]) = Some s'
    \<and> writes (hist s') = [(301, [7, 7]), (302, [7, 7]), (303, [7, 7])]"
proof -
  have f: "map (\<lambda>r. (fd_out (vpipe (replicas (sample_voter TMR [[], [], []])) r 1), [7, 7 :: byte])) [0..<3]
      = [(301, [7, 7]), (302, [7, 7]), (303, [7, 7])]"
    by (simp add: upt_rec numeral_3_eq_3 sample_voter_def sample_rep_def vpipe_def)
  have b: "take 2 (buffer (ring_pipe 8 0 [7, 7])) = [7, 7]" "length (buffer (ring_pipe 8 0 [7, 7])) = 4096"
    by (simp_all add: ring_pipe_def)
  obtain s' where "processData quiet (ring_pipe 8 0 [7, 7]) (int 1) (sample_voter TMR [[], [], []]) = Some s'"
    "writes (hist s') = map (\<lambda>r. (fd_out (vpipe (replicas (sample_voter TMR [[], [], []])) r 1), [7, 7])) [0..<3]"
    using processData_distributes [of "sample_voter TMR [[], [], []]" 1 "ring_pipe 8 0 [7, 7]" quiet] b
    by (auto simp: sample_tmr_ok)
  then show ?thesis unfolding f by auto
qed

text \<open>When the replicas have delivered equally much on every pipe.\<close>

definition synced :: "voterd \<Rightarrow> bool" where
  "synced s \<longleftrightarrow> (\<forall>p < nat (pipe_count s). \<forall>r < nat (rep_count s).
     buff_count (vpipe (replicas s) r p) = buff_count (vpipe (replicas s) 0 p))"

lemma checkSync_eq:
  assumes ok: "vd_ok s"
  shows "checkSync s = Some (synced s)"
proof -
  obtain n num where s: "pipe_count s = int n" "rep_count s = int num" "0 < num"
    "good_group n num (ext_pipes s) 0 n (replicas s)" using ok by (rule vd_okE)
  note wf = good_group_wf [OF s(4)]
  let ?c = "\<lambda>r p. buff_count (vpipe (replicas s) r p)"
  have row: "for_upto 1 (int num) (\<lambda>r_index nsync. do {
         c \<leftarrow> count_of (replicas s) r_index (int i);
         Some (if ?c 0 i \<noteq> c then False else nsync) }) x = Some (x \<and> (\<forall>r < num. ?c r i = ?c 0 i))" if i: "i < n" for i x
  proof -
    have "\<exists>b. for_upto 1 (int num) (\<lambda>r_index nsync. do {
         c \<leftarrow> count_of (replicas s) r_index (int i);
         Some (if ?c 0 i \<noteq> c then False else nsync) }) x = Some b \<and> b = (x \<and> (\<forall>r < nat (int num). ?c r i = ?c 0 i))"
    proof (rule for_upto_rule [where P = "\<lambda>k b. b = (x \<and> (\<forall>r < nat k. ?c r i = ?c 0 i))"])
      fix k b assume k: "1 \<le> k" "k < int num" and b: "b = (x \<and> (\<forall>r < nat k. ?c r i = ?c 0 i))"
      then obtain k' where k': "k = int k'" "k' < num" by (metis nat_0_le of_nat_less_iff order_trans zero_le_one)
      have "nat (k + 1) = Suc k'" using k' by simp
      then show "\<exists>b'. do { c \<leftarrow> count_of (replicas s) k (int i); Some (if ?c 0 i \<noteq> c then False else b) } = Some b'
          \<and> b' = (x \<and> (\<forall>r < nat (k + 1). ?c r i = ?c 0 i))"
        using pipe_of_wf(2) [OF wf k'(2) i] b k' by (auto simp: less_Suc_eq)
    qed (use s(3) in auto)
    then show ?thesis by simp
  qed
  have first: "count_of (replicas s) 0 (int i) = Some (?c 0 i)" if "i < n" for i
    using pipe_of_wf(2) [OF wf s(3) that] by simp
  have "\<exists>b. checkSync s = Some b \<and> b = (\<forall>p < n. \<forall>r < num. ?c r p = ?c 0 p)"
    unfolding checkSync_def s(1,2)
  proof (rule for_upto_nat [where P = "\<lambda>i b. b = (\<forall>p < i. \<forall>r < num. ?c r p = ?c 0 p)"])
    fix i b assume "i < n" "b = (\<forall>p < i. \<forall>r < num. ?c r p = ?c 0 p)"
    then show "\<exists>b'. do { votes \<leftarrow> count_of (replicas s) 0 (int i);
        for_upto 1 (int num) (\<lambda>r_index nsync. do { c \<leftarrow> count_of (replicas s) r_index (int i);
           Some (if votes \<noteq> c then False else nsync) }) b } = Some b'
        \<and> b' = (\<forall>p < Suc i. \<forall>r < num. ?c r p = ?c 0 p)"
      using row [of i b] first [of i] by (auto simp: less_Suc_eq)
  qed simp
  then show ?thesis using s(1,2) by (simp add: synced_def)
qed



end
