(* ===== verification/VoterDStream.thy ===== *)
theory VoterDStream
  imports VoterDProps "HOL-Library.Sublist"
begin

text \<open>
  The voter over time: the replicas of a healthy group write one stream each, in pieces of any size and in
  any order, and the voter of \<open>voter/voterd.c\<close> turns them into one stream. An event is one round of its
  loop in which the pipe of a replica is ready.
\<close>

section \<open>Events\<close>

text \<open>The system answers the \<open>read\<close> of the event with the bytes that the replica has written.\<close>

definition answering :: "posix \<Rightarrow> byte list \<Rightarrow> posix" where
  "answering K bs = K\<lparr>on_read := \<lambda>h fd n. Some bs\<rparr>"

fun feed :: "posix \<Rightarrow> nat \<Rightarrow> (nat \<times> byte list) list \<Rightarrow> voterd \<Rightarrow> voterd option" where
  "feed K p [] s = Some s"
| "feed K p ((r, bs) # es) s = do { s' \<leftarrow> processFromRep (answering K bs) (int r) (int p) s; feed K p es s' }"

lemma feed_append: "feed K p (es @ fs) s = do { s' \<leftarrow> feed K p es s; feed K p fs s' }"
  by (induction es arbitrary: s) (auto split: Option.bind_splits)

text \<open>What a replica has written in the events, and how much of it all three have written.\<close>

definition said :: "nat \<Rightarrow> (nat \<times> byte list) list \<Rightarrow> byte list" where
  "said r es = concat (map snd (filter (\<lambda>(q, bs). q = r) es))"

definition common :: "(nat \<times> byte list) list \<Rightarrow> nat" where
  "common es = min (length (said 0 es)) (min (length (said 1 es)) (length (said 2 es)))"

text \<open>
  The events of a healthy group: each replica writes a part of the stream \<open>w\<close>, and none gets so far ahead
  of the slowest that its bytes do not fit its vote pipe.
\<close>

definition paced :: "(nat \<times> byte list) list \<Rightarrow> bool" where
  "paced es \<longleftrightarrow> (\<forall>(r, bs) \<in> set es. r < 3 \<and> bs \<noteq> [])
     \<and> (\<forall>k < length es. \<forall>r < 3. length (said r (take (Suc k) es)) < 4096 + common (take k es))"

definition healthy_events :: "byte list \<Rightarrow> (nat \<times> byte list) list \<Rightarrow> bool" where
  "healthy_events w es \<longleftrightarrow> paced es \<and> (\<forall>r < 3. prefix (said r es) w)"

lemma said_snoc [simp]: "said r [] = []" "said r (es @ [(q, bs)]) = said r es @ (if q = r then bs else [])"
  by (simp_all add: said_def)

lemma common_le: "r < 3 \<Longrightarrow> common es \<le> length (said r es)"
  using less_3_cases [of "\<lambda>r. common es \<le> length (said r es)"] by (auto simp: common_def)

lemma common_eqI:
  assumes "\<And>r. r < 3 \<Longrightarrow> m \<le> length (said r es)" "r < 3" "length (said r es) = m"
  shows "common es = m"
proof -
  have "r = 0 \<or> r = 1 \<or> r = 2" using assms(2) by auto
  then show ?thesis using assms(1) [of 0] assms(1) [of 1] assms(1) [of 2] assms(3) by (auto simp: common_def)
qed

lemma common_snoc: "common es \<le> common (es @ [e])"
  by (cases e) (auto simp: common_def)

lemma healthy_events_snoc:
  assumes "healthy_events w (es @ [(r, bs)])"
  shows "healthy_events w es" "r < 3" "bs \<noteq> []" "length (said r es @ bs) < 4096 + common es"
    "\<And>q. q < 3 \<Longrightarrow> prefix (said q (es @ [(r, bs)])) w"
proof -
  have len: "length (said q (take (Suc k) (es @ [(r, bs)]))) < 4096 + common (take k (es @ [(r, bs)]))"
    if "k < Suc (length es)" "q < 3" for k q
    using assms that by (auto simp: healthy_events_def paced_def)
  show "\<And>q. q < 3 \<Longrightarrow> prefix (said q (es @ [(r, bs)])) w" "r < 3" "bs \<noteq> []"
    using assms by (auto simp: healthy_events_def paced_def)
  then show "length (said r es @ bs) < 4096 + common es" using len [of "length es" r] by simp
  have "prefix (said q es) w" if "q < 3" for q
    using assms that by (auto simp: healthy_events_def paced_def dest: append_prefixD)
  moreover have "length (said q (take (Suc k) es)) < 4096 + common (take k es)" if "k < length es" "q < 3" for k q
    using len [of k q] that by simp
  ultimately show "healthy_events w es" using assms by (auto simp: healthy_events_def paced_def)
qed

section \<open>The voter in the middle of a stream\<close>

text \<open>
  After the events: all that is common has been written out, in pieces, nobody was signalled, and each
  vote pipe holds what its replica is ahead.
\<close>

definition streamed :: "byte list \<Rightarrow> nat \<Rightarrow> (nat \<times> byte list) list \<Rightarrow> voterd \<Rightarrow> voterd \<Rightarrow> bool" where
  "streamed w p es s t \<longleftrightarrow> vd_ok t \<and> rep_type t = rep_type s \<and> pipe_count t = pipe_count s \<and> ext_pipes t = ext_pipes s
     \<and> (\<forall>sig. killed sig (hist t) = killed sig (hist s))
     \<and> (\<exists>outs. writes (hist t) = writes (hist s) @ map (\<lambda>b. (fd_out (ext_pipes s ! p), b)) outs
          \<and> concat outs = take (common es) w)
     \<and> (\<forall>r < 3. content (vpipe (replicas t) r p) = drop (common es) (said r es))"

lemma take_of_prefix: "prefix u w \<Longrightarrow> n \<le> length u \<Longrightarrow> take n u = take n w"
  by (auto simp: prefix_def)

lemma streamed_step:
  assumes t: "streamed w p es s t" and type: "rep_type s = TMR" and p: "int p < pipe_count s" "fd_in (ext_pipes s ! p) = 0"
    and ev: "healthy_events w (es @ [(r, bs)])"
  shows "\<exists>u. processFromRep (answering K bs) (int r) (int p) t = Some u \<and> streamed w p (es @ [(r, bs)]) s u"
proof -
  let ?K = "answering K bs" and ?es = "es @ [(r, bs)]"
  note H = healthy_events_snoc [OF ev]
  have ok: "vd_ok t" "rep_type t = TMR" "int p < pipe_count t" "fd_in (ext_pipes t ! p) = 0" "ext_pipes t = ext_pipes s"
    using t type p by (simp_all add: streamed_def)
  note T = tmr_facts [OF ok(1-3)]
  note wf = good_group_wf [OF T(2)]
  have con: "content (vpipe (replicas t) q p) = drop (common es) (said q es)" if "q < 3" for q
    using t that by (simp add: streamed_def)
  have cnt: "buff_count (vpipe (replicas t) q p) = int (length (said q es)) - int (common es)" if "q < 3" for q
    using length_content [OF wf_reps_pipe [OF wf that T(3)]] con [OF that] common_le [OF that, of es]
      count_bounds [OF wf that T(3)] by auto
  have rd: "on_read ?K (hist (timer_check ?K (timer_stop_index t) (int p) t)) (fd_in (vpipe (replicas t) r p)) MAX_VOTE_PIPE_BUFF = Some bs"
    by (simp add: answering_def)
  have r: "int r < rep_count t" using H(2) T(1) by simp
  have room: "0 < length bs" "buff_count (vpipe (replicas t) r p) + int (length bs) < MAX_VOTE_PIPE_BUFF"
    using H(3,4) cnt [OF H(2)] by (auto simp: MAX_VOTE_PIPE_BUFF_def)
  obtain u where u: "processFromRep ?K (int r) (int p) t = checkSDC ?K (int p) u" "vd_ok u" "same_config t u"
    "ext_pipes u = ext_pipes t" "writes (hist u) = writes (hist t)" "\<And>sig. killed sig (hist u) = killed sig (hist t)"
    "content (vpipe (replicas u) r p) = content (vpipe (replicas t) r p) @ bs"
    and others: "\<And>q q'. int q < rep_count t \<Longrightarrow> q \<noteq> r \<or> q' \<noteq> p \<Longrightarrow> vpipe (replicas u) q q' = vpipe (replicas t) q q'"
    by (rule processFromRep_fill [OF ok(1) r ok(3) rd room]) blast
  have conu: "content (vpipe (replicas u) q p) = drop (common es) (said q ?es)" if "q < 3" for q
    using u(7) others [of q p] con [OF that] common_le [OF that, of es] that T(1) by (cases "q = r") auto
  have uok: "rep_type u = TMR" "int p < pipe_count u" "fd_in (ext_pipes u ! p) = 0" "pipe_count u = pipe_count s"
    using config_eqs [OF u(3)] ok(2-4) u(4) t by (simp_all add: streamed_def)
  note U = tmr_facts [OF u(2) uok(1,2)]
  note wfu = good_group_wf [OF U(2)]
  obtain b where b: "bytesReady (replicas u) (int 3) (int p) = Some b" "0 \<le> b"
    "\<And>q. q < 3 \<Longrightarrow> b \<le> buff_count (vpipe (replicas u) q p)" "\<exists>q < 3. b = buff_count (vpipe (replicas u) q p)"
    using wfu U(3) by (rule bytesReady_cases) auto
  have cntu: "buff_count (vpipe (replicas u) q p) = int (length (said q ?es)) - int (common es)" if "q < 3" for q
    using length_content [OF wf_reps_pipe [OF wfu that U(3)]] conu [OF that] common_le [OF that, of ?es] common_snoc [of es "(r, bs)"]
      count_bounds [OF wfu that U(3)] by auto
  have "common ?es = common es + nat b"
  proof -
    obtain q where q: "q < 3" "b = buff_count (vpipe (replicas u) q p)" using b(4) by blast
    show ?thesis
      by (rule common_eqI [OF _ q(1)]) (use b(2,3) q cntu in \<open>force\<close>)+
  qed
  then have com: "common ?es = common es + nat b" .
  have same: "answer u p b q = take (nat b) (drop (common es) w)" if "q < 3" for q
  proof -
    have "take (common es + nat b) (said q ?es) = take (common es + nat b) w"
      using take_of_prefix [OF H(5) [OF that]] common_le [OF that, of ?es] com by simp
    then show ?thesis using conu [OF that] by (simp add: answer_def take_drop add.commute del: said_snoc)
  qed
  obtain outs where outs: "writes (hist t) = writes (hist s) @ map (\<lambda>b. (fd_out (ext_pipes s ! p), b)) outs"
    "concat outs = take (common es) w" using t by (auto simp: streamed_def)
  show ?thesis
  proof (cases "b = 0")
    case True
    have "checkSDC ?K (int p) u = Some u" using b(1) True U(1) by (simp add: checkSDC_def)
    moreover have "streamed w p ?es s u"
      using u uok ok(5) t type conu com True outs by (auto simp: streamed_def)
    ultimately show ?thesis using u(1) by simp
  next
    case False
    let ?v = "take (nat b) (drop (common es) w)"
    obtain u' where u': "checkSDC ?K (int p) u = Some u'" "vd_ok u'"
      "writes (hist u') = writes (hist u) @ [(fd_out (ext_pipes u ! p), ?v)]"
      "\<And>sig. killed sig (hist u') = killed sig (hist u)"
      "\<And>q. q < 3 \<Longrightarrow> content (vpipe (replicas u) q p) = ?v @ content (vpipe (replicas u') q p)"
      "rep_type u' = rep_type u" "pipe_count u' = pipe_count u" "ext_pipes u' = ext_pipes u"
      using tmr_unanimous [OF u(2) uok(1,2,3), of b ?v ?K] b(1) False same by auto
    have lenv: "length ?v = nat b"
    proof -
      have "common ?es \<le> length w" using common_le [of 0 ?es] prefix_length_le [OF H(5) [of 0]] by simp
      then show ?thesis using com by simp
    qed
    have "content (vpipe (replicas u') q p) = drop (common ?es) (said q ?es)" if "q < 3" for q
    proof -
      have "drop (nat b) (content (vpipe (replicas u) q p)) = content (vpipe (replicas u') q p)"
        using u'(5) [OF that] lenv by simp
      then show ?thesis using conu [OF that] com by (simp add: add.commute del: said_snoc)
    qed
    moreover have "\<exists>outs. writes (hist u') = writes (hist s) @ map (\<lambda>b. (fd_out (ext_pipes s ! p), b)) outs
        \<and> concat outs = take (common ?es) w"
      by (rule exI [of _ "outs @ [?v]"]) (use u'(3) u(4,5) ok(5) outs com in \<open>simp add: take_add\<close>)
    moreover have "rep_type u' = rep_type s" "pipe_count u' = pipe_count s" "ext_pipes u' = ext_pipes s"
      "killed sig (hist u') = killed sig (hist s)" for sig
      using u'(4,6,7,8) u(4,6) uok(1,4) ok(5) type t by (simp_all add: streamed_def)
    ultimately have "streamed w p ?es s u'"
      using u'(2) by (simp add: streamed_def)
    then show ?thesis using u(1) u'(1) by simp
  qed
qed

lemma feed_streams:
  assumes ok: "vd_ok s" "rep_type s = TMR" "int p < pipe_count s" "fd_in (ext_pipes s ! p) = 0"
    and empty: "\<forall>r < 3. content (vpipe (replicas s) r p) = []" and ev: "healthy_events w es"
  shows "\<exists>t. feed K p es s = Some t \<and> streamed w p es s t"
  using ev
proof (induction es rule: rev_induct)
  case Nil
  have "streamed w p [] s s"
    using ok(1) empty by (auto simp: streamed_def common_def intro!: exI [of _ "[]"])
  then show ?case by simp
next
  case (snoc e es)
  obtain r bs where e: "e = (r, bs)" by (cases e)
  obtain t where t: "feed K p es s = Some t" "streamed w p es s t"
    using snoc.IH healthy_events_snoc(1) snoc.prems e by blast
  obtain u where "processFromRep (answering K bs) (int r) (int p) t = Some u" "streamed w p (es @ [e]) s u"
    using streamed_step [OF t(2) ok(2-4)] snoc.prems e by blast
  then show ?case using t(1) e by (simp add: feed_append)
qed

text \<open>C5: Three healthy replicas become one stream: in whatever order and pieces their parts of a stream \<open>w\<close>
  arrive, as long as none is a whole vote pipe ahead of the slowest, the voter writes exactly what all
  three have written, in order and nothing twice, to the external descriptor of the pipe; it holds nothing
  back that is agreed, signals nobody, and keeps for each replica just what it is ahead.\<close>

theorem tmr_streams_agreed_bytes:
  assumes "vd_ok s" "rep_type s = TMR" "int p < pipe_count s" "fd_in (ext_pipes s ! p) = 0"
    and "\<forall>r < 3. content (vpipe (replicas s) r p) = []" and "healthy_events w es"
  shows "\<exists>t outs. feed K p es s = Some t \<and> vd_ok t
    \<and> writes (hist t) = writes (hist s) @ map (\<lambda>b. (fd_out (ext_pipes s ! p), b)) outs
    \<and> concat outs = take (common es) w \<and> (\<forall>sig. killed sig (hist t) = killed sig (hist s))
    \<and> (\<forall>r < 3. content (vpipe (replicas t) r p) = drop (common es) (said r es))"
  using feed_streams [OF assms, of K] by (auto simp: streamed_def)

theorem tmr_streams_agreed_bytes_witness:
  "\<exists>t outs. feed quiet 0 [(1, [5, 6]), (0, [5]), (2, [5, 6, 7]), (0, [6, 7, 8])] (sample_voter TMR [[], [], []]) = Some t
    \<and> writes (hist t) = map (\<lambda>b. (9, b)) outs \<and> concat outs = [5, 6]
    \<and> content (vpipe (replicas t) 0 0) = [7, 8] \<and> content (vpipe (replicas t) 2 0) = [7]"
proof -
  let ?es = "[(1, [5, 6]), (0, [5]), (2, [5, 6, 7]), (0, [6, 7, 8])] :: (nat \<times> byte list) list"
  have "healthy_events [5, 6, 7, 8, 9] ?es"
    by (simp add: healthy_events_def paced_def said_def common_def less_3_cases All_less_Suc)
  then obtain t outs where "feed quiet 0 ?es (sample_voter TMR [[], [], []]) = Some t"
    "writes (hist t) = map (\<lambda>b. (9, b)) outs" "concat outs = take (common ?es) [5, 6, 7, 8, 9]"
    "\<forall>r < 3. content (vpipe (replicas t) r 0) = drop (common ?es) (said r ?es)"
    using tmr_streams_agreed_bytes [of "sample_voter TMR [[], [], []]" 0 "[5, 6, 7, 8, 9]" ?es quiet]
    by (auto simp: sample_tmr_ok less_3_cases)
  moreover have "common ?es = 2" "said 0 ?es = [5, 6, 7, 8]" "said 2 ?es = [5, 6, 7]" by code_simp+
  ultimately show ?thesis by auto
qed

end
