(* ===== verification/Mapping_Grid.thy ===== *)
theory Mapping_Grid
  imports Posix
begin

text \<open>
  The shared code of the mapper and the planner (\<open>controllers/mapping.c\<close>, \<open>controllers/inc/mapping.h\<close>):
  the grid that the world is divided into, and the linked lists of grid nodes.

  A double is its 64-bit pattern and the floating-point unit a parameter, so that nothing rests on how
  it rounds. \<open>d_to_int\<close> is the conversion to \<open>int\<close>, which C leaves undefined out of range.
\<close>

section \<open>Floating point\<close>

type_synonym double = "64 word"

record dpu =
  d_add :: "double \<Rightarrow> double \<Rightarrow> double"
  d_sub :: "double \<Rightarrow> double \<Rightarrow> double"
  d_mul :: "double \<Rightarrow> double \<Rightarrow> double"
  d_div :: "double \<Rightarrow> double \<Rightarrow> double"
  d_less :: "double \<Rightarrow> double \<Rightarrow> bool"
  d_of_int :: "int \<Rightarrow> double"
  d_to_int :: "double \<Rightarrow> int option"
  d_sqrt :: "double \<Rightarrow> double"
  d_sin :: "double \<Rightarrow> double"
  d_cos :: "double \<Rightarrow> double"

text \<open>Literals of the sources.\<close>

definition D_0 :: double where "D_0 = 0"
definition D_2 :: double where "D_2 = 0x4000000000000000"
definition D_7 :: double where "D_7 = 0x401C000000000000"
definition D_PI :: double where "D_PI = 0x400921FB54442D18"

section \<open>The grid\<close>

definition GRID_NUM :: int where "GRID_NUM = 48"
definition MAP_SIZE :: int where "MAP_SIZE = 16"
definition OFFSET_X :: int where "OFFSET_X = 8"
definition OFFSET_Y :: int where "OFFSET_Y = 8"
definition MAX_OBSTACLES :: int where "MAX_OBSTACLES = 2042"

record point_i =
  pi_x :: int
  pi_y :: int

record point_d =
  pd_x :: double
  pd_y :: double

definition interval :: "dpu \<Rightarrow> double" where
  "interval D = d_div D (d_of_int D MAP_SIZE) (d_of_int D GRID_NUM)"

text \<open>\<open>gridify\<close> and \<open>degridify\<close> return fresh points; running out of memory ends the process.\<close>

definition gridify :: "dpu \<Rightarrow> point_d \<Rightarrow> point_i option" where
  "gridify D p =
     do {
       x \<leftarrow> d_to_int D (d_div D (d_add D (pd_x p) (d_of_int D OFFSET_X)) (interval D));
       y \<leftarrow> d_to_int D (d_div D (d_add D (pd_y p) (d_of_int D OFFSET_Y)) (interval D));
       Some \<lparr>pi_x = (if x = GRID_NUM then x - 1 else x), pi_y = (if y = GRID_NUM then y - 1 else y)\<rparr>
     }"

definition degridify :: "dpu \<Rightarrow> int \<Rightarrow> int \<Rightarrow> point_d" where
  "degridify D x y =
     (let half = d_div D (interval D) D_2
      in \<lparr>pd_x = d_sub D (d_add D (d_mul D (d_of_int D x) (interval D)) half) (d_of_int D OFFSET_X),
          pd_y = d_sub D (d_add D (d_mul D (d_of_int D y) (interval D)) half) (d_of_int D OFFSET_Y)\<rparr>)"

text \<open>A two-dimensional array: both indices have to be in range.\<close>

definition grid_get :: "'a list list \<Rightarrow> int \<Rightarrow> int \<Rightarrow> 'a option" where
  "grid_get g x y = do { row \<leftarrow> aget g x; aget row y }"

definition grid_set :: "'a list list \<Rightarrow> int \<Rightarrow> int \<Rightarrow> 'a \<Rightarrow> 'a list list option" where
  "grid_set g x y v = do { row \<leftarrow> aget g x; row' \<leftarrow> aset row y v; aset g x row' }"

definition blank_grid :: "'a \<Rightarrow> 'a list list" where
  "blank_grid v = replicate (nat GRID_NUM) (replicate (nat GRID_NUM) v)"

definition on_grid :: "int \<Rightarrow> int \<Rightarrow> bool" where
  "on_grid x y \<longleftrightarrow> 0 \<le> x \<and> x < GRID_NUM \<and> 0 \<le> y \<and> y < GRID_NUM"

definition wf_grid :: "'a list list \<Rightarrow> bool" where
  "wf_grid g \<longleftrightarrow> length g = 48 \<and> list_all (\<lambda>row. length row = 48) g"

lemma wf_blank_grid [simp]: "wf_grid (blank_grid v)"
  by (simp add: wf_grid_def blank_grid_def GRID_NUM_def list_all_length)

lemma grid_get_in:
  assumes "wf_grid g" "on_grid x y"
  shows "grid_get g x y = Some (g ! nat x ! nat y)"
  using assms by (auto simp: wf_grid_def on_grid_def GRID_NUM_def grid_get_def aget_def list_all_length)

lemma grid_get_out:
  assumes "wf_grid g" "\<not> on_grid x y"
  shows "grid_get g x y = None"
  using assms by (auto simp: wf_grid_def on_grid_def GRID_NUM_def grid_get_def aget_def list_all_length)

lemma grid_set_in:
  assumes "wf_grid g" "on_grid x y"
  shows "\<exists>g'. grid_set g x y v = Some g' \<and> wf_grid g'
    \<and> (\<forall>a b. on_grid a b \<longrightarrow> grid_get g' a b = (if a = x \<and> b = y then Some v else grid_get g a b))"
proof -
  let ?g = "g[nat x := (g ! nat x)[nat y := v]]"
  have bounds: "0 \<le> x" "nat x < 48" "x < 48" "0 \<le> y" "nat y < 48" "y < 48" using assms(2) by (auto simp: on_grid_def GRID_NUM_def)
  have len: "length g = 48" "length (g ! nat x) = 48" using assms(1) bounds by (auto simp: wf_grid_def list_all_length)
  have set: "grid_set g x y v = Some ?g" using bounds len by (simp add: grid_set_def aget_def aset_def)
  have wf: "wf_grid ?g" using assms(1) len by (auto simp: wf_grid_def intro!: list_all_update)
  have "grid_get ?g a b = (if a = x \<and> b = y then Some v else grid_get g a b)" if ab: "on_grid a b" for a b
  proof -
    have "0 \<le> a" "0 \<le> b" using ab by (auto simp: on_grid_def)
    then show ?thesis
      using grid_get_in [OF wf ab] grid_get_in [OF assms(1) ab] bounds len by (auto simp: nth_list_update nat_eq_iff)
  qed
  then show ?thesis using set wf by blast
qed

section \<open>Nodes and lists\<close>

text \<open>
  Nodes are shared between lists and by their back links, so they live in a store: the address of a
  node is its position, and \<open>None\<close> is a node that was freed. An access to a freed node is undefined.
\<close>

record node_t =
  n_x :: int
  n_y :: int
  g_score :: double
  back_link :: "nat option"

type_synonym store = "node_t option list"

definition deref :: "store \<Rightarrow> nat \<Rightarrow> node_t option" where
  "deref H a = (if a < length H then H ! a else None)"

definition newNode :: "int \<Rightarrow> int \<Rightarrow> double \<Rightarrow> store \<Rightarrow> nat \<times> store" where
  "newNode x y g H = (length H, H @ [Some \<lparr>n_x = x, n_y = y, g_score = g, back_link = None\<rparr>])"

definition free_node :: "nat \<Rightarrow> store \<Rightarrow> store option" where
  "free_node a H = do { n \<leftarrow> deref H a; Some (H[a := None]) }"

text \<open>
  A list pointer is null, points to a cell with a null head (an empty list), or to a cell with a node,
  its sort value and the rest. Cells are never shared.
\<close>

datatype l_list = LNull | LEmpty | LCell nat double l_list

definition newList :: l_list where
  "newList = LEmpty"

definition nodeEqauls :: "store \<Rightarrow> nat \<Rightarrow> nat \<Rightarrow> bool option" where
  "nodeEqauls H a b = do { m \<leftarrow> deref H a; n \<leftarrow> deref H b; Some (n_x m = n_x n \<and> n_y m = n_y n) }"

fun removeNode :: "l_list \<Rightarrow> nat \<Rightarrow> store \<Rightarrow> (l_list \<times> store) option" where
  "removeNode LNull node H = Some (LNull, H)"
| "removeNode LEmpty node H = Some (LEmpty, H)"
| "removeNode (LCell a s rest) node H =
     do {
       eq \<leftarrow> nodeEqauls H a node;
       if eq then do { H' \<leftarrow> free_node a H; Some (rest, H') }
       else do { (rest', H') \<leftarrow> removeNode rest node H; Some (LCell a s rest', H') }
     }"

text \<open>Measures for the two loops that follow the cells of a list.\<close>

fun cells :: "l_list \<Rightarrow> nat" where
  "cells (LCell a s rest) = Suc (cells rest)"
| "cells _ = 0"

fun depth :: "l_list \<Rightarrow> nat" where
  "depth LNull = 1"
| "depth LEmpty = 0"
| "depth (LCell a s rest) = Suc (Suc (depth rest))"

text \<open>A null list pointer has no \<open>head\<close>; a null tail gets an empty cell before it is descended into.\<close>

function addNode :: "dpu \<Rightarrow> l_list \<Rightarrow> nat \<Rightarrow> double \<Rightarrow> l_list option" where
  "addNode D LNull node sort_val = None"
| "addNode D LEmpty node sort_val = Some (LCell node sort_val LNull)"
| "addNode D (LCell a s rest) node sort_val =
     (if d_less D sort_val s then Some (LCell node sort_val (LCell a s rest))
      else do { rest' \<leftarrow> addNode D (if rest = LNull then newList else rest) node sort_val; Some (LCell a s rest') })"
  by pat_completeness auto

termination
  by (relation "measure (\<lambda>(D, l, _). depth l)") (auto simp: newList_def)

fun findNode :: "l_list \<Rightarrow> nat \<Rightarrow> store \<Rightarrow> nat option option" where
  "findNode LNull node H = Some None"
| "findNode LEmpty node H = Some None"
| "findNode (LCell a s rest) node H =
     do { eq \<leftarrow> nodeEqauls H node a; if eq then Some (Some a) else findNode rest node H }"

definition push :: "l_list \<Rightarrow> nat \<Rightarrow> l_list" where
  "push l node = LCell node D_0 l"

fun pop :: "l_list \<Rightarrow> (nat option \<times> l_list) option" where
  "pop LNull = None"
| "pop LEmpty = Some (None, newList)"
| "pop (LCell a s rest) = Some (Some a, if rest = LNull then newList else rest)"

fun peek :: "l_list \<Rightarrow> int \<Rightarrow> nat option" where
  "peek (LCell a s rest) num = (if num = 0 then Some a else peek rest (num - 1))"
| "peek _ num = None"

lemma pop_shrinks: "pop l = Some (Some a, l') \<Longrightarrow> cells l' < cells l"
  by (cases l) (auto simp: newList_def)

text \<open>The loop of \<open>eraseList\<close> pops until it gets a null pointer.\<close>

function eraseList :: "l_list \<Rightarrow> store \<Rightarrow> (l_list \<times> store) option" where
  "eraseList l H =
     do {
       (curr, l') \<leftarrow> pop l;
       case curr of
         None \<Rightarrow> Some (l', H)
       | Some a \<Rightarrow> do { H' \<leftarrow> free_node a H; eraseList l' H' }
     }"
  by pat_completeness auto

termination
  by (relation "measure (\<lambda>(l, _). cells l)") (auto dest: pop_shrinks)

declare eraseList.simps [simp del]

end
