(* ===== verification/Controller.thy ===== *)
theory Controller
  imports FdServer
begin

text \<open>
  What all controllers share (\<open>src/controller.c\<close>): their globals, the signal handlers, the set-up and the
  handler of the voter's restart signal, which forks: the child becomes the new replica. Each
  controller extends the record by its own state and provides \<open>setPipeIndexes\<close>.
\<close>

record controller =
  c_pipes :: "typed_pipe list"
  c_pipe_count :: int
  c_name :: string
  c_priority :: int
  c_pinned_cpu :: int
  insertSDC :: bool
  insertCFE :: bool
  c_hist :: history

definition SDC_SIM_SIGNAL :: int where "SDC_SIM_SIGNAL = 37"
definition CFE_SIM_SIGNAL :: int where "CFE_SIM_SIGNAL = 38"

definition testSDCHandler :: "'a controller_scheme \<Rightarrow> 'a controller_scheme" where
  "testSDCHandler s = s\<lparr>insertSDC := True\<rparr>"

definition testCFEHandler :: "'a controller_scheme \<Rightarrow> 'a controller_scheme" where
  "testCFEHandler s = s\<lparr>insertCFE := True\<rparr>"

text \<open>The result and the state; a handler that cannot be registered ends the set-up.\<close>

definition initController :: "posix \<Rightarrow> 'a controller_scheme \<Rightarrow> int \<times> 'a controller_scheme" where
  "initController K s =
     (let (r1, h1) = sys_call K ''sigaction'' [RESTART_SIGNAL] [] (c_hist s)
      in if r1 = -1 then (-1, s\<lparr>c_hist := h1\<rparr>)
         else let (r2, h2) = sys_call K ''sigaction'' [SDC_SIM_SIGNAL] [] h1
         in if r2 = -1 then (-1, s\<lparr>c_hist := h2\<rparr>)
            else let (r3, h3) = sys_call K ''sigaction'' [CFE_SIM_SIGNAL] [] h2
            in if r3 = -1 then (-1, s\<lparr>c_hist := h3\<rparr>)
               else (0, s\<lparr>c_hist := snd (InitTAS K (c_pinned_cpu s) (c_priority s) h3)\<rparr>))"

text \<open>
  \<open>connectRecvFDS\<close> on the controller's globals: the pipes, the CPU and the priority are replaced.
\<close>

definition take_over_pipes :: "posix \<Rightarrow> int \<Rightarrow> int \<Rightarrow> string \<Rightarrow> 'a controller_scheme \<Rightarrow> (int \<times> 'a controller_scheme) option" where
  "take_over_pipes K pid count name s =
     do {
       (r, ps, cpu, prio, h) \<leftarrow> connectRecvFDS K pid (c_pipes s) count name (c_pinned_cpu s) (c_priority s) (c_hist s);
       Some (r, s\<lparr>c_pipes := ps, c_pinned_cpu := cpu, c_priority := prio, c_hist := h\<rparr>)
     }"

definition reset_all :: "'a controller_scheme \<Rightarrow> 'a controller_scheme option" where
  "reset_all s =
     for_upto 0 (c_pipe_count s) (\<lambda>i s. do {
       p \<leftarrow> aget (c_pipes s) i;
       let (p', h) = resetPipe p (c_hist s);
       ps \<leftarrow> aset (c_pipes s) i p';
       Some (s\<lparr>c_pipes := ps, c_hist := h\<rparr>)
     }) s"

text \<open>
  \<open>restartHandler\<close>. What \<open>fork\<close> returned says whose run this is: 0 in the child, which drops the old pipes
  and asks the voter for new ones; positive in the parent, which only locks its pages again.
\<close>

definition restartHandler :: "posix \<Rightarrow> ('a controller_scheme \<Rightarrow> 'a controller_scheme option) \<Rightarrow> 'a controller_scheme
    \<Rightarrow> 'a controller_scheme option" where
  "restartHandler K setPipeIndexes s =
     (let (currentPID, h0) = sys_call K ''fork'' [] [] (c_hist s); s0 = s\<lparr>c_hist := h0\<rparr>
      in if currentPID > 0 then Some (s0\<lparr>c_hist := snd (RefreshTAS K h0)\<rparr>)
         else if currentPID < 0 then Some s0
         else do {
           s1 \<leftarrow> reset_all s0;
           let h2 = snd (sys_call K ''sigprocmask'' [RESTART_SIGNAL, SDC_SIM_SIGNAL, CFE_SIM_SIGNAL] [] (c_hist s1));
           let (pid, h3) = sys_call K ''getpid'' [] [] h2;
           (r, s4) \<leftarrow> take_over_pipes K pid (c_pipe_count s1) (c_name s1) (s1\<lparr>c_hist := h3\<rparr>);
           if r < 0 then Some s4 else setPipeIndexes s4
         })"

text \<open>The pipes named on the command line, from argument 3 on.\<close>

definition parse_pipes :: "int \<Rightarrow> string list \<Rightarrow> 'a controller_scheme \<Rightarrow> 'a controller_scheme option" where
  "parse_pipes count argv s =
     do {
       ps \<leftarrow> for_upto 0 count (\<lambda>i ps. do {
         a \<leftarrow> aget argv (i + 3);
         p \<leftarrow> deserializePipe a;
         aset ps i p
       }) (c_pipes s);
       Some (s\<lparr>c_pipes := ps\<rparr>)
     }"

text \<open>
  Every \<open>main\<close>: parse the arguments, register the handlers, prepare, loop. \<open>turns\<close> runs the first \<open>n\<close> turns
  of \<open>while(1)\<close> and stops when one reports that the process hangs. The result is the exit code when
  the process ends before its loop.
\<close>

fun turns :: "('s \<Rightarrow> (bool \<times> 's) option) \<Rightarrow> nat \<Rightarrow> 's \<Rightarrow> (bool \<times> 's) option" where
  "turns turn 0 s = Some (True, s)"
| "turns turn (Suc n) s = do { (go, s') \<leftarrow> turn s; if go then turns turn n s' else Some (False, s') }"

definition controller_main :: "posix \<Rightarrow> ('a controller_scheme \<Rightarrow> (int \<times> 'a controller_scheme) option)
    \<Rightarrow> ('a controller_scheme \<Rightarrow> 'a controller_scheme) \<Rightarrow> ('a controller_scheme \<Rightarrow> (bool \<times> 'a controller_scheme) option)
    \<Rightarrow> nat \<Rightarrow> 'a controller_scheme \<Rightarrow> (int option \<times> 'a controller_scheme) option" where
  "controller_main K parse prepare turn n s =
     do {
       (ret, s1) \<leftarrow> parse s;
       if ret < 0 then Some (Some (-1), s1)
       else
         let (r, s2) = initController K s1
         in if r < 0 then Some (Some (-1), s2)
            else do { (go, s3) \<leftarrow> turns turn n (prepare s2); Some (None, s3) }
     }"

section \<open>After a restart\<close>

lemma reset_all_eq:
  assumes "c_pipe_count s = int n" "n \<le> length (c_pipes s)"
  shows "\<exists>h. reset_all s = Some (s\<lparr>c_pipes := replicate n blank_typed_pipe @ drop n (c_pipes s), c_hist := h\<rparr>)"
proof -
  have blank: "fst (resetPipe p h) = blank_typed_pipe" for p h
    by (cases p) (simp add: resetPipe_def blank_typed_pipe_def Let_def)
  have "\<exists>t. for_upto 0 (int n) (\<lambda>i s. do {
       p \<leftarrow> aget (c_pipes s) i; let (p', h) = resetPipe p (c_hist s);
       ps \<leftarrow> aset (c_pipes s) i p'; Some (s\<lparr>c_pipes := ps, c_hist := h\<rparr>) }) s = Some t
     \<and> (\<exists>h. t = s\<lparr>c_pipes := replicate n blank_typed_pipe @ drop n (c_pipes s), c_hist := h\<rparr>)"
  proof (rule for_upto_nat [where P = "\<lambda>i t. \<exists>h. t = s\<lparr>c_pipes := replicate i blank_typed_pipe @ drop i (c_pipes s), c_hist := h\<rparr>"])
    show "\<exists>h. s = s\<lparr>c_pipes := replicate 0 blank_typed_pipe @ drop 0 (c_pipes s), c_hist := h\<rparr>"
      by (rule exI [of _ "c_hist s"]) simp
    fix i t assume i: "i < n" and "\<exists>h. t = s\<lparr>c_pipes := replicate i blank_typed_pipe @ drop i (c_pipes s), c_hist := h\<rparr>"
    then obtain h where t: "t = s\<lparr>c_pipes := replicate i blank_typed_pipe @ drop i (c_pipes s), c_hist := h\<rparr>" by blast
    obtain p' h' where r: "resetPipe (c_pipes t ! i) h = (p', h')" by (cases "resetPipe (c_pipes t ! i) h")
    then have p': "p' = blank_typed_pipe" using blank by (metis fst_conv)
    have "(replicate i blank_typed_pipe @ drop i (c_pipes s))[i := blank_typed_pipe]
        = replicate (Suc i) blank_typed_pipe @ drop (Suc i) (c_pipes s)"
      using i assms(2) by (simp add: list_update_append Cons_nth_drop_Suc [symmetric] replicate_app_Cons_same)
    then show "\<exists>u. do { p \<leftarrow> aget (c_pipes t) (int i); let (p', h) = resetPipe p (c_hist t);
        ps \<leftarrow> aset (c_pipes t) (int i) p'; Some (t\<lparr>c_pipes := ps, c_hist := h\<rparr>) } = Some u
      \<and> (\<exists>h. u = s\<lparr>c_pipes := replicate (Suc i) blank_typed_pipe @ drop (Suc i) (c_pipes s), c_hist := h\<rparr>)"
      using i assms(2) t r p' by auto
  qed
  then show ?thesis using assms(1) by (auto simp: reset_all_def)
qed

end
