(* ===== verification/AStar.thy ===== *)
theory AStar
  imports Mapping_Grid Controller
begin

text \<open>
  The planner (\<open>controllers/a_star.c\<close>): it marks the reported obstacles on its own map, searches a route
  from the robot to the goal whenever a new one arrives, and hands out the route two waypoints at a time.

  An index outside the map is undefined, also at the edge of the map, where the neighbours of a cell are
  looked up without a check.
\<close>

definition ASTAR_PIPES :: int where "ASTAR_PIPES = 4"

record astar = controller +
  as_updates_index :: int
  as_ack_index :: int
  way_req_index :: int
  way_res_index :: int
  as_obstacle_map :: "bool list list"
  goal :: point_i
  as_pose :: point_i
  goal_path :: l_list
  current_goal :: "nat option"
  n_current_goal :: "nat option"
  heap :: store
  fake_hash :: "64 word"
  request_all :: bool
  ready_to_send :: bool
  recv_map_update :: comm_map_update
  recv_req_bytes :: "byte list"

section \<open>Setting up\<close>

definition astar_setPipeIndexes :: "astar \<Rightarrow> astar option" where
  "astar_setPipeIndexes s =
     for_upto 0 ASTAR_PIPES (\<lambda>i s. do {
       p \<leftarrow> aget (c_pipes s) i;
       Some (case tp_type p of
               MAP_UPDATE \<Rightarrow> s\<lparr>as_updates_index := i\<rparr>
             | COMM_ACK \<Rightarrow> s\<lparr>as_ack_index := i\<rparr>
             | WAY_RES \<Rightarrow> s\<lparr>way_res_index := i\<rparr>
             | WAY_REQ \<Rightarrow> s\<lparr>way_req_index := i\<rparr>
             | _ \<Rightarrow> s)
     }) s"

definition astar_parseArgs :: "posix \<Rightarrow> string list \<Rightarrow> astar \<Rightarrow> (int \<times> astar) option" where
  "astar_parseArgs K argv s =
     do {
       prio \<leftarrow> aget argv 1;
       cnt \<leftarrow> aget argv 2;
       let s1 = s\<lparr>c_priority := atoi prio, c_pipe_count := atoi cnt\<rparr>;
       let argc = int (length argv);
       s2 \<leftarrow> (if argc < 6 then do {
                let (pid, h1) = sys_call K ''getpid'' [] [] (c_hist s1);
                (r, s2) \<leftarrow> take_over_pipes K pid (c_pipe_count s1) (c_name s1) (s1\<lparr>c_hist := h1\<rparr>);
                Some s2
              }
              else parse_pipes (min (argc - 3) ASTAR_PIPES) argv s1);
       s3 \<leftarrow> astar_setPipeIndexes s2;
       Some (0, s3)
     }"

section \<open>The search\<close>

text \<open>The eight cells around a node; a corner counts when one of the two cells beside it is free.\<close>

definition look :: "dpu \<Rightarrow> bool list list \<Rightarrow> node_t \<Rightarrow> int \<Rightarrow> int \<Rightarrow> l_list \<times> store \<Rightarrow> (l_list \<times> store) option" where
  "look D m n i j lH =
     (let (l, H) = lH; x = n_x n + i; y = n_y n + j;
          add = (let (a, H') = newNode x y (d_of_int D 0) H in do { l' \<leftarrow> addNode D l a D_0; Some (l', H') })
      in if j = 0 \<and> i = 0 then Some (l, H)
         else if \<bar>i\<bar> + \<bar>j\<bar> = 2 then do {
           b \<leftarrow> grid_get m x y;
           if \<not> b then do {
             b1 \<leftarrow> grid_get m x (n_y n);
             ok \<leftarrow> (if \<not> b1 then Some True else do { b2 \<leftarrow> grid_get m (n_x n) y; Some (\<not> b2) });
             if ok then add else Some (l, H)
           }
           else Some (l, H)
         }
         else do { b \<leftarrow> grid_get m x y; if \<not> b then add else Some (l, H) })"

definition genNeighbors :: "dpu \<Rightarrow> bool list list \<Rightarrow> nat \<Rightarrow> store \<Rightarrow> (l_list \<times> store) option" where
  "genNeighbors D m node H =
     do {
       n \<leftarrow> deref H node;
       for_upto (-1) 2 (\<lambda>i. for_upto (-1) 2 (\<lambda>j. look D m n i j)) (newList, H)
     }"

definition estDistance :: "dpu \<Rightarrow> int \<Rightarrow> int \<Rightarrow> int \<Rightarrow> int \<Rightarrow> double" where
  "estDistance D x_1 y_1 x_2 y_2 =
     d_sqrt D (d_of_int D ((x_1 - x_2) * (x_1 - x_2) + (y_1 - y_2) * (y_1 - y_2)))"

definition estDistanceG :: "dpu \<Rightarrow> point_i \<Rightarrow> int \<Rightarrow> int \<Rightarrow> double" where
  "estDistanceG D g x y = estDistance D x y (pi_x g) (pi_y g)"

text \<open>
  Nodes of the first list that are not on the second are freed, until the first is empty. The cells of
  a list are its own, so freeing them shows nowhere.
\<close>

function eraseAllButList :: "l_list \<Rightarrow> l_list \<Rightarrow> store \<Rightarrow> store option" where
  "eraseAllButList kill_list save_list H =
     do {
       (clean_n, kill_list') \<leftarrow> pop kill_list;
       case clean_n of
         None \<Rightarrow> Some H
       | Some a \<Rightarrow> do {
           found \<leftarrow> findNode save_list a H;
           H' \<leftarrow> (if found \<noteq> None then Some H else free_node a H);
           eraseAllButList kill_list' save_list H'
         }
     }"
  by pat_completeness auto

termination
  by (relation "measure (\<lambda>(l, _). cells l)") (auto dest: pop_shrinks)

declare eraseAllButList.simps [simp del]

text \<open>One neighbour: skipped when explored, otherwise put on the open list or moved forward on it.\<close>

definition relax :: "dpu \<Rightarrow> point_i \<Rightarrow> l_list \<Rightarrow> nat \<Rightarrow> nat \<Rightarrow> l_list \<Rightarrow> store \<Rightarrow> (l_list \<times> store) option" where
  "relax D g closed_set current curr_neigh open_set H =
     do {
       explored \<leftarrow> findNode closed_set curr_neigh H;
       if explored \<noteq> None then do { H' \<leftarrow> free_node curr_neigh H; Some (open_set, H') }
       else do {
         c \<leftarrow> deref H current;
         n \<leftarrow> deref H curr_neigh;
         let tent_g_score = d_add D (g_score c) (estDistance D (n_x n) (n_y n) (n_x c) (n_y c));
         from_open \<leftarrow> findNode open_set curr_neigh H;
         better \<leftarrow> (case from_open of
                      None \<Rightarrow> Some True
                    | Some a \<Rightarrow> do { m \<leftarrow> deref H a; Some (d_less D tent_g_score (g_score m)) });
         if better then do {
           let H1 = H[curr_neigh := Some (n\<lparr>back_link := Some current, g_score := tent_g_score\<rparr>)];
           let f_score = d_add D tent_g_score (estDistanceG D g (n_x n) (n_y n));
           (open1, H2) \<leftarrow> removeNode open_set curr_neigh H1;
           open2 \<leftarrow> addNode D open1 curr_neigh f_score;
           Some (open2, H2)
         }
         else do { H' \<leftarrow> free_node curr_neigh H; Some (open_set, H') }
       }
     }"

function relax_all :: "dpu \<Rightarrow> point_i \<Rightarrow> l_list \<Rightarrow> nat \<Rightarrow> l_list \<Rightarrow> l_list \<Rightarrow> store \<Rightarrow> (l_list \<times> store) option" where
  "relax_all D g closed_set current neighbors open_set H =
     do {
       (curr_neigh, neighbors') \<leftarrow> pop neighbors;
       case curr_neigh of
         None \<Rightarrow> Some (open_set, H)
       | Some a \<Rightarrow> do {
           (open', H') \<leftarrow> relax D g closed_set current a open_set H;
           relax_all D g closed_set current neighbors' open' H'
         }
     }"
  by pat_completeness auto

termination
  by (relation "measure (\<lambda>(D, g, c, a, l, _). cells l)") (auto dest: pop_shrinks)

declare relax_all.simps [simp del]

text \<open>
  The loop of \<open>command\<close>: it goes on with an open and a closed list, or has reached the goal, or has given
  up. A list pointer that became null ends it as well.
\<close>

datatype search = Going l_list l_list store | Found nat l_list l_list store | NoPath store

definition search_round :: "dpu \<Rightarrow> bool list list \<Rightarrow> point_i \<Rightarrow> nat \<Rightarrow> l_list \<Rightarrow> l_list \<Rightarrow> store \<Rightarrow> search option" where
  "search_round D m g goal_node open_set closed_set H =
     (if open_set = LNull then Some (NoPath H)
      else do {
        (cur, open1) \<leftarrow> pop open_set;
        case cur of
          None \<Rightarrow> Some (NoPath H)
        | Some current \<Rightarrow> do {
            at_goal \<leftarrow> nodeEqauls H current goal_node;
            if at_goal then Some (Found current open1 closed_set H)
            else do {
              c \<leftarrow> deref H current;
              closed1 \<leftarrow> addNode D closed_set current (estDistanceG D g (n_x c) (n_y c));
              (neighbors, H1) \<leftarrow> genNeighbors D m current H;
              (open2, H2) \<leftarrow> relax_all D g closed1 current neighbors open1 H1;
              Some (Going open2 closed1 H2)
            }
          }
      })"

fun search_rounds :: "dpu \<Rightarrow> bool list list \<Rightarrow> point_i \<Rightarrow> nat \<Rightarrow> nat \<Rightarrow> search \<Rightarrow> search option" where
  "search_rounds D m g goal_node (Suc n) (Going open_set closed_set H) =
     do { r \<leftarrow> search_round D m g goal_node open_set closed_set H; search_rounds D m g goal_node n r }"
| "search_rounds D m g goal_node n r = Some r"

text \<open>
  Every round explores another cell, so the loop ends within \<open>SEARCH_ROUNDS\<close> rounds: \<open>Going\<close> never comes
  out of it. Following the back links ends within the number of nodes.
\<close>

definition SEARCH_ROUNDS :: nat where "SEARCH_ROUNDS = 2400"

fun extract_path :: "nat \<Rightarrow> nat option \<Rightarrow> l_list \<Rightarrow> store \<Rightarrow> l_list option" where
  "extract_path n None path H = Some path"
| "extract_path 0 (Some a) path H = None"
| "extract_path (Suc n) (Some a) path H =
     do { c \<leftarrow> deref H a; extract_path n (back_link c) (push path a) H }"

text \<open>\<open>command\<close> up to its loop, the loop, and what happens when it found the goal.\<close>

definition search_start :: "dpu \<Rightarrow> point_i \<Rightarrow> point_i \<Rightarrow> store \<Rightarrow> (search \<times> nat) option" where
  "search_start D g p H =
     do {
       let (start, H1) = newNode (pi_x p) (pi_y p) (d_of_int D 0) H;
       open_set \<leftarrow> addNode D newList start (estDistanceG D g (pi_x p) (pi_y p));
       let (goal_node, H2) = newNode (pi_x g) (pi_y g) (d_of_int D 0) H1;
       Some (Going open_set newList H2, goal_node)
     }"

definition take_path :: "nat \<Rightarrow> nat \<Rightarrow> l_list \<Rightarrow> l_list \<Rightarrow> l_list \<Rightarrow> store \<Rightarrow> (l_list \<times> store) option" where
  "take_path goal_node current open_set closed_set path H =
     do {
       H1 \<leftarrow> free_node goal_node H;
       (path1, H2) \<leftarrow> eraseList path H1;
       path2 \<leftarrow> extract_path (Suc (length H2)) (Some current) path1 H2;
       (open1, H3) \<leftarrow> eraseList open_set H2;
       H4 \<leftarrow> eraseAllButList closed_set path2 H3;
       Some (path2, H4)
     }"

definition astar_command :: "dpu \<Rightarrow> astar \<Rightarrow> astar option" where
  "astar_command D s =
     do {
       (r0, goal_node) \<leftarrow> search_start D (goal s) (as_pose s) (heap s);
       r \<leftarrow> search_rounds D (as_obstacle_map s) (goal s) goal_node SEARCH_ROUNDS r0;
       case r of
         Found current open_set closed_set H \<Rightarrow> do {
           (path, H') \<leftarrow> take_path goal_node current open_set closed_set (goal_path s) H;
           Some (s\<lparr>goal_path := path, heap := H'\<rparr>)
         }
       | NoPath H \<Rightarrow> Some (s\<lparr>heap := H\<rparr>)
       | Going open_set closed_set H \<Rightarrow> None
     }"

section \<open>Waypoints\<close>

definition send_nowhere :: "posix \<Rightarrow> typed_pipe \<Rightarrow> history \<Rightarrow> history" where
  "send_nowhere K out h = snd (commSendWaypoints K out D_7 D_7 D_0 D_7 D_7 D_0 h)"

definition send_goals :: "posix \<Rightarrow> dpu \<Rightarrow> typed_pipe \<Rightarrow> nat \<Rightarrow> nat \<Rightarrow> astar \<Rightarrow> astar option" where
  "send_goals K D out a b s =
     do {
       c \<leftarrow> deref (heap s) a;
       n \<leftarrow> deref (heap s) b;
       let goal_p = degridify D (n_x c) (n_y c);
       let n_goal_p = degridify D (n_x n) (n_y n);
       Some (s\<lparr>c_hist := snd (commSendWaypoints K out (pd_x goal_p) (pd_y goal_p) D_0
                                (pd_x n_goal_p) (pd_y n_goal_p) D_0 (c_hist s))\<rparr>)
     }"

definition free_goal :: "nat option \<Rightarrow> store \<Rightarrow> store option" where
  "free_goal g H = (case g of None \<Rightarrow> Some H | Some a \<Rightarrow> free_node a H)"

definition sendWaypoints :: "posix \<Rightarrow> dpu \<Rightarrow> bool \<Rightarrow> astar \<Rightarrow> astar option" where
  "sendWaypoints K D force_send s =
     do {
       out \<leftarrow> aget (c_pipes s) (way_res_index s);
       if force_send then do {
         H1 \<leftarrow> free_goal (current_goal s) (heap s);
         H2 \<leftarrow> free_goal (n_current_goal s) H1;
         (cg, path1) \<leftarrow> pop (goal_path s);
         let s1 = s\<lparr>heap := H2, current_goal := cg, n_current_goal := None, goal_path := path1\<rparr>;
         case cg of
           None \<Rightarrow> Some (s1\<lparr>c_hist := send_nowhere K out (c_hist s1)\<rparr>)
         | Some a \<Rightarrow> do {
             (ncg, path2) \<leftarrow> pop path1;
             let s2 = s1\<lparr>n_current_goal := ncg, goal_path := path2\<rparr>;
             case ncg of
               None \<Rightarrow> Some (s2\<lparr>c_hist := send_nowhere K out (c_hist s2)\<rparr>)
             | Some b \<Rightarrow> send_goals K D out a b s2
           }
       }
       else case (current_goal s, n_current_goal s) of
         (Some a, Some b) \<Rightarrow> send_goals K D out a b s
       | _ \<Rightarrow> Some (s\<lparr>c_hist := send_nowhere K out (c_hist s)\<rparr>)
     }"

section \<open>The loop\<close>

text \<open>The obstacles of a message are marked without a check of their coordinates.\<close>

definition mark_obstacles :: "comm_map_update \<Rightarrow> bool list list \<Rightarrow> bool list list option" where
  "mark_obstacles m g =
     for_upto 0 (obs_count m) (\<lambda>index g. do {
       x \<leftarrow> aget (obs_x m) index;
       y \<leftarrow> aget (obs_y m) index;
       grid_set g (uint x) (uint y) True
     }) g"

definition map_updated :: "posix \<Rightarrow> dpu \<Rightarrow> comm_map_update \<Rightarrow> astar \<Rightarrow> astar option" where
  "map_updated K D m s =
     do {
       g \<leftarrow> mark_obstacles m (as_obstacle_map s);
       let s1 = s\<lparr>as_pose := \<lparr>pi_x = pose_x m, pi_y = pose_y m\<rparr>, as_obstacle_map := g\<rparr>;
       let s2 = (if insertSDC s1 then s1\<lparr>insertSDC := False, fake_hash := fake_hash s1 + 1\<rparr> else s1);
       s3 \<leftarrow> (if obs_count m > 0 then do { s' \<leftarrow> astar_command D s2; Some (s'\<lparr>ready_to_send := True\<rparr>) } else Some s2);
       out \<leftarrow> aget (c_pipes s3) (as_ack_index s3);
       Some (s3\<lparr>request_all := False,
                c_hist := snd (commSendAck K out (fake_hash s3) (if request_all s3 then 1 else 0) (c_hist s3))\<rparr>)
     }"

definition astar_update :: "posix \<Rightarrow> dpu \<Rightarrow> typed_pipe \<Rightarrow> astar \<Rightarrow> astar option" where
  "astar_update K D p s =
     do {
       (read_ret, m, h) \<leftarrow> commRecvMapUpdate K p (recv_map_update s) (c_hist s);
       let s1 = s\<lparr>recv_map_update := m, c_hist := h\<rparr>;
       if read_ret > 0 then map_updated K D m s1 else Some s1
     }"

definition way_requested :: "posix \<Rightarrow> dpu \<Rightarrow> int \<Rightarrow> astar \<Rightarrow> astar option" where
  "way_requested K D pad s =
     (if ready_to_send s \<or> 1 = pad then sendWaypoints K D True (s\<lparr>ready_to_send := False\<rparr>)
      else sendWaypoints K D False s)"

text \<open>A short read leaves the rest of the request as it was.\<close>

definition astar_request :: "posix \<Rightarrow> dpu \<Rightarrow> int \<Rightarrow> astar \<Rightarrow> astar option" where
  "astar_request K D fd s =
     (let (read_ret, bs, h) = sys_read K fd 4 (c_hist s);
          s1 = s\<lparr>recv_req_bytes := bs @ drop (length bs) (recv_req_bytes s), c_hist := h\<rparr>
      in if read_ret > 0 then way_requested K D (padding (bytes_way_req (recv_req_bytes s1))) s1 else Some s1)"

definition astar_turn :: "posix \<Rightarrow> dpu \<Rightarrow> astar \<Rightarrow> (bool \<times> astar) option" where
  "astar_turn K D s =
     do {
       u \<leftarrow> aget (c_pipes s) (as_updates_index s);
       r \<leftarrow> aget (c_pipes s) (way_req_index s);
       let (retval, ready, h) = sys_select K [tp_fd_in u, tp_fd_in r] 1000000 (c_hist s);
       let s1 = s\<lparr>c_hist := h\<rparr>;
       if retval > 0 then
         if insertCFE s1 then Some (False, s1)
         else do {
           s2 \<leftarrow> (if tp_fd_in u \<in> set ready then astar_update K D u s1 else Some s1);
           s3 \<leftarrow> (if tp_fd_in r \<in> set ready then astar_request K D (tp_fd_in r) s2 else Some s2);
           Some (True, s3)
         }
       else Some (True, s1)
     }"

text \<open>
  \<open>main\<close>: \<open>pose\<close> and the receive buffers are not initialised (\<open>p0\<close>, \<open>m0\<close>, \<open>b0\<close> are what they hold), and
  the goal is the cell of (7, 7), whose conversion to \<open>int\<close> may be out of range.
\<close>

definition astar_init :: "dpu \<Rightarrow> point_i \<Rightarrow> comm_map_update \<Rightarrow> byte list \<Rightarrow> astar \<Rightarrow> astar option" where
  "astar_init D p0 m0 b0 s =
     do {
       g \<leftarrow> gridify D \<lparr>pd_x = D_7, pd_y = D_7\<rparr>;
       Some (s\<lparr>as_pose := p0, goal := g, goal_path := newList, as_obstacle_map := blank_grid False, request_all := True,
               recv_map_update := m0\<lparr>obs_x := replicate (nat MAX_OBSTACLES) 0, obs_y := replicate (nat MAX_OBSTACLES) 0\<rparr>,
               recv_req_bytes := b0\<rparr>)
     }"

definition astar_globals :: astar where
  "astar_globals =
     \<lparr>c_pipes = replicate 4 blank_typed_pipe, c_pipe_count = ASTAR_PIPES, c_name = ''AStar'', c_priority = 0,
      c_pinned_cpu = 0, insertSDC = False, insertCFE = False, c_hist = [], as_updates_index = 0, as_ack_index = 0,
      way_req_index = 0, way_res_index = 0, as_obstacle_map = blank_grid False, goal = \<lparr>pi_x = 0, pi_y = 0\<rparr>,
      as_pose = \<lparr>pi_x = 0, pi_y = 0\<rparr>, goal_path = LNull, current_goal = None, n_current_goal = None, heap = [],
      fake_hash = 42, request_all = False, ready_to_send = False,
      recv_map_update = \<lparr>pose_x = 0, pose_y = 0, obs_count = 0, obs_x = [], obs_y = []\<rparr>, recv_req_bytes = []\<rparr>"

definition astar_main :: "posix \<Rightarrow> dpu \<Rightarrow> point_i \<Rightarrow> comm_map_update \<Rightarrow> byte list \<Rightarrow> string list \<Rightarrow> nat
    \<Rightarrow> (int option \<times> astar) option" where
  "astar_main K D p0 m0 b0 argv n =
     do {
       (ret, s1) \<leftarrow> astar_parseArgs K argv astar_globals;
       if ret < 0 then Some (Some (-1), s1)
       else
         let (r, s2) = initController K s1
         in if r < 0 then Some (Some (-1), s2)
            else do {
              s3 \<leftarrow> astar_init D p0 m0 b0 s2;
              (go, s4) \<leftarrow> turns (astar_turn K D) n s3;
              Some (None, s4)
            }
     }"

end
