(* ===== verification/Node_Lists.thy ===== *)
theory Node_Lists
  imports Mapping_Grid "HOL-Library.Multiset"
begin

text \<open>
  What the list operations of \<open>controllers/mapping.c\<close> do to the nodes they hold: a list stands for the
  multiset (for \<open>push\<close> and \<open>pop\<close> the sequence) of the addresses on it, and nodes are compared by place.
\<close>

fun nodes :: "l_list \<Rightarrow> nat list" where
  "nodes (LCell a s rest) = a # nodes rest"
| "nodes _ = []"

definition place :: "store \<Rightarrow> nat \<Rightarrow> (int \<times> int) option" where
  "place H a = map_option (\<lambda>n. (n_x n, n_y n)) (deref H a)"

lemma nodes_newList [simp]: "nodes newList = []"
  by (simp add: newList_def)

section \<open>The store\<close>

lemma deref_update: "deref (H[a := v]) b = (if b = a \<and> a < length H then v else deref H b)"
  by (auto simp: deref_def)

lemma deref_bound: "deref H a = Some n \<Longrightarrow> a < length H"
  by (simp add: deref_def split: if_splits)

lemma deref_beyond: "length H \<le> a \<Longrightarrow> deref H a = None"
  by (simp add: deref_def)

lemma deref_append: "a < length H \<Longrightarrow> deref (H @ H') a = deref H a"
  by (simp add: deref_def nth_append)

lemma place_None [simp]: "place H a = None \<longleftrightarrow> deref H a = None"
  by (simp add: place_def)

lemma place_cong: "deref H a = deref H' a \<Longrightarrow> place H a = place H' a"
  by (simp add: place_def)

lemma deref_newNode:
  assumes "newNode x y g H = (a, H')"
  shows "a = length H" "length H' = Suc (length H)"
    "deref H' b = (if b = a then Some \<lparr>n_x = x, n_y = y, g_score = g, back_link = None\<rparr> else deref H b)"
  using assms by (auto simp: newNode_def deref_def nth_append)

lemma free_node_Some: "free_node a H = Some H' \<longleftrightarrow> deref H a \<noteq> None \<and> H' = H[a := None]"
  by (auto simp: free_node_def Option.bind_eq_Some_conv)

lemma nodeEqauls_place: "nodeEqauls H a b = do { p \<leftarrow> place H a; q \<leftarrow> place H b; Some (p = q) }"
  by (cases "deref H a"; cases "deref H b") (simp_all add: nodeEqauls_def place_def)

section \<open>The lists\<close>

lemma addNode_nodes: "addNode D l a v = Some l' \<Longrightarrow> mset (nodes l') = add_mset a (mset (nodes l)) \<and> l' \<noteq> LNull"
proof (induction D l a v arbitrary: l' rule: addNode.induct)
  case (3 D b s rest a v)
  show ?case
  proof (cases "d_less D v s")
    case False
    then obtain rest' where rest': "addNode D (if rest = LNull then newList else rest) a v = Some rest'" "l' = LCell b s rest'"
      using 3(2) by (auto simp: Option.bind_eq_Some_conv)
    then show ?thesis using 3(1) [OF False rest'(1)] by (auto split: if_splits)
  qed (use 3(2) in auto)
qed auto

lemma addNode_total: "l \<noteq> LNull \<Longrightarrow> addNode D l a v \<noteq> None"
proof (induction D l a v rule: addNode.induct)
  case (3 D b s rest a v)
  then show ?case by (cases "rest = LNull") (auto simp: newList_def)
qed auto

lemma findNode_Some:
  "findNode l n H = Some r \<Longrightarrow>
   case r of None \<Rightarrow> \<forall>a \<in> set (nodes l). place H a \<noteq> place H n
   | Some a \<Rightarrow> a \<in> set (nodes l) \<and> place H a = place H n \<and> deref H a \<noteq> None"
proof (induction l n H rule: findNode.induct)
  case (3 a s rest n H)
  from 3(2) obtain eq where eq: "nodeEqauls H n a = Some eq" by (auto simp: Option.bind_eq_Some_conv)
  then have same: "eq \<longleftrightarrow> place H a = place H n" "deref H a \<noteq> None"
    by (auto simp: nodeEqauls_place Option.bind_eq_Some_conv place_def)
  show ?case
  proof (cases eq)
    case False
    then have "findNode rest n H = Some r" using 3(2) eq by simp
    from 3(1) [OF eq False this] show ?thesis using same False by (auto split: option.splits)
  qed (use 3(2) eq same in auto)
qed (auto split: option.splits)

lemma findNode_total:
  "\<forall>a \<in> set (nodes l). deref H a \<noteq> None \<Longrightarrow> deref H n \<noteq> None \<Longrightarrow> findNode l n H \<noteq> None"
  by (induction l n H rule: findNode.induct) (auto simp: nodeEqauls_place place_def)

lemma removeNode_Some:
  "removeNode l n H = Some (l', H') \<Longrightarrow>
   (l' = l \<and> H' = H \<and> (\<forall>a \<in> set (nodes l). place H a \<noteq> place H n)) \<or>
   (\<exists>a. mset (nodes l) = add_mset a (mset (nodes l')) \<and> place H a = place H n \<and> deref H a \<noteq> None \<and> H' = H[a := None])"
proof (induction l n H arbitrary: l' H' rule: removeNode.induct)
  case (3 a s rest n H)
  from 3(2) obtain eq where eq: "nodeEqauls H a n = Some eq" by (auto simp: Option.bind_eq_Some_conv)
  then have same: "eq \<longleftrightarrow> place H a = place H n" "deref H a \<noteq> None"
    by (auto simp: nodeEqauls_place Option.bind_eq_Some_conv place_def)
  show ?case
  proof (cases eq)
    case True
    then have "l' = rest" "H' = H[a := None]" using 3(2) eq by (auto simp: Option.bind_eq_Some_conv free_node_Some)
    then show ?thesis using same True by auto
  next
    case False
    then obtain rest' where rest': "removeNode rest n H = Some (rest', H')" "l' = LCell a s rest'"
      using 3(2) eq by (auto simp: Option.bind_eq_Some_conv)
    from 3(1) [OF eq False rest'(1)] show ?thesis
      using same False rest'(2) by (auto simp: add_mset_commute)
  qed
qed auto

lemma pop_Some: "pop l = Some (Some a, l') \<Longrightarrow> nodes l = a # nodes l' \<and> l' \<noteq> LNull"
  by (cases l) (auto simp: newList_def split: if_splits)

lemma pop_None: "pop l = Some (None, l') \<Longrightarrow> nodes l = [] \<and> nodes l' = [] \<and> l' \<noteq> LNull"
  by (cases l) (auto simp: newList_def)

lemma pop_total: "l \<noteq> LNull \<Longrightarrow> \<exists>c l'. pop l = Some (c, l') \<and> l' \<noteq> LNull \<and> (case c of None \<Rightarrow> [] | Some a \<Rightarrow> [a]) @ nodes l' = nodes l"
  by (cases l) (auto simp: newList_def)

text \<open>Freed nodes are gone, all others stay.\<close>

lemma eraseList_Some:
  assumes "eraseList l H = Some (l', H')"
  shows "l' \<noteq> LNull \<and> nodes l' = [] \<and> length H' = length H \<and> (\<forall>b. deref H' b = (if b \<in> set (nodes l) then None else deref H b))"
  using assms
proof (induction l H rule: eraseList.induct)
  case (1 l H)
  from 1(2) obtain c l1 where c: "pop l = Some (c, l1)"
    by (subst (asm) eraseList.simps) (auto simp: Option.bind_eq_Some_conv)
  show ?case
  proof (cases c)
    case None
    then show ?thesis using 1(2) c pop_None [of l l1] by (subst (asm) eraseList.simps) auto
  next
    case (Some a)
    then obtain H1 where H1: "free_node a H = Some H1" "eraseList l1 H1 = Some (l', H')"
      using 1(2) c by (subst (asm) eraseList.simps) (auto simp: Option.bind_eq_Some_conv)
    have live: "a < length H" "H1 = H[a := None]"
      using H1(1) deref_bound by (auto simp: free_node_Some)
    show ?thesis
      using 1(1) [OF c refl Some H1] live pop_Some [of l a l1] c Some by (auto simp: deref_update)
  qed
qed

lemma eraseList_total:
  "l \<noteq> LNull \<Longrightarrow> distinct (nodes l) \<Longrightarrow> \<forall>a \<in> set (nodes l). deref H a \<noteq> None \<Longrightarrow> \<exists>l' H'. eraseList l H = Some (l', H')"
proof (induction l H rule: eraseList.induct)
  case (1 l H)
  obtain c l1 where c: "pop l = Some (c, l1)" "l1 \<noteq> LNull" "(case c of None \<Rightarrow> [] | Some a \<Rightarrow> [a]) @ nodes l1 = nodes l"
    using pop_total [OF 1(2)] by blast
  show ?case
  proof (cases c)
    case None
    then show ?thesis using c(1) by (subst eraseList.simps) simp
  next
    case (Some a)
    then have l: "nodes l = a # nodes l1" using c(3) by simp
    have H1: "free_node a H = Some (H[a := None])" using 1(4) l by (auto simp: free_node_Some)
    have rest: "distinct (nodes l1)" "\<forall>b \<in> set (nodes l1). deref (H[a := None]) b \<noteq> None"
      using 1(3,4) l by (auto simp: deref_update)
    obtain l' H' where "eraseList l1 (H[a := None]) = Some (l', H')"
      using 1(1) [OF c(1) refl Some H1 c(2) rest] by blast
    then show ?thesis using c(1) Some H1 by (subst eraseList.simps) simp
  qed
qed

end
