(* ===== verification/AStarSearch.thy ===== *)
theory AStarSearch
  imports AStar Node_Lists
begin

text \<open>
  The search of the planner: which cells \<open>genNeighbors\<close> offers, what one neighbour and one round do to
  the two lists, and that the loop ends after having explored every cell once.
\<close>

section \<open>Steps on the map\<close>

text \<open>A step goes to a free cell beside or across, and across only when one of the cells beside is free.\<close>

fun legal_step :: "bool list list \<Rightarrow> int \<times> int \<Rightarrow> int \<times> int \<Rightarrow> bool" where
  "legal_step m (x, y) (x', y') \<longleftrightarrow>
     (x', y') \<noteq> (x, y) \<and> \<bar>x' - x\<bar> \<le> 1 \<and> \<bar>y' - y\<bar> \<le> 1 \<and> grid_get m x' y' = Some False
     \<and> (x' \<noteq> x \<and> y' \<noteq> y \<longrightarrow> grid_get m x' y = Some False \<or> grid_get m x y' = Some False)"

definition fresh_nodes :: "store \<Rightarrow> (int \<times> int) set \<Rightarrow> l_list \<times> store \<Rightarrow> bool" where
  "fresh_nodes H0 S lH \<longleftrightarrow>
     (case lH of (l, H) \<Rightarrow>
        (\<exists>ext. H = H0 @ ext) \<and> l \<noteq> LNull \<and> distinct (nodes l) \<and> set (nodes l) = {length H0..<length H}
        \<and> (\<forall>a \<in> set (nodes l). \<exists>n. deref H a = Some n \<and> back_link n = None)
        \<and> inj_on (place H) (set (nodes l)) \<and> place H ` set (nodes l) = Some ` S)"

lemma fresh_nodes_add:
  assumes "fresh_nodes H0 S (l, H)" "(x, y) \<notin> S" "newNode x y g H = (a, H')" "addNode D l a v = Some l'"
  shows "fresh_nodes H0 (insert (x, y) S) (l', H')"
proof -
  note new = deref_newNode [OF assms(3)]
  have nodes: "mset (nodes l') = add_mset a (mset (nodes l))" "l' \<noteq> LNull" using addNode_nodes [OF assms(4)] by auto
  have dst: "distinct (nodes l)" "set (nodes l) = {length H0..<length H}" using assms(1) by (auto simp: fresh_nodes_def)
  have set: "set (nodes l') = insert a (set (nodes l))" using nodes(1) by (metis set_mset_add_mset_insert set_mset_mset)
  have fresh: "a \<notin> set (nodes l)" using dst(2) new(1) by simp
  have dst': "distinct (nodes l')"
    using nodes(1) fresh dst(1) by (metis distinct.simps(2) mset.simps(2) mset_eq_imp_distinct_iff)
  have old: "inj_on (place H) (set (nodes l))" "place H ` set (nodes l) = Some ` S"
    using assms(1) unfolding fresh_nodes_def prod.case by blast+
  have place: "place H' b = (if b = a then Some (x, y) else place H b)" for b
    by (simp add: place_def new(3))
  have elsewhere: "place H b \<noteq> Some (x, y)" if "b \<in> set (nodes l)" for b
    using imageI [OF that, of "place H"] old(2) assms(2) by auto
  have same: "place H' b = place H b" if "b \<in> set (nodes l)" for b
    using that fresh place by auto
  have "inj_on (place H') (set (nodes l))" using old(1) same by (simp cong: inj_on_cong)
  moreover have "place H' a \<notin> place H' ` set (nodes l)"
    using elsewhere same place [of a] by (metis imageE)
  ultimately have "inj_on (place H') (set (nodes l'))" using fresh by (simp add: set)
  moreover have "place H' ` set (nodes l') = Some ` insert (x, y) S"
    unfolding set image_insert using old(2) same place [of a] by (simp cong: image_cong)
  moreover have "\<exists>ext. H' = H0 @ ext" using assms(1,3) by (auto simp: fresh_nodes_def newNode_def)
  moreover have "set (nodes l') = {length H0..<length H'}"
    using assms(1) new(1,2) set by (auto simp: fresh_nodes_def)
  moreover have "\<exists>n. deref H' b = Some n \<and> back_link n = None" if "b \<in> set (nodes l')" for b
    using assms(1) that new(3) set by (auto simp: fresh_nodes_def)
  ultimately show ?thesis using dst' nodes(2) by (simp add: fresh_nodes_def)
qed

lemma look_step:
  assumes ok: "fresh_nodes H0 S lH" and at: "\<bar>i\<bar> \<le> 1" "\<bar>j\<bar> \<le> 1" "(n_x n + i, n_y n + j) \<notin> S"
    and look: "look D m n i j lH = Some lH'"
  shows "fresh_nodes H0 (S \<union> {q. q = (n_x n + i, n_y n + j) \<and> legal_step m (n_x n, n_y n) q}) lH'"
proof -
  obtain l H where lH: "lH = (l, H)" by (cases lH)
  let ?p = "(n_x n, n_y n)" and ?q = "(n_x n + i, n_y n + j)"
  obtain a H' where new: "newNode (n_x n + i) (n_y n + j) (d_of_int D 0) H = (a, H')"
    by (cases "newNode (n_x n + i) (n_y n + j) (d_of_int D 0) H")
  have "if legal_step m ?p ?q then do { l' \<leftarrow> addNode D l a D_0; Some (l', H') } = Some lH' else lH' = lH"
  proof (cases "i = 0 \<or> j = 0")
    case True
    moreover have "\<bar>i\<bar> + \<bar>j\<bar> \<noteq> 2" using True at(1,2) by auto
    ultimately show ?thesis using look at(1,2) new
      by (auto simp: look_def lH Let_def Option.bind_eq_Some_conv split: if_splits)
  next
    case False
    then have "\<bar>i\<bar> + \<bar>j\<bar> = 2" using at(1,2) by linarith
    then show ?thesis using look False at(1,2) new
      by (auto simp: look_def lH Let_def Option.bind_eq_Some_conv split: if_splits)
  qed
  then show ?thesis
    using ok fresh_nodes_add [OF _ at(3) new, of H0 l D D_0] lH
    by (cases "legal_step m ?p ?q") (auto simp: Option.bind_eq_Some_conv conj_commute cong: conj_cong simp del: legal_step.simps)
qed

lemma looks:
  assumes "foldM (\<lambda>(i, j). look D m n i j) ps lH = Some lH'" "fresh_nodes H0 S lH" "distinct ps"
    "\<forall>(i, j) \<in> set ps. \<bar>i\<bar> \<le> 1 \<and> \<bar>j\<bar> \<le> 1 \<and> (n_x n + i, n_y n + j) \<notin> S"
  shows "fresh_nodes H0 (S \<union> {q. legal_step m (n_x n, n_y n) q \<and> (fst q - n_x n, snd q - n_y n) \<in> set ps}) lH'"
  using assms
proof (induction ps arbitrary: S lH)
  case (Cons p ps)
  obtain i j where p: "p = (i, j)" by (cases p)
  from Cons.prems(1) obtain lH1 where lH1: "look D m n i j lH = Some lH1" "foldM (\<lambda>(i, j). look D m n i j) ps lH1 = Some lH'"
    by (auto simp: p Option.bind_eq_Some_conv)
  let ?S = "S \<union> {q. q = (n_x n + i, n_y n + j) \<and> legal_step m (n_x n, n_y n) q}"
  have "fresh_nodes H0 ?S lH1"
    using look_step [OF Cons.prems(2) _ _ _ lH1(1)] Cons.prems(4) p by auto
  moreover have "\<forall>(i', j') \<in> set ps. \<bar>i'\<bar> \<le> 1 \<and> \<bar>j'\<bar> \<le> 1 \<and> (n_x n + i', n_y n + j') \<notin> ?S"
    using Cons.prems(3,4) p by auto
  ultimately have "fresh_nodes H0 (?S \<union> {q. legal_step m (n_x n, n_y n) q \<and> (fst q - n_x n, snd q - n_y n) \<in> set ps}) lH'"
    using Cons.IH [OF lH1(2)] Cons.prems(3) by simp
  moreover have "?S \<union> {q. legal_step m (n_x n, n_y n) q \<and> (fst q - n_x n, snd q - n_y n) \<in> set ps}
      = S \<union> {q. legal_step m (n_x n, n_y n) q \<and> (fst q - n_x n, snd q - n_y n) \<in> set (p # ps)}"
    by (auto simp: p simp del: legal_step.simps)
  ultimately show ?case by simp
qed auto

definition around :: "(int \<times> int) list" where
  "around = [(-1, -1), (-1, 0), (-1, 1), (0, -1), (0, 0), (0, 1), (1, -1), (1, 0), (1, 1)]"

lemma genNeighbors_Some:
  assumes "genNeighbors D m node H = Some (l, H')"
  obtains n where "deref H node = Some n" "fresh_nodes H {q. legal_step m (n_x n, n_y n) q} (l, H')"
proof -
  obtain n where n: "deref H node = Some n" "for_upto (-1) 2 (\<lambda>i. for_upto (-1) 2 (\<lambda>j. look D m n i j)) (newList, H) = Some (l, H')"
    using assms by (auto simp: genNeighbors_def Option.bind_eq_Some_conv)
  have three: "for_upto (-1) 2 f s = do { s1 \<leftarrow> f (-1) s; s2 \<leftarrow> f 0 s1; f 1 s2 }" for f :: "int \<Rightarrow> l_list \<times> store \<Rightarrow> (l_list \<times> store) option" and s
    by (simp add: for_upto_step)
  have "foldM (\<lambda>(i, j). look D m n i j) around (newList, H) = Some (l, H')"
    using n(2) by (simp add: three around_def)
  moreover have "fresh_nodes H {} (newList, H)" by (simp add: fresh_nodes_def newList_def)
  moreover have "distinct around" "\<forall>(i, j) \<in> set around. \<bar>i\<bar> \<le> 1 \<and> \<bar>j\<bar> \<le> 1 \<and> (n_x n + i, n_y n + j) \<notin> {}"
    by (simp_all add: around_def)
  ultimately have "fresh_nodes H ({} \<union> {q. legal_step m (n_x n, n_y n) q \<and> (fst q - n_x n, snd q - n_y n) \<in> set around}) (l, H')"
    by (rule looks)
  moreover have "(fst q - n_x n, snd q - n_y n) \<in> set around" if "legal_step m (n_x n, n_y n) q" for q
  proof (cases q)
    case (Pair x y)
    have "x - n_x n \<in> {-1, 0, 1}" "y - n_y n \<in> {-1, 0, 1}" using that Pair by auto
    then show ?thesis using Pair by (auto simp: around_def)
  qed
  ultimately have "fresh_nodes H {q. legal_step m (n_x n, n_y n) q} (l, H')"
    by (simp add: conj_absorb cong: conj_cong)
  then show ?thesis using that n(1) by blast
qed

section \<open>The invariant of the search\<close>

text \<open>A route is a sequence of nodes that leads back to the start over the back links.\<close>

fun route :: "bool list list \<Rightarrow> store \<Rightarrow> nat list \<Rightarrow> bool" where
  "route m H [] \<longleftrightarrow> False"
| "route m H [a] \<longleftrightarrow> (\<exists>n. deref H a = Some n \<and> back_link n = None)"
| "route m H (a # b # p) \<longleftrightarrow>
     (\<exists>n c. deref H a = Some n \<and> deref H b = Some c \<and> back_link n = Some b
        \<and> legal_step m (n_x c, n_y c) (n_x n, n_y n) \<and> route m H (b # p))"

lemma route_cong: "\<forall>a \<in> set p. deref H' a = deref H a \<Longrightarrow> route m H' p = route m H p"
  by (induction m H p rule: route.induct) auto

definition linked :: "bool list list \<Rightarrow> store \<Rightarrow> nat set \<Rightarrow> int \<times> int \<Rightarrow> nat \<Rightarrow> bool" where
  "linked m H C start a \<longleftrightarrow>
     (\<exists>p. route m H (a # p) \<and> set p \<subseteq> C \<and> distinct (a # p) \<and> place H (last (a # p)) = Some start)"

lemma linked_mono: "linked m H C start a \<Longrightarrow> C \<subseteq> C' \<Longrightarrow> linked m H C' start a"
  unfolding linked_def by blast

lemma linked_cong:
  assumes "linked m H C start a" "\<forall>b \<in> insert a C. deref H' b = deref H b"
  shows "linked m H' C start a"
proof -
  obtain p where p: "route m H (a # p)" "set p \<subseteq> C" "distinct (a # p)" "place H (last (a # p)) = Some start"
    using assms(1) by (auto simp: linked_def)
  have "\<forall>b \<in> set (a # p). deref H' b = deref H b" using p(2) assms(2) by auto
  then have "route m H' (a # p)" "place H' (last (a # p)) = Some start"
    using route_cong [of "a # p" H' H m] p(1,4) place_cong [of H' "last (a # p)" H] by (metis, metis last_in_set list.distinct(1))
  then show ?thesis using p(2,3) unfolding linked_def by blast
qed

lemma linked_step:
  assumes "linked m H C start b" "b \<in> C" "a \<notin> C" "deref H a = Some n" "back_link n = Some b"
    and "deref H b = Some c" "legal_step m (n_x c, n_y c) (n_x n, n_y n)"
  shows "linked m H C start a"
proof -
  obtain p where p: "route m H (b # p)" "set p \<subseteq> C" "distinct (b # p)" "place H (last (b # p)) = Some start"
    using assms(1) by (auto simp: linked_def)
  then have "route m H (a # b # p)" "set (b # p) \<subseteq> C" "distinct (a # b # p)" "place H (last (a # b # p)) = Some start"
    using assms by (auto simp del: legal_step.simps)
  then show ?thesis unfolding linked_def by blast
qed

text \<open>
  \<open>Q\<close>, \<open>C\<close> and \<open>P\<close> are the open nodes, the closed ones and the neighbours not yet looked at; \<open>H0\<close> is the
  store before the search and \<open>k\<close> the node of the goal \<open>g\<close>.
\<close>

definition search_inv :: "bool list list \<Rightarrow> store \<Rightarrow> int \<times> int \<Rightarrow> int \<times> int \<Rightarrow> nat \<Rightarrow> nat set \<Rightarrow> nat set \<Rightarrow> nat set \<Rightarrow> store \<Rightarrow> bool" where
  "search_inv m H0 start g k Q C P H \<longleftrightarrow>
     Q \<inter> C = {} \<and> Q \<inter> P = {} \<and> C \<inter> P = {}
     \<and> (\<forall>a \<in> Q \<union> C \<union> P. length H0 \<le> a \<and> a \<noteq> k \<and> deref H a \<noteq> None)
     \<and> inj_on (place H) (Q \<union> C) \<and> inj_on (place H) P
     \<and> (\<forall>a \<in> Q \<union> C. linked m H C start a)
     \<and> (\<forall>c \<in> C. \<forall>p q. place H c = Some p \<longrightarrow> legal_step m p q \<longrightarrow> Some q \<in> place H ` (Q \<union> C \<union> P))
     \<and> length H0 \<le> k \<and> place H k = Some g \<and> Some g \<notin> place H ` C \<and> Some start \<in> place H ` (Q \<union> C)
     \<and> (\<forall>a < length H0. deref H a = deref H0 a)"

lemma search_invD:
  assumes "search_inv m H0 start g k Q C P H"
  shows "Q \<inter> C = {}" "Q \<inter> P = {}" "C \<inter> P = {}"
    and "a \<in> Q \<union> C \<union> P \<Longrightarrow> length H0 \<le> a" "k \<notin> Q \<union> C \<union> P" "a \<in> Q \<union> C \<union> P \<Longrightarrow> deref H a \<noteq> None"
    and "inj_on (place H) (Q \<union> C)" "inj_on (place H) P"
    and "a \<in> Q \<union> C \<Longrightarrow> linked m H C start a"
    and "c \<in> C \<Longrightarrow> place H c = Some p \<Longrightarrow> legal_step m p q \<Longrightarrow> Some q \<in> place H ` (Q \<union> C \<union> P)"
    and "length H0 \<le> k" "place H k = Some g" "Some g \<notin> place H ` C" "Some start \<in> place H ` (Q \<union> C)"
    and "b < length H0 \<Longrightarrow> deref H b = deref H0 b"
proof -
  have cover: "\<forall>c \<in> C. \<forall>p q. place H c = Some p \<longrightarrow> legal_step m p q \<longrightarrow> Some q \<in> place H ` (Q \<union> C \<union> P)"
    using assms unfolding search_inv_def by (elim conjE)
  then show "c \<in> C \<Longrightarrow> place H c = Some p \<Longrightarrow> legal_step m p q \<Longrightarrow> Some q \<in> place H ` (Q \<union> C \<union> P)"
    by (metis (no_types))
  have "\<forall>a \<in> Q \<union> C \<union> P. a \<noteq> k" using assms by (simp add: search_inv_def del: legal_step.simps split_paired_All)
  then show "k \<notin> Q \<union> C \<union> P" by blast
qed (use assms in \<open>simp_all add: search_inv_def del: legal_step.simps split_paired_All\<close>)

lemma search_invI:
  assumes "Q \<inter> C = {}" "Q \<inter> P = {}" "C \<inter> P = {}"
    and "\<And>a. a \<in> Q \<union> C \<union> P \<Longrightarrow> length H0 \<le> a \<and> a \<noteq> k \<and> deref H a \<noteq> None"
    and "inj_on (place H) (Q \<union> C)" "inj_on (place H) P"
    and "\<And>a. a \<in> Q \<union> C \<Longrightarrow> linked m H C start a"
    and "\<And>c p q. c \<in> C \<Longrightarrow> place H c = Some p \<Longrightarrow> legal_step m p q \<Longrightarrow> Some q \<in> place H ` (Q \<union> C \<union> P)"
    and "length H0 \<le> k" "place H k = Some g" "Some g \<notin> place H ` C" "Some start \<in> place H ` (Q \<union> C)"
    and "\<And>a. a < length H0 \<Longrightarrow> deref H a = deref H0 a"
  shows "search_inv m H0 start g k Q C P H"
  unfolding search_inv_def using assms by (simp del: legal_step.simps)

lemma agree_image: "\<forall>b \<in> S. deref H' b = deref H b \<Longrightarrow> place H' ` S = place H ` S"
  by (intro image_cong refl place_cong) blast

lemma agree_inj: "\<forall>b \<in> S. deref H' b = deref H b \<Longrightarrow> inj_on (place H') S = inj_on (place H) S"
  by (intro inj_on_cong place_cong) blast

text \<open>A neighbour whose place is known is freed.\<close>

lemma search_inv_free:
  assumes inv: "search_inv m H0 start g k Q C (insert a P) H" and a: "a \<notin> P" "place H a \<in> place H ` (Q \<union> C)"
  shows "search_inv m H0 start g k Q C P (H[a := None])"
proof -
  let ?H = "H[a := None]"
  note D = search_invD [OF inv]
  have disj: "a \<notin> Q \<union> C" "a \<noteq> k" "length H0 \<le> a" using D(2,3,5) D(4) [of a] by auto
  have same: "\<forall>b \<in> S. deref ?H b = deref H b" if "a \<notin> S" for S
    using that by (auto simp: deref_update)
  have QC: "\<forall>b \<in> Q \<union> C. deref ?H b = deref H b" by (rule same [OF disj(1)])
  have C: "\<forall>b \<in> C. deref ?H b = deref H b" and P: "\<forall>b \<in> P. deref ?H b = deref H b"
    and all: "\<forall>b \<in> Q \<union> C \<union> P. deref ?H b = deref H b"
    by (rule same, use disj a(1) in blast)+
  have out: "deref ?H b = deref H b" if "b < length H0 \<or> b = k" for b using that disj by (auto simp: deref_update)
  show ?thesis
  proof (rule search_invI)
    show "inj_on (place ?H) (Q \<union> C)" using D(7) agree_inj [OF QC] by simp
    show "inj_on (place ?H) P" using D(8) agree_inj [OF P] by (simp add: inj_on_subset)
    show "Some start \<in> place ?H ` (Q \<union> C)" using D(14) agree_image [OF QC] by simp
    show "Some g \<notin> place ?H ` C" using D(13) agree_image [OF C] by simp
    show "place ?H k = Some g" using D(12) place_cong [OF out [of k]] by simp
    fix b assume b: "b \<in> Q \<union> C"
    show "linked m ?H C start b"
      by (rule linked_cong [OF D(9) [OF b]]) (use QC b in blast)
  next
    fix c p q assume c: "c \<in> C" "place ?H c = Some p" "legal_step m p q"
    then have "place H c = Some p" using place_cong [of ?H c H] C by simp
    then have "Some q \<in> place H ` (Q \<union> C \<union> insert a P)" using D(10) c(1,3) by blast
    then have "Some q \<in> place H ` (Q \<union> C \<union> P)" using a(2) by auto
    then show "Some q \<in> place ?H ` (Q \<union> C \<union> P)" using agree_image [OF all] by simp
  next
    fix b assume "b \<in> Q \<union> C \<union> P"
    then show "length H0 \<le> b \<and> b \<noteq> k \<and> deref ?H b \<noteq> None" using D(4,5,6) all by (metis UnCI insertCI UnE)
  qed (use D(1,2,3,11,15) out in auto)
qed

text \<open>
  A neighbour goes on the open list with the current node behind it; a node of the same place (\<open>X\<close>) leaves it.
\<close>

lemma search_inv_link:
  assumes inv: "search_inv m H0 start g k Q C (insert a P) H" and a: "a \<notin> P" "deref H a = Some n"
    and cur: "cur \<in> C" "deref H cur = Some c" "legal_step m (n_x c, n_y c) (n_x n, n_y n)"
    and X: "X \<subseteq> Q" "\<forall>b \<in> X. place H b = place H a" "\<forall>b \<in> Q \<union> C - X. place H b \<noteq> place H a"
    and H': "deref H' a = Some (n\<lparr>back_link := Some cur, g_score := t\<rparr>)" "\<And>b. b \<noteq> a \<Longrightarrow> b \<notin> X \<Longrightarrow> deref H' b = deref H b"
  shows "search_inv m H0 start g k (insert a (Q - X)) C P H'"
proof -
  note D = search_invD [OF inv]
  have disj: "a \<notin> Q \<union> C" "a \<noteq> k" "length H0 \<le> a" "X \<inter> C = {}" "X \<inter> P = {}" "k \<notin> X" "\<forall>b \<in> X. length H0 \<le> b"
    using D(1,2,3,5) D(4) X(1) by auto
  have same: "\<forall>b \<in> S. deref H' b = deref H b" if "a \<notin> S" "S \<inter> X = {}" for S
  proof
    fix b assume "b \<in> S"
    then have "b \<noteq> a" "b \<notin> X" using that by auto
    then show "deref H' b = deref H b" by (rule H'(2))
  qed
  have pa: "place H' a = place H a" using H'(1) a(2) by (simp add: place_def)
  have C: "\<forall>b \<in> C. deref H' b = deref H b" and P: "\<forall>b \<in> P. deref H' b = deref H b"
    and QX: "\<forall>b \<in> Q - X. deref H' b = deref H b" and QC: "\<forall>b \<in> Q - X \<union> C. deref H' b = deref H b"
    by (rule same; use disj a(1) in blast)+
  have out: "deref H' b = deref H b" if "b < length H0 \<or> b = k" for b using that disj H'(2) by (metis leD)
  have img: "place H' ` (insert a (Q - X) \<union> C) = place H ` insert a (Q \<union> C)"
  proof -
    have "place H' ` (insert a (Q - X) \<union> C) = insert (place H a) (place H ` (Q - X \<union> C))"
      using pa agree_image [OF QC] by simp
    also have "\<dots> = place H ` insert a (Q \<union> C)" using X(1,2) by auto
    finally show ?thesis .
  qed
  have a_linked: "linked m H' C start a"
    by (rule linked_step [OF linked_cong [OF D(9) [of cur]] cur(1) _ H'(1)])
      (use cur C disj in \<open>auto simp del: legal_step.simps\<close>)
  show ?thesis
  proof (rule search_invI)
    have "inj_on (place H') (Q - X \<union> C)" using agree_inj [OF QC] D(7) by (auto intro: inj_on_subset)
    moreover have "place H a \<notin> place H ` (Q - X \<union> C)" 
    proof
      assume "place H a \<in> place H ` (Q - X \<union> C)"
      then obtain b where b: "b \<in> Q - X \<union> C" "place H b = place H a" by (metis imageE)
      then have "b \<in> Q \<union> C - X" using disj(4) by blast
      then show False using X(3) b(2) by blast
    qed
    ultimately show "inj_on (place H') (insert a (Q - X) \<union> C)"
      using agree_image [OF QC] pa disj(1) by (simp add: inj_on_insert)
    show "inj_on (place H') P" using D(8) agree_inj [OF P] by (simp add: inj_on_subset)
    show "Some start \<in> place H' ` (insert a (Q - X) \<union> C)" unfolding img using D(14) by blast
    show "Some g \<notin> place H' ` C" using D(13) agree_image [OF C] by simp
    show "place H' k = Some g" using D(12) place_cong [OF out [of k]] by simp
    fix b assume b: "b \<in> insert a (Q - X) \<union> C"
    show "linked m H' C start b"
    proof (cases "b = a")
      case False
      then show ?thesis using b QC C by (intro linked_cong [OF D(9)]) auto
    qed (use a_linked in simp)
  next
    fix x p q assume x: "x \<in> C" "place H' x = Some p" "legal_step m p q"
    then have "place H x = Some p" using place_cong [of H' x H] C by simp
    then have "Some q \<in> place H ` (insert a (Q \<union> C) \<union> P)" using D(10) [OF x(1) _ x(3)] by auto
    then show "Some q \<in> place H' ` (insert a (Q - X) \<union> C \<union> P)"
      using img agree_image [OF P] by (metis image_Un)
  next
    fix b assume b: "b \<in> insert a (Q - X) \<union> C \<union> P"
    show "length H0 \<le> b \<and> b \<noteq> k \<and> deref H' b \<noteq> None"
    proof (cases "b = a")
      case False
      then have "b \<in> Q \<union> C \<union> insert a P" "b \<notin> X" using b disj by auto
      then show ?thesis using D(4) D(6) D(5) H'(2) [OF False] by metis
    qed (use disj H'(1) in simp)
  qed (use D(1,2,3,11,15) disj a(1) out in auto)
qed

text \<open>The current node goes on the closed list and its neighbours are to be looked at.\<close>

lemma search_inv_close:
  assumes inv: "search_inv m H0 start g k (insert cur Q) C {} H" and cur: "cur \<notin> Q" "deref H cur = Some c" "place H cur \<noteq> Some g"
    and fresh: "fresh_nodes H {q. legal_step m (n_x c, n_y c) q} (l, H')" and long: "length H0 \<le> length H"
  shows "search_inv m H0 start g k Q (insert cur C) (set (nodes l)) H'"
proof -
  note D = search_invD [OF inv]
  have F: "\<exists>ext. H' = H @ ext" "set (nodes l) = {length H..<length H'}" "\<forall>a \<in> set (nodes l). deref H' a \<noteq> None"
    "inj_on (place H') (set (nodes l))" "place H' ` set (nodes l) = Some ` {q. legal_step m (n_x c, n_y c) q}"
    using fresh unfolding fresh_nodes_def prod.case by fastforce+
  have old: "deref H' b = deref H b" if "b < length H" for b using F(1) that deref_append by blast
  have live: "b < length H" if "b \<in> insert cur Q \<union> C" for b
    using D(6) [of b] that deref_bound by auto
  have QC: "\<forall>b \<in> insert cur Q \<union> C. deref H' b = deref H b" using old live by blast
  have k: "k < length H" using D(12) deref_bound by (auto simp: place_def)
  have swap: "Q \<union> insert cur C = insert cur Q \<union> C" by auto
  show ?thesis
  proof (rule search_invI)
    show "Q \<inter> insert cur C = {}" using D(1) cur(1) by auto
    show "Q \<inter> set (nodes l) = {}" "insert cur C \<inter> set (nodes l) = {}" using live F(2) by fastforce+
    show "inj_on (place H') (Q \<union> insert cur C)" unfolding swap using agree_inj [OF QC] D(7) by simp
    show "inj_on (place H') (set (nodes l))" by (rule F(4))
    show "Some start \<in> place H' ` (Q \<union> insert cur C)" unfolding swap using agree_image [OF QC] D(14) by simp
    have "Some g \<notin> place H ` insert cur C" using D(13) cur(3) by auto
    then show "Some g \<notin> place H' ` insert cur C" using agree_image [of "insert cur C" H' H] QC by simp
    show "place H' k = Some g" using D(12) place_cong [OF old [OF k]] by simp
    show "deref H' b = deref H0 b" if "b < length H0" for b using D(15) [OF that] old that long by simp
    fix b assume b: "b \<in> Q \<union> insert cur C"
    have "linked m H' C start b"
      by (rule linked_cong [OF D(9)]) (use b QC in auto)
    then show "linked m H' (insert cur C) start b" by (rule linked_mono) auto
  next
    fix x p q assume x: "x \<in> insert cur C" "place H' x = Some p" "legal_step m p q"
    have "deref H' x = deref H x" using x(1) QC by blast
    then have px: "place H x = Some p" using place_cong [of H' x H] x(2) by simp
    show "Some q \<in> place H' ` (Q \<union> insert cur C \<union> set (nodes l))"
    proof (cases "x = cur")
      case True
      then have "p = (n_x c, n_y c)" using px cur(2) by (simp add: place_def)
      then show ?thesis using F(5) x(3) by (auto simp: image_Un simp del: legal_step.simps)
    next
      case False
      then have "Some q \<in> place H ` (insert cur Q \<union> C)" using D(10) [OF _ px x(3)] x(1) by auto
      then show ?thesis unfolding swap using agree_image [OF QC] by (metis UnCI image_Un)
    qed
  next
    fix b assume b: "b \<in> Q \<union> insert cur C \<union> set (nodes l)"
    show "length H0 \<le> b \<and> b \<noteq> k \<and> deref H' b \<noteq> None"
    proof (cases "b \<in> set (nodes l)")
      case True
      then show ?thesis using F(2,3) k long by auto
    next
      case False
      then have "b \<in> insert cur Q \<union> C \<union> {}" using b by auto
      then show ?thesis using D(4,5,6) QC by (metis Un_empty_right)
    qed
  qed (use D(11) in simp)
qed

section \<open>One neighbour, all neighbours\<close>

definition search_ok :: "bool list list \<Rightarrow> store \<Rightarrow> int \<times> int \<Rightarrow> int \<times> int \<Rightarrow> nat \<Rightarrow> l_list \<Rightarrow> l_list \<Rightarrow> nat list \<Rightarrow> store \<Rightarrow> bool" where
  "search_ok m H0 start g k q c p H \<longleftrightarrow>
     distinct (nodes q) \<and> distinct (nodes c) \<and> distinct p \<and> length H0 \<le> length H
     \<and> search_inv m H0 start g k (set (nodes q)) (set (nodes c)) (set p) H"

lemma mset_insert:
  assumes "mset ys = add_mset a (mset xs)"
  shows "set ys = insert a (set xs)" "distinct ys \<longleftrightarrow> a \<notin> set xs \<and> distinct xs"
  using assms by (metis list.set(2) mset.simps(2) set_mset_mset, metis assms distinct.simps(2) mset.simps(2) mset_eq_imp_distinct_iff)

lemma relax_better:
  assumes ok: "search_ok m H0 start g k q c (a # p) H" and a: "deref H a = Some n"
    and cur: "cur \<in> set (nodes c)" "deref H cur = Some b" "legal_step m (n_x b, n_y b) (n_x n, n_y n)"
    and unexplored: "\<forall>x \<in> set (nodes c). place H x \<noteq> place H a"
    and H1: "H1 = H[a := Some (n\<lparr>back_link := Some cur, g_score := t\<rparr>)]"
    and run: "removeNode q a H1 = Some (q1, H2)" "addNode D q1 a f = Some q2"
  shows "search_ok m H0 start g k q2 c p H2 \<and> length H2 = length H \<and> (\<forall>x \<in> set (nodes c) \<union> set p. deref H2 x = deref H x)"
proof -
  have inv: "search_inv m H0 start g k (set (nodes q)) (set (nodes c)) (insert a (set p)) H"
    and dst: "distinct (nodes q)" "distinct (nodes c)" "distinct p" "a \<notin> set p" "length H0 \<le> length H"
    using ok by (auto simp: search_ok_def)
  note I = search_invD [OF inv]
  have aq: "a \<notin> set (nodes q)" "a \<notin> set (nodes c)" using I(2,3) by auto
  have len: "a < length H" using a deref_bound by blast
  have d1: "deref H1 x = (if x = a then Some (n\<lparr>back_link := Some cur, g_score := t\<rparr>) else deref H x)" for x
    using len by (simp add: H1 deref_update)
  have p1: "place H1 x = place H x" for x using a d1 by (simp add: place_def)
  note add = addNode_nodes [OF run(2), THEN conjunct1]
  consider (keep) "q1 = q" "H2 = H1" "\<forall>x \<in> set (nodes q). place H x \<noteq> place H a"
    | (drop) y where "mset (nodes q) = add_mset y (mset (nodes q1))" "place H y = place H a" "H2 = H1[y := None]"
    using removeNode_Some [OF run(1)] p1 by auto
  then show ?thesis
  proof cases
    case keep
    have "search_inv m H0 start g k (insert a (set (nodes q) - {})) (set (nodes c)) (set p) H2"
      by (rule search_inv_link [OF inv dst(4) a cur, where X = "{}" and t = t])
        (use keep d1 unexplored in auto)
    then show ?thesis
      using mset_insert [OF add] keep dst aq d1 H1 by (auto simp: search_ok_def)
  next
    case drop
    note q = mset_insert [OF drop(1)]
    have y: "y \<in> set (nodes q)" "y \<notin> set (nodes q1)" "distinct (nodes q1)" using q dst(1) by auto
    have ya: "y \<noteq> a" "y \<notin> set (nodes c)" "y \<notin> set p" using y(1) aq I(1,2) by auto
    have uniq: "place H x \<noteq> place H a" if "x \<in> set (nodes q) \<union> set (nodes c) - {y}" for x
      using I(7) that y(1) drop(2) unexplored by (metis Diff_iff UnCI UnE inj_onD singletonI)
    have "search_inv m H0 start g k (insert a (set (nodes q) - {y})) (set (nodes c)) (set p) H2"
      by (rule search_inv_link [OF inv dst(4) a cur, where X = "{y}" and t = t])
        (use drop y ya d1 uniq in \<open>auto simp: deref_update\<close>)
    moreover have "set (nodes q2) = insert a (set (nodes q) - {y})" using mset_insert(1) [OF add] q(1) y(2) by auto
    moreover have "distinct (nodes q2)" using mset_insert(2) [OF add] y(3) q(1) aq(1) by auto
    ultimately show ?thesis
      using drop dst ya d1 aq H1 by (auto simp: search_ok_def deref_update)
  qed
qed

lemma relax_free:
  assumes ok: "search_ok m H0 start g k q c (a # p) H" and "place H a \<in> place H ` (set (nodes q) \<union> set (nodes c))"
    and "free_node a H = Some H'"
  shows "search_ok m H0 start g k q c p H' \<and> length H' = length H \<and> (\<forall>x \<in> set (nodes c) \<union> set p. deref H' x = deref H x)"
proof -
  have inv: "search_inv m H0 start g k (set (nodes q)) (set (nodes c)) (insert a (set p)) H"
    and dst: "distinct (nodes q)" "distinct (nodes c)" "distinct p" "a \<notin> set p" "length H0 \<le> length H"
    using ok by (auto simp: search_ok_def)
  have "H' = H[a := None]" using assms(3) by (simp add: free_node_Some)
  then show ?thesis
    using search_inv_free [OF inv dst(4) assms(2)] dst search_invD(3) [OF inv] by (auto simp: search_ok_def deref_update)
qed

lemma relax_ok:
  assumes ok: "search_ok m H0 start g k q c (a # p) H" and run: "relax D gp c cur a q H = Some (q', H')"
    and cur: "cur \<in> set (nodes c)" "deref H cur = Some b" "place H a = Some r" "legal_step m (n_x b, n_y b) r"
  shows "search_ok m H0 start g k q' c p H' \<and> length H' = length H \<and> (\<forall>x \<in> set (nodes c) \<union> set p. deref H' x = deref H x)"
proof -
  obtain explored where e: "findNode c a H = Some explored" using run by (auto simp: relax_def Option.bind_eq_Some_conv)
  note E = findNode_Some [OF e]
  show ?thesis
  proof (cases explored)
    case (Some x)
    then have "free_node a H = Some H'" "q' = q" using run e by (auto simp: relax_def Option.bind_eq_Some_conv)
    moreover have "place H a \<in> place H ` (set (nodes q) \<union> set (nodes c))" using E Some by (auto simp: image_iff) (metis UnI2)
    ultimately show ?thesis using relax_free [OF ok] by blast
  next
    case None
    obtain n where n: "deref H a = Some n" "r = (n_x n, n_y n)" using cur(3) by (auto simp: place_def)
    let ?t = "d_add D (g_score b) (estDistance D (n_x n) (n_y n) (n_x b) (n_y b))"
    obtain from_open where o: "findNode q a H = Some from_open"
      using run e None n cur(2) by (auto simp: relax_def Option.bind_eq_Some_conv Let_def)
    have legal: "legal_step m (n_x b, n_y b) (n_x n, n_y n)" using cur(4) n(2) by simp
    have unexplored: "\<forall>x \<in> set (nodes c). place H x \<noteq> place H a" using E None by simp
    consider (better) q1 where "removeNode q a (H[a := Some (n\<lparr>back_link := Some cur, g_score := ?t\<rparr>)]) = Some (q1, H')"
        "addNode D q1 a (d_add D ?t (estDistanceG D gp (n_x n) (n_y n))) = Some q'"
      | (worse) x where "from_open = Some x" "free_node a H = Some H'" "q' = q"
      using run e None n cur(2) o
      by (auto simp: relax_def Option.bind_eq_Some_conv Let_def split: option.splits if_splits)
    then show ?thesis
    proof cases
      case better
      show ?thesis by (rule relax_better [OF ok n(1) cur(1,2) legal unexplored refl better])
    next
      case worse
      then have "place H a \<in> place H ` (set (nodes q) \<union> set (nodes c))"
        using findNode_Some [OF o] by (auto simp: image_iff) (metis UnI1)
      then show ?thesis using relax_free [OF ok _ worse(2)] worse(3) by blast
    qed
  qed
qed

lemma relax_all_ok:
  assumes "relax_all D gp c cur ns q H = Some (q', H')" "search_ok m H0 start g k q c (nodes ns) H"
    and "cur \<in> set (nodes c)" "deref H cur = Some b" "\<forall>a \<in> set (nodes ns). \<exists>r. place H a = Some r \<and> legal_step m (n_x b, n_y b) r"
  shows "search_ok m H0 start g k q' c [] H' \<and> length H' = length H"
  using assms
proof (induction D gp c cur ns q H rule: relax_all.induct)
  case (1 D gp c cur ns q H)
  obtain a ns' where pop: "pop ns = Some (a, ns')"
    using 1(2) by (subst (asm) relax_all.simps) (auto simp: Option.bind_eq_Some_conv)
  show ?case
  proof (cases a)
    case None
    then show ?thesis using 1(2,3) pop pop_None [of ns ns'] by (subst (asm) relax_all.simps) auto
  next
    case (Some x)
    then have ns: "nodes ns = x # nodes ns'" using pop pop_Some by blast
    obtain q1 H1 where H1: "relax D gp c cur x q H = Some (q1, H1)" "relax_all D gp c cur ns' q1 H1 = Some (q', H')"
      using 1(2) pop Some by (subst (asm) relax_all.simps) (auto simp: Option.bind_eq_Some_conv)
    obtain r where r: "place H x = Some r" "legal_step m (n_x b, n_y b) r" using 1(6) ns by auto
    have step: "search_ok m H0 start g k q1 c (nodes ns') H1" "length H1 = length H"
      "\<forall>y \<in> set (nodes c) \<union> set (nodes ns'). deref H1 y = deref H y"
      using relax_ok [OF _ H1(1) 1(4,5) r] 1(3) ns by auto
    have "deref H1 cur = Some b" using step(3) 1(4,5) by simp
    moreover have "\<forall>a \<in> set (nodes ns'). \<exists>r. place H1 a = Some r \<and> legal_step m (n_x b, n_y b) r"
    proof
      fix y assume y: "y \<in> set (nodes ns')"
      then have "place H1 y = place H y" using step(3) by (intro place_cong) blast
      then show "\<exists>r. place H1 y = Some r \<and> legal_step m (n_x b, n_y b) r" using 1(6) ns y by auto
    qed
    ultimately show ?thesis
      using 1(1) [OF pop refl Some H1(1) refl H1(2) step(1) 1(4)] step(2) by simp
  qed
qed

section \<open>Rounds\<close>

lemma search_round_ok:
  assumes ok: "search_ok m H0 start g k q c [] H" and run: "search_round D m gp k q c H = Some r"
  shows "case r of
      Going q' c' H' \<Rightarrow> search_ok m H0 start g k q' c' [] H' \<and> length (nodes c') = Suc (length (nodes c))
    | Found cur q' c' H' \<Rightarrow> nodes q = cur # nodes q' \<and> q' \<noteq> LNull \<and> c' = c \<and> H' = H \<and> place H cur = Some g
    | NoPath H' \<Rightarrow> nodes q = [] \<and> H' = H"
proof (cases "q = LNull")
  case True
  then show ?thesis using run by (auto simp: search_round_def)
next
  case False
  obtain a q1 where a: "pop q = Some (a, q1)" using pop_total [OF False] by blast
  show ?thesis
  proof (cases a)
    case None
    then show ?thesis using run a False pop_None [of q q1] by (auto simp: search_round_def)
  next
    case (Some cur)
    have q: "nodes q = cur # nodes q1" "q1 \<noteq> LNull" using a Some pop_Some by blast+
    have inv: "search_inv m H0 start g k (insert cur (set (nodes q1))) (set (nodes c)) {} H"
      and dst: "distinct (nodes q1)" "cur \<notin> set (nodes q1)" "distinct (nodes c)" "length H0 \<le> length H"
      using ok q(1) by (auto simp: search_ok_def)
    note I = search_invD [OF inv]
    obtain b where b: "deref H cur = Some b" using I(6) [of cur] by auto
    obtain eq where eq: "nodeEqauls H cur k = Some eq" using run a Some False by (auto simp: search_round_def Option.bind_eq_Some_conv)
    have goal: "eq \<longleftrightarrow> place H cur = Some g" using eq I(12) b by (auto simp: nodeEqauls_place place_def)
    show ?thesis
    proof (cases eq)
      case True
      then show ?thesis using run a Some False q goal eq by (auto simp: search_round_def)
    next
      case noteq: False
      obtain c1 ns H1 q2 H2 where c1: "addNode D c cur (estDistanceG D gp (n_x b) (n_y b)) = Some c1"
        and ns: "genNeighbors D m cur H = Some (ns, H1)"
        and rl: "relax_all D gp c1 cur ns q1 H1 = Some (q2, H2)" and r: "r = Going q2 c1 H2"
        using run a Some False noteq b eq by (auto simp: search_round_def Option.bind_eq_Some_conv)
      have C1: "set (nodes c1) = insert cur (set (nodes c))" "distinct (nodes c1)" "length (nodes c1) = Suc (length (nodes c))"
        using addNode_nodes [OF c1] mset_insert [of "nodes c1" cur "nodes c"] dst(3) I(1)
        by (auto dest: arg_cong [of _ _ size])
      have F: "fresh_nodes H {q. legal_step m (n_x b, n_y b) q} (ns, H1)"
        using genNeighbors_Some [OF ns] b by auto
      then have F': "H1 = H @ drop (length H) H1" "distinct (nodes ns)" "place H1 ` set (nodes ns) = Some ` {q. legal_step m (n_x b, n_y b) q}"
        unfolding fresh_nodes_def prod.case by auto
      have "search_inv m H0 start g k (set (nodes q1)) (set (nodes c1)) (set (nodes ns)) H1"
        using search_inv_close [OF inv dst(2) b _ F dst(4)] goal noteq C1(1) by simp
      moreover have "length H \<le> length H1" using F'(1) by (metis le_add1 length_append)
      ultimately have ok1: "search_ok m H0 start g k q1 c1 (nodes ns) H1"
        using dst C1(2) F'(2) by (simp add: search_ok_def)
      have b1: "deref H1 cur = Some b" using b F'(1) deref_append deref_bound by metis
      have "\<forall>x \<in> set (nodes ns). \<exists>r. place H1 x = Some r \<and> legal_step m (n_x b, n_y b) r"
        using F'(3) by (metis (mono_tags, lifting) imageE imageI mem_Collect_eq)
      then show ?thesis using relax_all_ok [OF rl ok1 _ b1] C1 r by simp
    qed
  qed
qed

lemma search_rounds_ok:
  assumes "search_rounds D m gp k n (Going q c H) = Some r" "search_ok m H0 start g k q c [] H"
  shows "case r of
      Going q' c' H' \<Rightarrow> search_ok m H0 start g k q' c' [] H' \<and> length (nodes c') = length (nodes c) + n
    | Found cur q' c' H' \<Rightarrow> \<exists>q1. search_ok m H0 start g k q1 c' [] H' \<and> nodes q1 = cur # nodes q' \<and> q' \<noteq> LNull \<and> place H' cur = Some g
    | NoPath H' \<Rightarrow> \<exists>q' c'. search_ok m H0 start g k q' c' [] H' \<and> nodes q' = []"
  using assms
proof (induction n arbitrary: q c H)
  case (Suc n)
  obtain r1 where r1: "search_round D m gp k q c H = Some r1" "search_rounds D m gp k n r1 = Some r"
    using Suc.prems(1) by (auto simp: Option.bind_eq_Some_conv)
  note R = search_round_ok [OF Suc.prems(2) r1(1)]
  show ?case
  proof (cases r1)
    case (Going q1 c1 H1)
    have "case r of
      Going q' c' H' \<Rightarrow> search_ok m H0 start g k q' c' [] H' \<and> length (nodes c') = length (nodes c1) + n
    | Found cur q' c' H' \<Rightarrow> \<exists>q1. search_ok m H0 start g k q1 c' [] H' \<and> nodes q1 = cur # nodes q' \<and> q' \<noteq> LNull \<and> place H' cur = Some g
    | NoPath H' \<Rightarrow> \<exists>q' c'. search_ok m H0 start g k q' c' [] H' \<and> nodes q' = []"
      by (rule Suc.IH) (use r1(2) R Going in auto)
    then show ?thesis using R Going by (simp split: search.splits)
  next
    case (Found cur q1 c1 H1)
    then show ?thesis using R r1(2) Suc.prems(2) by auto
  next
    case (NoPath H1)
    then have "r = NoPath H1" "nodes q = []" "H1 = H" using R r1(2) by auto
    then show ?thesis using Suc.prems(2) by (simp del: split_paired_Ex) blast
  qed
qed auto

text \<open>There are no more explored cells than cells on the map, and the start.\<close>

lemma explored_bound:
  assumes "search_ok m H0 start g k q c p H" "wf_grid m"
  shows "length (nodes c) \<le> 2305"
proof -
  let ?grid = "{0..<48} \<times> {0..<48} :: (int \<times> int) set"
  have inv: "search_inv m H0 start g k (set (nodes q)) (set (nodes c)) (set p) H" and dst: "distinct (nodes c)"
    using assms(1) by (auto simp: search_ok_def)
  note I = search_invD [OF inv]
  have on: "r \<in> ?grid" if "legal_step m s r" for s r
  proof -
    obtain x y where r: "r = (x, y)" by (cases r)
    have "grid_get m x y = Some False" using that r by (cases s) simp
    then show ?thesis using grid_get_out [OF assms(2), of x y] r by (cases "on_grid x y") (auto simp: on_grid_def GRID_NUM_def)
  qed
  have "place H a \<in> Some ` insert start ?grid" if a: "a \<in> set (nodes c)" for a
  proof -
    obtain p where p: "route m H (a # p)" "place H (last (a # p)) = Some start"
      using I(9) [OF UnI2 [OF a]] unfolding linked_def by blast
    show ?thesis
    proof (cases p)
      case Nil
      then show ?thesis using p(2) by simp
    next
      case (Cons b p')
      then obtain n and d :: node_t where "deref H a = Some n" "legal_step m (n_x d, n_y d) (n_x n, n_y n)"
        using p(1) unfolding Cons route.simps by blast
      then show ?thesis using on [of "(n_x d, n_y d)" "(n_x n, n_y n)"] by (auto simp: place_def)
    qed
  qed
  then have sub: "place H ` set (nodes c) \<subseteq> Some ` insert start ?grid" by blast
  have fin: "finite (Some ` insert start ?grid)" by simp
  have "length (nodes c) = card (place H ` set (nodes c))"
    using dst I(7) by (simp add: card_image inj_on_Un distinct_card)
  also have "\<dots> \<le> card (Some ` insert start ?grid)" by (rule card_mono [OF fin sub])
  also have "\<dots> \<le> 2305" using card_insert_le_m1 [of 2305 ?grid start] by (simp add: card_image card_insert_if)
  finally show ?thesis .
qed

section \<open>Walks\<close>

fun legal_walk :: "bool list list \<Rightarrow> (int \<times> int) list \<Rightarrow> bool" where
  "legal_walk m [] \<longleftrightarrow> False"
| "legal_walk m [p] \<longleftrightarrow> True"
| "legal_walk m (p # q # w) \<longleftrightarrow> legal_step m p q \<and> legal_walk m (q # w)"

definition reachable :: "bool list list \<Rightarrow> int \<times> int \<Rightarrow> int \<times> int \<Rightarrow> bool" where
  "reachable m p q \<longleftrightarrow> (\<exists>w. legal_walk m w \<and> hd w = p \<and> last w = q)"

lemma legal_walk_closed:
  assumes "legal_walk m w" "hd w \<in> S" "\<And>p q. p \<in> S \<Longrightarrow> legal_step m p q \<Longrightarrow> q \<in> S"
  shows "last w \<in> S"
  using assms(1,2)
proof (induction w rule: induct_list012)
  case (3 p q w)
  then have "legal_step m p q" "p \<in> S" by simp_all
  then have "q \<in> S" by (rule assms(3) [rotated])
  then show ?case using 3 by simp
qed auto

lemma unreachable:
  assumes "search_ok m H0 start g k q c [] H" "nodes q = []"
  shows "\<not> reachable m start g"
proof
  assume "reachable m start g"
  then obtain w where w: "legal_walk m w" "hd w = start" "last w = g" by (auto simp: reachable_def)
  have inv: "search_inv m H0 start g k {} (set (nodes c)) {} H" using assms by (simp add: search_ok_def)
  note I = search_invD [OF inv]
  let ?S = "{p. Some p \<in> place H ` set (nodes c)}"
  have "last w \<in> ?S"
  proof (rule legal_walk_closed [OF w(1)])
    show "hd w \<in> ?S" using I(14) w(2) by simp
    fix p q assume "p \<in> ?S" "legal_step m p q"
    then obtain a where "a \<in> set (nodes c)" "place H a = Some p" by (metis imageE mem_Collect_eq)
    then show "q \<in> ?S" using I(10) \<open>legal_step m p q\<close> by auto
  qed
  then show False using w(3) I(13) by simp
qed

lemma route_walk:
  "route m H p \<Longrightarrow> legal_walk m (rev (map (\<lambda>a. the (place H a)) p))"
proof (induction m H p rule: route.induct)
  case (3 m H a b p)
  then obtain n c where n: "deref H a = Some n" "deref H b = Some c" "legal_step m (n_x c, n_y c) (n_x n, n_y n)"
    by (auto simp del: legal_step.simps)
  have append: "legal_walk m (w @ [q])" if "legal_walk m w" "legal_step m (last w) q" for w q
    using that by (induction m w rule: legal_walk.induct) auto
  have "legal_walk m (rev (map (\<lambda>a. the (place H a)) (b # p)))" using 3 by auto
  from append [OF this, of "(n_x n, n_y n)"] show ?case using n by (simp add: place_def)
qed auto

end
