(* ===== verification/AStarTotal.thy ===== *)
theory AStarTotal
  imports AStarSearch
begin

text \<open>
  When the search makes no undefined access. On a map whose border is blocked every access to the map is
  inside it, and every pointer the search follows is valid, with one exception: when the open list holds
  one node and a shorter way to its cell is found, the list pointer becomes null and \<open>addNode\<close> follows it.
\<close>

section \<open>Inside the walls\<close>

definition walled :: "bool list list \<Rightarrow> bool" where
  "walled m \<longleftrightarrow> list_all (\<lambda>i. grid_get m 0 i = Some True \<and> grid_get m 47 i = Some True
     \<and> grid_get m i 0 = Some True \<and> grid_get m i 47 = Some True) [0..47]"

fun inside :: "int \<times> int \<Rightarrow> bool" where
  "inside (x, y) \<longleftrightarrow> 0 < x \<and> x < 47 \<and> 0 < y \<and> y < 47"

lemma walledD:
  assumes "walled m" "0 \<le> i" "i \<le> 47"
  shows "grid_get m 0 i = Some True" "grid_get m 47 i = Some True" "grid_get m i 0 = Some True" "grid_get m i 47 = Some True"
  using assms by (auto simp: walled_def list_all_iff)

lemma free_inside:
  assumes "wf_grid m" "walled m" "grid_get m x y = Some False"
  shows "inside (x, y)"
proof -
  have on: "0 \<le> x" "x \<le> 47" "0 \<le> y" "y \<le> 47"
    using grid_get_out [OF assms(1), of x y] assms(3) by (cases "on_grid x y"; auto simp: on_grid_def GRID_NUM_def)+
  then have "x \<noteq> 0" "x \<noteq> 47" "y \<noteq> 0" "y \<noteq> 47"
    using walledD [OF assms(2), of y] walledD [OF assms(2), of x] assms(3) by auto
  then show ?thesis using on by auto
qed

lemma step_inside: "wf_grid m \<Longrightarrow> walled m \<Longrightarrow> legal_step m p q \<Longrightarrow> inside q"
  by (cases p; cases q) (auto intro: free_inside simp del: inside.simps)

lemma near_inside: "inside (x, y) \<Longrightarrow> \<bar>i\<bar> \<le> 1 \<Longrightarrow> \<bar>j\<bar> \<le> 1 \<Longrightarrow> on_grid (x + i) (y + j)"
  by (auto simp: on_grid_def GRID_NUM_def)

text \<open>Every node of the search is at the start or was stepped to.\<close>

lemma node_inside:
  assumes inv: "search_inv m H0 start g k Q C P H" and m: "wf_grid m" "walled m" "inside start"
    and a: "a \<in> Q \<union> C" "deref H a = Some n"
  shows "inside (n_x n, n_y n)"
proof -
  obtain p where p: "route m H (a # p)" "place H (last (a # p)) = Some start"
    using search_invD(9) [OF inv a(1)] unfolding linked_def by blast
  show ?thesis
  proof (cases p)
    case Nil
    then show ?thesis using p(2) a(2) m(3) by (simp add: place_def del: inside.simps)
  next
    case (Cons b p')
    then obtain d :: node_t where "legal_step m (n_x d, n_y d) (n_x n, n_y n)"
      using p(1) a(2) unfolding Cons route.simps by auto
    then show ?thesis by (rule step_inside [OF m(1,2)])
  qed
qed

lemma look_total:
  assumes m: "wf_grid m" "inside (n_x n, n_y n)" and at: "\<bar>i\<bar> \<le> 1" "\<bar>j\<bar> \<le> 1" and l: "fst lH \<noteq> LNull"
  shows "\<exists>lH'. look D m n i j lH = Some lH' \<and> fst lH' \<noteq> LNull"
proof -
  obtain l0 H where lH: "lH = (l0, H)" by (cases lH)
  obtain a H' where new: "newNode (n_x n + i) (n_y n + j) (d_of_int D 0) H = (a, H')"
    by (cases "newNode (n_x n + i) (n_y n + j) (d_of_int D 0) H")
  obtain l1 where l1: "addNode D l0 a D_0 = Some l1" "l1 \<noteq> LNull"
    using addNode_total [of l0 D a D_0] addNode_nodes [of D l0 a D_0] l lH by (cases "addNode D l0 a D_0") auto
  have "\<exists>b. grid_get m (n_x n + i') (n_y n + j') = Some b" if "\<bar>i'\<bar> \<le> 1" "\<bar>j'\<bar> \<le> 1" for i' j'
    using grid_get_in [OF m(1) near_inside [OF m(2) that]] by simp
  from this [of i j] this [of i 0] this [of 0 j] obtain b b1 b2 where
    "grid_get m (n_x n + i) (n_y n + j) = Some b" "grid_get m (n_x n + i) (n_y n) = Some b1" "grid_get m (n_x n) (n_y n + j) = Some b2"
    using at by auto
  then show ?thesis using lH new l1 l by (cases b; cases b1; cases b2) (simp_all add: look_def Let_def)
qed

lemma genNeighbors_total:
  assumes "wf_grid m" "deref H a = Some n" "inside (n_x n, n_y n)"
  shows "\<exists>l H'. genNeighbors D m a H = Some (l, H') \<and> l \<noteq> LNull"
proof -
  let ?ok = "\<lambda>(i :: int) lH. fst lH \<noteq> LNull"
  have "\<exists>lH. for_upto (-1) 2 (\<lambda>i. for_upto (-1) 2 (\<lambda>j. look D m n i j)) (newList, H) = Some lH \<and> ?ok 2 lH"
  proof (rule for_upto_rule [where P = ?ok])
    fix i :: int and lH :: "l_list \<times> store" assume i: "-1 \<le> i" "i < 2" and lH: "fst lH \<noteq> LNull"
    show "\<exists>lH'. for_upto (-1) 2 (\<lambda>j. look D m n i j) lH = Some lH' \<and> fst lH' \<noteq> LNull"
      by (rule for_upto_rule [where P = ?ok]) (use i lH look_total [OF assms(1,3)] in auto)
  qed (simp_all add: newList_def)
  then show ?thesis using assms(2) by (auto simp: genNeighbors_def)
qed

section \<open>The null list\<close>

lemma removeNode_total:
  "\<forall>a \<in> set (nodes l). deref H a \<noteq> None \<Longrightarrow> deref H n \<noteq> None \<Longrightarrow> removeNode l n H \<noteq> None"
proof (induction l n H rule: removeNode.induct)
  case (3 a s rest n H)
  then obtain x y where "deref H a = Some x" "deref H n = Some y" by auto
  moreover obtain l' H' where "removeNode rest n H = Some (l', H')" if "\<not> (n_x x = n_x y \<and> n_y x = n_y y)"
    using 3 calculation by (cases "removeNode rest n H") (auto simp: nodeEqauls_place place_def)
  ultimately show ?case
    by (cases "n_x x = n_x y \<and> n_y x = n_y y") (auto simp: nodeEqauls_place place_def free_node_def)
qed simp_all

lemma removeNode_null:
  "removeNode l n H = Some (l', H') \<Longrightarrow> l \<noteq> LNull \<Longrightarrow> length (nodes l) \<noteq> 1 \<Longrightarrow> l' \<noteq> LNull"
  by (cases l) (auto simp: Option.bind_eq_Some_conv split: if_splits)

lemma addNode_Some: "l \<noteq> LNull \<Longrightarrow> \<exists>l'. addNode D l a v = Some l'"
  using addNode_total by fastforce

lemma addNode_size:
  assumes "addNode D l a v = Some l'"
  shows "l' \<noteq> LNull" "length (nodes l') = Suc (length (nodes l))" "nodes l' = [a] \<or> 2 \<le> length (nodes l')"
proof -
  have m: "mset (nodes l') = add_mset a (mset (nodes l))" "l' \<noteq> LNull" using addNode_nodes [OF assms] by auto
  show len: "length (nodes l') = Suc (length (nodes l))" using arg_cong [OF m(1), of size] by simp
  show "nodes l' = [a] \<or> 2 \<le> length (nodes l')"
    using m(1) len by (cases "nodes l") (auto simp: length_Suc_conv)
qed (use addNode_nodes [OF assms] in simp)

text \<open>The way to \<open>b\<close> over its neighbour \<open>a\<close> is shorter than the one known.\<close>

definition overtakes :: "dpu \<Rightarrow> bool list list \<Rightarrow> store \<Rightarrow> nat \<Rightarrow> nat \<Rightarrow> bool" where
  "overtakes D m H a b \<longleftrightarrow>
     (case (deref H a, deref H b) of
        (Some x, Some y) \<Rightarrow> legal_step m (n_x x, n_y x) (n_x y, n_y y)
          \<and> d_less D (d_add D (g_score x) (estDistance D (n_x y) (n_y y) (n_x x) (n_y x))) (g_score y)
      | _ \<Rightarrow> False)"

text \<open>The open list holds two nodes, and the first of them, which is taken next, offers a shorter way to the other.\<close>

definition collapsing :: "dpu \<Rightarrow> bool list list \<Rightarrow> l_list \<Rightarrow> store \<Rightarrow> bool" where
  "collapsing D m q H \<longleftrightarrow> (case nodes q of [a, b] \<Rightarrow> overtakes D m H a b | _ \<Rightarrow> False)"

lemma search_ok_live:
  assumes "search_ok m H0 start g k q c p H" "a \<in> set (nodes q) \<union> set (nodes c) \<union> set p"
  shows "\<exists>n. deref H a = Some n"
  using assms search_invD(6) unfolding search_ok_def by fastforce

lemma relax_outcome:
  assumes ok: "search_ok m H0 start g k q c (a # p) H" and q: "q \<noteq> LNull"
    and cur: "deref H cur = Some x" "place H a = Some r" "legal_step m (n_x x, n_y x) r"
  shows "case relax D gp c cur a q H of
      None \<Rightarrow> \<exists>b. nodes q = [b] \<and> place H b = place H a \<and> overtakes D m H cur b
    | Some (q', H') \<Rightarrow> q' \<noteq> LNull
        \<and> (nodes q' = nodes q \<and> (\<forall>b \<in> set (nodes q). deref H' b = deref H b)
           \<or> nodes q' = [a] \<and> place H' a = place H a \<or> 2 \<le> length (nodes q'))"
proof -
  obtain n where n: "deref H a = Some n" "r = (n_x n, n_y n)" using cur(2) by (auto simp: place_def)
  have inv: "search_inv m H0 start g k (set (nodes q)) (set (nodes c)) (insert a (set p)) H" using ok by (simp add: search_ok_def)
  have aq: "a \<notin> set (nodes q)" using search_invD(2) [OF inv] by auto
  have live: "\<forall>b \<in> set (nodes c). deref H b \<noteq> None" "\<forall>b \<in> set (nodes q). deref H b \<noteq> None"
    using search_ok_live [OF ok] by auto
  have drop: "\<exists>H'. free_node a H = Some H' \<and> (\<forall>b \<in> set (nodes q). deref H' b = deref H b)"
    using n(1) aq by (auto simp: free_node_Some deref_update)
  let ?t = "d_add D (g_score x) (estDistance D (n_x n) (n_y n) (n_x x) (n_y x))"
  let ?H1 = "H[a := Some (n\<lparr>back_link := Some cur, g_score := ?t\<rparr>)]"
  let ?f = "d_add D ?t (estDistanceG D gp (n_x n) (n_y n))"
  obtain explored where e: "findNode c a H = Some explored" using findNode_total [OF live(1), of a] n(1) by auto
  obtain from_open where o: "findNode q a H = Some from_open" using findNode_total [OF live(2), of a] n(1) by auto
  have d1: "deref ?H1 b = (if b = a then Some (n\<lparr>back_link := Some cur, g_score := ?t\<rparr>) else deref H b)" for b
    using deref_bound [OF n(1)] by (simp add: deref_update)
  have p1: "place ?H1 b = place H b" for b using n(1) d1 by (simp add: place_def)
  have "\<forall>b \<in> set (nodes q). deref ?H1 b \<noteq> None" "deref ?H1 a \<noteq> None" using live(2) d1 by auto
  then obtain q1 H2 where rm: "removeNode q a ?H1 = Some (q1, H2)" using removeNode_total by fastforce
  consider (free) "relax D gp c cur a q H = do { H' \<leftarrow> free_node a H; Some (q, H') }"
    | (move) "relax D gp c cur a q H = do { q2 \<leftarrow> addNode D q1 a ?f; Some (q2, H2) }" "from_open = None"
    | (better) b y where "relax D gp c cur a q H = do { q2 \<leftarrow> addNode D q1 a ?f; Some (q2, H2) }"
        "from_open = Some b" "deref H b = Some y" "d_less D ?t (g_score y)"
  proof (cases from_open)
    case None
    then show thesis using that(1,2) e o n(1) cur(1) rm
      by (cases "explored = None") (auto simp: relax_def Let_def)
  next
    case (Some b)
    then obtain y where "deref H b = Some y" using findNode_Some [OF o] by auto
    then show thesis using that(1,3) e o n(1) cur(1) rm Some
      by (cases "explored = None"; cases "d_less D ?t (g_score y)") (auto simp: relax_def Let_def)
  qed
  then show ?thesis
  proof cases
    case free
    then show ?thesis using drop q by auto
  next
    case move
    then have none: "\<forall>b \<in> set (nodes q). place H b \<noteq> place H a" using findNode_Some [OF o] by simp
    have q1: "q1 = q" "H2 = ?H1"
      using removeNode_Some [OF rm] none p1 by (auto dest: arg_cong [of _ _ set_mset])
    obtain q2 where q2: "addNode D q a ?f = Some q2" using addNode_Some [OF q] by blast
    then show ?thesis using move q1 addNode_size [OF q2] p1 [of a] by auto
  next
    case better
    then have b: "b \<in> set (nodes q)" "place H b = place H a" using findNode_Some [OF o] by auto
    have at: "n_x y = n_x n" "n_y y = n_y n" using b(2) better(3) n(1) by (auto simp: place_def)
    have over: "overtakes D m H cur b"
      using cur better(3,4) n(2) at by (simp add: overtakes_def del: legal_step.simps)
    obtain z where z: "mset (nodes q) = add_mset z (mset (nodes q1))" "H2 = ?H1[z := None]"
      using removeNode_Some [OF rm] p1 b by auto
    have za: "z \<noteq> a" using aq mset_insert(1) [OF z(1)] by auto
    have len: "length (nodes q) = Suc (length (nodes q1))" using z(1) by (auto dest: arg_cong [of _ _ size])
    show ?thesis
    proof (cases "addNode D q1 a ?f")
      case None
      then have "q1 = LNull" using addNode_Some [of q1 D a ?f] by (cases "q1 = LNull") auto
      then have "length (nodes q) = 1" using removeNode_null [OF rm q] by auto
      then have "nodes q = [b]" using b(1) by (auto simp: length_Suc_conv)
      then show ?thesis using better(1) None b(2) over by auto
    next
      case (Some q2)
      have "place H2 a = place H a" using p1 [of a] za z(2) by (simp add: place_def deref_update)
      then show ?thesis using better(1) Some addNode_size [OF Some] by auto
    qed
  qed
qed

lemma overtakes_cong:
  "deref H' a = deref H a \<Longrightarrow> deref H' b = deref H b \<Longrightarrow> overtakes D m H' a b = overtakes D m H a b"
  by (simp add: overtakes_def)

lemma relax_all_outcome:
  assumes "search_ok m H0 start g k q c (nodes ns) H" "q \<noteq> LNull" "ns \<noteq> LNull"
    and "cur \<in> set (nodes c)" "deref H cur = Some x"
    and "\<forall>a \<in> set (nodes ns). \<exists>r. place H a = Some r \<and> legal_step m (n_x x, n_y x) r"
  shows "case relax_all D gp c cur ns q H of
      None \<Rightarrow> \<exists>b. nodes q = [b] \<and> place H b \<in> place H ` set (nodes ns) \<and> overtakes D m H cur b
    | Some (q', H') \<Rightarrow> q' \<noteq> LNull"
  using assms
proof (induction D gp c cur ns q H rule: relax_all.induct)
  case (1 D gp c cur ns q H)
  obtain a ns' where pop: "pop ns = Some (a, ns')" "ns' \<noteq> LNull" using pop_total [OF 1(4)] by blast
  show ?case
  proof (cases a)
    case None
    then show ?thesis using pop(1) 1(3) by (subst relax_all.simps) simp
  next
    case (Some n)
    then have ns: "nodes ns = n # nodes ns'" using pop pop_Some by blast
    obtain r where r: "place H n = Some r" "legal_step m (n_x x, n_y x) r" using 1(7) ns by auto
    have ok: "search_ok m H0 start g k q c (n # nodes ns') H" using 1(2) ns by simp
    note R = relax_outcome [OF ok 1(3) 1(6) r, of D gp]
    show ?thesis
    proof (cases "relax D gp c cur n q H")
      case None
      then have "relax_all D gp c cur ns q H = None" using pop(1) Some by (subst relax_all.simps) simp
      then show ?thesis using R None ns by auto
    next
      case S: (Some qH)
      obtain q1 H1 where H1: "relax D gp c cur n q H = Some (q1, H1)" using S by (cases qH) simp
      have all: "relax_all D gp c cur ns q H = relax_all D gp c cur ns' q1 H1"
        using pop(1) Some H1 by (subst relax_all.simps) simp
      have step: "search_ok m H0 start g k q1 c (nodes ns') H1"
        "\<forall>y \<in> set (nodes c) \<union> set (nodes ns'). deref H1 y = deref H y"
        using relax_ok [OF ok H1 1(5,6) r] by auto
      have cur1: "deref H1 cur = Some x" using step(2) 1(5,6) by simp
      have pl: "place H1 y = place H y" if "y \<in> set (nodes ns')" for y
        using step(2) that by (intro place_cong) blast
      then have near: "\<forall>a \<in> set (nodes ns'). \<exists>r. place H1 a = Some r \<and> legal_step m (n_x x, n_y x) r"
        using 1(7) ns by auto
      have q1: "q1 \<noteq> LNull" using R H1 by simp
      have IH: "case relax_all D gp c cur ns' q1 H1 of
          None \<Rightarrow> \<exists>b. nodes q1 = [b] \<and> place H1 b \<in> place H1 ` set (nodes ns') \<and> overtakes D m H1 cur b
        | Some (q', H') \<Rightarrow> q' \<noteq> LNull"
        by (rule 1(1) [OF pop(1) refl Some H1 refl step(1) q1 pop(2) 1(5) cur1 near])
      show ?thesis
      proof (cases "relax_all D gp c cur ns' q1 H1")
        case None
        then obtain b where b: "nodes q1 = [b]" "place H1 b \<in> place H1 ` set (nodes ns')" "overtakes D m H1 cur b" using IH by auto
        have img: "place H1 ` set (nodes ns') = place H ` set (nodes ns')" using pl by simp
        have "inj_on (place H) (insert n (set (nodes ns')))" "n \<notin> set (nodes ns')"
          using ok search_invD(8) unfolding search_ok_def by fastforce+
        then have "place H n \<notin> place H ` set (nodes ns')" by (simp add: inj_on_insert)
        then have "\<not> (nodes q1 = [n] \<and> place H1 n = place H n)" using b(1,2) img by auto
        moreover have "\<not> 2 \<le> length (nodes q1)" using b(1) by simp
        ultimately have keep: "nodes q1 = nodes q" "\<forall>b \<in> set (nodes q). deref H1 b = deref H b" using R H1 by auto
        have same1: "nodes q = [b]" using keep(1) b(1) by simp
        then have same: "nodes q = [b]" "deref H1 b = deref H b" using keep(2) by simp_all
        have "place H b \<in> place H ` set (nodes ns)" using b(2) img place_cong [OF same(2)] ns by simp
        moreover have "overtakes D m H cur b" using b(3) overtakes_cong [OF _ same(2), of cur] cur1 1(6) by simp
        ultimately show ?thesis using all None same(1) by simp
      qed (use IH all in auto)
    qed
  qed
qed

section \<open>Rounds\<close>

lemma search_round_outcome:
  assumes ok: "search_ok m H0 start g k q c [] H" and c: "c \<noteq> LNull" and m: "wf_grid m" "walled m" "inside start"
  shows "case search_round D m gp k q c H of
      None \<Rightarrow> collapsing D m q H
    | Some (Going q' c' H') \<Rightarrow> c' \<noteq> LNull
    | Some r \<Rightarrow> True"
proof (cases "q = LNull")
  case True
  then show ?thesis by (simp add: search_round_def)
next
  case False
  obtain a q1 where a: "pop q = Some (a, q1)" "q1 \<noteq> LNull" using pop_total [OF False] by blast
  show ?thesis
  proof (cases a)
    case None
    then show ?thesis using a False by (simp add: search_round_def)
  next
    case (Some cur)
    have q: "nodes q = cur # nodes q1" using a Some pop_Some by blast
    have inv: "search_inv m H0 start g k (insert cur (set (nodes q1))) (set (nodes c)) {} H"
      and dst: "distinct (nodes q1)" "cur \<notin> set (nodes q1)" "distinct (nodes c)" "length H0 \<le> length H"
      using ok q by (auto simp: search_ok_def)
    note I = search_invD [OF inv]
    obtain b where b: "deref H cur = Some b" using I(6) [of cur] by auto
    obtain eq where eq: "nodeEqauls H cur k = Some eq" using b I(12) by (auto simp: nodeEqauls_place place_def)
    have goal: "eq \<longleftrightarrow> place H cur = Some g" using eq I(12) b by (auto simp: nodeEqauls_place place_def)
    show ?thesis
    proof (cases eq)
      case True
      then show ?thesis using a False Some eq by (simp add: search_round_def)
    next
      case noteq: False
      obtain c1 where c1: "addNode D c cur (estDistanceG D gp (n_x b) (n_y b)) = Some c1" using addNode_Some [OF c] by blast
      have "inside (n_x b, n_y b)" by (rule node_inside [OF inv m _ b]) simp
      then obtain ns H1 where ns: "genNeighbors D m cur H = Some (ns, H1)" "ns \<noteq> LNull"
        using genNeighbors_total [OF m(1) b] by blast
      have run: "search_round D m gp k q c H = do { (q2, H2) \<leftarrow> relax_all D gp c1 cur ns q1 H1; Some (Going q2 c1 H2) }"
        using a False Some eq noteq b c1 ns by (simp add: search_round_def)
      have C1: "set (nodes c1) = insert cur (set (nodes c))" "distinct (nodes c1)"
        using addNode_nodes [OF c1] mset_insert [of "nodes c1" cur "nodes c"] dst(3) I(1) by auto
      have F: "fresh_nodes H {q. legal_step m (n_x b, n_y b) q} (ns, H1)"
        using genNeighbors_Some [OF ns(1)] b by auto
      then have F': "H1 = H @ drop (length H) H1" "distinct (nodes ns)" "place H1 ` set (nodes ns) = Some ` {q. legal_step m (n_x b, n_y b) q}"
        unfolding fresh_nodes_def prod.case by auto
      have "search_inv m H0 start g k (set (nodes q1)) (set (nodes c1)) (set (nodes ns)) H1"
        using search_inv_close [OF inv dst(2) b _ F dst(4)] goal noteq C1(1) by simp
      moreover have "length H \<le> length H1" using F'(1) by (metis le_add1 length_append)
      ultimately have ok1: "search_ok m H0 start g k q1 c1 (nodes ns) H1"
        using dst C1(2) F'(2) by (simp add: search_ok_def)
      have keep: "deref H1 y = deref H y" if "deref H y \<noteq> None" for y
        using that F'(1) deref_append deref_bound by (metis not_None_eq)
      have b1: "deref H1 cur = Some b" using b keep by simp
      have near: "\<forall>x \<in> set (nodes ns). \<exists>r. place H1 x = Some r \<and> legal_step m (n_x b, n_y b) r"
        using F'(3) by (metis (mono_tags, lifting) imageE imageI mem_Collect_eq)
      have R: "case relax_all D gp c1 cur ns q1 H1 of
          None \<Rightarrow> \<exists>y. nodes q1 = [y] \<and> place H1 y \<in> place H1 ` set (nodes ns) \<and> overtakes D m H1 cur y
        | Some (q', H') \<Rightarrow> q' \<noteq> LNull"
        by (rule relax_all_outcome [OF ok1 a(2) ns(2) _ b1 near]) (simp add: C1)
      show ?thesis
      proof (cases "relax_all D gp c1 cur ns q1 H1")
        case None
        then obtain y where y: "nodes q1 = [y]" "overtakes D m H1 cur y" using R by auto
        then have "deref H y \<noteq> None" using I(6) [of y] by simp
        then have "overtakes D m H cur y" using y(2) overtakes_cong [of H1 cur H y] keep b by simp
        then show ?thesis using run None q y(1) by (simp add: collapsing_def)
      next
        case S: (Some qH)
        then show ?thesis using run addNode_nodes [OF c1] by (cases qH) simp
      qed
    qed
  qed
qed

lemma search_rounds_outcome:
  assumes "search_ok m H0 start g k q c [] H" "c \<noteq> LNull" "wf_grid m" "walled m" "inside start"
    and "search_rounds D m gp k n (Going q c H) = None"
  shows "\<exists>j q' c' H'. search_rounds D m gp k j (Going q c H) = Some (Going q' c' H') \<and> collapsing D m q' H'"
  using assms
proof (induction n arbitrary: q c H)
  case (Suc n)
  note R = search_round_outcome [OF Suc.prems(1-5), of D gp]
  show ?case
  proof (cases "search_round D m gp k q c H")
    case None
    then have "collapsing D m q H" using R by simp
    moreover have "search_rounds D m gp k 0 (Going q c H) = Some (Going q c H)" by simp
    ultimately show ?thesis by blast
  next
    case (Some r)
    then have rest: "search_rounds D m gp k n r = None" using Suc.prems(6) by simp
    then obtain q1 c1 H1 where r: "r = Going q1 c1 H1" by (cases r; cases n) auto
    have ok1: "search_ok m H0 start g k q1 c1 [] H1" using search_round_ok [OF Suc.prems(1) Some] r by simp
    have c1: "c1 \<noteq> LNull" using R Some r by simp
    have rest1: "search_rounds D m gp k n (Going q1 c1 H1) = None" using rest r by simp
    obtain j q' c' H' where j: "search_rounds D m gp k j (Going q1 c1 H1) = Some (Going q' c' H')" "collapsing D m q' H'"
      using Suc.IH [OF ok1 c1 Suc.prems(3-5) rest1] by (elim exE conjE)
    have "search_rounds D m gp k (Suc j) (Going q c H) = Some (Going q' c' H')" using Some r j(1) by simp
    then show ?thesis using j(2) by blast
  qed
qed simp

text \<open>The closed list is never null.\<close>

lemma search_rounds_closed:
  "search_rounds D m gp k n (Going q c H) = Some r \<Longrightarrow> c \<noteq> LNull \<Longrightarrow>
   case r of Going q' c' H' \<Rightarrow> c' \<noteq> LNull | Found cur q' c' H' \<Rightarrow> c' \<noteq> LNull | NoPath H' \<Rightarrow> True"
proof (induction n arbitrary: q c H)
  case (Suc n)
  obtain r1 where r1: "search_round D m gp k q c H = Some r1" "search_rounds D m gp k n r1 = Some r"
    using Suc.prems(1) by (auto simp: Option.bind_eq_Some_conv)
  have "case r1 of Going q' c' H' \<Rightarrow> c' \<noteq> LNull | Found cur q' c' H' \<Rightarrow> c' \<noteq> LNull | NoPath H' \<Rightarrow> True"
    using r1(1) Suc.prems(2) addNode_size(1)
    by (auto simp: search_round_def Option.bind_eq_Some_conv split: if_splits option.splits)
  then show ?case using r1(2) Suc.IH by (cases r1; cases n) auto
qed auto

section \<open>Taking the route\<close>

lemma eraseAllButList_total:
  assumes "kl \<noteq> LNull" "distinct (nodes kl)" "\<forall>a \<in> set (nodes kl) \<union> set (nodes sl). deref H a \<noteq> None"
  shows "eraseAllButList kl sl H \<noteq> None"
  using assms
proof (induction kl sl H rule: eraseAllButList.induct)
  case (1 kl sl H)
  obtain c kl' where c: "pop kl = Some (c, kl')" "kl' \<noteq> LNull" using pop_total [OF 1(2)] by blast
  show ?case
  proof (cases c)
    case None
    then show ?thesis using c(1) by (subst eraseAllButList.simps) simp
  next
    case (Some a)
    then have kl: "nodes kl = a # nodes kl'" using c(1) pop_Some by blast
    obtain found where f: "findNode sl a H = Some found" using findNode_total [of sl H a] 1(4) kl by auto
    obtain H1 where H1: "(if found \<noteq> None then Some H else free_node a H) = Some H1"
      "\<forall>b. b \<noteq> a \<or> b \<in> set (nodes sl) \<longrightarrow> deref H1 b = deref H b"
    proof (cases found)
      case None
      then have "a \<notin> set (nodes sl)" using findNode_Some [OF f] by auto
      moreover have "free_node a H = Some (H[a := None])" using 1(4) kl by (auto simp: free_node_Some)
      ultimately show thesis using that [of "H[a := None]"] None by (auto simp: deref_update)
    qed (use that in auto)
    have "\<forall>b \<in> set (nodes kl') \<union> set (nodes sl). deref H1 b \<noteq> None"
    proof
      fix b assume b: "b \<in> set (nodes kl') \<union> set (nodes sl)"
      then have "b \<noteq> a \<or> b \<in> set (nodes sl)" using 1(3) kl by auto
      then have "deref H1 b = deref H b" using H1(2) by blast
      then show "deref H1 b \<noteq> None" using 1(4) b kl by auto
    qed
    moreover have "distinct (nodes kl')" using 1(3) kl by simp
    ultimately have "eraseAllButList kl' sl H1 \<noteq> None" using 1(1) [OF c(1) refl Some f H1(1) c(2)] by blast
    then show ?thesis using c(1) Some f H1(1) by (subst eraseAllButList.simps) simp
  qed
qed

lemma extract_path_total:
  "route m H (a # p) \<Longrightarrow> length p < n \<Longrightarrow> \<exists>l'. extract_path n (Some a) l H = Some l' \<and> nodes l' = rev (a # p) @ nodes l"
proof (induction p arbitrary: a n l)
  case Nil
  then show ?case by (cases n) (auto simp: push_def)
next
  case (Cons b p)
  then obtain n' where n: "n = Suc n'" by (cases n) auto
  have "route m H (b # p)" "length p < n'" using Cons.prems n by auto
  then obtain l' where "extract_path n' (Some b) (push l a) H = Some l'" "nodes l' = rev (b # p) @ nodes (push l a)"
    using Cons.IH by blast
  then show ?case using Cons.prems n by (auto simp: push_def)
qed

lemma take_path_total:
  assumes ok: "search_ok m H0 start g k q1 c [] H" and q: "nodes q1 = cur # nodes q" "q \<noteq> LNull" and c: "c \<noteq> LNull"
    and path: "path \<noteq> LNull" "distinct (nodes path)" "\<forall>a \<in> set (nodes path). deref H0 a \<noteq> None"
  shows "take_path k cur q c path H \<noteq> None"
proof -
  have inv: "search_inv m H0 start g k (insert cur (set (nodes q))) (set (nodes c)) {} H"
    and dst: "cur \<notin> set (nodes q)" "distinct (nodes q)" "distinct (nodes c)"
    using ok q(1) by (auto simp: search_ok_def)
  note I = search_invD [OF inv]
  let ?own = "insert cur (set (nodes q)) \<union> set (nodes c)"
  have old: "\<forall>a \<in> set (nodes path). a < length H0" using path(3) deref_bound by auto
  have own: "a \<notin> set (nodes path)" "a \<noteq> k" "deref H a \<noteq> None" if "a \<in> ?own" for a
  proof -
    have a: "a \<in> ?own \<union> {}" using that by simp
    show "a \<notin> set (nodes path)" using I(4) [OF a] old leD by blast
    show "a \<noteq> k" using a I(5) by metis
    show "deref H a \<noteq> None" by (rule I(6) [OF a])
  qed
  have k: "free_node k H = Some (H[k := None])" using I(12) by (auto simp: free_node_Some place_def)
  have "deref (H[k := None]) a \<noteq> None" if a: "a \<in> set (nodes path)" for a
  proof -
    have "a < length H0" using old a by blast
    then have "a \<noteq> k" "deref H a = deref H0 a" using I(11) I(15) by simp_all
    then show ?thesis using path(3) a by (simp add: deref_update)
  qed
  then obtain path1 H2 where H2: "eraseList path (H[k := None]) = Some (path1, H2)" using eraseList_total [OF path(1,2)] by blast
  have d2: "deref H2 a = deref H a" if "a \<in> ?own" for a
    using eraseList_Some [OF H2] own [OF that] by (simp add: deref_update)
  have len2: "length H2 = length H" using eraseList_Some [OF H2] by simp
  obtain p where p: "route m H (cur # p)" "set p \<subseteq> set (nodes c)" "distinct (cur # p)"
    using I(9) [of cur] unfolding linked_def by blast
  have "a < length H" if "a \<in> ?own" for a using own(3) [OF that] deref_bound by auto
  then have sub: "set (cur # p) \<subseteq> {..<length H}" using p(2) by auto
  then have "length (cur # p) \<le> length H" using card_mono [OF _ sub] distinct_card [OF p(3)] by simp
  moreover have "route m H2 (cur # p)" using route_cong [of "cur # p" H2 H m] p(1,2) d2 by auto
  ultimately obtain path2 where P: "extract_path (Suc (length H2)) (Some cur) path1 H2 = Some path2" "nodes path2 = rev (cur # p)"
    using extract_path_total [of m H2 cur p "Suc (length H2)" path1] eraseList_Some [OF H2] len2 by auto
  have "\<forall>a \<in> set (nodes q). deref H2 a \<noteq> None" using d2 own(3) by auto
  then obtain open1 H3 where H3: "eraseList q H2 = Some (open1, H3)" using eraseList_total [OF q(2) dst(2)] by blast
  have "\<forall>a \<in> set (nodes c) \<union> set (nodes path2). deref H3 a \<noteq> None"
  proof
    fix a assume a: "a \<in> set (nodes c) \<union> set (nodes path2)"
    then have "a \<in> insert cur (set (nodes c))" using P(2) p(2) by auto
    then have "a \<in> ?own" "a \<notin> set (nodes q)" using I(1) dst(1) by auto
    then show "deref H3 a \<noteq> None" using eraseList_Some [OF H3] d2 own(3) by simp
  qed
  from eraseAllButList_total [OF c dst(3) this] obtain H4 where "eraseAllButList c path2 H3 = Some H4" by auto
  then show ?thesis using k H2 P(1) H3 by (simp add: take_path_def del: extract_path.simps)
qed

end
