(* ===== verification/CommProps.thy ===== *)
theory CommProps
  imports FdServer
begin

text \<open>
  Properties of the messages and of their transport. \<open>message_format\<close> is what a message type owes to
  the pipes and to the vote: a fixed size, and bytes from which the message can be read back. The five
  message structs of fixed size are instances of it. Then come the map update, whose length is part of
  it, the textual form of a pipe, and the hand-over of descriptors between voter and replica.
\<close>

section \<open>Message formats\<close>

locale message_format =
  fixes enc :: "'m \<Rightarrow> byte list" and dec :: "byte list \<Rightarrow> 'm" and wf :: "'m \<Rightarrow> bool" and size :: nat
  assumes enc_size: "wf m \<Longrightarrow> length (enc m) = size"
    and dec_enc: "wf m \<Longrightarrow> dec (enc m @ bs) = m"
begin

lemma enc_inject: "wf m \<Longrightarrow> wf n \<Longrightarrow> enc m = enc n \<longleftrightarrow> m = n"
  by (metis append_Nil2 dec_enc)

lemma read_message:
  assumes "wf m" and "on_read K h fd (int size) = Some (enc m @ bs)"
  shows "\<exists>h'. sys_read K fd (int size) h = (int size, enc m, h') \<and> dec (enc m) = m"
  using assms enc_size [of m] dec_enc [of m "[]"] by (simp add: sys_read_def Let_def)

text \<open>Comparing the bytes of two buffered answers decides whether the messages are the same.\<close>

lemma vote_on_messages:
  assumes "wf_pipe a" "wf_pipe b" "buff_index a = buff_index b"
    and "wf m" "wf n" "content a = enc m @ xs" "content b = enc n @ ys"
  shows "compareBuffs a b (int size) = Some 0 \<longleftrightarrow> m = n"
proof -
  have ca: "int (length (content a)) = buff_count a" and cb: "int (length (content b)) = buff_count b"
    using assms(1,2) by (simp_all add: wf_pipe_def)
  have "int size \<le> buff_count a" "int size \<le> buff_count b"
    unfolding ca [symmetric] cb [symmetric] using assms(4-7) enc_size by simp_all
  then have "compareBuffs a b (int size) = Some (bytes_cmp (take size (content a)) (take size (content b)))"
    using compareBuffs_eq [OF assms(1,2), of "int size"] assms(3) by simp
  then show ?thesis
    using assms(4-7) enc_size enc_inject by (simp add: bytes_cmp_eq_0)
qed

end

lemma bytes_doubles_append [simp]: "bytes_doubles (length ds) (doubles_bytes ds @ bs) = ds"
  by (induction ds) (simp_all add: doubles_bytes_def)

lemma bytes_doubles_take: "length ds = n \<Longrightarrow> bytes_doubles n (doubles_bytes ds @ bs) = ds"
  by auto

lemma length_doubles_bytes [simp]: "length (doubles_bytes ds) = 8 * length ds"
  by (induction ds) (simp_all add: doubles_bytes_def)

definition wf_way_req :: "comm_way_req \<Rightarrow> bool" where
  "wf_way_req m \<longleftrightarrow> c_int (padding m)"

definition wf_way_res :: "comm_way_res \<Rightarrow> bool" where
  "wf_way_res m \<longleftrightarrow> length (point m) = 3 \<and> length (n_point m) = 3"

definition wf_mov_cmd :: "comm_mov_cmd \<Rightarrow> bool" where
  "wf_mov_cmd m \<longleftrightarrow> c_int (mov_seq_count m) \<and> length (vel_cmd m) = 2"

definition wf_range_pose :: "comm_range_pose_data \<Rightarrow> bool" where
  "wf_range_pose m \<longleftrightarrow> c_int (range_seq_count m) \<and> length (ranges m) = 16 \<and> length (pose m) = 3"

definition wf_ack :: "comm_ack \<Rightarrow> bool" where
  "wf_ack m \<longleftrightarrow> c_int (resend_request m)"

interpretation way_req: message_format way_req_bytes bytes_way_req wf_way_req 4
  by unfold_locales (simp_all add: wf_way_req_def way_req_bytes_def bytes_way_req_def)

interpretation way_res: message_format way_res_bytes bytes_way_res wf_way_res 48
  by unfold_locales (simp_all add: wf_way_res_def way_res_bytes_def bytes_way_res_def bytes_doubles_take)

interpretation mov_cmd: message_format mov_cmd_bytes bytes_mov_cmd wf_mov_cmd 24
  by unfold_locales (simp_all add: wf_mov_cmd_def mov_cmd_bytes_def bytes_mov_cmd_def bytes_doubles_take)

interpretation range_pose: message_format range_pose_bytes bytes_range_pose wf_range_pose 160
  by unfold_locales
    (simp_all add: wf_range_pose_def range_pose_bytes_def bytes_range_pose_def bytes_doubles_take)

interpretation ack: message_format ack_bytes bytes_ack wf_ack 16
  by unfold_locales (simp_all add: wf_ack_def ack_bytes_def bytes_ack_def)

text \<open>C25: Voting on bytes is voting on move commands: two replicas whose next answers are the commands
  \<open>m\<close> and \<open>n\<close>, buffered at the same ring position, are found to agree exactly when \<open>m = n\<close>. The
  padding of the struct cannot make equal commands differ, as it is cleared before sending.\<close>

theorem vote_compares_commands:
  assumes "wf_pipe a" "wf_pipe b" "buff_index a = buff_index b" "wf_mov_cmd m" "wf_mov_cmd n"
    and "content a = mov_cmd_bytes m @ xs" "content b = mov_cmd_bytes n @ ys"
  shows "compareBuffs a b 24 = Some 0 \<longleftrightarrow> m = n"
  using mov_cmd.vote_on_messages [OF assms] by simp

definition command_pipe :: "comm_mov_cmd \<Rightarrow> vote_pipe" where
  "command_pipe m = \<lparr>rep_info = ''MOV_CMD'', fd_in = 5, fd_out = 0, timed = 1, buff_count = 24, buff_index = 0,
     buffer = mov_cmd_bytes m @ replicate 4072 0\<rparr>"

lemma command_pipe_ok:
  assumes "wf_mov_cmd m"
  shows "wf_pipe (command_pipe m)" "content (command_pipe m) = mov_cmd_bytes m @ []"
proof -
  have len: "length (mov_cmd_bytes m) = 24" using mov_cmd.enc_size [OF assms] .
  show "wf_pipe (command_pipe m)"
    by (simp add: wf_pipe_def command_pipe_def MAX_VOTE_PIPE_BUFF_def len)
  show "content (command_pipe m) = mov_cmd_bytes m @ []"
    by (simp add: content_def command_pipe_def window_simple len)
qed

theorem vote_compares_commands_witness:
  "compareBuffs (command_pipe \<lparr>mov_seq_count = 7, vel_cmd = [1, 0]\<rparr>) (command_pipe \<lparr>mov_seq_count = 7, vel_cmd = [1, 2]\<rparr>) 24
     \<noteq> Some 0"
proof -
  have wf: "wf_mov_cmd \<lparr>mov_seq_count = 7, vel_cmd = [1, x]\<rparr>" for x
    by (simp add: wf_mov_cmd_def c_int_def)
  show ?thesis
    using vote_compares_commands [OF command_pipe_ok(1) [OF wf] command_pipe_ok(1) [OF wf] _ wf wf
        command_pipe_ok(2) [OF wf] command_pipe_ok(2) [OF wf], of 0 2]
    by (simp add: command_pipe_def)
qed

section \<open>Map updates\<close>

text \<open>The pairs of coordinates that \<open>commSendMapUpdate\<close> appends, as long as they fit the buffer.\<close>

definition obstacle_bytes :: "comm_map_update \<Rightarrow> nat \<Rightarrow> byte list" where
  "obstacle_bytes msg n = concat (map (\<lambda>i. [obs_x msg ! i, obs_y msg ! i]) [0..<n])"

lemma length_obstacle_bytes [simp]: "length (obstacle_bytes msg n) = 2 * n"
  by (induction n) (simp_all add: obstacle_bytes_def)

lemma obstacle_bytes_Suc: "obstacle_bytes msg (Suc n) = obstacle_bytes msg n @ [obs_x msg ! n, obs_y msg ! n]"
  by (simp add: obstacle_bytes_def)

lemma obstacle_bytes_nth:
  assumes "i < n"
  shows "obstacle_bytes msg n ! (2 * i) = obs_x msg ! i \<and> obstacle_bytes msg n ! Suc (2 * i) = obs_y msg ! i"
  using assms
proof (induction n)
  case (Suc n)
  show ?case
  proof (cases "i = n")
    case True
    then show ?thesis by (simp add: obstacle_bytes_Suc nth_append)
  next
    case False
    then show ?thesis using Suc by (simp add: obstacle_bytes_Suc nth_append)
  qed
qed simp

lemma map_obs_loop_fits:
  assumes "length hdr + 2 * (i + k) \<le> 4096" "i + k \<le> length (obs_x msg)" "i + k \<le> length (obs_y msg)"
  shows "map_obs_loop k (int i) msg (hdr @ obstacle_bytes msg i) = Some (hdr @ obstacle_bytes msg (i + k))"
  using assms
proof (induction k arbitrary: i)
  case (Suc k)
  have "map_obs_loop k (int (Suc i)) msg (hdr @ obstacle_bytes msg (Suc i)) = Some (hdr @ obstacle_bytes msg (Suc i + k))"
    using Suc.prems by (intro Suc.IH) auto
  then show ?case using Suc.prems by (simp add: obstacle_bytes_Suc MAX_TYPED_PIPE_BUFF_def add.commute)
qed simp

text \<open>Beyond that the loop stops one pair too late, with 4098 bytes.\<close>

lemma map_obs_loop_overruns:
  assumes "length hdr = 12" "i \<le> 2042" "2043 \<le> i + k" "2043 \<le> length (obs_x msg)" "2043 \<le> length (obs_y msg)"
  shows "map_obs_loop k (int i) msg (hdr @ obstacle_bytes msg i) = Some (hdr @ obstacle_bytes msg 2043)"
  using assms
proof (induction k arbitrary: i)
  case (Suc k)
  show ?case
  proof (cases "i = 2042")
    case True
    then show ?thesis using Suc.prems obstacle_bytes_Suc [of msg 2042]
      by (simp add: MAX_TYPED_PIPE_BUFF_def aget_def)
  next
    case False
    have "map_obs_loop k (int (Suc i)) msg (hdr @ obstacle_bytes msg (Suc i)) = Some (hdr @ obstacle_bytes msg 2043)"
      using Suc.prems False by (intro Suc.IH) auto
    then show ?thesis using Suc.prems False by (simp add: obstacle_bytes_Suc MAX_TYPED_PIPE_BUFF_def add.commute)
  qed
qed simp

definition map_header :: "comm_map_update \<Rightarrow> byte list" where
  "map_header msg = be_bytes (pose_x msg) @ be_bytes (pose_y msg) @ be_bytes (obs_count msg)"

lemma length_be_bytes [simp]: "length (be_bytes i) = 4"
  by (simp add: be_bytes_def)

lemma be_int_append [simp]: "c_int i \<Longrightarrow> be_int (be_bytes i @ bs) = i"
  by (simp add: be_int_def be_bytes_def)

lemma length_map_header [simp]: "length (map_header msg) = 12"
  by (simp add: map_header_def)

lemma map_header_read:
  assumes "c_int (pose_x msg)" "c_int (pose_y msg)" "c_int (obs_count msg)"
  shows "be_int (map_header msg @ bs) = pose_x msg" "be_int (drop 4 (map_header msg @ bs)) = pose_y msg"
    "be_int (drop 8 (map_header msg @ bs)) = obs_count msg"
  using assms by (simp_all add: map_header_def)

lemma commSendMapUpdate_eq:
  assumes "tp_type p = MAP_UPDATE" "tp_fd_out p \<noteq> 0" "0 \<le> obs_count msg"
    and "nat (obs_count msg) \<le> length (obs_x msg)" "nat (obs_count msg) \<le> length (obs_y msg)"
  shows "commSendMapUpdate K p msg h = Some (sys_write K (tp_fd_out p)
    (map_header msg @ obstacle_bytes msg (min 2043 (nat (obs_count msg)))) h)"
proof (cases "nat (obs_count msg) \<le> 2042")
  case True
  then show ?thesis
    using map_obs_loop_fits [of "map_header msg" 0 "nat (obs_count msg)" msg] assms
    by (simp add: commSendMapUpdate_def obstacle_bytes_def map_header_def)
next
  case False
  then show ?thesis
    using map_obs_loop_overruns [of "map_header msg" 0 "nat (obs_count msg)" msg] assms
    by (simp add: commSendMapUpdate_def obstacle_bytes_def map_header_def)
qed

text \<open>A descriptor that delivers a stream: after \<open>h\<close>, each read gets the bytes that follow those read.\<close>

definition delivers :: "posix \<Rightarrow> int \<Rightarrow> byte list \<Rightarrow> history \<Rightarrow> bool" where
  "delivers K fd bs h \<longleftrightarrow> (\<forall>es n. on_read K (h @ es) fd n = Some (drop (length (read_bytes es)) bs))"

lemma delivers_read:
  assumes "delivers K fd bs h"
  shows "sys_read K fd n h = (int (length (take (nat n) bs)), take (nat n) bs, h @ [SysRead fd n (Some (take (nat n) bs))])"
    "sys_read K fd m (h @ [SysRead fd n (Some (take (nat n) bs))])
      = (int (length (take (nat m) (drop (nat n) bs))), take (nat m) (drop (nat n) bs),
         h @ [SysRead fd n (Some (take (nat n) bs)), SysRead fd m (Some (take (nat m) (drop (nat n) bs)))])"
proof -
  have r: "on_read K (h @ es) fd k = Some (drop (length (read_bytes es)) bs)" for es k
    using assms by (simp add: delivers_def)
  have d: "drop (min (length bs) (nat n)) bs = drop (nat n) bs"
    by (simp add: min_def)
  show "sys_read K fd n h = (int (length (take (nat n) bs)), take (nat n) bs, h @ [SysRead fd n (Some (take (nat n) bs))])"
    using r [of "[]" n] by (simp add: sys_read_def Let_def)
  show "sys_read K fd m (h @ [SysRead fd n (Some (take (nat n) bs))])
      = (int (length (take (nat m) (drop (nat n) bs))), take (nat m) (drop (nat n) bs),
         h @ [SysRead fd n (Some (take (nat n) bs)), SysRead fd m (Some (take (nat m) (drop (nat n) bs)))])"
    using r [of "[SysRead fd n (Some (take (nat n) bs))]" m] by (simp add: sys_read_def d Let_def)
qed

lemma recv_obstacles:
  assumes block: "block = hdr @ obstacle_bytes msg n @ junk" "length hdr = 12"
    and len: "n \<le> length (obs_x m)" "n \<le> length (obs_y m)" "n \<le> length (obs_x msg)" "n \<le> length (obs_y msg)"
  shows "\<exists>m'. for_upto 0 (int n) (\<lambda>index m. do {
      x \<leftarrow> aget block (12 + index * 2);
      y \<leftarrow> aget block (12 + (index * 2 + 1));
      ox \<leftarrow> aset (obs_x m) index x;
      oy \<leftarrow> aset (obs_y m) index y;
      Some (m\<lparr>obs_x := ox, obs_y := oy\<rparr>) }) m = Some m'
    \<and> m' = m\<lparr>obs_x := take n (obs_x msg) @ drop n (obs_x m), obs_y := take n (obs_y msg) @ drop n (obs_y m)\<rparr>"
proof (rule for_upto_nat [where P = "\<lambda>i m'. m' = m\<lparr>obs_x := take i (obs_x msg) @ drop i (obs_x m),
      obs_y := take i (obs_y msg) @ drop i (obs_y m)\<rparr>"])
  fix i m' assume i: "i < n" and m': "m' = m\<lparr>obs_x := take i (obs_x msg) @ drop i (obs_x m),
      obs_y := take i (obs_y msg) @ drop i (obs_y m)\<rparr>"
  have at: "block ! (12 + j) = obstacle_bytes msg n ! j" if "j < 2 * n" for j
    using that block by (simp add: nth_append)
  have "aget block (12 + int i * 2) = Some (obs_x msg ! i)"
    using at [of "2 * i"] obstacle_bytes_nth [OF i, of msg] i block by (simp add: aget_def nat_add_distrib nat_mult_distrib mult.commute)
  moreover have "aget block (12 + (int i * 2 + 1)) = Some (obs_y msg ! i)"
    using at [of "Suc (2 * i)"] obstacle_bytes_nth [OF i, of msg] i block
    by (simp add: aget_def nat_add_distrib nat_mult_distrib mult.commute)
  moreover have "(take i xs @ drop i ys)[i := xs ! i] = take (Suc i) xs @ drop (Suc i) ys"
    if "i < length xs" "i < length ys" for xs ys :: "byte list"
    using that by (simp add: list_update_append take_Suc_conv_app_nth Cons_nth_drop_Suc [symmetric])
  ultimately show "\<exists>s'. do {
      x \<leftarrow> aget block (12 + int i * 2);
      y \<leftarrow> aget block (12 + (int i * 2 + 1));
      ox \<leftarrow> aset (obs_x m') (int i) x;
      oy \<leftarrow> aset (obs_y m') (int i) y;
      Some (m'\<lparr>obs_x := ox, obs_y := oy\<rparr>) } = Some s' \<and> s' = m\<lparr>obs_x := take (Suc i) (obs_x msg) @ drop (Suc i) (obs_x m),
      obs_y := take (Suc i) (obs_y msg) @ drop (Suc i) (obs_y m)\<rparr>"
    using i m' len by simp
qed simp

lemma recv_map_update:
  assumes q: "tp_type q = MAP_UPDATE" "tp_fd_in q \<noteq> 0"
    and ints: "c_int (pose_x msg)" "c_int (pose_y msg)" "c_int (obs_count msg)"
    and n: "obs_count msg = int n" "n \<le> 2042"
    and len: "n \<le> length (obs_x old)" "n \<le> length (obs_y old)" "n \<le> length (obs_x msg)" "n \<le> length (obs_y msg)"
    and stream: "delivers K (tp_fd_in q) (map_header msg @ obstacle_bytes msg n) h"
  shows "\<exists>r msg' h'. commRecvMapUpdate K q old h = Some (r, msg', h') \<and> 0 < r
    \<and> pose_x msg' = pose_x msg \<and> pose_y msg' = pose_y msg \<and> obs_count msg' = obs_count msg
    \<and> take n (obs_x msg') = take n (obs_x msg) \<and> take n (obs_y msg') = take n (obs_y msg)"
proof (cases "n = 0")
  case True
  then show ?thesis
    using q delivers_read(1) [OF stream, of 12] map_header_read [OF ints, of "[]"] n
    by (simp add: commRecvMapUpdate_def obstacle_bytes_def Let_def)
next
  case False
  let ?m = "old\<lparr>pose_x := pose_x msg, pose_y := pose_y msg, obs_count := int n\<rparr>"
  let ?block = "map_header msg @ obstacle_bytes msg n @ replicate (4084 - 2 * n) 0"
  have len': "n \<le> length (obs_x ?m)" "n \<le> length (obs_y ?m)" using len by simp_all
  note recv = recv_obstacles [where hdr = "map_header msg" and msg = msg and n = n and m = ?m
      and junk = "replicate (4084 - 2 * n) 0", OF refl length_map_header len'(1,2) len(3,4)]
  have "mem_write (map_header msg @ replicate (nat MAX_TYPED_PIPE_BUFF - 12) 0) 12 (obstacle_bytes msg n) = Some ?block"
    using n by (simp add: mem_write_def MAX_TYPED_PIPE_BUFF_def)
  moreover have "nat (2 * int n) = 2 * n" by simp
  ultimately show ?thesis
    using q delivers_read(1) [OF stream, of 12] delivers_read(2) [OF stream, of "2 * int n" 12]
      map_header_read [OF ints, of "[]"] n False recv len
    by (auto simp: commRecvMapUpdate_def Let_def)
qed

text \<open>C26: A map update arrives as it was sent: the poses, the number of obstacles and their coordinates
  that \<open>commSendMapUpdate\<close> writes are what \<open>commRecvMapUpdate\<close> reads from a pipe that delivers these
  bytes, for up to 2042 obstacles, and the receiver stays inside its buffers.\<close>

theorem map_update_roundtrip:
  assumes "tp_type p = MAP_UPDATE" "tp_fd_out p \<noteq> 0" "tp_type q = MAP_UPDATE" "tp_fd_in q \<noteq> 0"
    and "c_int (pose_x msg)" "c_int (pose_y msg)" "obs_count msg = int n" "n \<le> 2042"
    and "n \<le> length (obs_x msg)" "n \<le> length (obs_y msg)" "n \<le> length (obs_x old)" "n \<le> length (obs_y old)"
  shows "\<exists>bs. commSendMapUpdate K p msg h = Some (sys_write K (tp_fd_out p) bs h)
    \<and> (\<forall>K' h'. delivers K' (tp_fd_in q) bs h' \<longrightarrow>
        (\<exists>r msg' h''. commRecvMapUpdate K' q old h' = Some (r, msg', h'') \<and> 0 < r
          \<and> pose_x msg' = pose_x msg \<and> pose_y msg' = pose_y msg \<and> obs_count msg' = obs_count msg
          \<and> take n (obs_x msg') = take n (obs_x msg) \<and> take n (obs_y msg') = take n (obs_y msg)))"
proof (rule exI [of _ "map_header msg @ obstacle_bytes msg n"], rule conjI)
  have m: "min 2043 n = n" using assms(8) by simp
  show "commSendMapUpdate K p msg h = Some (sys_write K (tp_fd_out p) (map_header msg @ obstacle_bytes msg n) h)"
    using commSendMapUpdate_eq [of p msg K h] assms m by simp
  have "c_int (obs_count msg)" using assms(7,8) by (simp add: c_int_def)
  then show "\<forall>K' h'. delivers K' (tp_fd_in q) (map_header msg @ obstacle_bytes msg n) h' \<longrightarrow>
      (\<exists>r msg' h''. commRecvMapUpdate K' q old h' = Some (r, msg', h'') \<and> 0 < r
        \<and> pose_x msg' = pose_x msg \<and> pose_y msg' = pose_y msg \<and> obs_count msg' = obs_count msg
        \<and> take n (obs_x msg') = take n (obs_x msg) \<and> take n (obs_y msg') = take n (obs_y msg))"
    using recv_map_update [of q msg n old] assms by blast
qed

definition small_map :: comm_map_update where
  "small_map = \<lparr>pose_x = 24, pose_y = 300, obs_count = 2, obs_x = [3, 4], obs_y = [5, 47]\<rparr>"

definition empty_map :: comm_map_update where
  "empty_map = \<lparr>pose_x = 0, pose_y = 0, obs_count = 0, obs_x = [0, 0, 0], obs_y = [0, 0, 0]\<rparr>"

definition stream_system :: "int \<Rightarrow> byte list \<Rightarrow> posix" where
  "stream_system fd bs = quiet\<lparr>on_read := \<lambda>h f n. Some (if f = fd then drop (length (read_bytes h)) bs else [])\<rparr>"

lemma stream_system_delivers: "delivers (stream_system fd bs) fd bs []"
  by (simp add: delivers_def stream_system_def)

theorem map_update_roundtrip_witness:
  "\<exists>bs r msg' h'. commSendMapUpdate quiet \<lparr>tp_type = MAP_UPDATE, tp_fd_in = 0, tp_fd_out = 7\<rparr> small_map []
      = Some (sys_write quiet 7 bs [])
    \<and> commRecvMapUpdate (stream_system 6 bs) \<lparr>tp_type = MAP_UPDATE, tp_fd_in = 6, tp_fd_out = 0\<rparr> empty_map [] = Some (r, msg', h')
    \<and> pose_y msg' = 300 \<and> take 2 (obs_x msg') = [3, 4]"
proof -
  let ?p = "\<lparr>tp_type = MAP_UPDATE, tp_fd_in = 0, tp_fd_out = 7\<rparr>" and ?q = "\<lparr>tp_type = MAP_UPDATE, tp_fd_in = 6, tp_fd_out = 0\<rparr>"
  obtain bs where bs: "commSendMapUpdate quiet ?p small_map [] = Some (sys_write quiet 7 bs [])"
    "\<forall>K' h'. delivers K' 6 bs h' \<longrightarrow> (\<exists>r msg' h''. commRecvMapUpdate K' ?q empty_map h' = Some (r, msg', h'') \<and> 0 < r
      \<and> pose_x msg' = 24 \<and> pose_y msg' = 300 \<and> obs_count msg' = 2
      \<and> take 2 (obs_x msg') = [3, 4] \<and> take 2 (obs_y msg') = [5, 47])"
    using map_update_roundtrip [of ?p ?q small_map 2 empty_map quiet "[]"]
    by (auto simp: small_map_def empty_map_def c_int_def)
  then show ?thesis using stream_system_delivers [of 6 bs] by blast
qed

text \<open>C27: With more obstacles the update breaks. The limit is tested after a pair is appended, so the sender
  writes 4098 bytes, and the receiver, which asks for all of \<open>2 * obs_count\<close> bytes, gets two bytes more
  than its buffer of 4096 can take: the write past its end has no defined result.\<close>

theorem map_update_overrun:
  assumes "tp_type p = MAP_UPDATE" "tp_fd_out p \<noteq> 0" "tp_type q = MAP_UPDATE" "tp_fd_in q \<noteq> 0"
    and "c_int (pose_x msg)" "c_int (pose_y msg)" "2043 \<le> obs_count msg" "obs_count msg < 2 ^ 30"
    and "nat (obs_count msg) \<le> length (obs_x msg)" "nat (obs_count msg) \<le> length (obs_y msg)"
  shows "\<exists>bs. commSendMapUpdate K p msg h = Some (sys_write K (tp_fd_out p) bs h) \<and> length bs = 4098
    \<and> (\<forall>K' h' old. delivers K' (tp_fd_in q) bs h' \<longrightarrow> commRecvMapUpdate K' q old h' = None)"
proof (intro exI conjI allI impI)
  let ?bs = "map_header msg @ obstacle_bytes msg 2043"
  have m: "min 2043 (nat (obs_count msg)) = 2043" using assms(7) by linarith
  show "commSendMapUpdate K p msg h = Some (sys_write K (tp_fd_out p) ?bs h)"
    using commSendMapUpdate_eq [of p msg K h] assms m by simp
  show "length ?bs = 4098" by simp
  fix K' h' old
  assume stream: "delivers K' (tp_fd_in q) ?bs h'"
  have ci: "c_int (obs_count msg)" using assms by (simp add: c_int_def)
  have t: "min 4086 (nat (2 * obs_count msg)) = 4086" using assms by (simp add: min_def)
  show "commRecvMapUpdate K' q old h' = None"
    using assms delivers_read(1) [OF stream, of 12] delivers_read(2) [OF stream, of "2 * obs_count msg" 12]
      map_header_read [OF assms(5,6) ci, of "[]"] t
    by (simp add: commRecvMapUpdate_def Let_def mem_write_def MAX_TYPED_PIPE_BUFF_def)
qed

definition full_map :: comm_map_update where
  "full_map = \<lparr>pose_x = 0, pose_y = 0, obs_count = 2043, obs_x = replicate 2043 1, obs_y = replicate 2043 2\<rparr>"

theorem map_update_overrun_witness:
  "\<exists>bs. commSendMapUpdate quiet \<lparr>tp_type = MAP_UPDATE, tp_fd_in = 0, tp_fd_out = 7\<rparr> full_map [] = Some (sys_write quiet 7 bs [])
    \<and> commRecvMapUpdate (stream_system 6 bs) \<lparr>tp_type = MAP_UPDATE, tp_fd_in = 6, tp_fd_out = 0\<rparr> empty_map [] = None"
proof -
  let ?p = "\<lparr>tp_type = MAP_UPDATE, tp_fd_in = 0, tp_fd_out = 7\<rparr>" and ?q = "\<lparr>tp_type = MAP_UPDATE, tp_fd_in = 6, tp_fd_out = 0\<rparr>"
  obtain bs where bs: "commSendMapUpdate quiet ?p full_map [] = Some (sys_write quiet 7 bs [])"
    "\<forall>K' h' old. delivers K' 6 bs h' \<longrightarrow> commRecvMapUpdate K' ?q old h' = None"
    using map_update_overrun [of ?p ?q full_map quiet "[]"] by (auto simp: full_map_def c_int_def)
  then show ?thesis using stream_system_delivers [of 6 bs] by blast
qed

section \<open>Pipes as text\<close>

lemma aset_append: "0 \<le> j \<Longrightarrow> aset (xs @ ys) (int (length xs) + j) y = map_option ((@) xs) (aset ys j y)"
  by (auto simp: aset_def nat_add_distrib list_update_append)

lemma aset_append_0: "aset (xs @ ys) (int (length xs)) y = map_option ((@) xs) (aset ys 0 y)"
  using aset_append [of 0 xs ys y] by simp

lemma aset_append_left: "0 \<le> j \<Longrightarrow> aset (xs @ ys) (j + int (length xs)) y = map_option ((@) xs) (aset ys j y)"
  using aset_append [of j xs ys y] by (simp add: add.commute)

lemma aset_Cons: "aset (x # xs) i y = (if i = 0 then Some (y # xs) else map_option ((#) x) (aset xs (i - 1) y))"
proof -
  have "nat i = Suc (nat (i - 1))" if "0 < i" using that by simp
  then show ?thesis by (auto simp: aset_def)
qed

lemma write_digits_1: "0 \<le> d \<Longrightarrow> d < 10 \<Longrightarrow> write_digits d 0 i xs = do { ys \<leftarrow> aset xs i (digit_char d); Some (i + 1, ys) }"
  by (subst write_digits.simps) simp

lemma write_digits_2:
  assumes "10 \<le> d" "d < 100"
  shows "write_digits d 1 i xs = do {
    ys \<leftarrow> aset xs (i + 1) (digit_char (d mod 10)); zs \<leftarrow> aset ys i (digit_char (d div 10)); Some (i + 2, zs) }"
proof -
  have "0 < d div 10" "d div 10 < 10" using assms by auto
  then show ?thesis using assms by (subst write_digits.simps, subst write_digits.simps) (simp add: algebra_simps)
qed

lemma num_len_1: "0 \<le> d \<Longrightarrow> d < 10 \<Longrightarrow> num_len_loop d 0 = 1"
  by (subst num_len_loop.simps) simp

lemma num_len_2: "10 \<le> d \<Longrightarrow> d < 100 \<Longrightarrow> num_len_loop d 0 = 2"
  by (subst num_len_loop.simps, subst num_len_loop.simps) (simp add: Let_def)

lemma MESSAGE_T_chars: "c \<in> set (MESSAGE_T t) \<Longrightarrow> c \<noteq> NUL \<and> c \<noteq> CHR '':''"
  by (cases t) (auto simp: NUL_def)

lemma c_str_append: "\<forall>c \<in> set xs. c \<noteq> NUL \<Longrightarrow> c_str (xs @ NUL # ys) = Some xs"
  by (induction xs) auto

lemma upto_colon_append: "\<forall>c \<in> set xs. c \<noteq> CHR '':'' \<Longrightarrow> upto_colon (xs @ CHR '':'' # ys) = Some (xs, ys)"
  by (induction xs) auto

definition fd_string :: "int \<Rightarrow> string" where
  "fd_string d = (if d < 10 then [digit_char d] else [digit_char (d div 10), digit_char (d mod 10)])"

lemma fd_string_chars:
  assumes "0 \<le> d" "d < 100"
  shows "atoi (fd_string d) = d" "\<forall>c \<in> set (fd_string d). c \<noteq> NUL \<and> c \<noteq> CHR '':''" "length (fd_string d) < 10"
proof -
  have "\<forall>d \<in> {0..99}. atoi (fd_string d) = d \<and> list_all (\<lambda>c. c \<noteq> NUL \<and> c \<noteq> CHR '':'') (fd_string d)"
    by code_simp
  then have "atoi (fd_string d) = d \<and> list_all (\<lambda>c. c \<noteq> NUL \<and> c \<noteq> CHR '':'') (fd_string d)"
    by (rule bspec) (use assms in simp)
  then show "atoi (fd_string d) = d" "\<forall>c \<in> set (fd_string d). c \<noteq> NUL \<and> c \<noteq> CHR '':''"
    by (simp_all add: list_all_iff)
  show "length (fd_string d) < 10" by (simp add: fd_string_def)
qed

lemma name_block:
  assumes "len = int (length (name :: string)) + int k"
  obtains rest where "mem_write (map g [0..<nat len]) 0 name = Some (name @ rest)" "length rest = k"
proof
  show "mem_write (map g [0..<nat len]) 0 name = Some (name @ drop (length name) (map g [0..<nat len]))"
    using assms by (simp add: mem_write_def)
  show "length (drop (length name) (map g [0..<nat len])) = k" using assms by simp
qed

lemma serializePipe_out:
  assumes "tp_fd_in p = 0" "1 \<le> tp_fd_out p" "tp_fd_out p < 100"
  shows "serializePipe g p = Some (MESSAGE_T (tp_type p) @ '':0:'' @ fd_string (tp_fd_out p))"
proof -
  let ?t = "MESSAGE_T (tp_type p)" and ?d = "tp_fd_out p"
  have nul: "c_str ((?t @ '':0:'' @ fd_string ?d) @ [NUL]) = Some (?t @ '':0:'' @ fd_string ?d)"
    by (rule c_str_append) (use MESSAGE_T_chars fd_string_chars(2) [of ?d] assms in \<open>auto simp: NUL_def\<close>)
  show ?thesis
  proof (cases "?d < 10")
    case True
    obtain rest where r: "mem_write (map g [0..<nat (int (length ?t) + 4 + 1)]) 0 ?t = Some (?t @ rest)" "length rest = 5"
      using name_block [of "int (length ?t) + 4 + 1" ?t 5 g] by (simp add: add.assoc) metis
    then obtain a b c d e where rest: "rest = [a, b, c, d, e]"
      by (auto simp: eval_nat_numeral length_Suc_conv)
    show ?thesis
      using assms True r(1) nul rest
      by (simp add: serializePipe_def serializePipe_block_def num_len_1 write_digits_1 Let_def aset_append aset_append_0 aset_append_left
          aset_Cons fd_string_def del: upt.simps)
  next
    case False
    obtain rest where r: "mem_write (map g [0..<nat (int (length ?t) + 4 + 2)]) 0 ?t = Some (?t @ rest)" "length rest = 6"
      using name_block [of "int (length ?t) + 4 + 2" ?t 6 g] by (simp add: add.assoc) metis
    then obtain a b c d e f where rest: "rest = [a, b, c, d, e, f]"
      by (auto simp: eval_nat_numeral length_Suc_conv)
    show ?thesis
      using assms False r(1) nul rest
      by (simp add: serializePipe_def serializePipe_block_def num_len_2 write_digits_2 Let_def aset_append aset_append_0 aset_append_left
          aset_Cons fd_string_def add.assoc del: upt.simps)
  qed
qed

lemma serializePipe_in:
  assumes "1 \<le> tp_fd_in p" "tp_fd_in p < 100"
  shows "serializePipe g p = Some (MESSAGE_T (tp_type p) @ '':'' @ fd_string (tp_fd_in p) @ '':0'')"
proof -
  let ?t = "MESSAGE_T (tp_type p)" and ?d = "tp_fd_in p"
  have nul: "c_str ((?t @ '':'' @ fd_string ?d @ '':0'') @ [NUL]) = Some (?t @ '':'' @ fd_string ?d @ '':0'')"
    by (rule c_str_append) (use MESSAGE_T_chars fd_string_chars(2) [of ?d] assms in \<open>auto simp: NUL_def\<close>)
  show ?thesis
  proof (cases "?d < 10")
    case True
    obtain rest where r: "mem_write (map g [0..<nat (int (length ?t) + 4 + 1)]) 0 ?t = Some (?t @ rest)" "length rest = 5"
      using name_block [of "int (length ?t) + 4 + 1" ?t 5 g] by (simp add: add.assoc) metis
    then obtain a b c d e where rest: "rest = [a, b, c, d, e]"
      by (auto simp: eval_nat_numeral length_Suc_conv)
    show ?thesis
      using assms True r(1) nul rest
      by (simp add: serializePipe_def serializePipe_block_def num_len_1 write_digits_1 Let_def aset_append aset_append_0 aset_append_left
          aset_Cons fd_string_def add.assoc del: upt.simps)
  next
    case False
    obtain rest where r: "mem_write (map g [0..<nat (int (length ?t) + 4 + 2)]) 0 ?t = Some (?t @ rest)" "length rest = 6"
      using name_block [of "int (length ?t) + 4 + 2" ?t 6 g] by (simp add: add.assoc) metis
    then obtain a b c d e f where rest: "rest = [a, b, c, d, e, f]"
      by (auto simp: eval_nat_numeral length_Suc_conv)
    show ?thesis
      using assms False r(1) nul rest
      by (simp add: serializePipe_def serializePipe_block_def num_len_2 write_digits_2 Let_def aset_append aset_append_0 aset_append_left
          aset_Cons fd_string_def add.assoc del: upt.simps)
  qed
qed

lemma parse_colon_pipe:
  assumes "\<forall>c \<in> set a. c \<noteq> CHR '':''" "\<forall>c \<in> set b. c \<noteq> CHR '':''" "length b < 10"
  shows "deserializePipe (a @ '':'' @ b @ '':'' @ c) = Some \<lparr>tp_type = commToEnum a, tp_fd_in = atoi b, tp_fd_out = atoi c\<rparr>"
  using assms by (simp add: deserializePipe_def upto_colon_append)

lemma atoi_0 [simp]: "atoi ''0'' = 0"
  by code_simp

text \<open>A pipe survives its textual form: for a pipe with one end and a descriptor of one or two digits,
  whatever the fresh block held before, \<open>serializePipe\<close> stays inside the block and
  \<open>deserializePipe\<close> gives the same type, direction and descriptor back.\<close>

theorem pipe_text_roundtrip:
  assumes "tp_fd_in p = 0 \<and> 1 \<le> tp_fd_out p \<and> tp_fd_out p < 100 \<or> tp_fd_out p = 0 \<and> 1 \<le> tp_fd_in p \<and> tp_fd_in p < 100"
  shows "\<exists>str. serializePipe g p = Some str \<and> deserializePipe str = Some p"
  using assms
proof (elim disjE conjE)
  assume p: "tp_fd_in p = 0" "1 \<le> tp_fd_out p" "tp_fd_out p < 100"
  then show ?thesis
    using serializePipe_out [OF p, of g] parse_colon_pipe [of "MESSAGE_T (tp_type p)" "''0''" "fd_string (tp_fd_out p)"]
      MESSAGE_T_chars fd_string_chars(1) [of "tp_fd_out p"] by simp
next
  assume p: "tp_fd_out p = 0" "1 \<le> tp_fd_in p" "tp_fd_in p < 100"
  then show ?thesis
    using serializePipe_in [OF p(2,3), of g] parse_colon_pipe [of "MESSAGE_T (tp_type p)" "fd_string (tp_fd_in p)" "''0''"]
      MESSAGE_T_chars fd_string_chars [of "tp_fd_in p"] by simp
qed

theorem pipe_text_roundtrip_witness:
  "\<exists>str. serializePipe (\<lambda>_. CHR ''z'') \<lparr>tp_type = WAY_RES, tp_fd_in = 42, tp_fd_out = 0\<rparr> = Some str
    \<and> deserializePipe str = Some \<lparr>tp_type = WAY_RES, tp_fd_in = 42, tp_fd_out = 0\<rparr>"
  using pipe_text_roundtrip [of "\<lparr>tp_type = WAY_RES, tp_fd_in = 42, tp_fd_out = 0\<rparr>" "\<lambda>_. CHR ''z''"] by simp

text \<open>A descriptor with an inner zero digit does not survive: the digits are counted only up to that
  zero, so for 100 to 109 the block is too short and \<open>serializePipe\<close> writes behind its end, in both
  directions, while 99 and 110 are written out in full.\<close>

theorem pipe_text_inner_zero:
  "map (\<lambda>fd. serializePipe (\<lambda>_. NUL) \<lparr>tp_type = WAY_RES, tp_fd_in = fd, tp_fd_out = 0\<rparr>) [100..109] = replicate 10 None
   \<and> map (\<lambda>fd. serializePipe (\<lambda>_. NUL) \<lparr>tp_type = WAY_RES, tp_fd_in = 0, tp_fd_out = fd\<rparr>) [100..109] = replicate 10 None
   \<and> map (\<lambda>fd. serializePipe (\<lambda>_. NUL) \<lparr>tp_type = WAY_RES, tp_fd_in = 0, tp_fd_out = fd\<rparr>) [99, 110]
       = [Some ''WAY_RES:0:99'', Some ''WAY_RES:0:110'']"
  by code_simp

section \<open>Handing over descriptors\<close>

lemma comm_of_code_inverse [simp]: "comm_of_code (comm_code t) = t"
  by (cases t) (simp_all add: comm_of_code_def)

lemma c_int_comm_code [simp]: "c_int (comm_code t)"
  by (cases t) (simp_all add: c_int_def)

definition wf_typed_pipe :: "typed_pipe \<Rightarrow> bool" where
  "wf_typed_pipe t \<longleftrightarrow> c_int (tp_fd_in t) \<and> c_int (tp_fd_out t)"

interpretation typed_pipe_format: message_format typed_pipe_bytes bytes_typed_pipe wf_typed_pipe 12
  by unfold_locales (simp_all add: wf_typed_pipe_def typed_pipe_bytes_def bytes_typed_pipe_def)

lemma bytes_typed_pipes_append:
  "list_all wf_typed_pipe ts \<Longrightarrow> bytes_typed_pipes (length ts) (concat (map typed_pipe_bytes ts) @ bs) = ts"
  by (induction ts) (simp_all add: typed_pipe_format.dec_enc typed_pipe_format.enc_size)

lemma length_typed_pipes_bytes: "list_all wf_typed_pipe ts \<Longrightarrow> length (concat (map typed_pipe_bytes ts)) = 12 * length ts"
  by (induction ts) (simp_all add: typed_pipe_format.enc_size)

text \<open>The description of a vote pipe, and the descriptor that stands for it.\<close>

definition described :: "vote_pipe \<Rightarrow> typed_pipe" where
  "described v = \<lparr>tp_type = commToEnum (rep_info v), tp_fd_in = fd_in v, tp_fd_out = fd_out v\<rparr>"

definition passed_fd :: "vote_pipe \<Rightarrow> int" where
  "passed_fd v = (if fd_in v \<noteq> 0 then fd_in v else fd_out v)"

definition received :: "typed_pipe \<Rightarrow> int \<Rightarrow> typed_pipe" where
  "received t fd = (if tp_fd_in t \<noteq> 0 then t\<lparr>tp_fd_in := fd\<rparr> else t\<lparr>tp_fd_out := fd\<rparr>)"

lemma list_extend: "i < length xs \<Longrightarrow> length ys = length xs \<Longrightarrow>
    (map f (take i xs) @ drop i ys)[i := f (xs ! i)] = map f (take (Suc i) xs) @ drop (Suc i) ys"
  by (simp add: list_update_append take_Suc_conv_app_nth Cons_nth_drop_Suc [symmetric])

lemma convertVoteToTyped_eq:
  assumes "length ts = length vs"
  shows "convertVoteToTyped vs (int (length vs)) ts = Some (map described vs)"
proof -
  have "\<exists>r. convertVoteToTyped vs (int (length vs)) ts = Some r \<and> r = map described (take (length vs) vs) @ drop (length vs) ts"
    unfolding convertVoteToTyped_def
    by (rule for_upto_nat [where P = "\<lambda>i r. r = map described (take i vs) @ drop i ts"])
      (use assms list_extend [of _ vs ts described] in \<open>auto simp: described_def\<close>)
  then show ?thesis using assms by simp
qed

lemma sendFDS_eq:
  "sendFDS K conn vs (int (length vs)) cpu prio h =
    Some (sys_sendmsg K conn (fds_payload (map described vs) cpu prio) (map passed_fd vs) h)"
proof -
  have "\<exists>fds. for_upto 0 (int (length vs)) (\<lambda>i fds. do {
      p \<leftarrow> aget vs i; Some (fds @ [if fd_in p \<noteq> 0 then fd_in p else fd_out p]) }) [] = Some fds
    \<and> fds = map passed_fd (take (length vs) vs)"
    by (rule for_upto_nat [where P = "\<lambda>i fds. fds = map passed_fd (take i vs)"])
      (auto simp: take_Suc_conv_app_nth passed_fd_def)
  then show ?thesis by (simp add: sendFDS_def convertVoteToTyped_eq)
qed

lemma requestFDS_eq:
  assumes wf: "list_all wf_typed_pipe ts" "c_int cpu" "c_int prio"
    and len: "length ts = length old" "length fds = length old"
    and arrives: "on_recvmsg K h sock (12 * int (length old) + 8) = Some (fds_payload ts cpu prio, fds)"
  shows "\<exists>h'. requestFDS K sock old (int (length old)) c p h
    = Some (12 * int (length old) + 8, map (\<lambda>(t, fd). received t fd) (zip ts fds), cpu, prio, h')"
proof -
  let ?n = "length old" and ?bs = "fds_payload ts cpu prio"
  have lb: "length ?bs = 12 * ?n + 8"
    using length_typed_pipes_bytes [OF wf(1)] len by (simp add: fds_payload_def)
  have take_all: "take (nat (12 * int ?n + 8)) ?bs = ?bs" using lb by simp
  have pipes: "bytes_typed_pipes ?n (?bs @ xs) = ts" for xs
    using bytes_typed_pipes_append [OF wf(1), of "int_bytes cpu @ int_bytes prio @ xs"] len
    by (simp add: fds_payload_def)
  have ints: "bytes_int (drop (12 * ?n) (?bs @ xs)) = cpu" "bytes_int (drop (12 * ?n + 4) (?bs @ xs)) = prio" for xs
    using wf(2,3) len length_typed_pipes_bytes [OF wf(1)] by (simp_all add: fds_payload_def)
  have "\<exists>r. for_upto 0 (int ?n) (\<lambda>i ps. do {
      p \<leftarrow> aget ps i; fd \<leftarrow> aget fds i;
      aset ps i (if tp_fd_in p \<noteq> 0 then p\<lparr>tp_fd_in := fd\<rparr> else p\<lparr>tp_fd_out := fd\<rparr>) }) ts = Some r
    \<and> r = map (\<lambda>(t, fd). received t fd) (take ?n (zip ts fds)) @ drop ?n ts"
  proof (rule for_upto_nat [where P = "\<lambda>i r. r = map (\<lambda>(t, fd). received t fd) (take i (zip ts fds)) @ drop i ts"])
    fix i r assume i: "i < ?n" "r = map (\<lambda>(t, fd). received t fd) (take i (zip ts fds)) @ drop i ts"
    then have "r ! i = ts ! i" using len by (simp add: nth_append)
    moreover have "r[i := received (ts ! i) (fds ! i)] = map (\<lambda>(t, fd). received t fd) (take (Suc i) (zip ts fds)) @ drop (Suc i) ts"
      using list_extend [of i "zip ts fds" ts "\<lambda>(t, fd). received t fd"] i len by simp
    ultimately show "\<exists>s'. do { p \<leftarrow> aget r (int i); fd \<leftarrow> aget fds (int i);
        aset r (int i) (if tp_fd_in p \<noteq> 0 then p\<lparr>tp_fd_in := fd\<rparr> else p\<lparr>tp_fd_out := fd\<rparr>) } = Some s'
      \<and> s' = map (\<lambda>(t, fd). received t fd) (take (Suc i) (zip ts fds)) @ drop (Suc i) ts"
      using i len by (auto simp: received_def)
  qed simp
  then show ?thesis
    using arrives take_all lb pipes ints len by (simp add: requestFDS_def sys_recvmsg_def Let_def)
qed

text \<open>C28: The replica gets its pipes: what \<open>sendFDS\<close> puts on the socket makes \<open>requestFDS\<close> on the other
  side, when the message arrives whole with as many descriptors of its own as were sent, produce
  each pipe with the type and direction the voter recorded and the new descriptor, and the CPU and priority the
  voter chose.\<close>

theorem fds_handover:
  assumes "list_all (\<lambda>v. c_int (fd_in v) \<and> c_int (fd_out v)) vs" "c_int cpu" "c_int prio"
    and "length old = length vs" "length own = length vs"
  shows "\<exists>bs. sendFDS K conn vs (int (length vs)) cpu prio h
      = Some (sys_sendmsg K conn bs (map (\<lambda>v. if fd_in v \<noteq> 0 then fd_in v else fd_out v) vs) h)
    \<and> (\<forall>K' h' sock c p. on_recvmsg K' h' sock (12 * int (length vs) + 8) = Some (bs, own) \<longrightarrow>
        (\<exists>r h''. requestFDS K' sock old (int (length vs)) c p h' = Some (r, map (\<lambda>(v, fd).
            \<lparr>tp_type = commToEnum (rep_info v), tp_fd_in = (if fd_in v \<noteq> 0 then fd else 0),
             tp_fd_out = (if fd_in v \<noteq> 0 then fd_out v else fd)\<rparr>) (zip vs own), cpu, prio, h'') \<and> 0 < r))"
proof (rule exI [of _ "fds_payload (map described vs) cpu prio"], rule conjI)
  show "sendFDS K conn vs (int (length vs)) cpu prio h = Some (sys_sendmsg K conn (fds_payload (map described vs) cpu prio)
      (map (\<lambda>v. if fd_in v \<noteq> 0 then fd_in v else fd_out v) vs) h)"
    by (simp add: sendFDS_eq passed_fd_def [abs_def])
  have wf: "list_all wf_typed_pipe (map described vs)"
    using assms(1) by (simp add: list_all_iff wf_typed_pipe_def described_def)
  have "map (\<lambda>(t, fd). received t fd) (zip (map described vs) own) = map (\<lambda>(v, fd).
      \<lparr>tp_type = commToEnum (rep_info v), tp_fd_in = (if fd_in v \<noteq> 0 then fd else 0),
       tp_fd_out = (if fd_in v \<noteq> 0 then fd_out v else fd)\<rparr>) (zip vs own)"
    by (simp add: zip_map1 received_def described_def case_prod_unfold)
  then show "\<forall>K' h' sock c p. on_recvmsg K' h' sock (12 * int (length vs) + 8) = Some (fds_payload (map described vs) cpu prio, own) \<longrightarrow>
      (\<exists>r h''. requestFDS K' sock old (int (length vs)) c p h' = Some (r, map (\<lambda>(v, fd).
          \<lparr>tp_type = commToEnum (rep_info v), tp_fd_in = (if fd_in v \<noteq> 0 then fd else 0),
           tp_fd_out = (if fd_in v \<noteq> 0 then fd_out v else fd)\<rparr>) (zip vs own), cpu, prio, h'') \<and> 0 < r)"
    using requestFDS_eq [OF wf assms(2,3), of old own] assms(4,5) by fastforce
qed

definition handed_pipes :: "vote_pipe list" where
  "handed_pipes = [(command_pipe \<lparr>mov_seq_count = 0, vel_cmd = [0, 0]\<rparr>)\<lparr>rep_info := ''RANGE_POSE_DATA'', fd_in := 11\<rparr>,
     (command_pipe \<lparr>mov_seq_count = 0, vel_cmd = [0, 0]\<rparr>)\<lparr>fd_in := 0, fd_out := 12\<rparr>]"

theorem fds_handover_witness:
  "\<exists>bs r h'. sendFDS quiet 4 handed_pipes 2 1 5 [] = Some (sys_sendmsg quiet 4 bs [11, 12] [])
    \<and> requestFDS (quiet\<lparr>on_recvmsg := \<lambda>h s n. Some (bs, [5, 6])\<rparr>) 3 [blank_typed_pipe, blank_typed_pipe] 2 0 0 []
      = Some (r, [\<lparr>tp_type = RANGE_POSE_DATA, tp_fd_in = 5, tp_fd_out = 0\<rparr>, \<lparr>tp_type = MOV_CMD, tp_fd_in = 0, tp_fd_out = 6\<rparr>], 1, 5, h')"
proof -
  have types: "commToEnum ''RANGE_POSE_DATA'' = RANGE_POSE_DATA" "commToEnum ''MOV_CMD'' = MOV_CMD"
    by (simp_all add: commToEnum_def)
  obtain bs where bs: "sendFDS quiet 4 handed_pipes 2 1 5 [] = Some (sys_sendmsg quiet 4 bs [11, 12] [])"
    "\<And>K' h' sock c p. on_recvmsg K' h' sock 32 = Some (bs, [5, 6]) \<Longrightarrow>
        \<exists>r h''. requestFDS K' sock [blank_typed_pipe, blank_typed_pipe] 2 c p h' =
          Some (r, [\<lparr>tp_type = RANGE_POSE_DATA, tp_fd_in = 5, tp_fd_out = 0\<rparr>,
            \<lparr>tp_type = MOV_CMD, tp_fd_in = 0, tp_fd_out = 6\<rparr>], 1, 5, h'')"
    using fds_handover [of handed_pipes 1 5 "[blank_typed_pipe, blank_typed_pipe]" "[5, 6]" quiet 4 "[]"]
    by (simp add: handed_pipes_def command_pipe_def c_int_def types) blast
  then show ?thesis
    using bs(2) [of "quiet\<lparr>on_recvmsg := \<lambda>h s n. Some (bs, [5, 6])\<rparr>" "[]" 3 0 0] by auto
qed

end
