(* ===== verification/Mapper.thy ===== *)
theory Mapper
  imports Mapping_Grid Controller
begin

text \<open>
  The mapper (\<open>controllers/mapper.c\<close>): it counts how often an obstacle is seen in each cell of the
  grid and reports a cell to the planner when it was seen often enough.
\<close>

definition RANGE_COUNT :: int where "RANGE_COUNT = 16"
definition MAPPER_PIPES :: int where "MAPPER_PIPES = 3"
definition OBS_THRES :: int where "OBS_THRES = 2"

record mapper = controller +
  data_index :: int
  update_index :: int
  ack_index :: int
  current_pose :: "point_i option"
  obstacle_map :: "int list list"
  send_msg :: comm_map_update
  resending_all :: bool
  mp_seq_count :: int

section \<open>Setting up\<close>

definition mapper_setPipeIndexes :: "mapper \<Rightarrow> mapper option" where
  "mapper_setPipeIndexes s =
     for_upto 0 MAPPER_PIPES (\<lambda>i s. do {
       p \<leftarrow> aget (c_pipes s) i;
       Some (case tp_type p of
               RANGE_POSE_DATA \<Rightarrow> s\<lparr>data_index := i\<rparr>
             | MAP_UPDATE \<Rightarrow> s\<lparr>update_index := i\<rparr>
             | COMM_ACK \<Rightarrow> s\<lparr>ack_index := i\<rparr>
             | _ \<Rightarrow> s)
     }) s"

text \<open>\<open>parseArgs\<close>: \<open>None\<close> in the result is \<open>exit(0)\<close> after the usage message.\<close>

definition mapper_parseArgs :: "posix \<Rightarrow> string list \<Rightarrow> mapper \<Rightarrow> (int option \<times> mapper) option" where
  "mapper_parseArgs K argv s =
     (let argc = int (length argv)
      in if argc < 3 then Some (None, s)
         else do {
           prio \<leftarrow> aget argv 1;
           cnt \<leftarrow> aget argv 2;
           let s1 = s\<lparr>c_priority := atoi prio, c_pipe_count := atoi cnt\<rparr>;
           s2 \<leftarrow> (if argc < 6 then do {
                    let (pid, h1) = sys_call K ''getpid'' [] [] (c_hist s1);
                    (r, s2) \<leftarrow> take_over_pipes K pid MAPPER_PIPES ''Mapper'' (s1\<lparr>c_hist := h1\<rparr>);
                    Some s2
                  }
                  else parse_pipes (min (argc - 3) MAPPER_PIPES) argv s1);
           s3 \<leftarrow> mapper_setPipeIndexes s2;
           Some (Some 0, s3)
         })"

section \<open>Obstacles\<close>

text \<open>Appending to the message; the arrays have \<open>MAX_OBSTACLES\<close> bytes.\<close>

definition report :: "int \<Rightarrow> int \<Rightarrow> mapper \<Rightarrow> mapper option" where
  "report x y s =
     do {
       let m = send_msg s;
       ox \<leftarrow> aset (obs_x m) (obs_count m) (word_of_int x);
       oy \<leftarrow> aset (obs_y m) (obs_count m) (word_of_int y);
       Some (s\<lparr>send_msg := m\<lparr>obs_x := ox, obs_y := oy, obs_count := obs_count m + 1\<rparr>\<rparr>)
     }"

definition addObstacle :: "point_i \<Rightarrow> mapper \<Rightarrow> (bool \<times> mapper) option" where
  "addObstacle obs s =
     (let x = pi_x obs; y = pi_y obs
      in if x < 0 \<or> x > GRID_NUM \<or> y < 0 \<or> y > GRID_NUM then Some (False, s)
         else do {
           c \<leftarrow> grid_get (obstacle_map s) x y;
           if c > OBS_THRES then Some (False, s)
           else do {
             g \<leftarrow> grid_set (obstacle_map s) x y (c + 1);
             let s1 = s\<lparr>obstacle_map := g\<rparr>;
             if c + 1 > OBS_THRES then do { s2 \<leftarrow> report x y s1; Some (True, s2) }
             else Some (True, s1)
           }
         })"

text \<open>The position of the obstacle that range \<open>i\<close> sees, in the coordinates of the world.\<close>

definition obstacle_at :: "dpu \<Rightarrow> point_d \<Rightarrow> double \<Rightarrow> double list \<Rightarrow> int \<Rightarrow> point_d option" where
  "obstacle_at D p theta_pose rs i =
     do {
       r \<leftarrow> aget rs i;
       let tao = d_div D (d_mul D (d_mul D D_2 D_PI) (d_of_int D i)) (d_of_int D RANGE_COUNT);
       let lx = d_mul D r (d_cos D tao);
       let ly = d_mul D r (d_sin D tao);
       let gx = d_sub D (d_mul D lx (d_cos D theta_pose)) (d_mul D ly (d_sin D theta_pose));
       let gy = d_add D (d_mul D lx (d_sin D theta_pose)) (d_mul D ly (d_cos D theta_pose));
       Some \<lparr>pd_x = d_add D gx (pd_x p), pd_y = d_add D gy (pd_y p)\<rparr>
     }"

definition see_range :: "dpu \<Rightarrow> point_d \<Rightarrow> double \<Rightarrow> double list \<Rightarrow> int \<Rightarrow> mapper \<Rightarrow> mapper option" where
  "see_range D p theta_pose rs i s =
     do {
       o_g \<leftarrow> obstacle_at D p theta_pose rs i;
       cell \<leftarrow> gridify D o_g;
       (changed, s') \<leftarrow> addObstacle cell s;
       Some s'
     }"

definition resend_map :: "mapper \<Rightarrow> mapper option" where
  "resend_map s =
     for_upto 0 GRID_NUM (\<lambda>i s. for_upto 0 GRID_NUM (\<lambda>j s. do {
       c \<leftarrow> grid_get (obstacle_map s) i j;
       if c > OBS_THRES then report i j s else Some s
     }) s) s"

definition updateMap :: "posix \<Rightarrow> dpu \<Rightarrow> comm_range_pose_data \<Rightarrow> mapper \<Rightarrow> mapper option" where
  "updateMap K D data s =
     do {
       px \<leftarrow> aget (pose data) 0;
       py \<leftarrow> aget (pose data) 1;
       theta_pose \<leftarrow> aget (pose data) 2;
       let p = \<lparr>pd_x = px, pd_y = py\<rparr>;
       cp \<leftarrow> gridify D p;
       let s1 = s\<lparr>send_msg := (send_msg s)\<lparr>obs_count := 0\<rparr>\<rparr>;
       s2 \<leftarrow> for_upto 0 RANGE_COUNT (see_range D p theta_pose (ranges data)) s1;
       s3 \<leftarrow> (if resending_all s2 then resend_map (s2\<lparr>resending_all := False\<rparr>) else Some s2);
       let cp' = (if insertSDC s3 then cp\<lparr>pi_x := pi_x cp + 1\<rparr> else cp);
       let s4 = s3\<lparr>insertSDC := False, current_pose := Some cp',
                   send_msg := (send_msg s3)\<lparr>pose_x := pi_x cp', pose_y := pi_y cp'\<rparr>\<rparr>;
       out \<leftarrow> aget (c_pipes s4) (update_index s4);
       (r, h) \<leftarrow> commSendMapUpdate K out (send_msg s4) (c_hist s4);
       Some (s4\<lparr>c_hist := h\<rparr>)
     }"

section \<open>The loop\<close>

text \<open>
  \<open>INDEX_X\<close>, \<open>INDEX_Y\<close> and \<open>INDEX_A\<close> are 0, 1 and 2. One turn of \<open>while(1)\<close>; the flag is false when
  the inserted control-flow error makes the process hang.
\<close>

definition mapper_data :: "posix \<Rightarrow> dpu \<Rightarrow> int \<Rightarrow> mapper \<Rightarrow> mapper option" where
  "mapper_data K D fd s =
     (let (read_ret, bs, h) = sys_read K fd 160 (c_hist s); s1 = s\<lparr>c_hist := h\<rparr>
      in if read_ret = 160 then
           let recv_msg = bytes_range_pose bs
           in updateMap K D recv_msg (s1\<lparr>mp_seq_count := range_seq_count recv_msg\<rparr>)
         else Some s1)"

definition mapper_ack :: "posix \<Rightarrow> int \<Rightarrow> mapper \<Rightarrow> mapper" where
  "mapper_ack K fd s =
     (let (read_ret, bs, h) = sys_read K fd 16 (c_hist s); s1 = s\<lparr>c_hist := h\<rparr>
      in if read_ret = 16 \<and> resend_request (bytes_ack bs) = 1 then s1\<lparr>resending_all := True\<rparr> else s1)"

definition mapper_turn :: "posix \<Rightarrow> dpu \<Rightarrow> mapper \<Rightarrow> (bool \<times> mapper) option" where
  "mapper_turn K D s =
     do {
       d \<leftarrow> aget (c_pipes s) (data_index s);
       a \<leftarrow> aget (c_pipes s) (ack_index s);
       let (retval, ready, h) = sys_select K [tp_fd_in d, tp_fd_in a] 1000000 (c_hist s);
       let s1 = s\<lparr>c_hist := h\<rparr>;
       if retval > 0 then
         if insertCFE s1 then Some (False, s1)
         else do {
           s2 \<leftarrow> (if tp_fd_in d \<in> set ready then mapper_data K D (tp_fd_in d) s1 else Some s1);
           Some (True, if tp_fd_in a \<in> set ready then mapper_ack K (tp_fd_in a) s2 else s2)
         }
       else Some (True, s1)
     }"

definition mapper_turns :: "posix \<Rightarrow> dpu \<Rightarrow> nat \<Rightarrow> mapper \<Rightarrow> (bool \<times> mapper) option" where
  "mapper_turns K D = turns (mapper_turn K D)"

text \<open>\<open>main\<close> allocates the arrays of the message (\<open>g\<close> is what \<open>malloc\<close> left there) and clears the map.\<close>

definition mapper_init :: "(nat \<Rightarrow> byte) \<Rightarrow> mapper \<Rightarrow> mapper" where
  "mapper_init g s =
     s\<lparr>send_msg := \<lparr>pose_x = 0, pose_y = 0, obs_count = 0, obs_x = map g [0..<nat MAX_OBSTACLES],
         obs_y = map g [0..<nat MAX_OBSTACLES]\<rparr>, obstacle_map := blank_grid 0\<rparr>"

text \<open>\<open>main\<close>: the exit code when the process ends before its loop, and the first \<open>n\<close> turns otherwise.\<close>

definition mapper_globals :: mapper where
  "mapper_globals =
     \<lparr>c_pipes = replicate 3 blank_typed_pipe, c_pipe_count = MAPPER_PIPES, c_name = ''Mapper'', c_priority = 0,
      c_pinned_cpu = 0, insertSDC = False, insertCFE = False, c_hist = [], data_index = 0, update_index = 0,
      ack_index = 0, current_pose = None, obstacle_map = blank_grid 0,
      send_msg = \<lparr>pose_x = 0, pose_y = 0, obs_count = 0, obs_x = [], obs_y = []\<rparr>, resending_all = False,
      mp_seq_count = -1\<rparr>"

definition mapper_main :: "posix \<Rightarrow> dpu \<Rightarrow> (nat \<Rightarrow> byte) \<Rightarrow> string list \<Rightarrow> nat \<Rightarrow> (int option \<times> mapper) option" where
  "mapper_main K D g argv n =
     do {
       (ret, s) \<leftarrow> mapper_parseArgs K argv mapper_globals;
       if ret = None then Some (Some 0, s)
       else
         let (r, s1) = initController K s
         in if r < 0 then Some (Some (-1), s1)
            else do { (go, s2) \<leftarrow> mapper_turns K D n (mapper_init g s1); Some (None, s2) }
     }"

end
