(* ===== verification/Determinism.thy ===== *)
theory Determinism
  imports Controller
begin

text \<open>
  Voting on outputs presumes that replicas which read the same inputs write the same bytes, although each
  is a process of its own with its own descriptors, CPU, priority and system. \<open>replicated\<close> states this for
  one input and derives it for every sequence of inputs.
\<close>

section \<open>Replicas of a component\<close>

locale replicated =
  fixes step :: "posix \<Rightarrow> 'i \<Rightarrow> 's \<Rightarrow> 's option"
    and alike :: "'s \<Rightarrow> 's \<Rightarrow> bool"
    and sent :: "'s \<Rightarrow> byte list list"
  assumes step_alike: "alike s t \<Longrightarrow> step K i s = Some s' \<Longrightarrow>
    \<exists>t' ws. step L i t = Some t' \<and> alike s' t' \<and> sent s' = sent s @ ws \<and> sent t' = sent t @ ws"
begin

lemma run_alike:
  assumes "alike s t" "foldM (step K) inputs s = Some s'"
  shows "\<exists>t' ws. foldM (step L) inputs t = Some t' \<and> alike s' t' \<and> sent s' = sent s @ ws \<and> sent t' = sent t @ ws"
  using assms
proof (induction inputs arbitrary: s t)
  case (Cons i inputs)
  from Cons.prems(2) obtain s1 where s1: "step K i s = Some s1" "foldM (step K) inputs s1 = Some s'"
    by (auto simp: Option.bind_eq_Some_conv)
  obtain t1 us where t1: "step L i t = Some t1" "alike s1 t1" "sent s1 = sent s @ us" "sent t1 = sent t @ us"
    using step_alike [OF Cons.prems(1) s1(1)] by blast
  obtain t' vs where "foldM (step L) inputs t1 = Some t'" "alike s' t'" "sent s' = sent s1 @ vs" "sent t' = sent t1 @ vs"
    using Cons.IH [OF t1(2) s1(2)] by blast
  then show ?case using t1 by auto
qed auto

text \<open>What they send is the same when they started with the same.\<close>

lemma outputs_agree:
  assumes "alike s t" "sent s = sent t" "foldM (step K) inputs s = Some s'" "foldM (step L) inputs t = Some t'"
  shows "sent s' = sent t'"
  using run_alike [OF assms(1,3), of L] assms(2,4) by auto

end

section \<open>The same controller elsewhere\<close>

text \<open>A controller's state with the pipes, CPU, priority and history of another process.\<close>

definition elsewhere :: "typed_pipe list \<Rightarrow> int \<Rightarrow> int \<Rightarrow> history \<Rightarrow> 'a controller_scheme \<Rightarrow> 'a controller_scheme" where
  "elsewhere ps cpu prio h s = s\<lparr>c_pipes := ps, c_pinned_cpu := cpu, c_priority := prio, c_hist := h\<rparr>"

definition same_ends :: "typed_pipe list \<Rightarrow> typed_pipe list \<Rightarrow> bool" where
  "same_ends ps qs \<longleftrightarrow> list_all2 (\<lambda>p q. tp_type p = tp_type q \<and> (tp_fd_out p = 0 \<longleftrightarrow> tp_fd_out q = 0)) ps qs"

definition alike :: "'a controller_scheme \<Rightarrow> 'a controller_scheme \<Rightarrow> bool" where
  "alike s t \<longleftrightarrow> (\<exists>ps cpu prio h. t = elsewhere ps cpu prio h s \<and> same_ends (c_pipes s) ps)"

definition sent_by :: "'a controller_scheme \<Rightarrow> byte list list" where
  "sent_by s = map snd (writes (c_hist s))"

lemma same_ends_aget:
  assumes "same_ends ps qs"
  shows "case aget ps i of None \<Rightarrow> aget qs i = None
    | Some p \<Rightarrow> \<exists>q. aget qs i = Some q \<and> tp_type q = tp_type p \<and> (tp_fd_out q = 0 \<longleftrightarrow> tp_fd_out p = 0)"
  using assms by (auto simp: same_ends_def aget_def list_all2_conv_all_nth split: option.splits)

lemma same_ends_agetE:
  assumes "same_ends ps qs" "aget ps i = Some p"
  obtains q where "aget qs i = Some q" "tp_type q = tp_type p" "tp_fd_out q = 0 \<longleftrightarrow> tp_fd_out p = 0"
  using same_ends_aget [OF assms(1), of i] assms(2) by auto

lemma elsewhere_own [simp]: "elsewhere (c_pipes s) (c_pinned_cpu s) (c_priority s) (c_hist s) s = s"
  by (simp add: elsewhere_def)

lemma elsewhere_sel [simp]:
  "c_pipes (elsewhere ps cpu prio h s) = ps" "c_hist (elsewhere ps cpu prio h s) = h"
  "insertSDC (elsewhere ps cpu prio h s) = insertSDC s" "c_pipe_count (elsewhere ps cpu prio h s) = c_pipe_count s"
  by (simp_all add: elsewhere_def)

text \<open>Such an operation leaves the environment alone.\<close>

lemma keeps_environment:
  assumes "\<And>ps cpu prio h s. f (elsewhere ps cpu prio h s) = map_option (elsewhere ps cpu prio h) (f s)"
    and "f s = Some (s' :: 'a controller_scheme)"
  shows "s' = elsewhere (c_pipes s) (c_pinned_cpu s) (c_priority s) (c_hist s) s'"
proof -
  have "map_option (elsewhere (c_pipes s) (c_pinned_cpu s) (c_priority s) (c_hist s)) (Some s') = Some s'"
    using assms(1) [of "c_pipes s" "c_pinned_cpu s" "c_priority s" "c_hist s" s] assms(2) by simp
  then show ?thesis by simp
qed

section \<open>Compute, then send\<close>

text \<open>
  The controllers first compute, without the system, and then send the messages they have computed, each
  on the pipe of an index. Such a step does the same elsewhere when its computation does.
\<close>

datatype message =
    Waypoints "64 word" "64 word" "64 word" "64 word" "64 word" "64 word"
  | WaypointRequest int
  | MoveCommand int "64 word" "64 word"
  | Ranger int "64 word list" "64 word list"
  | MapUpdate comm_map_update
  | Ack "64 word" int

fun send_message :: "posix \<Rightarrow> typed_pipe \<Rightarrow> message \<Rightarrow> history \<Rightarrow> history option" where
  "send_message K p (Waypoints x y a nx ny na) h = Some (snd (commSendWaypoints K p x y a nx ny na h))"
| "send_message K p (WaypointRequest pad) h = Some (snd (commSendWaypointRequest K p pad h))"
| "send_message K p (MoveCommand seq v w) h = Some (snd (commSendMoveCommand K p seq v w h))"
| "send_message K p (Ranger seq rs ps) h = map_option snd (commSendRanger K p seq rs ps h)"
| "send_message K p (MapUpdate m) h = map_option snd (commSendMapUpdate K p m h)"
| "send_message K p (Ack w r) h = Some (snd (commSendAck K p w r h))"

text \<open>Every message is a fixed block of bytes, or none when its arrays are too short.\<close>

fun message_kind :: "message \<Rightarrow> comm_message_t" where
  "message_kind (Waypoints x y a nx ny na) = WAY_RES"
| "message_kind (WaypointRequest pad) = WAY_REQ"
| "message_kind (MoveCommand seq v w) = MOV_CMD"
| "message_kind (Ranger seq rs ps) = RANGE_POSE_DATA"
| "message_kind (MapUpdate m) = MAP_UPDATE"
| "message_kind (Ack w r) = COMM_ACK"

fun message_bytes :: "message \<Rightarrow> byte list option" where
  "message_bytes (Waypoints x y a nx ny na) = Some (way_res_bytes \<lparr>point = [x, y, a], n_point = [nx, ny, na]\<rparr>)"
| "message_bytes (WaypointRequest pad) = Some (way_req_bytes \<lparr>padding = pad\<rparr>)"
| "message_bytes (MoveCommand seq v w) = Some (mov_cmd_bytes \<lparr>mov_seq_count = seq, vel_cmd = [v, w]\<rparr>)"
| "message_bytes (Ranger seq rs ps) = do {
     rs' \<leftarrow> mem_read rs 0 RANGER_COUNT; ps' \<leftarrow> mem_read ps 0 3;
     Some (range_pose_bytes \<lparr>range_seq_count = seq, ranges = rs', pose = ps'\<rparr>) }"
| "message_bytes (MapUpdate m) =
     (if obs_count m < 0 then None
      else map_obs_loop (nat (obs_count m)) 0 m (be_bytes (pose_x m) @ be_bytes (pose_y m) @ be_bytes (obs_count m)))"
| "message_bytes (Ack w r) = Some (ack_bytes \<lparr>hash = w, resend_request = r\<rparr>)"

lemma send_message_eq:
  "send_message K p m h =
     (if tp_fd_out p = 0 \<or> tp_type p \<noteq> message_kind m then Some h
      else map_option (\<lambda>bs. snd (sys_write K (tp_fd_out p) bs h)) (message_bytes m))"
  by (cases m)
    (auto simp: commSendWaypoints_def commSendWaypointRequest_def commSendMoveCommand_def commSendRanger_def commSendMapUpdate_def
      commSendAck_def split: Option.bind_split)

lemma send_message_writes:
  assumes "send_message K p m h = Some h'"
  obtains ws where "writes h' = writes h @ map (Pair (tp_fd_out p)) ws"
    "\<And>L q g. tp_type q = tp_type p \<Longrightarrow> (tp_fd_out q = 0 \<longleftrightarrow> tp_fd_out p = 0) \<Longrightarrow>
       \<exists>g'. send_message L q m g = Some g' \<and> writes g' = writes g @ map (Pair (tp_fd_out q)) ws"
proof (cases "tp_fd_out p = 0 \<or> tp_type p \<noteq> message_kind m")
  case True
  then show thesis using assms by (intro that [of "[]"]) (auto simp: send_message_eq)
next
  case False
  then obtain bs where "message_bytes m = Some bs" "h' = snd (sys_write K (tp_fd_out p) bs h)"
    using assms by (auto simp: send_message_eq)
  then show thesis using False by (intro that [of "[bs]"]) (auto simp: send_message_eq)
qed

definition send_on :: "posix \<Rightarrow> int \<times> message \<Rightarrow> 'a controller_scheme \<Rightarrow> 'a controller_scheme option" where
  "send_on K im s = do { p \<leftarrow> aget (c_pipes s) (fst im); h \<leftarrow> send_message K p (snd im) (c_hist s); Some (s\<lparr>c_hist := h\<rparr>) }"

lemma send_on_alike:
  assumes "alike s t" "send_on K im s = Some s'"
  shows "\<exists>t' ws. send_on L im t = Some t' \<and> alike s' t' \<and> sent_by s' = sent_by s @ ws \<and> sent_by t' = sent_by t @ ws"
proof -
  obtain ps cpu prio g where t: "t = elsewhere ps cpu prio g s" "same_ends (c_pipes s) ps"
    using assms(1) by (auto simp: alike_def)
  obtain p h where p: "aget (c_pipes s) (fst im) = Some p" "send_message K p (snd im) (c_hist s) = Some h" "s' = s\<lparr>c_hist := h\<rparr>"
    using assms(2) by (auto simp: send_on_def Option.bind_eq_Some_conv)
  obtain q where q: "aget ps (fst im) = Some q" "tp_type q = tp_type p" "tp_fd_out q = 0 \<longleftrightarrow> tp_fd_out p = 0"
    using same_ends_agetE [OF t(2) p(1)] by metis
  obtain ws g' where g': "writes h = writes (c_hist s) @ map (Pair (tp_fd_out p)) ws"
    "send_message L q (snd im) g = Some g'" "writes g' = writes g @ map (Pair (tp_fd_out q)) ws"
    using send_message_writes [OF p(2)] q(2,3) by metis
  have "send_on L im t = Some (elsewhere ps cpu prio g' s')"
    using t(1) p(3) q(1) g'(2) by (simp add: send_on_def elsewhere_def)
  moreover have "alike s' (elsewhere ps cpu prio g' s')" using t(2) p(3) by (auto simp: alike_def)
  ultimately show ?thesis using t(1) p(3) g'(1,3) by (auto simp: sent_by_def comp_def)
qed

interpretation sending: replicated send_on alike sent_by
  by unfold_locales (rule send_on_alike)

lemma compute_then_send_alike:
  assumes pure: "\<And>ps cpu prio h s. f (elsewhere ps cpu prio h s) = map_option (map_prod id (elsewhere ps cpu prio h)) (f s)"
    and step: "\<And>K s. step K s = do { (ms, s1) \<leftarrow> f s; foldM (send_on K) ms s1 }"
    and "alike s t" "step K s = Some s'"
  shows "\<exists>t' ws. step L t = Some t' \<and> alike s' t' \<and> sent_by s' = sent_by s @ ws \<and> sent_by t' = sent_by t @ ws"
proof -
  obtain ps cpu prio g where t: "t = elsewhere ps cpu prio g s" "same_ends (c_pipes s) ps"
    using assms(3) by (auto simp: alike_def)
  obtain ms s1 where s1: "f s = Some (ms, s1)" "foldM (send_on K) ms s1 = Some s'"
    using assms(4) step by (auto simp: Option.bind_eq_Some_conv)
  have "map_option (map_prod id (elsewhere (c_pipes s) (c_pinned_cpu s) (c_priority s) (c_hist s))) (f s) = f s"
    using pure [of "c_pipes s" "c_pinned_cpu s" "c_priority s" "c_hist s" s] by simp
  then have own: "s1 = elsewhere (c_pipes s) (c_pinned_cpu s) (c_priority s) (c_hist s) s1" using s1(1) by simp
  then have env: "c_pipes s1 = c_pipes s" "c_hist s1 = c_hist s" by (metis elsewhere_sel(1), metis elsewhere_sel(2))
  have t1: "f t = Some (ms, elsewhere ps cpu prio g s1)" using pure t(1) s1(1) by simp
  have "alike s1 (elsewhere ps cpu prio g s1)" using t(2) env by (auto simp: alike_def)
  from sending.run_alike [OF this s1(2), of L] show ?thesis
    using t1 t(1) step env by (auto simp: sent_by_def)
qed

end
