(* ===== verification/MapperProps.thy ===== *)
theory MapperProps
  imports CommProps Mapper Determinism
begin

text \<open>
  Properties of the mapper: it stays inside its arrays and reports exactly the cells that were seen often
  enough, and two mappers that read the same data write the same bytes.
\<close>

section \<open>Sightings\<close>

definition mapper_ok :: "mapper \<Rightarrow> bool" where
  "mapper_ok s \<longleftrightarrow> wf_grid (obstacle_map s) \<and> length (obs_x (send_msg s)) = 2042 \<and> length (obs_y (send_msg s)) = 2042
     \<and> 0 \<le> obs_count (send_msg s) \<and> obs_count (send_msg s) \<le> 2042"

text \<open>How often a cell was seen, as far as it is counted.\<close>

definition seen :: "mapper \<Rightarrow> int \<Rightarrow> int \<Rightarrow> int" where
  "seen s x y = obstacle_map s ! nat x ! nat y"

text \<open>The cells that a message names, and what the handling of obstacles leaves alone.\<close>

definition reported :: "comm_map_update \<Rightarrow> (int \<times> int) list" where
  "reported m = map (\<lambda>i. (uint (obs_x m ! i), uint (obs_y m ! i))) [0..<nat (obs_count m)]"

definition mapper_frame :: "mapper \<Rightarrow> typed_pipe list \<times> int \<times> bool \<times> bool \<times> (int \<times> byte list) list" where
  "mapper_frame s = (c_pipes s, update_index s, resending_all s, insertSDC s, writes (c_hist s))"

lemma seen_get: "mapper_ok s \<Longrightarrow> on_grid x y \<Longrightarrow> grid_get (obstacle_map s) x y = Some (seen s x y)"
  by (simp add: mapper_ok_def grid_get_in seen_def)

lemma length_reported: "length (reported m) = nat (obs_count m)"
  by (simp add: reported_def)

lemma uint_coordinate: "0 \<le> x \<Longrightarrow> x < 48 \<Longrightarrow> uint (word_of_int x :: byte) = x"
  by (simp add: uint_word_of_int)

lemma report_eq:
  assumes "mapper_ok s" "obs_count (send_msg s) < 2042" "on_grid x y"
  shows "\<exists>s'. report x y s = Some s' \<and> mapper_ok s' \<and> obstacle_map s' = obstacle_map s \<and> mapper_frame s' = mapper_frame s
    \<and> reported (send_msg s') = reported (send_msg s) @ [(x, y)]"
proof -
  obtain k where k: "obs_count (send_msg s) = int k" "k < 2042"
    using assms(1,2) by (metis mapper_ok_def nonneg_int_cases of_nat_less_numeral_iff)
  have len: "length (obs_x (send_msg s)) = 2042" "length (obs_y (send_msg s)) = 2042"
    using assms(1) by (simp_all add: mapper_ok_def)
  have xy: "uint (word_of_int x :: byte) = x" "uint (word_of_int y :: byte) = y"
    using assms(3) by (simp_all add: on_grid_def GRID_NUM_def uint_coordinate)
  have suc: "nat (int k + 1) = Suc k" by simp
  show ?thesis
    using assms(1) k len xy
    by (auto simp: report_def mapper_ok_def mapper_frame_def reported_def suc Let_def intro!: map_cong)
qed

lemma addObstacle_eq:
  assumes ok: "mapper_ok s" "obs_count (send_msg s) < 2042" and cell: "pi_x obs \<noteq> 48" "pi_y obs \<noteq> 48"
  shows "\<exists>ch s'. addObstacle obs s = Some (ch, s') \<and> mapper_ok s' \<and> mapper_frame s' = mapper_frame s
    \<and> (\<forall>a b. on_grid a b \<longrightarrow> seen s' a b =
         (if a = pi_x obs \<and> b = pi_y obs \<and> seen s a b \<le> OBS_THRES then seen s a b + 1 else seen s a b))
    \<and> reported (send_msg s') = reported (send_msg s)
        @ (if on_grid (pi_x obs) (pi_y obs) \<and> seen s (pi_x obs) (pi_y obs) = OBS_THRES then [(pi_x obs, pi_y obs)] else [])"
proof (cases "on_grid (pi_x obs) (pi_y obs)")
  case False
  then have "addObstacle obs s = Some (False, s)"
    using cell by (auto simp: addObstacle_def on_grid_def GRID_NUM_def Let_def)
  then show ?thesis using ok False by auto
next
  case True
  then have guard: "\<not> (pi_x obs < 0 \<or> pi_x obs > GRID_NUM \<or> pi_y obs < 0 \<or> pi_y obs > GRID_NUM)"
    by (auto simp: on_grid_def)
  note get = seen_get [OF ok(1) True]
  show ?thesis
  proof (cases "seen s (pi_x obs) (pi_y obs) > OBS_THRES")
    case many: True
    then have "addObstacle obs s = Some (False, s)" using guard get by (simp add: addObstacle_def Let_def)
    then show ?thesis using ok many by auto
  next
    case few: False
    obtain g where g: "grid_set (obstacle_map s) (pi_x obs) (pi_y obs) (seen s (pi_x obs) (pi_y obs) + 1) = Some g" "wf_grid g"
      "\<And>a b. on_grid a b \<Longrightarrow> grid_get g a b
         = (if a = pi_x obs \<and> b = pi_y obs then Some (seen s (pi_x obs) (pi_y obs) + 1) else grid_get (obstacle_map s) a b)"
      using grid_set_in [OF _ True] ok(1) by (metis mapper_ok_def)
    let ?s1 = "s\<lparr>obstacle_map := g\<rparr>"
    have ok1: "mapper_ok ?s1" and fr1: "mapper_frame ?s1 = mapper_frame s"
      using ok(1) g(2) by (simp_all add: mapper_ok_def mapper_frame_def)
    have seen1: "seen ?s1 a b = (if a = pi_x obs \<and> b = pi_y obs then seen s a b + 1 else seen s a b)" if "on_grid a b" for a b
      using g(3) [OF that] seen_get [OF ok1 that] seen_get [OF ok(1) that] by (auto split: if_splits)
    show ?thesis
    proof (cases "seen s (pi_x obs) (pi_y obs) = OBS_THRES")
      case hit: True
      obtain s2 where s2: "report (pi_x obs) (pi_y obs) ?s1 = Some s2" "mapper_ok s2" "obstacle_map s2 = g"
        "mapper_frame s2 = mapper_frame s" "reported (send_msg s2) = reported (send_msg s) @ [(pi_x obs, pi_y obs)]"
        using report_eq [OF ok1 _ True] ok(2) fr1 by auto
      have "addObstacle obs s = Some (True, s2)"
        using guard get g(1) s2(1) hit by (simp add: addObstacle_def Let_def)
      moreover have "seen s2 a b = seen ?s1 a b" for a b using s2(3) by (simp add: seen_def)
      ultimately show ?thesis using s2 seen1 hit True by auto
    next
      case False
      then have "addObstacle obs s = Some (True, ?s1)"
        using guard get g(1) few by (simp add: addObstacle_def Let_def)
      then show ?thesis using ok1 fr1 seen1 False few True by auto
    qed
  qed
qed

text \<open>\<open>gridify\<close> never yields the index just behind the grid, which the guard of \<open>addObstacle\<close> would let through.\<close>

lemma gridify_total:
  assumes "\<And>x. d_to_int D x \<noteq> None"
  obtains c where "gridify D p = Some c"
proof -
  obtain x y where "d_to_int D (d_div D (d_add D (pd_x p) (d_of_int D OFFSET_X)) (interval D)) = Some x"
    "d_to_int D (d_div D (d_add D (pd_y p) (d_of_int D OFFSET_Y)) (interval D)) = Some y"
    using assms by (metis not_None_eq)
  then show ?thesis using that by (simp add: gridify_def)
qed

lemma gridify_not_48: "gridify D p = Some c \<Longrightarrow> pi_x c \<noteq> 48 \<and> pi_y c \<noteq> 48"
  by (auto simp: gridify_def GRID_NUM_def Option.bind_eq_Some_conv split: if_splits)

lemma addObstacle_48: "wf_grid (obstacle_map s) \<Longrightarrow> 0 \<le> y \<Longrightarrow> y < 48 \<Longrightarrow> addObstacle \<lparr>pi_x = 48, pi_y = y\<rparr> s = None"
  by (simp add: addObstacle_def GRID_NUM_def grid_get_out on_grid_def Let_def)

section \<open>One scan\<close>

definition scanned :: "mapper \<Rightarrow> nat \<Rightarrow> mapper \<Rightarrow> bool" where
  "scanned s0 i s \<longleftrightarrow> mapper_ok s \<and> mapper_frame s = mapper_frame s0 \<and> length (reported (send_msg s)) \<le> i
     \<and> distinct (reported (send_msg s))
     \<and> set (reported (send_msg s)) = {(a, b). on_grid a b \<and> seen s0 a b \<le> OBS_THRES \<and> seen s a b > OBS_THRES}
     \<and> (\<forall>a b. on_grid a b \<longrightarrow> seen s0 a b \<le> seen s a b)"

lemma scanned_step:
  assumes "scanned s0 i s" "i < 16" "pi_x obs \<noteq> 48" "pi_y obs \<noteq> 48"
  shows "\<exists>ch s'. addObstacle obs s = Some (ch, s') \<and> scanned s0 (Suc i) s'"
proof -
  have ok: "mapper_ok s" using assms(1) by (simp add: scanned_def)
  have "obs_count (send_msg s) < 2042"
    using assms(1,2) length_reported [of "send_msg s"] by (simp add: scanned_def nat_le_iff)
  then obtain ch s' where s': "addObstacle obs s = Some (ch, s')" "mapper_ok s'" "mapper_frame s' = mapper_frame s"
    "\<And>a b. on_grid a b \<Longrightarrow> seen s' a b =
         (if a = pi_x obs \<and> b = pi_y obs \<and> seen s a b \<le> OBS_THRES then seen s a b + 1 else seen s a b)"
    "reported (send_msg s') = reported (send_msg s)
        @ (if on_grid (pi_x obs) (pi_y obs) \<and> seen s (pi_x obs) (pi_y obs) = OBS_THRES then [(pi_x obs, pi_y obs)] else [])"
    using addObstacle_eq [OF ok _ assms(3,4)] by blast
  have "seen s0 (pi_x obs) (pi_y obs) \<le> seen s (pi_x obs) (pi_y obs)" if "on_grid (pi_x obs) (pi_y obs)"
    using assms(1) that by (simp add: scanned_def)
  then have "scanned s0 (Suc i) s'"
    using assms(1) s' unfolding scanned_def by (fastforce simp: OBS_THRES_def split: if_splits)
  then show ?thesis using s'(1) by blast
qed

lemma see_range_step:
  assumes "scanned s0 i s" "i < 16" "length rs = 16" and conv: "\<And>x. d_to_int D x \<noteq> None"
  shows "\<exists>s'. see_range D p theta_pose rs (int i) s = Some s' \<and> scanned s0 (Suc i) s'"
proof -
  obtain o_g where o_g: "obstacle_at D p theta_pose rs (int i) = Some o_g"
    using assms(2,3) by (simp add: obstacle_at_def Let_def)
  obtain cell where cell: "gridify D o_g = Some cell"
    by (rule gridify_total [OF conv])
  obtain ch s' where "addObstacle cell s = Some (ch, s')" "scanned s0 (Suc i) s'"
    using scanned_step [OF assms(1,2)] gridify_not_48 [OF cell] by blast
  then show ?thesis using o_g cell by (simp add: see_range_def)
qed

lemma scan_eq:
  assumes "mapper_ok s" "length rs = 16" and conv: "\<And>x. d_to_int D x \<noteq> None"
  shows "\<exists>s'. for_upto 0 RANGE_COUNT (see_range D p theta_pose rs) (s\<lparr>send_msg := (send_msg s)\<lparr>obs_count := 0\<rparr>\<rparr>) = Some s'
    \<and> scanned s 16 s'"
proof -
  let ?s1 = "s\<lparr>send_msg := (send_msg s)\<lparr>obs_count := 0\<rparr>\<rparr>"
  have "scanned s 0 ?s1"
    using assms(1) by (auto simp: scanned_def mapper_ok_def mapper_frame_def reported_def seen_def)
  moreover have "RANGE_COUNT = int 16" by (simp add: RANGE_COUNT_def)
  ultimately show ?thesis
    using for_upto_nat [where P = "scanned s" and n = 16 and f = "see_range D p theta_pose rs" and s = ?s1]
      see_range_step [OF _ _ assms(2) conv] by metis
qed

lemma updateMap_reports:
  assumes ok: "mapper_ok s" and "\<not> resending_all s"
    and scan: "length (ranges data) = 16" "length (pose data) = 3" and conv: "\<And>x. d_to_int D x \<noteq> None"
    and out: "aget (c_pipes s) (update_index s) = Some p" "tp_type p = MAP_UPDATE" "tp_fd_out p \<noteq> 0"
  shows "\<exists>s'. updateMap K D data s = Some s' \<and> mapper_ok s' \<and> distinct (reported (send_msg s'))
    \<and> set (reported (send_msg s')) = {(x, y). on_grid x y \<and> seen s x y \<le> OBS_THRES \<and> seen s' x y > OBS_THRES}
    \<and> length (reported (send_msg s')) \<le> 16
    \<and> writes (c_hist s') = writes (c_hist s) @
        [(tp_fd_out p, map_header (send_msg s') @ obstacle_bytes (send_msg s') (length (reported (send_msg s'))))]"
proof -
  obtain px py th where pose: "aget (pose data) 0 = Some px" "aget (pose data) 1 = Some py" "aget (pose data) 2 = Some th"
    using scan(2) by (simp add: aget_def)
  let ?p = "\<lparr>pd_x = px, pd_y = py\<rparr>"
  obtain cp where cp: "gridify D ?p = Some cp"
    by (rule gridify_total [OF conv])
  obtain s2 where s2: "for_upto 0 RANGE_COUNT (see_range D ?p th (ranges data)) (s\<lparr>send_msg := (send_msg s)\<lparr>obs_count := 0\<rparr>\<rparr>) = Some s2"
    "scanned s 16 s2"
    using scan_eq [OF ok scan(1) conv] by blast
  have fr: "c_pipes s2 = c_pipes s" "update_index s2 = update_index s" "resending_all s2 = resending_all s"
    "writes (c_hist s2) = writes (c_hist s)"
    using s2(2) by (simp_all add: scanned_def mapper_frame_def)
  let ?cp = "if insertSDC s2 then cp\<lparr>pi_x := pi_x cp + 1\<rparr> else cp"
  let ?m = "(send_msg s2)\<lparr>pose_x := pi_x ?cp, pose_y := pi_y ?cp\<rparr>"
  let ?s4 = "s2\<lparr>insertSDC := False, current_pose := Some ?cp, send_msg := ?m\<rparr>"
  have rep: "reported ?m = reported (send_msg s2)" by (simp add: reported_def)
  have ok4: "mapper_ok ?s4" using s2(2) by (simp add: scanned_def mapper_ok_def)
  have len: "obs_count ?m = int (length (reported ?m))" "length (reported ?m) \<le> 16"
    using s2(2) length_reported [of ?m] rep ok4 by (simp_all add: scanned_def mapper_ok_def)
  have "commSendMapUpdate K p ?m (c_hist s2)
      = Some (sys_write K (tp_fd_out p) (map_header ?m @ obstacle_bytes ?m (length (reported ?m))) (c_hist s2))"
    using commSendMapUpdate_eq [of p ?m K "c_hist s2"] out(2,3) len ok4 by (simp add: mapper_ok_def min_def)
  then have "updateMap K D data s = Some (?s4\<lparr>c_hist := snd (sys_write K (tp_fd_out p)
      (map_header ?m @ obstacle_bytes ?m (length (reported ?m))) (c_hist s2))\<rparr>)"
    using pose cp s2(1) fr assms(2) out(1) by (simp add: updateMap_def Let_def case_prod_unfold)
  moreover have "seen (?s4\<lparr>c_hist := h\<rparr>) x y = seen s2 x y" for h x y by (simp add: seen_def)
  ultimately show ?thesis
    using s2(2) ok4 rep len(2) fr(4) by (auto simp: scanned_def mapper_ok_def)
qed


text \<open>A unit that computes on the patterns as integers, and a mapper that has just started.\<close>

definition int_dpu :: dpu where
  "int_dpu = \<lparr>d_add = (+), d_sub = (-), d_mul = (*), d_div = (\<lambda>x y. x), d_less = (\<lambda>x y. sint x < sint y),
     d_of_int = word_of_int, d_to_int = (\<lambda>x. Some (sint x)), d_sqrt = id, d_sin = (\<lambda>x. 0), d_cos = (\<lambda>x. 1)\<rparr>"

definition first_mapper :: mapper where
  "first_mapper = mapper_init (\<lambda>_. 0) (mapper_globals\<lparr>c_pipes := [\<lparr>tp_type = RANGE_POSE_DATA, tp_fd_in = 3, tp_fd_out = 0\<rparr>,
     \<lparr>tp_type = MAP_UPDATE, tp_fd_in = 0, tp_fd_out = 4\<rparr>, \<lparr>tp_type = COMM_ACK, tp_fd_in = 5, tp_fd_out = 0\<rparr>],
     update_index := 1, ack_index := 2\<rparr>)"

lemma first_mapper_ok: "mapper_ok first_mapper" "\<not> resending_all first_mapper"
  "aget (c_pipes first_mapper) (update_index first_mapper) = Some \<lparr>tp_type = MAP_UPDATE, tp_fd_in = 0, tp_fd_out = 4\<rparr>"
  by (simp_all add: first_mapper_def mapper_init_def mapper_globals_def mapper_ok_def MAX_OBSTACLES_def aget_def)


section \<open>Replicas of the mapper\<close>

lemma report_elsewhere: "report x y (elsewhere ps cpu prio h s) = map_option (elsewhere ps cpu prio h) (report x y s)"
  by (auto simp: report_def elsewhere_def Let_def split: Option.bind_split)

lemma addObstacle_elsewhere:
  "addObstacle obs (elsewhere ps cpu prio h s) = map_option (map_prod id (elsewhere ps cpu prio h)) (addObstacle obs s)"
  (is "addObstacle obs (?E s) = _")
proof -
  have E: "obstacle_map (?E s) = obstacle_map s" "(?E s)\<lparr>obstacle_map := g\<rparr> = ?E (s\<lparr>obstacle_map := g\<rparr>)" for g
    by (simp_all add: elsewhere_def)
  show ?thesis
    by (auto simp: addObstacle_def E report_elsewhere Let_def map_option_bind split: Option.bind_split)
qed

lemma see_range_elsewhere:
  "see_range D p th rs i (elsewhere ps cpu prio h s) = map_option (elsewhere ps cpu prio h) (see_range D p th rs i s)"
  by (auto simp: see_range_def addObstacle_elsewhere split: Option.bind_split)

lemma resend_map_elsewhere:
  "resend_map (elsewhere ps cpu prio h s) = map_option (elsewhere ps cpu prio h) (resend_map s)"
proof -
  have "obstacle_map (elsewhere ps cpu prio h s) = obstacle_map s" for s :: mapper by (simp add: elsewhere_def)
  then show ?thesis
    unfolding resend_map_def by (intro for_upto_map) (auto simp: report_elsewhere split: Option.bind_split)
qed

text \<open>The part of \<open>updateMap\<close> before the message is sent.\<close>

definition update_msg :: "dpu \<Rightarrow> comm_range_pose_data \<Rightarrow> mapper \<Rightarrow> mapper option" where
  "update_msg D data s =
     do {
       px \<leftarrow> aget (pose data) 0;
       py \<leftarrow> aget (pose data) 1;
       theta_pose \<leftarrow> aget (pose data) 2;
       let p = \<lparr>pd_x = px, pd_y = py\<rparr>;
       cp \<leftarrow> gridify D p;
       let s1 = s\<lparr>send_msg := (send_msg s)\<lparr>obs_count := 0\<rparr>\<rparr>;
       s2 \<leftarrow> for_upto 0 RANGE_COUNT (see_range D p theta_pose (ranges data)) s1;
       s3 \<leftarrow> (if resending_all s2 then resend_map (s2\<lparr>resending_all := False\<rparr>) else Some s2);
       let cp' = (if insertSDC s3 then cp\<lparr>pi_x := pi_x cp + 1\<rparr> else cp);
       Some (s3\<lparr>insertSDC := False, current_pose := Some cp',
                   send_msg := (send_msg s3)\<lparr>pose_x := pi_x cp', pose_y := pi_y cp'\<rparr>\<rparr>)
     }"

lemma updateMap_split: "updateMap K D data s = do {
    s4 \<leftarrow> update_msg D data s;
    send_on K (update_index s4, MapUpdate (send_msg s4)) s4 }"
  by (auto simp: updateMap_def update_msg_def send_on_def Let_def split: Option.bind_split)

lemma elsewhere_mapper_updates:
  "(elsewhere ps cpu prio h s)\<lparr>send_msg := m\<rparr> = elsewhere ps cpu prio h (s\<lparr>send_msg := m\<rparr>)"
  "(elsewhere ps cpu prio h s)\<lparr>resending_all := b\<rparr> = elsewhere ps cpu prio h (s\<lparr>resending_all := b\<rparr>)"
  "(elsewhere ps cpu prio h s)\<lparr>insertSDC := b, current_pose := c, send_msg := m\<rparr>
     = elsewhere ps cpu prio h (s\<lparr>insertSDC := b, current_pose := c, send_msg := m\<rparr>)"
  "send_msg (elsewhere ps cpu prio h s) = send_msg s" "resending_all (elsewhere ps cpu prio h s) = resending_all s"
  "update_index (elsewhere ps cpu prio h s) = update_index s"
  by (simp_all add: elsewhere_def)

lemma update_msg_elsewhere:
  "update_msg D data (elsewhere ps cpu prio h s) = map_option (elsewhere ps cpu prio h) (update_msg D data s)"
proof -
  have scan: "for_upto 0 RANGE_COUNT (see_range D p th rs) (elsewhere ps cpu prio h u)
      = map_option (elsewhere ps cpu prio h) (for_upto 0 RANGE_COUNT (see_range D p th rs) u)" for p th rs u
    by (rule for_upto_map) (rule see_range_elsewhere)
  show ?thesis
    by (auto simp: update_msg_def Let_def elsewhere_mapper_updates scan resend_map_elsewhere split: Option.bind_split)
qed

text \<open>The two inputs of a mapper: a scan, and an acknowledgement that may ask for the whole map.\<close>

datatype mapper_input = Scan comm_range_pose_data | Acked comm_ack

fun mapper_input_step :: "dpu \<Rightarrow> posix \<Rightarrow> mapper_input \<Rightarrow> mapper \<Rightarrow> mapper option" where
  "mapper_input_step D K (Scan data) s = updateMap K D data s"
| "mapper_input_step D K (Acked m) s = Some (if resend_request m = 1 then s\<lparr>resending_all := True\<rparr> else s)"

fun mapper_compute :: "dpu \<Rightarrow> mapper_input \<Rightarrow> mapper \<Rightarrow> ((int \<times> message) list \<times> mapper) option" where
  "mapper_compute D (Scan data) s = do { s4 \<leftarrow> update_msg D data s; Some ([(update_index s4, MapUpdate (send_msg s4))], s4) }"
| "mapper_compute D (Acked m) s = Some ([], if resend_request m = 1 then s\<lparr>resending_all := True\<rparr> else s)"

lemma mapper_compute_elsewhere:
  "mapper_compute D i (elsewhere ps cpu prio h s) = map_option (map_prod id (elsewhere ps cpu prio h)) (mapper_compute D i s)"
  by (cases i) (auto simp: update_msg_elsewhere elsewhere_mapper_updates split: Option.bind_split)

interpretation mapper_replicas: replicated "mapper_input_step D" alike sent_by for D
proof (unfold_locales, rule compute_then_send_alike [OF mapper_compute_elsewhere])
  show "mapper_input_step D K i s = do { (ms, s1) \<leftarrow> mapper_compute D i s; foldM (send_on K) ms s1 }" for K i s
    by (cases i) (simp_all add: updateMap_split)
qed

text \<open>Replicas of the mapper agree: two mappers that differ only in their descriptors, CPU, priority,
  process and system, and that get the same scans and acknowledgements, send the same map updates byte for
  byte, so that a voter sees no difference between them.\<close>

theorem mapper_replicas_agree:
  assumes "same_ends (c_pipes s) ps" "foldM (mapper_input_step D K) inputs s = Some s'"
  shows "\<exists>t' ws. foldM (mapper_input_step D L) inputs (s\<lparr>c_pipes := ps, c_pinned_cpu := cpu, c_priority := prio, c_hist := h\<rparr>) = Some t'
    \<and> obstacle_map t' = obstacle_map s' \<and> map snd (writes (c_hist s')) = map snd (writes (c_hist s)) @ ws
    \<and> map snd (writes (c_hist t')) = map snd (writes h) @ ws"
proof -
  have "alike s (elsewhere ps cpu prio h s)" using assms(1) by (auto simp: alike_def)
  from mapper_replicas.run_alike [OF this assms(2), of L] show ?thesis
    by (fastforce simp: alike_def elsewhere_def sent_by_def)
qed

theorem mapper_replicas_agree_witness:
  "\<exists>t' bs. foldM (mapper_input_step int_dpu quiet) [Scan \<lparr>range_seq_count = 0, ranges = replicate 16 0, pose = [0, 0, 0]\<rparr>]
      (first_mapper\<lparr>c_pipes := [\<lparr>tp_type = RANGE_POSE_DATA, tp_fd_in = 6, tp_fd_out = 0\<rparr>,
         \<lparr>tp_type = MAP_UPDATE, tp_fd_in = 0, tp_fd_out = 7\<rparr>, \<lparr>tp_type = COMM_ACK, tp_fd_in = 8, tp_fd_out = 0\<rparr>],
         c_pinned_cpu := 3, c_priority := 9, c_hist := [SysClose 1]\<rparr>) = Some t'
     \<and> map snd (writes (c_hist t')) = [bs]"
proof -
  let ?ps = "[\<lparr>tp_type = RANGE_POSE_DATA, tp_fd_in = 6, tp_fd_out = 0\<rparr>,
         \<lparr>tp_type = MAP_UPDATE, tp_fd_in = 0, tp_fd_out = 7\<rparr>, \<lparr>tp_type = COMM_ACK, tp_fd_in = 8, tp_fd_out = 0\<rparr>]"
  let ?scan = "\<lparr>range_seq_count = 0, ranges = replicate 16 0, pose = [0, 0, 0]\<rparr>"
  have w: "writes (c_hist first_mapper) = []" by (simp add: first_mapper_def mapper_init_def mapper_globals_def)
  obtain s' bs where s': "updateMap quiet int_dpu ?scan first_mapper = Some s'" "writes (c_hist s') = [(4, bs)]"
    using updateMap_reports [OF first_mapper_ok(1,2) _ _ _ first_mapper_ok(3), of ?scan int_dpu quiet] w
    by (auto simp: int_dpu_def)
  have "same_ends (c_pipes first_mapper) ?ps"
    by (simp add: same_ends_def first_mapper_def mapper_init_def mapper_globals_def)
  moreover have "foldM (mapper_input_step int_dpu quiet) [Scan ?scan] first_mapper = Some s'" using s'(1) by simp
  ultimately show ?thesis
    using mapper_replicas_agree [where s = first_mapper and ps = ?ps and D = int_dpu and K = quiet and L = quiet
        and inputs = "[Scan ?scan]" and s' = s' and cpu = 3 and prio = 9 and h = "[SysClose 1]"] s'(2) w
    by auto
qed

end
