(* ===== verification/AStarProps.thy ===== *)
theory AStarProps
  imports AStarTotal MapperProps
begin

text \<open>
  Properties of the planner: it searches until it has a legal route or knows that there is none, whatever
  the floating-point unit computes, its pointers stay valid, and it hands out the route in order.
\<close>

section \<open>What the planner owns\<close>

definition option_list :: "'a option \<Rightarrow> 'a list" where
  "option_list x = (case x of None \<Rightarrow> [] | Some a \<Rightarrow> [a])"

definition owned :: "astar \<Rightarrow> nat list" where
  "owned s = option_list (current_goal s) @ option_list (n_current_goal s) @ nodes (goal_path s)"

definition planner_ok :: "astar \<Rightarrow> bool" where
  "planner_ok s \<longleftrightarrow>
     wf_grid (as_obstacle_map s) \<and> goal_path s \<noteq> LNull \<and> distinct (owned s) \<and> (\<forall>a \<in> set (owned s). deref (heap s) a \<noteq> None)"

definition path_cells :: "astar \<Rightarrow> (int \<times> int) list" where
  "path_cells s = map (\<lambda>a. the (place (heap s) a)) (nodes (goal_path s))"

definition cell_of :: "point_i \<Rightarrow> int \<times> int" where
  "cell_of p = (pi_x p, pi_y p)"

lemma option_list_simps [simp]: "option_list None = []" "option_list (Some a) = [a]"
  by (simp_all add: option_list_def)

section \<open>A search from start to end\<close>

lemma search_start_ok:
  assumes "search_start D g p H = Some (r, k)"
  shows "\<exists>q H'. r = Going q newList H' \<and> search_ok m H (cell_of p) (cell_of g) k q newList [] H'"
proof -
  let ?n = "\<lparr>n_x = pi_x p, n_y = pi_y p, g_score = d_of_int D 0, back_link = None\<rparr>"
  let ?g = "\<lparr>n_x = pi_x g, n_y = pi_y g, g_score = d_of_int D 0, back_link = None\<rparr>"
  let ?H = "(H @ [Some ?n]) @ [Some ?g]"
  have k: "k = Suc (length H)" and r: "r = Going (LCell (length H) (estDistanceG D g (pi_x p) (pi_y p)) LNull) newList ?H"
    using assms by (auto simp: search_start_def newNode_def newList_def Let_def)
  have d: "deref ?H (length H) = Some ?n" "deref ?H (Suc (length H)) = Some ?g" "\<And>a. a < length H \<Longrightarrow> deref ?H a = deref H a"
    by (auto simp: deref_def nth_append)
  have "linked m ?H {} (cell_of p) (length H)"
    unfolding linked_def by (rule exI [of _ "[]"]) (use d(1) in \<open>simp add: place_def cell_of_def\<close>)
  then have "search_inv m H (cell_of p) (cell_of g) k {length H} {} {} ?H"
    by (intro search_invI) (use d k in \<open>auto simp: place_def cell_of_def\<close>)
  then show ?thesis using r by (auto simp: search_ok_def)
qed

lemma extract_path_route:
  assumes "route m H p" "length p \<le> n" "l \<noteq> LNull"
  shows "\<exists>l'. extract_path n (Some (hd p)) l H = Some l' \<and> nodes l' = rev p @ nodes l \<and> l' \<noteq> LNull"
  using assms
proof (induction m H p arbitrary: n l rule: route.induct)
  case (2 m H a)
  then show ?case by (cases n) (auto simp: push_def)
next
  case (3 m H a b p)
  then obtain n' where n: "n = Suc n'" by (cases n) auto
  obtain l' where "extract_path n' (Some b) (push l a) H = Some l'" "nodes l' = rev (b # p) @ nodes (push l a)" "l' \<noteq> LNull"
    using 3(1) [of n' "push l a"] 3(2,3) n by (auto simp: push_def)
  then show ?case using 3(2) n by (auto simp: push_def)
qed simp

lemma eraseAllButList_keeps:
  assumes "eraseAllButList kl sl H = Some H'"
  shows "b \<notin> set (nodes kl) \<or> b \<in> set (nodes sl) \<Longrightarrow> deref H' b = deref H b"
  using assms
proof (induction kl sl H rule: eraseAllButList.induct)
  case (1 kl sl H)
  obtain c kl' where c: "pop kl = Some (c, kl')"
    using 1(3) by (subst (asm) eraseAllButList.simps) (auto simp: Option.bind_eq_Some_conv)
  show ?case
  proof (cases c)
    case None
    then show ?thesis using 1(3) c by (subst (asm) eraseAllButList.simps) auto
  next
    case (Some a)
    then have kl: "nodes kl = a # nodes kl'" using c pop_Some by blast
    obtain found H1 where f: "findNode sl a H = Some found" "(if found \<noteq> None then Some H else free_node a H) = Some H1"
      "eraseAllButList kl' sl H1 = Some H'"
      using 1(3) c Some by (subst (asm) eraseAllButList.simps) (auto simp: Option.bind_eq_Some_conv)
    have "deref H1 b = deref H b"
    proof (cases found)
      case None
      then have "a \<notin> set (nodes sl)" using findNode_Some [OF f(1)] by auto
      then show ?thesis using None f(2) 1(2) kl by (auto simp: free_node_Some deref_update)
    qed (use f(2) in simp)
    moreover have "b \<notin> set (nodes kl') \<or> b \<in> set (nodes sl)" using 1(2) kl by auto
    then have "deref H' b = deref H1 b" using 1(1) [OF c refl Some f(1,2) _ f(3)] by blast
    ultimately show ?thesis by simp
  qed
qed

lemma take_path_ok:
  assumes ok: "search_ok m H0 start g k q1 c [] H" and q: "nodes q1 = cur # nodes q" and cur: "place H cur = Some g"
    and old: "\<forall>a \<in> set (nodes path). a < length H0"
    and run: "take_path k cur q c path H = Some (path', H')"
  obtains p where "nodes path' = rev p" "path' \<noteq> LNull" "route m H' p" "hd p = cur" "place H' cur = Some g"
    "place H' (last p) = Some start" "distinct p" "\<forall>a \<in> set p. length H0 \<le> a \<and> deref H' a \<noteq> None"
    "\<And>b. b < length H0 \<Longrightarrow> b \<notin> set (nodes path) \<Longrightarrow> deref H' b = deref H0 b"
proof -
  have inv: "search_inv m H0 start g k (insert cur (set (nodes q))) (set (nodes c)) {} H" and dq: "cur \<notin> set (nodes q)"
    using ok q by (auto simp: search_ok_def)
  note I = search_invD [OF inv]
  obtain p0 where p0: "route m H (cur # p0)" "set p0 \<subseteq> set (nodes c)" "distinct (cur # p0)" "place H (last (cur # p0)) = Some start"
    using I(9) [of cur] unfolding linked_def by blast
  let ?p = "cur # p0"
  obtain H1 path1 H2 path2 open1 H3 where
    H1: "free_node k H = Some H1" and H2: "eraseList path H1 = Some (path1, H2)"
    and P: "extract_path (Suc (length H2)) (Some cur) path1 H2 = Some path2"
    and H3: "eraseList q H2 = Some (open1, H3)" and H4: "eraseAllButList c path2 H3 = Some H'" and path': "path' = path2"
    using run by (auto simp: take_path_def Option.bind_eq_Some_conv)
  have where_p: "\<forall>a \<in> set ?p. length H0 \<le> a \<and> a \<noteq> k \<and> a \<notin> set (nodes path) \<and> a \<notin> set (nodes q)"
  proof
    fix a assume "a \<in> set ?p"
    then have a: "a = cur \<or> a \<in> set (nodes c)" using p0(2) by auto
    then have "a \<in> insert cur (set (nodes q)) \<union> set (nodes c) \<union> {}" by auto
    then have "length H0 \<le> a" "a \<noteq> k" using I(4,5) by blast+
    moreover have "a \<notin> set (nodes q)" using a dq I(1) by auto
    ultimately show "length H0 \<le> a \<and> a \<noteq> k \<and> a \<notin> set (nodes path) \<and> a \<notin> set (nodes q)" using old by fastforce
  qed
  have d2: "deref H2 b = (if b \<in> set (nodes path) \<or> b = k then None else deref H b)" for b
    using eraseList_Some [OF H2] H1 by (auto simp: free_node_Some deref_update deref_beyond)
  have len2: "length H2 = length H" using eraseList_Some [OF H2] H1 by (simp add: free_node_Some)
  have same2: "\<forall>a \<in> set ?p. deref H2 a = deref H a" using where_p d2 by simp
  have "set ?p \<subseteq> {..<length H}"
  proof
    fix a assume "a \<in> set ?p"
    then have "a \<in> insert cur (set (nodes q)) \<union> set (nodes c) \<union> {}" using p0(2) by auto
    from I(6) [OF this] show "a \<in> {..<length H}" using deref_bound by auto
  qed
  then have "card (set ?p) \<le> length H" using card_mono [of "{..<length H}" "set ?p"] by simp
  then have "length ?p \<le> length H" using p0(3) distinct_card by metis
  then have P2: "nodes path2 = rev ?p" "path2 \<noteq> LNull"
    using extract_path_route [of m H2 ?p "Suc (length H2)" path1] route_cong [OF same2, of m] p0(1) P eraseList_Some [OF H2] len2 by auto
  have d3: "deref H3 b = (if b \<in> set (nodes q) then None else deref H2 b)" for b using eraseList_Some [OF H3] by simp
  have d4: "deref H' b = deref H3 b" if "b \<notin> set (nodes c) \<or> b \<in> set ?p" for b
    using eraseAllButList_keeps [OF H4] that P2(1) by (metis set_rev)
  have same: "\<forall>a \<in> set ?p. deref H' a = deref H a" using d4 d3 same2 where_p by simp
  have "route m H' ?p" using route_cong [OF same, of m] p0(1) by simp
  moreover have "place H' cur = Some g" using same cur place_cong [of H' cur H] by simp
  moreover have "place H' (last ?p) = Some start" using p0(4) same place_cong [of H' "last ?p" H] by (metis last_in_set list.distinct(1))
  moreover have "\<forall>a \<in> set ?p. length H0 \<le> a \<and> deref H' a \<noteq> None"
  proof
    fix a assume a: "a \<in> set ?p"
    then have "a \<in> insert cur (set (nodes q)) \<union> set (nodes c) \<union> {}" using p0(2) by auto
    from I(6) [OF this] show "length H0 \<le> a \<and> deref H' a \<noteq> None" using same where_p a by metis
  qed
  moreover have "deref H' b = deref H0 b" if "b < length H0" "b \<notin> set (nodes path)" for b
  proof -
    have "b \<notin> set (nodes c)" "b \<notin> set (nodes q)" "b \<noteq> k"
      using I(4) I(11) that(1) by (metis Un_iff insertCI leD)+
    then show ?thesis using d4 d3 d2 that I(15) by simp
  qed
  ultimately show thesis using that [of ?p] P2 path' p0(3) by simp
qed

lemma astar_command_ok:
  assumes ok: "planner_ok s" and run: "astar_command D s = Some s'"
  shows "planner_ok s' \<and>
    (if reachable (as_obstacle_map s) (cell_of (as_pose s)) (cell_of (goal s))
     then legal_walk (as_obstacle_map s) (path_cells s') \<and> distinct (nodes (goal_path s'))
       \<and> hd (path_cells s') = cell_of (as_pose s) \<and> last (path_cells s') = cell_of (goal s)
     else goal_path s' = goal_path s \<and> path_cells s' = path_cells s)"
proof -
  let ?m = "as_obstacle_map s" and ?start = "cell_of (as_pose s)" and ?g = "cell_of (goal s)" and ?H0 = "heap s"
  have wf: "wf_grid ?m" "goal_path s \<noteq> LNull" "distinct (owned s)" and live: "\<forall>a \<in> set (owned s). deref ?H0 a \<noteq> None"
    using ok by (auto simp: planner_ok_def)
  have old: "\<forall>a \<in> set (owned s). a < length ?H0" using live deref_bound by auto
  obtain r0 k r where r0: "search_start D (goal s) (as_pose s) ?H0 = Some (r0, k)"
    and r: "search_rounds D ?m (goal s) k SEARCH_ROUNDS r0 = Some r"
    using run by (auto simp: astar_command_def Option.bind_eq_Some_conv)
  obtain q H1 where q: "r0 = Going q newList H1" "search_ok ?m ?H0 ?start ?g k q newList [] H1"
    using search_start_ok [OF r0] by blast
  note R = search_rounds_ok [OF r [unfolded q(1)] q(2)]
  show ?thesis
  proof (cases r)
    case (Going q' c' H')
    then have "search_ok ?m ?H0 ?start ?g k q' c' [] H'" "2400 \<le> length (nodes c')" using R by (auto simp: SEARCH_ROUNDS_def)
    then show ?thesis using explored_bound [OF _ wf(1)] by fastforce
  next
    case (NoPath H')
    then obtain q' c' where none: "search_ok ?m ?H0 ?start ?g k q' c' [] H'" "nodes q' = []" using R by auto
    have s': "s' = s\<lparr>heap := H'\<rparr>" using run r0 r NoPath by (simp add: astar_command_def)
    have keep: "deref H' a = deref ?H0 a" if "a \<in> set (owned s)" for a
      using none(1) old that search_invD(15) unfolding search_ok_def by metis
    then have "path_cells s' = path_cells s"
      by (auto simp: path_cells_def s' owned_def place_def)
    moreover have "planner_ok s'" using ok keep by (simp add: planner_ok_def s' owned_def)
    ultimately show ?thesis using unreachable [OF none] s' by simp
  next
    case (Found cur q' c' H')
    then obtain q1 where found: "search_ok ?m ?H0 ?start ?g k q1 c' [] H'" "nodes q1 = cur # nodes q'" "place H' cur = Some ?g"
      using R by auto
    obtain path' H2 where t: "take_path k cur q' c' (goal_path s) H' = Some (path', H2)" "s' = s\<lparr>goal_path := path', heap := H2\<rparr>"
      using run r0 r Found by (auto simp: astar_command_def Option.bind_eq_Some_conv)
    have "\<forall>a \<in> set (nodes (goal_path s)). a < length ?H0" using old by (auto simp: owned_def)
    from take_path_ok [OF found this t(1)] obtain p where p: "nodes path' = rev p" "path' \<noteq> LNull" "route ?m H2 p" "hd p = cur"
      "place H2 cur = Some ?g" "place H2 (last p) = Some ?start" "distinct p" "\<forall>a \<in> set p. length ?H0 \<le> a \<and> deref H2 a \<noteq> None"
      "\<And>b. b < length ?H0 \<Longrightarrow> b \<notin> set (nodes (goal_path s)) \<Longrightarrow> deref H2 b = deref ?H0 b"
      by blast
    have p0: "p \<noteq> []" using p(3) by auto
    have cells: "path_cells s' = rev (map (\<lambda>a. the (place H2 a)) p)" using p(1) t(2) by (simp add: path_cells_def rev_map)
    have ends: "hd (path_cells s') = ?start" "last (path_cells s') = ?g"
      using p(4,5,6) p0 by (simp_all add: cells hd_rev last_rev last_map hd_map)
    have walk: "legal_walk ?m (path_cells s')" unfolding cells by (rule route_walk [OF p(3)])
    have reach: "reachable ?m ?start ?g" using walk ends unfolding reachable_def by blast
    let ?own = "option_list (current_goal s) @ option_list (n_current_goal s)"
    have own: "owned s = ?own @ nodes (goal_path s)" "owned s' = ?own @ rev p" using p(1) t(2) by (simp_all add: owned_def)
    have keep: "a < length ?H0 \<and> deref H2 a = deref ?H0 a" if "a \<in> set ?own" for a
    proof -
      have "a \<notin> set (nodes (goal_path s))" using wf(3) that own(1) by auto
      then show ?thesis using p(9) old that own(1) by auto
    qed
    have "set ?own \<inter> set p = {}" using keep p(8) by fastforce
    then have "distinct (owned s')" using wf(3) own p(7) by auto
    moreover have "\<forall>a \<in> set (owned s'). deref (heap s') a \<noteq> None" using own keep live p(8) t(2) by auto
    ultimately have "planner_ok s'" using wf(1) p(2) t(2) by (simp add: planner_ok_def)
    then show ?thesis using reach walk ends p(1,7) t(2) by simp
  qed
qed

lemma search_start_total: "\<exists>r k. search_start D g p H = Some (r, k)"
  by (simp add: search_start_def newNode_def newList_def Let_def)

text \<open>On a walled map only a collapsing open list makes the command fail.\<close>

lemma astar_command_outcome:
  assumes ok: "planner_ok s" and m: "walled (as_obstacle_map s)" "inside (cell_of (as_pose s))"
  shows "astar_command D s = None \<Longrightarrow>
    \<exists>r k n q c H. search_start D (goal s) (as_pose s) (heap s) = Some (r, k)
      \<and> search_rounds D (as_obstacle_map s) (goal s) k n r = Some (Going q c H) \<and> collapsing D (as_obstacle_map s) q H"
proof -
  let ?m = "as_obstacle_map s" and ?start = "cell_of (as_pose s)" and ?g = "cell_of (goal s)" and ?H0 = "heap s"
  assume fail: "astar_command D s = None"
  have wf: "wf_grid ?m" "goal_path s \<noteq> LNull" "distinct (nodes (goal_path s))" "\<forall>a \<in> set (nodes (goal_path s)). deref ?H0 a \<noteq> None"
    using ok by (auto simp: planner_ok_def owned_def)
  obtain r0 k where r0: "search_start D (goal s) (as_pose s) ?H0 = Some (r0, k)" using search_start_total by blast
  obtain q H1 where q: "r0 = Going q newList H1" "search_ok ?m ?H0 ?start ?g k q newList [] H1"
    using search_start_ok [OF r0] by blast
  have nl: "newList \<noteq> LNull" by (simp add: newList_def)
  show ?thesis
  proof (cases "search_rounds D ?m (goal s) k SEARCH_ROUNDS r0")
    case None
    then show ?thesis using search_rounds_outcome [OF q(2) nl wf(1) m, of D "goal s"] q(1) r0 by blast
  next
    case (Some r)
    note R = search_rounds_ok [OF Some [unfolded q(1)] q(2)]
    show ?thesis
    proof (cases r)
      case (Going q' c' H')
      then have "search_ok ?m ?H0 ?start ?g k q' c' [] H'" "2400 \<le> length (nodes c')" using R by (auto simp: SEARCH_ROUNDS_def)
      then show ?thesis using explored_bound [OF _ wf(1)] by fastforce
    next
      case (NoPath H')
      then show ?thesis using fail r0 Some by (simp add: astar_command_def)
    next
      case (Found cur q' c' H')
      then obtain q1 where found: "search_ok ?m ?H0 ?start ?g k q1 c' [] H'" "nodes q1 = cur # nodes q'" "q' \<noteq> LNull" using R by auto
      have "c' \<noteq> LNull" using search_rounds_closed [OF Some [unfolded q(1)] nl] Found by simp
      from take_path_total [OF found this wf(2,3,4)] show ?thesis
        using fail r0 Some Found by (auto simp: astar_command_def)
    qed
  qed
qed

section \<open>Waypoints\<close>

text \<open>What \<open>sendWaypoints\<close> decides before it writes: two points, and the goals it keeps.\<close>

type_synonym waypoints = "double \<times> double \<times> double \<times> double"

definition nowhere :: waypoints where
  "nowhere = (D_7, D_7, D_7, D_7)"

definition goal_points :: "dpu \<Rightarrow> int \<times> int \<Rightarrow> int \<times> int \<Rightarrow> waypoints" where
  "goal_points D p q =
     (pd_x (degridify D (fst p) (snd p)), pd_y (degridify D (fst p) (snd p)),
      pd_x (degridify D (fst q) (snd q)), pd_y (degridify D (fst q) (snd q)))"

definition points_of :: "dpu \<Rightarrow> store \<Rightarrow> nat \<Rightarrow> nat \<Rightarrow> waypoints option" where
  "points_of D H a b = do { p \<leftarrow> place H a; q \<leftarrow> place H b; Some (goal_points D p q) }"

definition choose_waypoints :: "dpu \<Rightarrow> bool \<Rightarrow> astar \<Rightarrow> (waypoints \<times> astar) option" where
  "choose_waypoints D force_send s =
     (if force_send then do {
        H1 \<leftarrow> free_goal (current_goal s) (heap s);
        H2 \<leftarrow> free_goal (n_current_goal s) H1;
        (cg, path1) \<leftarrow> pop (goal_path s);
        let s1 = s\<lparr>heap := H2, current_goal := cg, n_current_goal := None, goal_path := path1\<rparr>;
        case cg of
          None \<Rightarrow> Some (nowhere, s1)
        | Some a \<Rightarrow> do {
            (ncg, path2) \<leftarrow> pop path1;
            let s2 = s1\<lparr>n_current_goal := ncg, goal_path := path2\<rparr>;
            case ncg of
              None \<Rightarrow> Some (nowhere, s2)
            | Some b \<Rightarrow> do { v \<leftarrow> points_of D H2 a b; Some (v, s2) }
          }
      }
      else case (current_goal s, n_current_goal s) of
        (Some a, Some b) \<Rightarrow> do { v \<leftarrow> points_of D (heap s) a b; Some (v, s) }
      | _ \<Rightarrow> Some (nowhere, s))"

definition send_points :: "posix \<Rightarrow> typed_pipe \<Rightarrow> waypoints \<Rightarrow> history \<Rightarrow> history" where
  "send_points K out v h = (case v of (x, y, nx, ny) \<Rightarrow> snd (commSendWaypoints K out x y D_0 nx ny D_0 h))"

lemma sendWaypoints_split: "sendWaypoints K D force_send s = do {
    out \<leftarrow> aget (c_pipes s) (way_res_index s);
    (v, s') \<leftarrow> choose_waypoints D force_send s;
    Some (s'\<lparr>c_hist := send_points K out v (c_hist s')\<rparr>) }"
proof -
  have goals: "send_goals K D out a b t = do { v \<leftarrow> points_of D (heap t) a b; Some (t\<lparr>c_hist := send_points K out v (c_hist t)\<rparr>) }"
    for out a b t
    by (cases "deref (heap t) a"; cases "deref (heap t) b")
      (simp_all add: send_goals_def points_of_def place_def goal_points_def send_points_def Let_def)
  have none: "send_nowhere K out h = send_points K out nowhere h" for out h
    by (simp add: send_nowhere_def send_points_def nowhere_def)
  show ?thesis
    by (cases "aget (c_pipes s) (way_res_index s)"; cases force_send)
      (auto simp: sendWaypoints_def choose_waypoints_def goals none Let_def split: option.splits Option.bind_split)
qed

lemma free_goals:
  assumes "planner_ok s"
  obtains H1 H2 where "free_goal (current_goal s) (heap s) = Some H1" "free_goal (n_current_goal s) H1 = Some H2"
    "\<forall>a \<in> set (nodes (goal_path s)). deref H2 a = deref (heap s) a"
proof -
  have d: "distinct (owned s)" "\<forall>a \<in> set (owned s). deref (heap s) a \<noteq> None" using assms by (auto simp: planner_ok_def)
  let ?free = "\<lambda>g H. case g of None \<Rightarrow> H | Some a \<Rightarrow> H[a := None]"
  have "free_goal (current_goal s) (heap s) = Some (?free (current_goal s) (heap s))"
    using d(2) by (auto simp: free_goal_def free_node_def owned_def split: option.splits)
  moreover have "free_goal (n_current_goal s) (?free (current_goal s) (heap s))
      = Some (?free (n_current_goal s) (?free (current_goal s) (heap s)))"
    using d by (auto simp: free_goal_def free_node_def owned_def deref_update split: option.splits)
  moreover have "\<forall>a \<in> set (nodes (goal_path s)). deref (?free (n_current_goal s) (?free (current_goal s) (heap s))) a = deref (heap s) a"
    using d(1) by (auto simp: owned_def deref_update split: option.splits)
  ultimately show thesis by (rule that)
qed

lemma choose_new:
  assumes ok: "planner_ok s"
  shows "\<exists>v s'. choose_waypoints D True s = Some (v, s') \<and> planner_ok s' \<and> c_hist s' = c_hist s
    \<and> (case path_cells s of
         p # q # rest \<Rightarrow> v = goal_points D p q \<and> path_cells s' = rest \<and> choose_waypoints D False s' = Some (v, s')
       | _ \<Rightarrow> v = nowhere \<and> path_cells s' = [])"
proof -
  obtain H1 H2 where H: "free_goal (current_goal s) (heap s) = Some H1" "free_goal (n_current_goal s) H1 = Some H2"
    "\<forall>a \<in> set (nodes (goal_path s)). deref H2 a = deref (heap s) a"
    by (rule free_goals [OF ok])
  have k: "wf_grid (as_obstacle_map s)" "goal_path s \<noteq> LNull" "distinct (nodes (goal_path s))"
    "\<forall>a \<in> set (nodes (goal_path s)). deref (heap s) a \<noteq> None"
    using ok by (auto simp: planner_ok_def owned_def)
  have place: "\<forall>a \<in> set (nodes (goal_path s)). place H2 a = place (heap s) a \<and> deref H2 a \<noteq> None"
    using H(3) k(4) by (simp add: place_def)
  obtain cg path1 where p1: "pop (goal_path s) = Some (cg, path1)" "path1 \<noteq> LNull" "option_list cg @ nodes path1 = nodes (goal_path s)"
    using pop_total [OF k(2)] unfolding option_list_def by blast
  show ?thesis
  proof (cases cg)
    case None
    then have "nodes (goal_path s) = []" "nodes path1 = []" using p1(3) pop_None p1(1) by auto
    then show ?thesis using H p1 None k(1)
      by (auto simp: choose_waypoints_def planner_ok_def owned_def path_cells_def)
  next
    case (Some a)
    obtain ncg path2 where p2: "pop path1 = Some (ncg, path2)" "path2 \<noteq> LNull" "option_list ncg @ nodes path2 = nodes path1"
      using pop_total [OF p1(2)] unfolding option_list_def by blast
    let ?s = "s\<lparr>heap := H2, current_goal := cg, n_current_goal := ncg, goal_path := path2\<rparr>"
    have own: "owned ?s = nodes (goal_path s)" using p1(3) p2(3) by (simp add: owned_def)
    have ok': "planner_ok ?s" unfolding planner_ok_def own using k p2(2) place by simp
    show ?thesis
    proof (cases ncg)
      case None
      then have "nodes (goal_path s) = [a]" "nodes path2 = []" using p1(3) p2 pop_None Some by auto
      then show ?thesis using H p1 p2 None Some ok'
        by (auto simp: choose_waypoints_def path_cells_def Let_def)
    next
      case ncg: (Some b)
      have n: "nodes (goal_path s) = a # b # nodes path2" using p1(3) p2(3) Some ncg by simp
      obtain p q where pq: "place H2 a = Some p" "place H2 b = Some q" using place n by (auto simp: place_def)
      have cells: "path_cells s = p # q # path_cells ?s"
        using n pq place by (simp add: path_cells_def)
      have "choose_waypoints D True s = Some (goal_points D p q, ?s)"
        using H p1 p2 Some ncg pq by (simp add: choose_waypoints_def points_of_def Let_def)
      moreover have "choose_waypoints D False ?s = Some (goal_points D p q, ?s)"
        using Some ncg pq by (simp add: choose_waypoints_def points_of_def)
      ultimately show ?thesis using ok' cells by simp
    qed
  qed
qed

lemma choose_again:
  assumes "planner_ok s"
  shows "\<exists>v. choose_waypoints D False s = Some (v, s)"
  using assms
  by (auto simp: choose_waypoints_def points_of_def place_def planner_ok_def owned_def nowhere_def goal_points_def split: option.splits)

lemma send_points_writes:
  assumes "tp_type p = WAY_RES" "tp_fd_out p \<noteq> 0"
  shows "writes (send_points K p (x, y, nx, ny) h) = writes h @ [(tp_fd_out p, way_res_bytes \<lparr>point = [x, y, D_0], n_point = [nx, ny, D_0]\<rparr>)]"
  using assms by (simp add: send_points_def commSendWaypoints_def)

section \<open>A map to try it on\<close>

definition grid_of :: "(int \<Rightarrow> int \<Rightarrow> bool) \<Rightarrow> bool list list" where
  "grid_of f = map (\<lambda>x. map (\<lambda>y. f (int x) (int y)) [0..<48]) [0..<48]"

lemma wf_grid_of [simp]: "wf_grid (grid_of f)"
  by (simp add: wf_grid_def grid_of_def list_all_length)

lemma grid_get_of: "grid_get (grid_of f) x y = (if on_grid x y then Some (f x y) else None)"
  using grid_get_in [OF wf_grid_of, of x y f] grid_get_out [OF wf_grid_of, of x y f]
  by (auto simp: grid_of_def on_grid_def GRID_NUM_def)

text \<open>A planner that knows the free cells of its map, a position and a goal.\<close>

definition planner_at :: "(int \<times> int) list \<Rightarrow> int \<times> int \<Rightarrow> int \<times> int \<Rightarrow> astar" where
  "planner_at free p g = astar_globals\<lparr>as_obstacle_map := grid_of (\<lambda>x y. (x, y) \<notin> set free),
     as_pose := \<lparr>pi_x = fst p, pi_y = snd p\<rparr>, goal := \<lparr>pi_x = fst g, pi_y = snd g\<rparr>, goal_path := newList\<rparr>"

lemma planner_at_ok: "planner_ok (planner_at free p g)"
  by (simp add: planner_at_def planner_ok_def owned_def astar_globals_def newList_def)

definition corridor :: astar where
  "corridor = planner_at [(40, 40), (40, 41), (40, 42), (41, 42)] (40, 40) (41, 42)"

text \<open>
  In the trap the corner (43, 43) is taken before (43, 42), since it is nearer to the goal, and leads to
  (42, 42); from (43, 42) that cell is nearer, and it is the only open one then.
\<close>

definition trap :: astar where
  "trap = planner_at [(44, 42), (43, 42), (43, 43), (42, 42), (41, 42), (41, 43), (41, 44), (41, 45), (42, 45), (43, 45), (44, 45), (45, 45)]
     (44, 42) (45, 45)"

text \<open>Arithmetic with three decimals: numbers count thousandths, and roots are rounded down.\<close>

fun isqrt :: "nat \<Rightarrow> nat" where
  "isqrt n = (if n = 0 then 0 else let r = 2 * isqrt (n div 4) in if (r + 1) * (r + 1) \<le> n then r + 1 else r)"

declare isqrt.simps [simp del]

lemma isqrt_bounds: "isqrt n * isqrt n \<le> n \<and> n < (isqrt n + 1) * (isqrt n + 1)"
proof (induction n rule: isqrt.induct)
  case (1 n)
  show ?case
  proof (cases "n = 0")
    case False
    define r where "r = isqrt (n div 4)"
    have "r * r \<le> n div 4" "n div 4 < (r + 1) * (r + 1)" using 1 [OF False] by (simp_all add: r_def)
    then have "4 * (r * r) \<le> n" "n < 4 * ((r + 1) * (r + 1))" by linarith+
    then have "(2 * r) * (2 * r) \<le> n" "n < (2 * r + 2) * (2 * r + 2)" by (simp_all add: algebra_simps)
    then show ?thesis using False by (subst (1 2 3 4) isqrt.simps) (simp add: Let_def r_def)
  qed (simp add: isqrt.simps)
qed

definition milli_dpu :: dpu where
  "milli_dpu = int_dpu\<lparr>d_of_int := (\<lambda>n. word_of_int (1000 * n)),
     d_sqrt := (\<lambda>x. word_of_int (int (isqrt (nat (1000 * sint x)))))\<rparr>"

lemma search_rounds_numeral:
  "search_rounds D m g k (numeral n) (Going q c H) =
     do { r \<leftarrow> search_round D m g k q c H; search_rounds D m g k (pred_numeral n) r }"
  by (simp add: numeral_eq_Suc)

lemma extract_path_numeral:
  "extract_path (numeral n) (Some a) path H = do { c \<leftarrow> deref H a; extract_path (pred_numeral n) (back_link c) (push path a) H }"
  by (simp add: numeral_eq_Suc)

lemma int_dpu_sel:
  "d_add int_dpu = (+)" "d_less int_dpu x y = (sint x < sint y)" "d_of_int int_dpu = word_of_int" "d_sqrt int_dpu x = x"
  by (simp_all add: int_dpu_def)

lemmas search_defs = search_start_def search_round_def genNeighbors_def look_def relax_def estDistance_def
  estDistanceG_def newNode_def newList_def deref_def free_node_def nodeEqauls_def for_upto_step relax_all.simps grid_get_of
  on_grid_def GRID_NUM_def int_dpu_sel Let_def SEARCH_ROUNDS_def search_rounds_numeral

lemma isqrt_step:
  "isqrt 0 = 0" "isqrt (numeral n) = (let r = 2 * isqrt (numeral n div 4) in if (r + 1) * (r + 1) \<le> numeral n then r + 1 else r)"
  "isqrt (Suc 0) = 1"
  by (simp_all add: isqrt.simps)

lemma milli_dpu_sel:
  "d_add milli_dpu = (+)" "d_less milli_dpu x y = (sint x < sint y)" "d_of_int milli_dpu n = word_of_int (1000 * n)"
  "d_sqrt milli_dpu x = word_of_int (int (isqrt (nat (1000 * sint x))))"
  by (simp_all add: milli_dpu_def int_dpu_def)

lemma trap_fails: "astar_command milli_dpu trap = None"
proof -
  let ?m = "as_obstacle_map trap"
  have m: "?m = grid_of (\<lambda>x y. (x, y) \<notin> set [(44, 42), (43, 42), (43, 43), (42, 42), (41, 42), (41, 43), (41, 44), (41, 45), (42, 45), (43, 45), (44, 45), (45, 45)])"
    by (simp add: trap_def planner_at_def)
  obtain r k where r: "search_start milli_dpu \<lparr>pi_x = 45, pi_y = 45\<rparr> \<lparr>pi_x = 44, pi_y = 42\<rparr> [] = Some (r, k)"
    "search_rounds milli_dpu ?m \<lparr>pi_x = 45, pi_y = 45\<rparr> k SEARCH_ROUNDS r = None"
    unfolding m by (simp add: search_defs milli_dpu_sel isqrt_step)
  have "goal trap = \<lparr>pi_x = 45, pi_y = 45\<rparr>" "as_pose trap = \<lparr>pi_x = 44, pi_y = 42\<rparr>" "heap trap = []"
    by (simp_all add: trap_def planner_at_def astar_globals_def)
  then show ?thesis using r by (simp add: astar_command_def)
qed

lemma trap_walled: "walled (as_obstacle_map trap)"
  unfolding walled_def list_all_iff trap_def planner_at_def
  by (simp add: grid_get_of on_grid_def GRID_NUM_def)

lemma trap_reachable: "reachable (as_obstacle_map trap) (44, 42) (45, 45)"
  unfolding reachable_def
  by (rule exI [of _ "[(44, 42), (43, 42), (42, 42), (41, 42), (41, 43), (41, 44), (41, 45), (42, 45), (43, 45), (44, 45), (45, 45)]"])
    (simp add: trap_def planner_at_def grid_get_of on_grid_def GRID_NUM_def)

lemma trap_ok: "planner_ok trap"
  using planner_at_ok by (simp add: trap_def)

lemma corridor_reachable: "reachable (as_obstacle_map corridor) (40, 40) (41, 42)"
  unfolding reachable_def
  by (rule exI [of _ "[(40, 40), (40, 41), (41, 42)]"])
    (simp add: corridor_def planner_at_def grid_get_of on_grid_def GRID_NUM_def)

lemma corridor_finds: "\<exists>s'. astar_command int_dpu corridor = Some s'"
proof -
  let ?m = "as_obstacle_map corridor"
  have m: "?m = grid_of (\<lambda>x y. (x, y) \<notin> set [(40, 40), (40, 41), (40, 42), (41, 42)])"
    by (simp add: corridor_def planner_at_def)
  obtain r k where r: "search_start int_dpu \<lparr>pi_x = 41, pi_y = 42\<rparr> \<lparr>pi_x = 40, pi_y = 40\<rparr> [] = Some (r, k)"
    by (simp add: search_start_def newNode_def newList_def)
  then have rk: "r = Going (LCell 0 5 LNull) LEmpty [Some \<lparr>n_x = 40, n_y = 40, g_score = 0, back_link = None\<rparr>,
      Some \<lparr>n_x = 41, n_y = 42, g_score = 0, back_link = None\<rparr>]" "k = 1"
    by (auto simp: search_defs)
  let ?c = "LCell 4 1 (LCell 2 2 (LCell 0 5 LNull))"
  let ?H = "[Some \<lparr>n_x = 40, n_y = 40, g_score = 0, back_link = None\<rparr>, Some \<lparr>n_x = 41, n_y = 42, g_score = 0, back_link = None\<rparr>,
      Some \<lparr>n_x = 40, n_y = 41, g_score = 1, back_link = Some 0\<rparr>, None, Some \<lparr>n_x = 40, n_y = 42, g_score = 2, back_link = Some 2\<rparr>,
      Some \<lparr>n_x = 41, n_y = 42, g_score = 3, back_link = Some 2\<rparr>, None, None]"
  have f: "search_rounds int_dpu ?m \<lparr>pi_x = 41, pi_y = 42\<rparr> k SEARCH_ROUNDS r = Some (Found 5 LEmpty ?c ?H)"
    unfolding m rk by (simp add: search_defs)
  have "take_path k 5 LEmpty ?c LEmpty ?H \<noteq> None"
    unfolding rk by (simp add: take_path_def eraseList.simps eraseAllButList.simps push_def extract_path_numeral
        free_node_def deref_def newList_def nodeEqauls_def)
  then obtain path' H' where t: "take_path k 5 LEmpty ?c LEmpty ?H = Some (path', H')" by auto
  have "goal corridor = \<lparr>pi_x = 41, pi_y = 42\<rparr>" "as_pose corridor = \<lparr>pi_x = 40, pi_y = 40\<rparr>" "heap corridor = []" "goal_path corridor = LEmpty"
    by (simp_all add: corridor_def planner_at_def astar_globals_def newList_def)
  then show ?thesis using r f t by (simp add: astar_command_def)
qed

lemma search_rounds_add:
  "search_rounds D m g k (n + j) r = do { r' \<leftarrow> search_rounds D m g k n r; search_rounds D m g k j r' }"
proof (induction n arbitrary: r)
  case (Suc n)
  show ?case
  proof (cases r)
    case (Going q c H)
    then show ?thesis using Suc by (cases "search_round D m g k q c H") auto
  qed (cases j; simp)+
qed (cases r; simp)

text \<open>Running off the map at its edge.\<close>

lemma genNeighbors_edge:
  assumes "wf_grid m" "deref H a = Some n" "n_x n = 0 \<or> n_y n = 0"
  shows "genNeighbors D m a H = None"
proof -
  have "grid_get m (n_x n - 1) (n_y n - 1) = None"
    using assms(1,3) by (intro grid_get_out) (auto simp: on_grid_def)
  then show ?thesis using assms(2) by (simp add: genNeighbors_def look_def for_upto_step Let_def)
qed

section \<open>The properties\<close>

text \<open>C9: The planner decides: whatever the floating-point unit computes, a search that returns has replaced the route by a
  legal one from the robot to the goal, cell by cell over free cells and never through a gap between two
  blocked ones, if there is such a route on the map, and has left the old route alone if there is none.
  All its pointers stay valid.\<close>

theorem planner_decides:
  assumes "planner_ok s" "astar_command D s = Some s'"
  shows "planner_ok s' \<and>
    (if reachable (as_obstacle_map s) (cell_of (as_pose s)) (cell_of (goal s))
     then legal_walk (as_obstacle_map s) (path_cells s') \<and> distinct (nodes (goal_path s'))
       \<and> hd (path_cells s') = cell_of (as_pose s) \<and> last (path_cells s') = cell_of (goal s)
     else goal_path s' = goal_path s \<and> path_cells s' = path_cells s)"
  using assms by (rule astar_command_ok)

theorem planner_decides_witness:
  "\<exists>s'. astar_command int_dpu corridor = Some s' \<and> planner_ok s' \<and> legal_walk (as_obstacle_map corridor) (path_cells s')
     \<and> hd (path_cells s') = (40, 40) \<and> last (path_cells s') = (41, 42)"
proof -
  obtain s' where s': "astar_command int_dpu corridor = Some s'" using corridor_finds by blast
  have "cell_of (as_pose corridor) = (40, 40)" "cell_of (goal corridor) = (41, 42)"
    by (simp_all add: corridor_def planner_at_def cell_of_def)
  then show ?thesis
    using planner_decides [OF _ s'] s' corridor_reachable planner_at_ok [of "[(40, 40), (40, 41), (40, 42), (41, 42)]" "(40, 40)" "(41, 42)"]
    by (auto simp: corridor_def [symmetric])
qed

text \<open>C10: The search ends: on a map of the size of the grid it is over within 2306 rounds, however the distances
  round, and running it longer changes nothing.\<close>

theorem planner_search_ends:
  assumes "wf_grid m" "search_start D g p H = Some (r, k)" "2306 \<le> n"
  shows "search_rounds D m g k n r = search_rounds D m g k 2306 r \<and> search_rounds D m g k n r \<noteq> Some (Going q c H')"
proof -
  obtain q0 H0 where q0: "r = Going q0 newList H0" "search_ok m H (cell_of p) (cell_of g) k q0 newList [] H0"
    using search_start_ok [OF assms(2)] by blast
  have no: "search_rounds D m g k 2306 r \<noteq> Some (Going q1 c1 H1)" for q1 c1 H1
  proof
    assume "search_rounds D m g k 2306 r = Some (Going q1 c1 H1)"
    then have "search_ok m H (cell_of p) (cell_of g) k q1 c1 [] H1" "length (nodes c1) = 2306"
      using search_rounds_ok [OF _ q0(2), of D g 2306 "Going q1 c1 H1"] q0(1) by simp_all
    then show False using explored_bound [OF _ assms(1)] by fastforce
  qed
  have "search_rounds D m g k n r = do { r' \<leftarrow> search_rounds D m g k 2306 r; search_rounds D m g k (n - 2306) r' }"
    using search_rounds_add [of D m g k 2306 "n - 2306" r] assms(3) by simp
  also have "\<dots> = search_rounds D m g k 2306 r"
  proof (cases "search_rounds D m g k 2306 r")
    case (Some r')
    then show ?thesis using no by (cases r') auto
  qed simp
  finally show ?thesis using no by simp
qed

theorem planner_search_ends_witness:
  "\<exists>r k. search_start int_dpu \<lparr>pi_x = 41, pi_y = 42\<rparr> \<lparr>pi_x = 40, pi_y = 40\<rparr> [] = Some (r, k)
     \<and> search_rounds int_dpu (blank_grid False) \<lparr>pi_x = 41, pi_y = 42\<rparr> k 5000 r \<noteq> Some (Going LNull LNull [])"
proof -
  obtain r k where "search_start int_dpu \<lparr>pi_x = 41, pi_y = 42\<rparr> \<lparr>pi_x = 40, pi_y = 40\<rparr> [] = Some (r, k)"
    by (simp add: search_start_def newNode_def newList_def)
  then show ?thesis
    using planner_search_ends [OF wf_blank_grid [of False], where D = int_dpu and g = "\<lparr>pi_x = 41, pi_y = 42\<rparr>"
        and p = "\<lparr>pi_x = 40, pi_y = 40\<rparr>" and H = "[]" and r = r and k = k and n = 5000 and q = LNull and c = LNull and H' = "[]"]
    by auto
qed

text \<open>C36: Waypoints go out in order: when the route has at least two cells, a forced answer sends the centres of
  the first two, takes them off the route, and an unforced answer after it sends the same bytes again.
  No freed node is read.\<close>

theorem waypoints_in_order:
  assumes "planner_ok s" "path_cells s = p # q # rest"
    and "aget (c_pipes s) (way_res_index s) = Some out" "tp_type out = WAY_RES" "tp_fd_out out \<noteq> 0"
  shows "\<exists>s' msg. sendWaypoints K D True s = Some s' \<and> planner_ok s' \<and> path_cells s' = rest
    \<and> msg = way_res_bytes \<lparr>point = [pd_x (degridify D (fst p) (snd p)), pd_y (degridify D (fst p) (snd p)), D_0],
                         n_point = [pd_x (degridify D (fst q) (snd q)), pd_y (degridify D (fst q) (snd q)), D_0]\<rparr>
    \<and> writes (c_hist s') = writes (c_hist s) @ [(tp_fd_out out, msg)]
    \<and> (\<exists>h. sendWaypoints L D False s' = Some (s'\<lparr>c_hist := h\<rparr>) \<and> writes h = writes (c_hist s') @ [(tp_fd_out out, msg)])"
proof -
  let ?v = "goal_points D p q"
  obtain s1 where s1: "choose_waypoints D True s = Some (?v, s1)" "planner_ok s1" "c_hist s1 = c_hist s" "path_cells s1 = rest"
    "choose_waypoints D False s1 = Some (?v, s1)"
    using choose_new [OF assms(1), of D] assms(2) by auto
  have env: "c_pipes s1 = c_pipes s" "way_res_index s1 = way_res_index s"
    using s1(1) by (auto simp: choose_waypoints_def Let_def Option.bind_eq_Some_conv split: option.splits)
  have upd: "choose_waypoints D False (s1\<lparr>c_hist := h\<rparr>) = Some (?v, s1\<lparr>c_hist := h\<rparr>)" for h
    using s1(5) by (auto simp: choose_waypoints_def Option.bind_eq_Some_conv split: option.splits)
  have own: "planner_ok (s1\<lparr>c_hist := h\<rparr>) \<and> path_cells (s1\<lparr>c_hist := h\<rparr>) = rest" for h
    using s1(2,4) by (simp add: planner_ok_def owned_def path_cells_def)
  let ?s = "s1\<lparr>c_hist := send_points K out ?v (c_hist s)\<rparr>"
  have "sendWaypoints K D True s = Some ?s" using s1(1,3) assms(3) by (simp add: sendWaypoints_split)
  moreover have "sendWaypoints L D False ?s = Some (?s\<lparr>c_hist := send_points L out ?v (c_hist ?s)\<rparr>)"
    using upd env assms(3) by (simp add: sendWaypoints_split)
  ultimately show ?thesis
    using own send_points_writes [OF assms(4,5)] by (intro exI [of _ ?s]) (auto simp: goal_points_def)
qed

definition on_route :: astar where
  "on_route = (planner_at [] (1, 1) (9, 9))\<lparr>c_pipes := replicate 3 blank_typed_pipe @ [\<lparr>tp_type = WAY_RES, tp_fd_in = 0, tp_fd_out = 4\<rparr>],
     way_res_index := 3, goal_path := LCell 0 0 (LCell 1 0 LNull),
     heap := [Some \<lparr>n_x = 1, n_y = 2, g_score = 0, back_link = None\<rparr>, Some \<lparr>n_x = 2, n_y = 3, g_score = 0, back_link = None\<rparr>]\<rparr>"

theorem waypoints_in_order_witness:
  "\<exists>s' bs. sendWaypoints quiet int_dpu True on_route = Some s' \<and> path_cells s' = [] \<and> writes (c_hist s') = [(4, bs)]"
proof -
  have "planner_ok on_route" "path_cells on_route = [(1, 2), (2, 3)]" "writes (c_hist on_route) = []"
    "aget (c_pipes on_route) (way_res_index on_route) = Some \<lparr>tp_type = WAY_RES, tp_fd_in = 0, tp_fd_out = 4\<rparr>"
    by (simp_all add: on_route_def planner_at_def planner_ok_def owned_def path_cells_def place_def deref_def astar_globals_def aget_def numeral_3_eq_3)
  then show ?thesis
    using waypoints_in_order [of on_route "(1, 2)" "(2, 3)" "[]" "\<lparr>tp_type = WAY_RES, tp_fd_in = 0, tp_fd_out = 4\<rparr>" quiet int_dpu quiet]
    by auto
qed

text \<open>C11: What can crash the planner: on a map with a blocked border and with the robot inside, a search either
  returns, or it comes to a round with two open nodes in which the first of them offers a shorter way to
  the other. (\<open>removeNode\<close> then leaves a null list and \<open>addNode\<close> reads its head.)\<close>

theorem planner_returns_or_collapses:
  assumes "planner_ok s" "walled (as_obstacle_map s)" "inside (cell_of (as_pose s))"
  shows "(\<exists>s'. astar_command D s = Some s') \<or>
    (\<exists>r k n q c H. search_start D (goal s) (as_pose s) (heap s) = Some (r, k)
       \<and> search_rounds D (as_obstacle_map s) (goal s) k n r = Some (Going q c H) \<and> collapsing D (as_obstacle_map s) q H)"
  using astar_command_outcome [OF assms, of D] by (cases "astar_command D s") auto

theorem planner_returns_or_collapses_witness:
  "\<exists>r k n q c H. search_start milli_dpu (goal trap) (as_pose trap) (heap trap) = Some (r, k)
     \<and> search_rounds milli_dpu (as_obstacle_map trap) (goal trap) k n r = Some (Going q c H)
     \<and> collapsing milli_dpu (as_obstacle_map trap) q H"
proof -
  have "inside (cell_of (as_pose trap))" by (simp add: trap_def planner_at_def cell_of_def)
  from planner_returns_or_collapses [OF trap_ok trap_walled this, of milli_dpu] show ?thesis using trap_fails by simp
qed


section \<open>Replicas of the planner\<close>

text \<open>\<open>map_updated\<close> before the acknowledgement is sent, and what is sent.\<close>

definition update_plan :: "dpu \<Rightarrow> comm_map_update \<Rightarrow> astar \<Rightarrow> astar option" where
  "update_plan D m s =
     do {
       g \<leftarrow> mark_obstacles m (as_obstacle_map s);
       let s1 = s\<lparr>as_pose := \<lparr>pi_x = pose_x m, pi_y = pose_y m\<rparr>, as_obstacle_map := g\<rparr>;
       let s2 = (if insertSDC s1 then s1\<lparr>insertSDC := False, fake_hash := fake_hash s1 + 1\<rparr> else s1);
       if obs_count m > 0 then do { s' \<leftarrow> astar_command D s2; Some (s'\<lparr>ready_to_send := True\<rparr>) } else Some s2
     }"

text \<open>The inputs of a planner: a map update, and a request for waypoints.\<close>

datatype astar_input = Updated comm_map_update | Requested int

fun astar_input_step :: "dpu \<Rightarrow> posix \<Rightarrow> astar_input \<Rightarrow> astar \<Rightarrow> astar option" where
  "astar_input_step D K (Updated m) s = map_updated K D m s"
| "astar_input_step D K (Requested pad) s = way_requested K D pad s"

text \<open>\<open>sendWaypoints\<close> looks at its pipe first.\<close>

fun astar_compute :: "dpu \<Rightarrow> astar_input \<Rightarrow> astar \<Rightarrow> ((int \<times> message) list \<times> astar) option" where
  "astar_compute D (Updated m) s =
     do {
       s3 \<leftarrow> update_plan D m s;
       Some ([(as_ack_index s3, Ack (fake_hash s3) (if request_all s3 then 1 else 0))], s3\<lparr>request_all := False\<rparr>)
     }"
| "astar_compute D (Requested pad) s =
     (let force = ready_to_send s \<or> 1 = pad; s1 = (if force then s\<lparr>ready_to_send := False\<rparr> else s)
      in do {
        ((x, y, nx, ny), s2) \<leftarrow> choose_waypoints D force s1;
        Some ([(way_res_index s2, Waypoints x y D_0 nx ny D_0)], s2)
      })"

lemma choose_waypoints_env: "choose_waypoints D b s = Some (v, s') \<Longrightarrow> c_pipes s' = c_pipes s \<and> way_res_index s' = way_res_index s"
  by (auto simp: choose_waypoints_def Let_def Option.bind_eq_Some_conv split: option.splits if_splits)

lemma sendWaypoints_compute:
  "sendWaypoints K D b s = do { ((x, y, nx, ny), s2) \<leftarrow> choose_waypoints D b s; send_on K (way_res_index s2, Waypoints x y D_0 nx ny D_0) s2 }"
  by (cases "choose_waypoints D b s"; cases "aget (c_pipes s) (way_res_index s)")
    (auto simp: sendWaypoints_split send_on_def send_points_def dest: choose_waypoints_env)

lemma astar_step_compute:
  "astar_input_step D K i s = do { (ms, s1) \<leftarrow> astar_compute D i s; foldM (send_on K) ms s1 }"
proof (cases i)
  case (Updated m)
  then show ?thesis
    by (auto simp: map_updated_def update_plan_def send_on_def Let_def split: Option.bind_split)
next
  case (Requested pad)
  then show ?thesis
    by (auto simp: way_requested_def sendWaypoints_compute Let_def split: Option.bind_split)
qed

lemma elsewhere_astar:
  "as_obstacle_map (elsewhere ps cpu prio h s) = as_obstacle_map s" "goal (elsewhere ps cpu prio h s) = goal s"
  "as_pose (elsewhere ps cpu prio h s) = as_pose s" "goal_path (elsewhere ps cpu prio h s) = goal_path s"
  "current_goal (elsewhere ps cpu prio h s) = current_goal s" "n_current_goal (elsewhere ps cpu prio h s) = n_current_goal s"
  "heap (elsewhere ps cpu prio h s) = heap s" "fake_hash (elsewhere ps cpu prio h s) = fake_hash s"
  "request_all (elsewhere ps cpu prio h s) = request_all s" "ready_to_send (elsewhere ps cpu prio h s) = ready_to_send s"
  "as_ack_index (elsewhere ps cpu prio h s) = as_ack_index s" "way_res_index (elsewhere ps cpu prio h s) = way_res_index s"
  "(elsewhere ps cpu prio h s)\<lparr>as_pose := p, as_obstacle_map := g\<rparr> = elsewhere ps cpu prio h (s\<lparr>as_pose := p, as_obstacle_map := g\<rparr>)"
  "(elsewhere ps cpu prio h s)\<lparr>insertSDC := b, fake_hash := w\<rparr> = elsewhere ps cpu prio h (s\<lparr>insertSDC := b, fake_hash := w\<rparr>)"
  "(elsewhere ps cpu prio h s)\<lparr>request_all := b\<rparr> = elsewhere ps cpu prio h (s\<lparr>request_all := b\<rparr>)"
  "(elsewhere ps cpu prio h s)\<lparr>ready_to_send := b\<rparr> = elsewhere ps cpu prio h (s\<lparr>ready_to_send := b\<rparr>)"
  "(elsewhere ps cpu prio h s)\<lparr>goal_path := l, heap := H\<rparr> = elsewhere ps cpu prio h (s\<lparr>goal_path := l, heap := H\<rparr>)"
  "(elsewhere ps cpu prio h s)\<lparr>heap := H\<rparr> = elsewhere ps cpu prio h (s\<lparr>heap := H\<rparr>)"
  "(elsewhere ps cpu prio h s)\<lparr>heap := H, current_goal := c, n_current_goal := nc, goal_path := l\<rparr>
     = elsewhere ps cpu prio h (s\<lparr>heap := H, current_goal := c, n_current_goal := nc, goal_path := l\<rparr>)"
  "(elsewhere ps cpu prio h s)\<lparr>current_goal := c, n_current_goal := nc, goal_path := l\<rparr>
     = elsewhere ps cpu prio h (s\<lparr>current_goal := c, n_current_goal := nc, goal_path := l\<rparr>)"
  "(elsewhere ps cpu prio h s)\<lparr>n_current_goal := nc, goal_path := l\<rparr> = elsewhere ps cpu prio h (s\<lparr>n_current_goal := nc, goal_path := l\<rparr>)"
  by (simp_all add: elsewhere_def)

lemma astar_command_elsewhere:
  "astar_command D (elsewhere ps cpu prio h s) = map_option (elsewhere ps cpu prio h) (astar_command D s)"
  by (auto simp: astar_command_def elsewhere_astar split: Option.bind_split search.split)

lemma update_plan_elsewhere:
  "update_plan D m (elsewhere ps cpu prio h s) = map_option (elsewhere ps cpu prio h) (update_plan D m s)"
  by (auto simp: update_plan_def Let_def elsewhere_astar astar_command_elsewhere split: Option.bind_split)

lemma choose_waypoints_elsewhere:
  "choose_waypoints D b (elsewhere ps cpu prio h s) = map_option (map_prod id (elsewhere ps cpu prio h)) (choose_waypoints D b s)"
  by (auto simp: choose_waypoints_def Let_def elsewhere_astar split: Option.bind_split option.split)

lemma astar_compute_elsewhere:
  "astar_compute D i (elsewhere ps cpu prio h s) = map_option (map_prod id (elsewhere ps cpu prio h)) (astar_compute D i s)"
proof (cases i)
  case (Updated m)
  then show ?thesis by (auto simp: update_plan_elsewhere elsewhere_astar split: Option.bind_split)
next
  case (Requested pad)
  then show ?thesis by (auto simp: choose_waypoints_elsewhere elsewhere_astar Let_def split: Option.bind_split)
qed

interpretation astar_replicas: replicated "astar_input_step D" alike sent_by for D
  by (unfold_locales, rule compute_then_send_alike [OF astar_compute_elsewhere astar_step_compute])

text \<open>The types of the store: what an input does to the pointers.\<close>

lemma mark_obstacles_wf:
  assumes "mark_obstacles m g = Some g'" "wf_grid g"
  shows "wf_grid g'"
proof (rule for_upto_keeps [where P = wf_grid, OF _ assms(1) [unfolded mark_obstacles_def] assms(2)])
  fix i g g'
  assume "do { x \<leftarrow> aget (obs_x m) i; y \<leftarrow> aget (obs_y m) i; grid_set g (uint x) (uint y) True } = Some g'" "wf_grid g"
  then obtain x y where xy: "grid_set g x y True = Some g'" by (auto simp: Option.bind_eq_Some_conv)
  then have "on_grid x y"
    using grid_get_out [OF \<open>wf_grid g\<close>, of x y]
    by (auto simp: grid_set_def grid_get_def aset_def aget_def Option.bind_eq_Some_conv split: if_splits)
  then show "wf_grid g'" using grid_set_in [OF \<open>wf_grid g\<close>, of x y True] xy by auto
qed

lemma update_plan_ok:
  assumes "update_plan D m s = Some s'" "planner_ok s"
  shows "planner_ok s'"
proof -
  obtain g where g: "mark_obstacles m (as_obstacle_map s) = Some g" using assms(1) by (auto simp: update_plan_def Option.bind_eq_Some_conv)
  let ?s1 = "s\<lparr>as_pose := \<lparr>pi_x = pose_x m, pi_y = pose_y m\<rparr>, as_obstacle_map := g\<rparr>"
  let ?s2 = "if insertSDC ?s1 then ?s1\<lparr>insertSDC := False, fake_hash := fake_hash ?s1 + 1\<rparr> else ?s1"
  have ok2: "planner_ok ?s2" using assms(2) mark_obstacles_wf [OF g] by (auto simp: planner_ok_def owned_def)
  show ?thesis
  proof (cases "obs_count m > 0")
    case True
    then obtain t where t: "astar_command D ?s2 = Some t" "s' = t\<lparr>ready_to_send := True\<rparr>"
      using assms(1) g by (auto simp: update_plan_def Let_def Option.bind_eq_Some_conv)
    then have "planner_ok t" using astar_command_ok [OF ok2 t(1)] by blast
    then show ?thesis using t(2) by (simp add: planner_ok_def owned_def)
  next
    case False
    then have "s' = ?s2" using assms(1) g by (auto simp: update_plan_def Let_def)
    then show ?thesis using ok2 by simp
  qed
qed

lemma send_on_ok: "send_on K im s = Some s' \<Longrightarrow> planner_ok s \<Longrightarrow> planner_ok s'"
  by (auto simp: send_on_def planner_ok_def owned_def Option.bind_eq_Some_conv)

lemma choose_waypoints_ok:
  assumes "planner_ok s"
  shows "\<exists>v s'. choose_waypoints D b s = Some (v, s') \<and> planner_ok s'"
proof (cases b)
  case True
  then show ?thesis using choose_new [OF assms, of D] by (simp only:) blast
next
  case False
  then show ?thesis using choose_again [OF assms, of D] assms by (simp only:) blast
qed

lemma astar_input_ok:
  assumes "astar_input_step D K i s = Some s'" "planner_ok s"
  shows "planner_ok s'"
proof -
  obtain ms s1 where s1: "astar_compute D i s = Some (ms, s1)" "foldM (send_on K) ms s1 = Some s'"
    using assms(1) by (auto simp: astar_step_compute Option.bind_eq_Some_conv)
  have "planner_ok s1"
  proof (cases i)
    case (Updated m)
    then obtain s3 where "update_plan D m s = Some s3" "s1 = s3\<lparr>request_all := False\<rparr>"
      using s1(1) by (auto simp: Option.bind_eq_Some_conv)
    then show ?thesis using update_plan_ok [OF _ assms(2)] by (simp add: planner_ok_def owned_def)
  next
    case (Requested pad)
    let ?force = "ready_to_send s \<or> 1 = pad"
    have "planner_ok (if ?force then s\<lparr>ready_to_send := False\<rparr> else s)" using assms(2) by (simp add: planner_ok_def owned_def)
    from choose_waypoints_ok [OF this, of D ?force] show ?thesis
      using s1(1) Requested by (auto simp: Let_def Option.bind_eq_Some_conv)
  qed
  then show ?thesis
    by (intro foldM_keeps [where P = planner_ok, OF _ s1(2)]) (auto intro: send_on_ok)
qed

text \<open>C12: The planner's memory stays well typed: after any sequence of map updates and requests that it survives, its map
  has its size, its route and its current goals are live nodes, no two of them the same, and the answer
  to a further request is defined whenever the pipe for it exists.\<close>

theorem planner_well_typed:
  assumes "planner_ok s" "foldM (astar_input_step D K) inputs s = Some s'"
  shows "planner_ok s' \<and> (aget (c_pipes s') (way_res_index s') = None \<or> way_requested L D pad s' \<noteq> None)"
proof -
  have ok: "planner_ok s'"
    by (rule foldM_keeps [where P = planner_ok, OF _ assms(2,1)]) (rule astar_input_ok)
  let ?force = "ready_to_send s' \<or> 1 = pad" and ?s = "if ready_to_send s' \<or> 1 = pad then s'\<lparr>ready_to_send := False\<rparr> else s'"
  have ok1: "planner_ok ?s" using ok by (simp add: planner_ok_def owned_def)
  obtain v s1 where "choose_waypoints D ?force ?s = Some (v, s1)" using choose_waypoints_ok [OF ok1] by blast
  then show ?thesis
    using ok by (cases "aget (c_pipes s') (way_res_index s')") (auto simp: way_requested_def sendWaypoints_split split: if_splits)
qed

theorem planner_well_typed_witness:
  "\<exists>s'. foldM (astar_input_step int_dpu quiet) [Requested 1] on_route = Some s' \<and> planner_ok s' \<and> way_requested quiet int_dpu 0 s' \<noteq> None"
proof -
  have ok: "planner_ok on_route"
    by (simp add: on_route_def planner_at_def planner_ok_def owned_def deref_def astar_globals_def)
  obtain s' where s': "foldM (astar_input_step int_dpu quiet) [Requested 1] on_route = Some s'"
    "aget (c_pipes s') (way_res_index s') \<noteq> None"
    by (simp add: on_route_def planner_at_def astar_globals_def way_requested_def sendWaypoints_def free_goal_def send_goals_def
        deref_def newList_def commSendWaypoints_def aget_def numeral_3_eq_3 Let_def)
  then show ?thesis using planner_well_typed [OF ok s'(1), of quiet 0] by auto
qed

text \<open>Replicas of the planner agree: two planners that differ only in their descriptors, CPU, priority, process and
  system, and that get the same map updates and requests, send the same acknowledgements and waypoints
  byte for byte, and are at the same point of the same route.\<close>

theorem planner_replicas_agree:
  assumes "same_ends (c_pipes s) ps" "foldM (astar_input_step D K) inputs s = Some s'"
  shows "\<exists>t' ws. foldM (astar_input_step D L) inputs (s\<lparr>c_pipes := ps, c_pinned_cpu := cpu, c_priority := prio, c_hist := h\<rparr>) = Some t'
    \<and> path_cells t' = path_cells s' \<and> map snd (writes (c_hist s')) = map snd (writes (c_hist s)) @ ws
    \<and> map snd (writes (c_hist t')) = map snd (writes h) @ ws"
proof -
  have "alike s (elsewhere ps cpu prio h s)" using assms(1) by (auto simp: alike_def)
  from astar_replicas.run_alike [OF this assms(2), of L] show ?thesis
    by (fastforce simp: alike_def elsewhere_def sent_by_def path_cells_def)
qed

theorem planner_replicas_agree_witness:
  "\<exists>t' bs. foldM (astar_input_step int_dpu quiet) [Requested 1]
      (on_route\<lparr>c_pipes := replicate 3 blank_typed_pipe @ [\<lparr>tp_type = WAY_RES, tp_fd_in = 0, tp_fd_out = 9\<rparr>],
         c_pinned_cpu := 3, c_priority := 9, c_hist := [SysClose 1]\<rparr>) = Some t'
     \<and> map snd (writes (c_hist t')) = [bs]"
proof -
  let ?ps = "replicate 3 blank_typed_pipe @ [\<lparr>tp_type = WAY_RES, tp_fd_in = 0, tp_fd_out = 9\<rparr>]"
  have ends: "same_ends (c_pipes on_route) ?ps"
    by (simp add: same_ends_def on_route_def numeral_3_eq_3)
  have "\<exists>s' bs. foldM (astar_input_step int_dpu quiet) [Requested 1] on_route = Some s' \<and> writes (c_hist s') = [(4, bs)]"
    by (simp add: on_route_def planner_at_def astar_globals_def way_requested_def sendWaypoints_def free_goal_def send_goals_def
        deref_def newList_def commSendWaypoints_def aget_def numeral_3_eq_3 Let_def)
  then obtain s' bs where s': "foldM (astar_input_step int_dpu quiet) [Requested 1] on_route = Some s'" "writes (c_hist s') = [(4, bs)]"
    by blast
  have "writes (c_hist on_route) = []" by (simp add: on_route_def planner_at_def astar_globals_def)
  then show ?thesis
    using planner_replicas_agree [OF ends s'(1), where L = quiet and cpu = 3 and prio = 9 and h = "[SysClose 1]"] s'(2) by auto
qed

end
