(* ===== verification/ArtPot.thy ===== *)
theory ArtPot
  imports Mapping_Grid Controller
begin

text \<open>
  The artificial potential controller (\<open>controllers/art_pot.c\<close>): the goal pulls, obstacles push, and the sum
  becomes a velocity command; waypoints come from the planner. The constants are those for a grid of 48.
  The functions of \<open>math.h\<close> are parameters like the arithmetic.
\<close>

record mpu = dpu +
  d_atan2 :: "double \<Rightarrow> double \<Rightarrow> double"
  d_pow :: "double \<Rightarrow> double \<Rightarrow> double"
  d_fabs :: "double \<Rightarrow> double"
  d_leq :: "double \<Rightarrow> double \<Rightarrow> bool"

definition VEL_SCALE :: double where "VEL_SCALE = 0x3FF4CCCCCCCCCCCD"
definition DIST_EPSILON :: double where "DIST_EPSILON = 0x3FD3333333333333"
definition GOAL_RADIUS :: int where "GOAL_RADIUS = 0"
definition GOAL_EXTENT :: double where "GOAL_EXTENT = 0x3FC999999999999A"
definition GOAL_SCALE :: int where "GOAL_SCALE = 1"
definition OBST_RADIUS :: double where "OBST_RADIUS = 0x3FD3333333333333"
definition OBST_EXTENT :: double where "OBST_EXTENT = 0x3FE0000000000000"
definition OBST_SCALE :: int where "OBST_SCALE = 2"
definition D_m7 :: double where "D_m7 = 0xC01C000000000000"
definition ARTPOT_PIPES :: int where "ARTPOT_PIPES = 4"

record art_pot = controller +
  ap_goal :: "double list"
  ap_next_goal :: "double list"
  ap_seq_count :: int
  pos :: "double list"
  ranger_count :: int
  ap_ranges :: "double list"
  way_pending :: bool
  ap_data_index :: int
  ap_out_index :: int
  ap_way_req_index :: int
  ap_way_res_index :: int

section \<open>Setting up\<close>

definition artpot_setPipeIndexes :: "art_pot \<Rightarrow> art_pot option" where
  "artpot_setPipeIndexes s =
     for_upto 0 (c_pipe_count s) (\<lambda>i s. do {
       p \<leftarrow> aget (c_pipes s) i;
       Some (case tp_type p of
               RANGE_POSE_DATA \<Rightarrow> s\<lparr>ap_data_index := i\<rparr>
             | MOV_CMD \<Rightarrow> s\<lparr>ap_out_index := i\<rparr>
             | WAY_RES \<Rightarrow> s\<lparr>ap_way_res_index := i\<rparr>
             | WAY_REQ \<Rightarrow> s\<lparr>ap_way_req_index := i\<rparr>
             | _ \<Rightarrow> s)
     }) (s\<lparr>ap_way_req_index := -1, ap_way_res_index := -1\<rparr>)"

text \<open>The first component is the exit code when the process ends here.\<close>

definition artpot_parseArgs :: "posix \<Rightarrow> string list \<Rightarrow> art_pot \<Rightarrow> (int option \<times> art_pot) option" where
  "artpot_parseArgs K argv s =
     do {
       prio \<leftarrow> aget argv 1;
       cnt \<leftarrow> aget argv 2;
       let s1 = s\<lparr>c_priority := atoi prio, c_pipe_count := atoi cnt\<rparr>;
       let argc = int (length argv);
       if argc < 5 then do {
         let (pid, h1) = sys_call K ''getpid'' [] [] (c_hist s1);
         (r, s2) \<leftarrow> take_over_pipes K pid (c_pipe_count s1) (c_name s1) (s1\<lparr>c_hist := h1\<rparr>);
         if r < 0 then Some (Some (-1), s2)
         else do { s3 \<leftarrow> artpot_setPipeIndexes s2; Some (None, s3) }
       }
       else do {
         s2 \<leftarrow> parse_pipes (min (argc - 3) ARTPOT_PIPES) argv s1;
         s3 \<leftarrow> artpot_setPipeIndexes s2;
         Some (None, s3)
       }
     }"

section \<open>The command\<close>

text \<open>Distance and direction of the goal, seen from the robot.\<close>

definition towards :: "mpu \<Rightarrow> double list \<Rightarrow> double list \<Rightarrow> (double \<times> double) option" where
  "towards M g p =
     do {
       gx \<leftarrow> aget g 0; gy \<leftarrow> aget g 1;
       px \<leftarrow> aget p 0; py \<leftarrow> aget p 1; pa \<leftarrow> aget p 2;
       let dx = d_sub M gx px;
       let dy = d_sub M gy py;
       Some (d_sqrt M (d_add M (d_pow M dx (d_of_int M 2)) (d_pow M dy (d_of_int M 2))), d_sub M (d_atan2 M dy dx) pa)
     }"

definition goal_pull :: "mpu \<Rightarrow> double \<Rightarrow> double \<Rightarrow> double \<times> double \<times> int" where
  "goal_pull M dist theta =
     (let radius = d_of_int M GOAL_RADIUS; scale = d_of_int M GOAL_SCALE
      in if d_less M dist radius then (d_of_int M 0, d_of_int M 0, 0)
         else if d_leq M radius dist \<and> d_leq M dist (d_add M GOAL_EXTENT radius) then
           let v = d_mul M scale (d_sub M dist radius) in (d_mul M v (d_cos M theta), d_mul M v (d_sin M theta), 1)
         else (d_mul M scale (d_cos M theta), d_mul M scale (d_sin M theta), 1))"

definition obstacle_push :: "mpu \<Rightarrow> double list \<Rightarrow> int \<Rightarrow> int \<Rightarrow> double \<times> double \<times> int \<Rightarrow> (double \<times> double \<times> int) option" where
  "obstacle_push M rs count i acc =
     do {
       let (delta_x, delta_y, total_factors) = acc;
       r \<leftarrow> aget rs i;
       let tao = d_div M (d_mul M (d_mul M D_2 D_PI) (d_of_int M i)) (d_of_int M count);
       let ox = d_mul M r (d_cos M tao);
       let oy = d_mul M r (d_sin M tao);
       let dist = d_sqrt M (d_add M (d_pow M ox (d_of_int M 2)) (d_pow M oy (d_of_int M 2)));
       let theta = d_atan2 M oy ox;
       let reach = d_add M OBST_EXTENT OBST_RADIUS;
       let push = d_mul M (d_of_int M (- OBST_SCALE)) (d_sub M reach dist);
       Some (if d_leq M dist reach
             then (d_add M delta_x (d_mul M push (d_cos M theta)), d_add M delta_y (d_mul M push (d_sin M theta)), total_factors + 1)
             else (delta_x, delta_y, total_factors))
     }"

definition velocity :: "mpu \<Rightarrow> double \<Rightarrow> double \<Rightarrow> art_pot \<Rightarrow> (double \<times> double) option" where
  "velocity M dist theta s =
     (if d_less M DIST_EPSILON dist then do {
        (delta_x, delta_y, total_factors) \<leftarrow>
          for_upto 0 (ranger_count s) (obstacle_push M (ap_ranges s) (ranger_count s)) (goal_pull M dist theta);
        let dx = d_div M delta_x (d_of_int M total_factors);
        let dy = d_div M delta_y (d_of_int M total_factors);
        let speed = d_sqrt M (d_add M (d_pow M dx (d_of_int M 2)) (d_pow M dy (d_of_int M 2)));
        let turn = d_atan2 M dy dx;
        Some (if d_less M (d_fabs M turn) (d_of_int M 1) then d_mul M VEL_SCALE speed else D_0, d_mul M VEL_SCALE turn)
      }
      else Some (D_0, D_0))"

text \<open>Up to the sending: the two velocities and whether a new goal is wanted.\<close>

definition drive :: "mpu \<Rightarrow> art_pot \<Rightarrow> (double \<times> double \<times> bool \<times> art_pot) option" where
  "drive M s =
     do {
       (dist0, theta0) \<leftarrow> towards M (ap_goal s) (pos s);
       let request_way = d_leq M dist0 DIST_EPSILON;
       (dist, theta, s1) \<leftarrow>
         (if request_way then do {
            g \<leftarrow> memcpy (ap_goal s) 0 (ap_next_goal s) 0 3;
            (d, t) \<leftarrow> towards M g (pos s);
            Some (d, t, s\<lparr>ap_goal := g\<rparr>)
          }
          else Some (dist0, theta0, s));
       (speed, turn) \<leftarrow> velocity M dist theta s1;
       Some (if insertSDC s1 then d_add M speed (d_of_int M 1) else speed, turn, request_way, s1\<lparr>insertSDC := False\<rparr>)
     }"

definition artpot_command :: "posix \<Rightarrow> mpu \<Rightarrow> art_pot \<Rightarrow> art_pot option" where
  "artpot_command K M s =
     do {
       (speed, turn, request_way, s1) \<leftarrow> drive M s;
       s2 \<leftarrow> (if \<not> way_pending s1 then do {
                p \<leftarrow> aget (c_pipes s1) (ap_way_req_index s1);
                let (r, h) = commSendWaypointRequest K p (if request_way then 1 else 0) (c_hist s1);
                Some (s1\<lparr>way_pending := True, c_hist := h\<rparr>)
              }
              else Some s1);
       out \<leftarrow> aget (c_pipes s2) (ap_out_index s2);
       let (r, h) = commSendMoveCommand K out (ap_seq_count s2) speed turn (c_hist s2);
       Some (s2\<lparr>c_hist := h\<rparr>)
     }"

section \<open>The loop\<close>

definition waypoints_received :: "comm_way_res \<Rightarrow> art_pot \<Rightarrow> art_pot option" where
  "waypoints_received m s =
     do {
       (g, n) \<leftarrow> commCopyWaypoints m (ap_goal s) (ap_next_goal s);
       Some (s\<lparr>way_pending := False, ap_goal := g, ap_next_goal := n\<rparr>)
     }"

definition scan_received :: "posix \<Rightarrow> mpu \<Rightarrow> comm_range_pose_data \<Rightarrow> art_pot \<Rightarrow> art_pot option" where
  "scan_received K M m s =
     do {
       (seq, rs, p) \<leftarrow> commCopyRanger m (ap_ranges s) (pos s);
       artpot_command K M (s\<lparr>ap_seq_count := seq, ap_ranges := rs, pos := p\<rparr>)
     }"

definition artpot_way :: "posix \<Rightarrow> int \<Rightarrow> art_pot \<Rightarrow> art_pot option" where
  "artpot_way K fd s =
     (let (read_ret, bs, h) = sys_read K fd 48 (c_hist s); s1 = s\<lparr>c_hist := h\<rparr>
      in if read_ret = 48 then waypoints_received (bytes_way_res bs) s1 else Some s1)"

definition artpot_data :: "posix \<Rightarrow> mpu \<Rightarrow> int \<Rightarrow> art_pot \<Rightarrow> art_pot option" where
  "artpot_data K M fd s =
     (let (read_ret, bs, h) = sys_read K fd 160 (c_hist s); s1 = s\<lparr>c_hist := h\<rparr>
      in if read_ret = 160 then scan_received K M (bytes_range_pose bs) s1 else Some s1)"

definition artpot_turn :: "posix \<Rightarrow> mpu \<Rightarrow> art_pot \<Rightarrow> (bool \<times> art_pot) option" where
  "artpot_turn K M s =
     do {
       d \<leftarrow> aget (c_pipes s) (ap_data_index s);
       way \<leftarrow> (if ARTPOT_PIPES = c_pipe_count s
                then do { w \<leftarrow> aget (c_pipes s) (ap_way_res_index s); Some [tp_fd_in w] } else Some []);
       let (retval, ready, h) = sys_select K (tp_fd_in d # way) 1000000 (c_hist s);
       let s1 = s\<lparr>c_hist := h\<rparr>;
       if retval > 0 then
         if insertCFE s1 then Some (False, s1)
         else do {
           s2 \<leftarrow> foldM (\<lambda>fd s. if fd \<in> set ready then artpot_way K fd s else Some s) way s1;
           s3 \<leftarrow> (if tp_fd_in d \<in> set ready then artpot_data K M (tp_fd_in d) s2 else Some s2);
           Some (True, s3)
         }
       else Some (True, s1)
     }"

definition artpot_globals :: art_pot where
  "artpot_globals =
     \<lparr>c_pipes = replicate 4 blank_typed_pipe, c_pipe_count = ARTPOT_PIPES, c_name = ''ArtPot'', c_priority = 0,
      c_pinned_cpu = 0, insertSDC = False, insertCFE = False, c_hist = [], ap_goal = replicate 3 0,
      ap_next_goal = replicate 3 0, ap_seq_count = -1, pos = replicate 3 0, ranger_count = 16,
      ap_ranges = replicate 16 0, way_pending = False, ap_data_index = 0, ap_out_index = 0, ap_way_req_index = 0,
      ap_way_res_index = 0\<rparr>"

definition artpot_main :: "posix \<Rightarrow> mpu \<Rightarrow> string list \<Rightarrow> nat \<Rightarrow> (int option \<times> art_pot) option" where
  "artpot_main K M argv n =
     do {
       (ret, s1) \<leftarrow> artpot_parseArgs K argv artpot_globals;
       if ret \<noteq> None then Some (ret, s1)
       else
         let (r, s2) = initController K s1
         in if r < 0 then Some (Some (-1), s2)
            else do {
              g0 \<leftarrow> aset (ap_goal s2) 0 D_m7;
              g1 \<leftarrow> aset g0 1 D_m7;
              (go, s3) \<leftarrow> turns (artpot_turn K M) n (s2\<lparr>ap_goal := g1\<rparr>);
              Some (None, s3)
            }
     }"

end
