(* ===== verification/ArtPotProps.thy ===== *)
theory ArtPotProps
  imports ArtPot MapperProps
begin

text \<open>
  Properties of the potential controller: every scan is answered by one command, waypoints are asked for one
  request at a time, replicas agree, and without a planner the controller looks behind its pipes.
\<close>

section \<open>Answers\<close>

definition artpot_ok :: "art_pot \<Rightarrow> bool" where
  "artpot_ok s \<longleftrightarrow> length (ap_goal s) = 3 \<and> length (ap_next_goal s) = 3 \<and> length (pos s) = 3
     \<and> ranger_count s = 16 \<and> length (ap_ranges s) = 16"

lemma towards_total: "length g = 3 \<Longrightarrow> length p = 3 \<Longrightarrow> \<exists>d t. towards M g p = Some (d, t)"
  by (simp add: towards_def aget_def Let_def)

lemma velocity_total:
  assumes "artpot_ok s"
  shows "\<exists>v w. velocity M dist theta s = Some (v, w)"
proof -
  have "\<exists>acc. for_upto 0 (int 16) (obstacle_push M (ap_ranges s) (ranger_count s)) (goal_pull M dist theta) = Some acc \<and> True"
    by (rule for_upto_nat [where P = "\<lambda>i acc. True"])
      (use assms in \<open>auto simp: artpot_ok_def obstacle_push_def Let_def split: prod.splits\<close>)
  then obtain x y n where "for_upto 0 16 (obstacle_push M (ap_ranges s) 16) (goal_pull M dist theta) = Some (x, y, n)"
    using assms by (auto simp: artpot_ok_def)
  then show ?thesis using assms by (simp add: velocity_def artpot_ok_def Let_def)
qed

lemma drive_total:
  assumes "artpot_ok s"
  shows "\<exists>v w r s1. drive M s = Some (v, w, r, s1) \<and> artpot_ok s1 \<and> s1 = s\<lparr>ap_goal := ap_goal s1, insertSDC := False\<rparr>"
proof -
  obtain d t where dt: "towards M (ap_goal s) (pos s) = Some (d, t)"
    using towards_total assms by (metis artpot_ok_def)
  have copy: "memcpy (ap_goal s) 0 (ap_next_goal s) 0 3 = Some (ap_next_goal s)"
    using assms by (simp add: artpot_ok_def memcpy_in)
  obtain d' t' where dt': "towards M (ap_next_goal s) (pos s) = Some (d', t')"
    using towards_total assms by (metis artpot_ok_def)
  have ok': "artpot_ok (s\<lparr>ap_goal := ap_next_goal s\<rparr>)" using assms by (simp add: artpot_ok_def)
  obtain v w v' w' where "velocity M d t s = Some (v, w)" "velocity M d' t' (s\<lparr>ap_goal := ap_next_goal s\<rparr>) = Some (v', w')"
    using velocity_total [OF assms] velocity_total [OF ok'] by blast
  then show ?thesis using dt dt' copy assms by (auto simp: drive_def Let_def artpot_ok_def)
qed

lemma artpot_command_sends:
  assumes ok: "artpot_ok s" and out: "aget (c_pipes s) (ap_out_index s) = Some out" "tp_type out = MOV_CMD" "tp_fd_out out \<noteq> 0"
    and req: "way_pending s \<or> (\<exists>p. aget (c_pipes s) (ap_way_req_index s) = Some p \<and> tp_type p = WAY_REQ \<and> tp_fd_out p \<noteq> 0 \<and> w = tp_fd_out p)"
  shows "\<exists>s' v t r. artpot_command K M s = Some s' \<and> artpot_ok s' \<and> way_pending s'
    \<and> writes (c_hist s') = writes (c_hist s)
        @ (if way_pending s then [] else [(w, way_req_bytes \<lparr>padding = (if r then 1 else 0)\<rparr>)])
        @ [(tp_fd_out out, mov_cmd_bytes \<lparr>mov_seq_count = ap_seq_count s, vel_cmd = [v, t]\<rparr>)]"
proof -
  obtain v t r s1 where d: "drive M s = Some (v, t, r, s1)" "artpot_ok s1" "s1 = s\<lparr>ap_goal := ap_goal s1, insertSDC := False\<rparr>"
    using drive_total [OF ok] by blast
  have e: "c_pipes s1 = c_pipes s" "c_hist s1 = c_hist s" "way_pending s1 = way_pending s" "ap_seq_count s1 = ap_seq_count s"
    "ap_out_index s1 = ap_out_index s" "ap_way_req_index s1 = ap_way_req_index s"
    by (subst d(3), simp)+
  have keep: "artpot_ok (s1\<lparr>way_pending := b, c_hist := h\<rparr>)" "artpot_ok (s1\<lparr>c_hist := h\<rparr>)" for b h
    using d(2) by (simp_all add: artpot_ok_def)
  show ?thesis
  proof (cases "way_pending s")
    case True
    then show ?thesis
      using d(1) e out keep by (intro exI [of _ "s1\<lparr>c_hist := snd (commSendMoveCommand K out (ap_seq_count s) v t (c_hist s))\<rparr>"] exI [of _ v] exI [of _ t] exI [of _ r])
        (simp add: artpot_command_def commSendMoveCommand_def case_prod_unfold Let_def)
  next
    case False
    then obtain p where p: "aget (c_pipes s) (ap_way_req_index s) = Some p" "tp_type p = WAY_REQ" "tp_fd_out p \<noteq> 0" "w = tp_fd_out p"
      using req by blast
    let ?h = "snd (commSendWaypointRequest K p (if r then 1 else 0) (c_hist s))"
    have "artpot_command K M s = Some (s1\<lparr>way_pending := True, c_hist := snd (commSendMoveCommand K out (ap_seq_count s) v t ?h)\<rparr>)"
      using d(1) e out(1) p(1) False by (simp add: artpot_command_def case_prod_unfold Let_def)
    then show ?thesis
      using e out keep p False by (intro exI [of _ "s1\<lparr>way_pending := True, c_hist := snd (commSendMoveCommand K out (ap_seq_count s) v t ?h)\<rparr>"] exI [of _ v] exI [of _ t] exI [of _ r])
        (simp add: commSendMoveCommand_def commSendWaypointRequest_def)
  qed
qed

lemma scan_received_sends:
  assumes ok: "artpot_ok s" and m: "length (ranges m) = 16" "length (pose m) = 3"
    and out: "aget (c_pipes s) (ap_out_index s) = Some out" "tp_type out = MOV_CMD" "tp_fd_out out \<noteq> 0"
    and req: "way_pending s \<or> (\<exists>p. aget (c_pipes s) (ap_way_req_index s) = Some p \<and> tp_type p = WAY_REQ \<and> tp_fd_out p \<noteq> 0 \<and> w = tp_fd_out p)"
  shows "\<exists>s' v t r. scan_received K M m s = Some s' \<and> artpot_ok s' \<and> way_pending s'
    \<and> writes (c_hist s') = writes (c_hist s)
        @ (if way_pending s then [] else [(w, way_req_bytes \<lparr>padding = (if r then 1 else 0)\<rparr>)])
        @ [(tp_fd_out out, mov_cmd_bytes \<lparr>mov_seq_count = range_seq_count m, vel_cmd = [v, t]\<rparr>)]"
proof -
  have copy: "commCopyRanger m (ap_ranges s) (pos s) = Some (range_seq_count m, ranges m, pose m)"
    using ok m by (simp add: commCopyRanger_def memcpy_in artpot_ok_def RANGER_COUNT_def)
  let ?s = "s\<lparr>ap_seq_count := range_seq_count m, ap_ranges := ranges m, pos := pose m\<rparr>"
  have "artpot_ok ?s" using ok m by (simp add: artpot_ok_def)
  from artpot_command_sends [OF this, of out w K M] show ?thesis
    using copy out req by (simp add: scan_received_def)
qed

section \<open>Replicas of the controller\<close>

datatype artpot_input = Scanned comm_range_pose_data | Guided comm_way_res

fun artpot_input_step :: "mpu \<Rightarrow> posix \<Rightarrow> artpot_input \<Rightarrow> art_pot \<Rightarrow> art_pot option" where
  "artpot_input_step M K (Scanned m) s = scan_received K M m s"
| "artpot_input_step M K (Guided m) s = waypoints_received m s"

fun artpot_compute :: "mpu \<Rightarrow> artpot_input \<Rightarrow> art_pot \<Rightarrow> ((int \<times> message) list \<times> art_pot) option" where
  "artpot_compute M (Scanned m) s =
     do {
       (seq, rs, p) \<leftarrow> commCopyRanger m (ap_ranges s) (pos s);
       (speed, turn, request_way, s1) \<leftarrow> drive M (s\<lparr>ap_seq_count := seq, ap_ranges := rs, pos := p\<rparr>);
       Some ((if way_pending s1 then [] else [(ap_way_req_index s1, WaypointRequest (if request_way then 1 else 0))])
               @ [(ap_out_index s1, MoveCommand (ap_seq_count s1) speed turn)], s1\<lparr>way_pending := True\<rparr>)
     }"
| "artpot_compute M (Guided m) s = do { s' \<leftarrow> waypoints_received m s; Some ([], s') }"

lemma artpot_step_compute:
  "artpot_input_step M K i s = do { (ms, s1) \<leftarrow> artpot_compute M i s; foldM (send_on K) ms s1 }"
proof (cases i)
  case (Scanned m)
  have idle: "way_pending s1 \<Longrightarrow> s1\<lparr>way_pending := True, c_hist := h\<rparr> = s1\<lparr>c_hist := h\<rparr>" for s1 :: art_pot and h by simp
  show ?thesis
    unfolding Scanned artpot_input_step.simps artpot_compute.simps scan_received_def artpot_command_def
    by (auto simp: send_on_def idle Let_def case_prod_unfold split: Option.bind_split)
qed (simp add: Option.bind_assoc)

lemma elsewhere_artpot:
  "ap_goal (elsewhere ps cpu prio h s) = ap_goal s" "ap_next_goal (elsewhere ps cpu prio h s) = ap_next_goal s"
  "pos (elsewhere ps cpu prio h s) = pos s" "ap_ranges (elsewhere ps cpu prio h s) = ap_ranges s"
  "ranger_count (elsewhere ps cpu prio h s) = ranger_count s" "way_pending (elsewhere ps cpu prio h s) = way_pending s"
  "ap_seq_count (elsewhere ps cpu prio h s) = ap_seq_count s" "ap_out_index (elsewhere ps cpu prio h s) = ap_out_index s"
  "ap_way_req_index (elsewhere ps cpu prio h s) = ap_way_req_index s"
  "(elsewhere ps cpu prio h s)\<lparr>ap_goal := g\<rparr> = elsewhere ps cpu prio h (s\<lparr>ap_goal := g\<rparr>)"
  "(elsewhere ps cpu prio h s)\<lparr>insertSDC := b\<rparr> = elsewhere ps cpu prio h (s\<lparr>insertSDC := b\<rparr>)"
  "(elsewhere ps cpu prio h s)\<lparr>way_pending := b\<rparr> = elsewhere ps cpu prio h (s\<lparr>way_pending := b\<rparr>)"
  "(elsewhere ps cpu prio h s)\<lparr>ap_seq_count := n, ap_ranges := rs, pos := p\<rparr> = elsewhere ps cpu prio h (s\<lparr>ap_seq_count := n, ap_ranges := rs, pos := p\<rparr>)"
  "(elsewhere ps cpu prio h s)\<lparr>ap_next_goal := g\<rparr> = elsewhere ps cpu prio h (s\<lparr>ap_next_goal := g\<rparr>)"
  by (simp_all add: elsewhere_def)

lemma velocity_elsewhere: "velocity M d t (elsewhere ps cpu prio h s) = velocity M d t s"
  by (simp add: velocity_def elsewhere_artpot)

lemma drive_elsewhere:
  "drive M (elsewhere ps cpu prio h s) = map_option (\<lambda>(v, w, r, s1). (v, w, r, elsewhere ps cpu prio h s1)) (drive M s)"
  by (auto simp: drive_def elsewhere_artpot velocity_elsewhere Let_def split: Option.bind_split)

lemma artpot_compute_elsewhere:
  "artpot_compute M i (elsewhere ps cpu prio h s) = map_option (map_prod id (elsewhere ps cpu prio h)) (artpot_compute M i s)"
  by (cases i) (auto simp: waypoints_received_def drive_elsewhere elsewhere_artpot split: Option.bind_split)

interpretation artpot_replicas: replicated "artpot_input_step M" alike sent_by for M
  by (unfold_locales, rule compute_then_send_alike [OF artpot_compute_elsewhere artpot_step_compute])

section \<open>The properties\<close>

text \<open>C38: Every scan is answered: the controller computes without an access outside its arrays, sends exactly one move
  command, with the number of the scan, and before it a request for waypoints unless one is pending,
  after which one is.\<close>

theorem artpot_answers_scan:
  assumes "artpot_ok s" "length (ranges m) = 16" "length (pose m) = 3"
    and "aget (c_pipes s) (ap_out_index s) = Some out" "tp_type out = MOV_CMD" "tp_fd_out out \<noteq> 0"
    and "way_pending s \<or> (\<exists>p. aget (c_pipes s) (ap_way_req_index s) = Some p \<and> tp_type p = WAY_REQ \<and> tp_fd_out p \<noteq> 0 \<and> w = tp_fd_out p)"
  shows "\<exists>s' v t r. scan_received K M m s = Some s' \<and> artpot_ok s' \<and> way_pending s'
    \<and> writes (c_hist s') = writes (c_hist s)
        @ (if way_pending s then [] else [(w, way_req_bytes \<lparr>padding = (if r then 1 else 0)\<rparr>)])
        @ [(tp_fd_out out, mov_cmd_bytes \<lparr>mov_seq_count = range_seq_count m, vel_cmd = [v, t]\<rparr>)]"
  using assms by (rule scan_received_sends)

definition int_mpu :: mpu where
  "int_mpu = dpu.extend int_dpu \<lparr>d_atan2 = (\<lambda>y x. y - x), d_pow = (\<lambda>x y. x * x), d_fabs = id, d_leq = (\<lambda>x y. sint x \<le> sint y)\<rparr>"

definition driving :: art_pot where
  "driving = artpot_globals\<lparr>c_pipes := [\<lparr>tp_type = RANGE_POSE_DATA, tp_fd_in = 3, tp_fd_out = 0\<rparr>, \<lparr>tp_type = MOV_CMD, tp_fd_in = 0, tp_fd_out = 4\<rparr>,
     \<lparr>tp_type = WAY_REQ, tp_fd_in = 0, tp_fd_out = 5\<rparr>, \<lparr>tp_type = WAY_RES, tp_fd_in = 6, tp_fd_out = 0\<rparr>],
     ap_out_index := 1, ap_way_req_index := 2, ap_way_res_index := 3\<rparr>"

theorem artpot_answers_scan_witness:
  "\<exists>s' bs cs. scan_received quiet int_mpu \<lparr>range_seq_count = 7, ranges = replicate 16 0, pose = [0, 0, 0]\<rparr> driving = Some s'
     \<and> writes (c_hist s') = [(5, bs), (4, mov_cmd_bytes \<lparr>mov_seq_count = 7, vel_cmd = cs\<rparr>)]"
proof -
  have d: "artpot_ok driving" "\<not> way_pending driving" "writes (c_hist driving) = []"
    "aget (c_pipes driving) (ap_out_index driving) = Some \<lparr>tp_type = MOV_CMD, tp_fd_in = 0, tp_fd_out = 4\<rparr>"
    "aget (c_pipes driving) (ap_way_req_index driving) = Some \<lparr>tp_type = WAY_REQ, tp_fd_in = 0, tp_fd_out = 5\<rparr>"
    by (simp_all add: driving_def artpot_globals_def artpot_ok_def aget_def)
  show ?thesis
    using artpot_answers_scan [OF d(1), of "\<lparr>range_seq_count = 7, ranges = replicate 16 0, pose = [0, 0, 0]\<rparr>"
        "\<lparr>tp_type = MOV_CMD, tp_fd_in = 0, tp_fd_out = 4\<rparr>" 5 quiet int_mpu] d
    by auto
qed

text \<open>Without a planner the controller looks behind its pipes: with the two pipes that the sources call the
  configuration without a planner, the index of the request pipe stays -1, and the first scan reads the
  pipe before the first.\<close>

theorem artpot_alone_undefined:
  "\<exists>s. artpot_setPipeIndexes (driving\<lparr>c_pipe_count := 2\<rparr>) = Some s \<and> ap_way_req_index s = -1
     \<and> scan_received K M \<lparr>range_seq_count = 0, ranges = replicate 16 0, pose = [0, 0, 0]\<rparr> s = None"
proof -
  let ?s = "driving\<lparr>c_pipe_count := 2, ap_way_req_index := -1, ap_way_res_index := -1, ap_data_index := 0, ap_out_index := 1\<rparr>"
  let ?m = "\<lparr>range_seq_count = 0, ranges = replicate 16 0, pose = [0, 0, 0]\<rparr>"
  have set: "artpot_setPipeIndexes (driving\<lparr>c_pipe_count := 2\<rparr>) = Some ?s"
    by (simp add: artpot_setPipeIndexes_def for_upto_step driving_def artpot_globals_def aget_def)
  have ok: "artpot_ok (?s\<lparr>ap_seq_count := 0, ap_ranges := ranges ?m, pos := pose ?m\<rparr>)"
    by (simp add: artpot_ok_def driving_def artpot_globals_def)
  have copy: "commCopyRanger ?m (ap_ranges ?s) (pos ?s) = Some (0, ranges ?m, pose ?m)"
    by (simp add: commCopyRanger_def memcpy_in RANGER_COUNT_def driving_def artpot_globals_def)
  obtain v t r s1 where d: "drive M (?s\<lparr>ap_seq_count := 0, ap_ranges := ranges ?m, pos := pose ?m\<rparr>) = Some (v, t, r, s1)"
    "s1 = (?s\<lparr>ap_seq_count := 0, ap_ranges := ranges ?m, pos := pose ?m\<rparr>)\<lparr>ap_goal := ap_goal s1, insertSDC := False\<rparr>"
    using drive_total [OF ok] by blast
  have "\<not> way_pending s1" "ap_way_req_index s1 = -1"
    by (subst d(2), simp add: driving_def artpot_globals_def)+
  then have "scan_received K M ?m ?s = None"
    using copy d(1) by (simp add: scan_received_def artpot_command_def aget_outside)
  then show ?thesis using set by (intro exI [of _ ?s]) simp
qed

end
