(* ===== verification/EndToEnd.thy ===== *)
theory EndToEnd
  imports VoterDStream AStarProps ArtPotProps
begin

text \<open>
  Voter and component together: a group of three replicas behind \<open>voter/voterd.c\<close> looks to the rest of the
  system like the component alone, even when one replica does whatever it likes. The lemma about the
  voter needs two replicas that gave the same bytes; the components have them because replicas with the
  same inputs send the same bytes, whatever their descriptors, priorities, processes and systems are.
\<close>

section \<open>The voter\<close>

text \<open>
  Two replicas have delivered \<open>w\<close> on a voted pipe. The vote sends a prefix of \<open>w\<close> that is at least as long
  as what all three have delivered, and kills nobody but the third, and that one only if it differs.
\<close>

lemma tmr_forwards:
  assumes ok: "vd_ok s" "rep_type s = TMR" "int p < pipe_count s" "fd_in (ext_pipes s ! p) = 0"
    and b: "bytesReady (replicas s) 3 (int p) = Some b" "b \<noteq> 0"
    and who: "f < 3" "i < 3" "j < 3" "distinct [f, i, j]"
    and healthy: "content (vpipe (replicas s) i p) = w" "content (vpipe (replicas s) j p) = w"
    and sys: "pipes_ok K" "no_strays K"
  shows "\<exists>s' before out after rest. checkSDC K (int p) s = Some s' \<and> vd_ok s'
    \<and> writes (hist s') = writes (hist s) @ before @ (fd_out (ext_pipes s ! p), out) # after
    \<and> w = out @ rest \<and> b \<le> int (length out)
    \<and> killed SIGKILL (hist s') = killed SIGKILL (hist s) @ (if answer s p b f = take (nat b) w then [] else [r_pid (replicas s ! f)])"
proof -
  have T: "int p < pipe_count s" "p < length (ext_pipes s)" "wf_reps (length (ext_pipes s)) 3 (replicas s)"
    using tmr_facts [OF ok(1,2,3)] good_group_wf ok(3) by blast+
  obtain c where c: "bytesReady (replicas s) (int 3) (int p) = Some c" "0 \<le> c"
    "\<And>r. r < 3 \<Longrightarrow> c \<le> buff_count (vpipe (replicas s) r p)" using bytesReady_cases [OF T(3,2)] by auto
  have cb: "c = b" using c(1) b(1) by simp
  have "int (length w) = buff_count (vpipe (replicas s) i p)"
    using healthy(1) wf_reps_pipe [OF T(3) who(2) T(2)] c(2,3) who(2) length_content by (metis int_nat_eq order_trans)
  then have len: "b \<le> int (length w)" using c(3) [OF who(2)] cb by simp
  let ?v = "take (nat b) w"
  have v: "answer s p b i = ?v" "answer s p b j = ?v" using healthy by (simp_all add: answer_def)
  show ?thesis
  proof (cases "answer s p b f = ?v")
    case True
    have "answer s p b r = ?v" if "r < 3" for r
    proof -
      have "r \<in> {f, i, j}" using that who by auto
      then show ?thesis using v True by auto
    qed
    then obtain s' where "checkSDC K (int p) s = Some s'" "vd_ok s'"
      "writes (hist s') = writes (hist s) @ [(fd_out (ext_pipes s ! p), ?v)]" "\<forall>sig. killed sig (hist s') = killed sig (hist s)"
      using tmr_unanimous [OF ok b, of ?v K] by auto
    moreover have "w = ?v @ drop (nat b) w" "b \<le> int (length ?v)" using len by auto
    ultimately show ?thesis using True
      by (intro exI [of _ s'] exI [of _ "[]"] exI [of _ ?v] exI [of _ "drop (nat b) w"]) simp
  next
    case False
    obtain s' l before more after where m: "checkSDC K (int p) s = Some s'" "vd_ok s'"
      "writes (hist s') = writes (hist s) @ before @ (fd_out (ext_pipes s ! p), ?v @ more) # after"
      "l = i \<or> l = j" "take (length (?v @ more)) (content (vpipe (replicas s) l p)) = ?v @ more"
      "killed SIGKILL (hist s') = killed SIGKILL (hist s) @ [r_pid (replicas s ! f)]"
      using tmr_masks [OF ok b who False v sys] by blast
    have "take (length (?v @ more)) w = ?v @ more" using m(4,5) healthy by auto
    then have "w = (?v @ more) @ drop (length (?v @ more)) w" by (metis append_take_drop_id)
    moreover have "b \<le> int (length (?v @ more))" using len by auto
    ultimately show ?thesis using m(1,2,3,6) False
      by (intro exI [of _ s'] exI [of _ before] exI [of _ "?v @ more"] exI [of _ after] exI [of _ "drop (length (?v @ more)) w"]) simp
  qed
qed

section \<open>The component\<close>

text \<open>The bytes that were sent after the first messages.\<close>

definition sent_since :: "byte list list \<Rightarrow> byte list list \<Rightarrow> byte list" where
  "sent_since ws ws' = concat (drop (length ws) ws')"

text \<open>Replica \<open>r\<close> of the voter is a process that began like \<open>s0\<close>, got the inputs, and whose output has arrived.\<close>

definition healthy_replica :: "(posix \<Rightarrow> 'i \<Rightarrow> 's \<Rightarrow> 's option) \<Rightarrow> ('s \<Rightarrow> 's \<Rightarrow> bool) \<Rightarrow> ('s \<Rightarrow> byte list list) \<Rightarrow> 's \<Rightarrow> 'i list
    \<Rightarrow> voterd \<Rightarrow> nat \<Rightarrow> nat \<Rightarrow> bool" where
  "healthy_replica step like sent s0 inputs v p r \<longleftrightarrow>
     (\<exists>L t t'. like s0 t \<and> foldM (step L) inputs t = Some t' \<and> content (vpipe (replicas v) r p) = sent_since (sent t) (sent t'))"

text \<open>The same while the replica is still writing: \<open>u\<close> is what has arrived so far.\<close>

definition replica_wrote :: "(posix \<Rightarrow> 'i \<Rightarrow> 's \<Rightarrow> 's option) \<Rightarrow> ('s \<Rightarrow> 's \<Rightarrow> bool) \<Rightarrow> ('s \<Rightarrow> byte list list) \<Rightarrow> 's \<Rightarrow> 'i list
    \<Rightarrow> byte list \<Rightarrow> bool" where
  "replica_wrote step like sent s0 inputs u \<longleftrightarrow>
     (\<exists>L t t'. like s0 t \<and> foldM (step L) inputs t = Some t' \<and> prefix u (sent_since (sent t) (sent t')))"

context replicated begin

lemma same_output:
  assumes "alike s t" "foldM (step K) inputs s = Some s'" "foldM (step L) inputs t = Some t'"
  shows "sent_since (sent t) (sent t') = sent_since (sent s) (sent s')"
  using run_alike [OF assms(1,2), of L] assms(3) by (auto simp: sent_since_def)

lemma healthy_content:
  assumes "healthy_replica step alike sent s0 inputs v p r" "foldM (step K) inputs s0 = Some s1"
  shows "content (vpipe (replicas v) r p) = sent_since (sent s0) (sent s1)"
proof -
  obtain L t t' where "alike s0 t" "foldM (step L) inputs t = Some t'" "content (vpipe (replicas v) r p) = sent_since (sent t) (sent t')"
    using assms(1) by (auto simp: healthy_replica_def)
  then show ?thesis using same_output [OF _ assms(2)] by simp
qed

lemma masked:
  assumes "vd_ok v" "rep_type v = TMR" "int p < pipe_count v" "fd_in (ext_pipes v ! p) = 0"
    and "bytesReady (replicas v) 3 (int p) = Some b" "b \<noteq> 0" "f < 3" "i < 3" "j < 3" "distinct [f, i, j]"
    and "healthy_replica step alike sent s0 inputs v p i" "healthy_replica step alike sent s0 inputs v p j" "foldM (step L) inputs s0 = Some s1"
    and "pipes_ok K" "no_strays K"
  shows "\<exists>v' before out after rest. checkSDC K (int p) v = Some v' \<and> vd_ok v'
    \<and> writes (hist v') = writes (hist v) @ before @ (fd_out (ext_pipes v ! p), out) # after
    \<and> sent_since (sent s0) (sent s1) = out @ rest \<and> b \<le> int (length out)
    \<and> set (killed SIGKILL (hist v')) \<subseteq> set (killed SIGKILL (hist v)) \<union> {r_pid (replicas v ! f)}"
proof -
  obtain v' before out after rest where "checkSDC K (int p) v = Some v'" "vd_ok v'"
    "writes (hist v') = writes (hist v) @ before @ (fd_out (ext_pipes v ! p), out) # after"
    "sent_since (sent s0) (sent s1) = out @ rest" "b \<le> int (length out)"
    "killed SIGKILL (hist v') = killed SIGKILL (hist v)
       @ (if answer v p b f = take (nat b) (sent_since (sent s0) (sent s1)) then [] else [r_pid (replicas v ! f)])"
    using tmr_forwards [OF assms(1-10) healthy_content [OF assms(11,13)] healthy_content [OF assms(12,13)] assms(14,15)] by blast
  then show ?thesis
    by (intro exI [of _ v'] exI [of _ before] exI [of _ out] exI [of _ after] exI [of _ rest]) auto
qed

lemma streamed_like_one:
  assumes "vd_ok v" "rep_type v = TMR" "int p < pipe_count v" "fd_in (ext_pipes v ! p) = 0"
    and "\<forall>r < 3. content (vpipe (replicas v) r p) = []" and es: "paced es"
    and wrote: "\<forall>r < 3. replica_wrote step alike sent s0 inputs (said r es)" and run: "foldM (step L) inputs s0 = Some s1"
  shows "\<exists>v' outs. feed K p es v = Some v' \<and> vd_ok v'
    \<and> writes (hist v') = writes (hist v) @ map (\<lambda>b. (fd_out (ext_pipes v ! p), b)) outs
    \<and> concat outs = take (common es) (sent_since (sent s0) (sent s1))
    \<and> (\<forall>sig. killed sig (hist v') = killed sig (hist v))"
proof -
  have "prefix (said r es) (sent_since (sent s0) (sent s1))" if "r < 3" for r
  proof -
    have "replica_wrote step alike sent s0 inputs (said r es)" using wrote that by simp
    then obtain M t t' where "alike s0 t" "foldM (step M) inputs t = Some t'" "prefix (said r es) (sent_since (sent t) (sent t'))"
      unfolding replica_wrote_def by blast
    then show ?thesis using same_output [OF _ run] by simp
  qed
  then have "healthy_events (sent_since (sent s0) (sent s1)) es" using es by (simp add: healthy_events_def)
  from feed_streams [OF assms(1-5) this, of K] show ?thesis by (auto simp: streamed_def)
qed

end

section \<open>Replicated components\<close>


lemma alike_refl: "alike s s"
  unfolding alike_def
  by (intro exI [of _ "c_pipes s"] exI [of _ "c_pinned_cpu s"] exI [of _ "c_priority s"] exI [of _ "c_hist s"])
    (simp add: same_ends_def list_all2_refl)

definition first_scan :: comm_range_pose_data where
  "first_scan = \<lparr>range_seq_count = 0, ranges = replicate 16 0, pose = [0, 0, 0]\<rparr>"

lemma first_map_update:
  obtains bs s' where "updateMap quiet int_dpu first_scan first_mapper = Some s'"
    "bs = sent_since (sent_by first_mapper) (sent_by s')" "0 < length bs" "length bs < 4096"
proof -
  have w: "writes (c_hist first_mapper) = []" by (simp add: first_mapper_def mapper_init_def mapper_globals_def)
  obtain s' where s': "updateMap quiet int_dpu first_scan first_mapper = Some s'" "length (reported (send_msg s')) \<le> 16"
    "writes (c_hist s') = [(4, map_header (send_msg s') @ obstacle_bytes (send_msg s') (length (reported (send_msg s'))))]"
    using updateMap_reports [OF first_mapper_ok(1,2) _ _ _ first_mapper_ok(3), of first_scan int_dpu quiet] w
    by (auto simp: int_dpu_def first_scan_def)
  then show ?thesis
    using w that [OF s'(1) refl] by (simp add: sent_since_def sent_by_def map_header_def)
qed


text \<open>C4: A replicated mapper is one mapper over time: three replicas run the mapper on the same inputs,
  each at its own pace, on its own system, with its own descriptors; their bytes reach the voter in any
  pieces and any order, none a whole vote pipe ahead of the slowest. Then the voter writes exactly that
  beginning of what one mapper alone would have sent that all three have delivered, and signals nobody.\<close>

theorem replicated_mapper_streams:
  assumes "vd_ok v" "rep_type v = TMR" "int p < pipe_count v" "fd_in (ext_pipes v ! p) = 0"
    and "\<forall>r < 3. content (vpipe (replicas v) r p) = []" and "paced es"
    and "\<forall>r < 3. replica_wrote (mapper_input_step D) alike sent_by s inputs (said r es)"
    and "foldM (mapper_input_step D L) inputs s = Some s'"
  shows "\<exists>v' outs. feed K p es v = Some v' \<and> vd_ok v'
    \<and> writes (hist v') = writes (hist v) @ map (\<lambda>b. (fd_out (ext_pipes v ! p), b)) outs
    \<and> concat outs = take (common es) (sent_since (sent_by s) (sent_by s'))
    \<and> (\<forall>sig. killed sig (hist v') = killed sig (hist v))"
  using assms by (rule mapper_replicas.streamed_like_one)

theorem replicated_mapper_streams_witness:
  "\<exists>bs v' outs. feed quiet 0 [(0, bs), (2, bs), (1, bs)] (sample_voter TMR [[], [], []]) = Some v'
     \<and> writes (hist v') = map (\<lambda>b. (9, b)) outs \<and> concat outs = bs \<and> bs \<noteq> []"
proof -
  obtain bs s' where m: "updateMap quiet int_dpu first_scan first_mapper = Some s'" "bs = sent_since (sent_by first_mapper) (sent_by s')"
    "0 < length bs" "length bs < 4096" by (rule first_map_update)
  let ?es = "[(0, bs), (2, bs), (1, bs)] :: (nat \<times> byte list) list"
  have said: "said r ?es = bs" if "r < 3" for r
  proof -
    have "r = 0 \<or> r = 1 \<or> r = 2" using that by auto
    then show ?thesis by (auto simp: said_def)
  qed
  have "paced ?es" using m(3,4) by (simp add: paced_def said_def common_def less_3_cases All_less_Suc)
  moreover have "replica_wrote (mapper_input_step int_dpu) alike sent_by first_mapper [Scan first_scan] (said r ?es)" if "r < 3" for r
    unfolding replica_wrote_def
    by (intro exI [of _ quiet] exI [of _ first_mapper] exI [of _ s']) (use said [OF that] m(1,2) alike_refl in auto)
  ultimately obtain v' outs where "feed quiet 0 ?es (sample_voter TMR [[], [], []]) = Some v'"
    "writes (hist v') = map (\<lambda>b. (9, b)) outs" "concat outs = take (common ?es) bs"
    using replicated_mapper_streams [of "sample_voter TMR [[], [], []]" 0 ?es int_dpu first_mapper "[Scan first_scan]" quiet s' quiet] m
    by (auto simp: sample_tmr_ok less_3_cases)
  moreover have "common ?es = length bs" using said [of 0] said [of 1] said [of 2] by (simp add: common_def)
  ultimately show ?thesis using m(3) by (intro exI [of _ bs] exI [of _ v'] exI [of _ outs]) auto
qed

text \<open>The same for the planner and for the potential controller.\<close>

lemmas replicated_planner = astar_replicas.masked

lemmas replicated_artpot = artpot_replicas.masked

end
