(* ===== verification/VoterS.thy ===== *)
theory VoterS
  imports VoterDInv
begin

text \<open>
  \<open>voter/voters.c\<close>: the voter of a component that runs as one replica only. It has no timer: it asks
  the kernel in every round whether the replica died, starts a new one then, and gives it the last
  inputs again. The globals are the record \<open>voters\<close>; the functions have the names of \<open>voterd.c\<close>, and
  an \<open>S_\<close> in front here. The array of replicas has one element. Its processes run the code of
  \<open>Replicas\<close>; the proofs carry over from \<open>VoterDInv\<close> along the projection \<open>forget\<close>.
\<close>

record voters =
  s_last_dead :: int
  s_replicas :: "replica list"
  s_voter_priority :: int
  s_replica_priority :: int
  s_sd_sock :: int
  s_rep_type :: replication_t
  s_rep_count :: int
  s_controller_name :: string
  s_pipe_count :: int
  s_ext_pipes :: "vote_pipe list"
  s_hist :: history
  s_exited :: bool

definition S_put_pipe :: "int \<Rightarrow> int \<Rightarrow> vote_pipe \<Rightarrow> voters \<Rightarrow> voters option" where
  "S_put_pipe r p v s =
     do {
       rep \<leftarrow> aget (s_replicas s) r;
       rep' \<leftarrow> upd_vot_pipe rep p v;
       reps \<leftarrow> aset (s_replicas s) r rep';
       Some (s\<lparr>s_replicas := reps\<rparr>)
     }"

section \<open>Data in and out\<close>

definition S_writeBuffer :: "posix \<Rightarrow> int \<Rightarrow> byte list \<Rightarrow> int \<Rightarrow> voters \<Rightarrow> voters option" where
  "S_writeBuffer K fd buf n s =
     do {
       bs \<leftarrow> mem_read buf 0 n;
       Some (s\<lparr>s_hist := snd (sys_write K fd bs (s_hist s))\<rparr>)
     }"

definition S_processData :: "posix \<Rightarrow> vote_pipe \<Rightarrow> int \<Rightarrow> voters \<Rightarrow> voters option" where
  "S_processData K pipe pipe_index s =
     for_upto 0 (s_rep_count s) (\<lambda>r_index s. do {
       v \<leftarrow> pipe_of (s_replicas s) r_index pipe_index;
       S_writeBuffer K (fd_out v) (buffer pipe) (buff_count pipe) s
     }) s"

definition S_sendPipe :: "posix \<Rightarrow> int \<Rightarrow> int \<Rightarrow> voters \<Rightarrow> voters option" where
  "S_sendPipe K pipe_num replica_num s =
     do {
       bytes_avail \<leftarrow> bytesReady (s_replicas s) (s_rep_count s) pipe_num;
       if bytes_avail = 0 then Some s
       else for_upto 0 (s_rep_count s) (\<lambda>r_index s. do {
         v \<leftarrow> pipe_of (s_replicas s) r_index pipe_num;
         if replica_num = r_index then do {
           ext \<leftarrow> aget (s_ext_pipes s) pipe_num;
           (retval, v', h) \<leftarrow> buffToPipe K v (fd_out ext) bytes_avail (s_hist s);
           S_put_pipe r_index pipe_num v' (s\<lparr>s_hist := h\<rparr>)
         }
         else S_put_pipe r_index pipe_num (fakeToPipe v bytes_avail) s
       }) s
     }"

definition S_checkSDC :: "posix \<Rightarrow> int \<Rightarrow> voters \<Rightarrow> voters option" where
  "S_checkSDC K pipe_num s =
     do {
       bytes_avail \<leftarrow> bytesReady (s_replicas s) (s_rep_count s) pipe_num;
       if bytes_avail = 0 then Some s
       else case s_rep_type s of
         SMR \<Rightarrow> S_sendPipe K pipe_num 0 s
       | _ \<Rightarrow> Some s
     }"

definition S_processFromRep :: "posix \<Rightarrow> int \<Rightarrow> int \<Rightarrow> voters \<Rightarrow> voters option" where
  "S_processFromRep K replica_num pipe_num s =
     do {
       v \<leftarrow> pipe_of (s_replicas s) replica_num pipe_num;
       (ret, v', h) \<leftarrow> pipeToBuff K v (s_hist s);
       s2 \<leftarrow> S_put_pipe replica_num pipe_num v' (s\<lparr>s_hist := h\<rparr>);
       if ret = 0 then do {
         (reps, h') \<leftarrow> balanceReps K (s_replicas s2) (s_rep_count s2) (s_replica_priority s2) (s_hist s2);
         S_checkSDC K pipe_num (s2\<lparr>s_replicas := reps, s_hist := h'\<rparr>)
       }
       else Some s2
     }"

section \<open>Restarting\<close>

definition S_startAll :: "posix \<Rightarrow> voters \<Rightarrow> voters option" where
  "S_startAll K s =
     do {
       (ok, reps, h) \<leftarrow> startReplicas K (s_replicas s) (s_rep_count s) (s_sd_sock s) (s_controller_name s)
         (s_ext_pipes s) (s_pipe_count s) (s_replica_priority s) (s_hist s);
       Some (s\<lparr>s_replicas := reps, s_hist := h, s_exited := \<not> ok\<rparr>)
     }"

text \<open>The last data of the external pipes from \<open>p\<close> on is sent again.\<close>

definition S_resend :: "posix \<Rightarrow> voters \<Rightarrow> voters option" where
  "S_resend K s =
     for_upto 0 (s_pipe_count s) (\<lambda>p_index s. do {
       ext \<leftarrow> aget (s_ext_pipes s) p_index;
       if fd_in ext \<noteq> 0 then S_processData K ext p_index s else Some s
     }) s"

definition S_voterRestartHandler :: "posix \<Rightarrow> voters \<Rightarrow> voters option" where
  "S_voterRestartHandler K s =
     (case s_rep_type s of
        SMR \<Rightarrow> do {
          first \<leftarrow> aget (s_replicas s) 0;
          h \<leftarrow> cleanupReplica K (s_replicas s) 0 (s_hist s);
          s1 \<leftarrow> S_startAll K (s\<lparr>s_last_dead := r_pid first, s_hist := h\<rparr>);
          if s_exited s1 then Some s1 else S_resend K s1
        }
      | _ \<Rightarrow> Some s)"

section \<open>The main loop\<close>

definition S_ext_read_set :: "voters \<Rightarrow> int list option" where
  "S_ext_read_set s =
     for_upto 0 (s_pipe_count s) (\<lambda>p_index fds. do {
       ext \<leftarrow> aget (s_ext_pipes s) p_index;
       Some (if fd_in ext \<noteq> 0 then fds @ [fd_in ext] else fds)
     }) []"

definition S_rep_read_set :: "voters \<Rightarrow> int list option" where
  "S_rep_read_set s =
     for_upto 0 (s_pipe_count s) (\<lambda>p_index.
       for_upto 0 (s_rep_count s) (\<lambda>r_index fds. do {
         v \<leftarrow> pipe_of (s_replicas s) r_index p_index;
         Some (if fd_in v \<noteq> 0 then fds @ [fd_in v] else fds)
       })) []"

text \<open>Every external pipe that is ready is read, unlike in \<open>voterd.c\<close>.\<close>

definition S_read_ext :: "posix \<Rightarrow> int list \<Rightarrow> int \<Rightarrow> voters \<Rightarrow> voters option" where
  "S_read_ext K ready p_index s =
     do {
       ext \<leftarrow> aget (s_ext_pipes s) p_index;
       if fd_in ext \<noteq> 0 \<and> fd_in ext \<in> set ready then do {
         let (r, bs, h) = sys_read K (fd_in ext) MAX_VOTE_PIPE_BUFF (s_hist s);
         b \<leftarrow> mem_write (buffer ext) 0 bs;
         let ext' = ext\<lparr>buffer := b, buff_count := r\<rparr>;
         exts \<leftarrow> aset (s_ext_pipes s) p_index ext';
         let s' = s\<lparr>s_ext_pipes := exts, s_hist := h\<rparr>;
         if r > 0 then S_processData K ext' p_index s' else Some s'
       }
       else Some s
     }"

definition S_rep_round :: "posix \<Rightarrow> int list \<Rightarrow> voters \<Rightarrow> voters option" where
  "S_rep_round K ready s =
     for_upto 0 (s_pipe_count s) (\<lambda>p_index s.
       for_upto 0 (s_rep_count s) (\<lambda>r_index s. do {
         v \<leftarrow> pipe_of (s_replicas s) r_index p_index;
         if fd_in v \<noteq> 0 \<and> fd_in v \<in> set ready then S_processFromRep K r_index p_index s else Some s
       }) s) s"

definition S_doOneUpdate :: "posix \<Rightarrow> voters \<Rightarrow> voters option" where
  "S_doOneUpdate K s =
     do {
       let (exit_pid, h0) = sys_waitpid K (s_hist s);
       let s0 = s\<lparr>s_hist := h0\<rparr>;
       s1 \<leftarrow> (if exit_pid > 0 then S_voterRestartHandler K s0 else Some s0);
       if s_exited s1 then Some s1
       else do {
         ext_fds \<leftarrow> S_ext_read_set s1;
         rep_fds \<leftarrow> S_rep_read_set s1;
         let (retval, ready, h) = sys_select K (ext_fds @ rep_fds) 50000 (s_hist s1);
         let s2 = s1\<lparr>s_hist := h\<rparr>;
         if retval > 0 then do {
           s3 \<leftarrow> for_upto 0 (s_pipe_count s2) (S_read_ext K ready) s2;
           S_rep_round K ready s3
         }
         else Some s2
       }
     }"

primrec S_updates :: "posix \<Rightarrow> nat \<Rightarrow> voters \<Rightarrow> voters option" where
  "S_updates K 0 s = Some s"
| "S_updates K (Suc n) s =
     (if s_exited s then Some s else do { s' \<leftarrow> S_doOneUpdate K s; S_updates K n s' })"

section \<open>Starting up\<close>

definition initVoterS :: "posix \<Rightarrow> voters \<Rightarrow> voters option" where
  "initVoterS K s =
     do {
       let s1 = s\<lparr>s_replica_priority := s_voter_priority s - VOTER_PRIO_OFFSET\<rparr>;
       let (r, sock, h) = createFDS K (s_controller_name s1) (s_hist s1);
       s2 \<leftarrow> S_startAll K (s1\<lparr>s_sd_sock := sock, s_hist := h\<rparr>);
       if s_exited s2 then Some s2
       else do {
         let s3 = s2\<lparr>s_hist := snd (InitTAS K VOTER_PIN (s_voter_priority s2) (s_hist s2))\<rparr>;
         s4 \<leftarrow> for_upto 0 (s_pipe_count s3) (\<lambda>p_index s. do {
           ext \<leftarrow> aget (s_ext_pipes s) p_index;
           if fd_in ext \<noteq> 0 then do {
             let (r, bs, h) = sys_read K (fd_in ext) 0 (s_hist s);
             exts \<leftarrow> aset (s_ext_pipes s) p_index (ext\<lparr>buff_count := r\<rparr>);
             Some (s\<lparr>s_ext_pipes := exts, s_hist := h\<rparr>)
           }
           else Some s
         }) s3;
         for_upto 0 (s_rep_count s4) (\<lambda>r_index s. do {
           rep \<leftarrow> aget (s_replicas s) r_index;
           for_upto 0 (r_pipe_count rep) (\<lambda>p_index s. do {
             v \<leftarrow> pipe_of (s_replicas s) r_index p_index;
             if fd_in v \<noteq> 0 then do {
               let (r, bs, h) = sys_read K (fd_in v) 0 (s_hist s);
               S_put_pipe r_index p_index (v\<lparr>buff_count := r\<rparr>) (s\<lparr>s_hist := h\<rparr>)
             }
             else Some s
           }) s
         }) s4
       }
     }"

text \<open>\<open>parseArgs\<close> allocates the pipes of the first replica whatever the type is; \<open>g\<close> and \<open>tail\<close> as in
  \<open>VoterD\<close>.\<close>

definition S_parseArgs :: "(int \<Rightarrow> int \<Rightarrow> vote_pipe) \<Rightarrow> (int \<Rightarrow> string) \<Rightarrow> string list \<Rightarrow> voters \<Rightarrow> (int \<times> voters) option" where
  "S_parseArgs g tail argv s =
     do {
       let required_args = 5;
       let argc = int (length argv);
       name \<leftarrow> aget argv 1;
       type \<leftarrow> aget argv 2;
       prio \<leftarrow> aget argv 4;
       let s1 = s\<lparr>s_controller_name := name, s_rep_type := reptypeToEnum type,
                  s_rep_count := reptypeToCount (reptypeToEnum type), s_voter_priority := atoi prio\<rparr>;
       if argc < required_args then Some (-1, s1)
       else do {
         let s2 = s1\<lparr>s_pipe_count := s_pipe_count s1 + min (argc - required_args) PIPE_LIMIT\<rparr>;
         exts \<leftarrow> for_upto 0 (min (argc - required_args) PIPE_LIMIT) (\<lambda>i exts. do {
           serial \<leftarrow> aget argv (i + required_args);
           e \<leftarrow> aget exts i;
           e' \<leftarrow> parsePipe (tail i) serial e;
           aset exts i e'
         }) (malloc_pipes g 0 (s_pipe_count s2));
         first \<leftarrow> aget (s_replicas s2) 0;
         reps \<leftarrow> aset (s_replicas s2) 0
           (first\<lparr>vot_pipes := malloc_pipes g 1 (s_pipe_count s2),
                  voter_rep_in_copy := map (\<lambda>j. fd_in (g 1 j)) [0..s_pipe_count s2 - 1],
                  rep_pipes := malloc_pipes g 2 (s_pipe_count s2)\<rparr>);
         Some (0, s2\<lparr>s_ext_pipes := exts, s_replicas := reps\<rparr>)
       }
     }"

definition voters_globals :: voters where
  "voters_globals =
     \<lparr>s_last_dead = -1, s_replicas = [blank_replica], s_voter_priority = 0, s_replica_priority = 0,
      s_sd_sock = 0, s_rep_type = NONE, s_rep_count = 0, s_controller_name = [], s_pipe_count = 0,
      s_ext_pipes = [], s_hist = [], s_exited = False\<rparr>"

definition voters_main :: "posix \<Rightarrow> (int \<Rightarrow> int \<Rightarrow> vote_pipe) \<Rightarrow> (int \<Rightarrow> string) \<Rightarrow> string list \<Rightarrow> nat \<Rightarrow> voters option" where
  "voters_main K g tail argv n =
     do {
       (ret, s) \<leftarrow> S_parseArgs g tail argv voters_globals;
       if ret < 0 then Some (s\<lparr>s_exited := True\<rparr>)
       else do { s' \<leftarrow> initVoterS K s; S_updates K n s' }
     }"

end
