(* ===== verification/VoterSProps.thy ===== *)
theory VoterSProps
  imports VoterS VoterDProps
begin

text \<open>
  \<open>voter/voters.c\<close> against \<open>voter/voterd.c\<close>: with the timers left aside, the voter of one replica does
  what the voter of groups does with a group of one. The invariant of \<open>VoterDInv\<close> and what it implies
  carry over along this correspondence.
\<close>

section \<open>The correspondence\<close>

definition forget :: "int \<Rightarrow> voterd \<Rightarrow> voters" where
  "forget dead s =
     \<lparr>s_last_dead = dead, s_replicas = replicas s, s_voter_priority = voter_priority s,
      s_replica_priority = replica_priority s, s_sd_sock = sd_sock s, s_rep_type = rep_type s,
      s_rep_count = rep_count s, s_controller_name = controller_name s, s_pipe_count = pipe_count s,
      s_ext_pipes = ext_pipes s, s_hist = hist s, s_exited = exited s\<rparr>"

text \<open>A state of \<open>voterd.c\<close> with a timer that runs already, so that no operation starts one.\<close>

definition recall :: "voters \<Rightarrow> voterd" where
  "recall t =
     \<lparr>voting_timeout = 0, current_timer = 0, timer_start_index = [0, 0], timer_stop_index = [0, 0],
      timer_started = True, watchdog = 0, replicas = s_replicas t, voter_priority = s_voter_priority t,
      replica_priority = s_replica_priority t, sd_sock = s_sd_sock t, rep_type = s_rep_type t,
      rep_count = s_rep_count t, controller_name = s_controller_name t, pipe_count = s_pipe_count t,
      ext_pipes = s_ext_pipes t, hist = s_hist t, exited = s_exited t\<rparr>"

named_theorems forget_simps \<open>operations of voters.c on a projected state\<close>

lemma forget_fields [simp]:
  "s_replicas (forget d s) = replicas s" "s_rep_count (forget d s) = rep_count s"
  "s_ext_pipes (forget d s) = ext_pipes s" "s_hist (forget d s) = hist s" "s_rep_type (forget d s) = rep_type s"
  "s_pipe_count (forget d s) = pipe_count s" "s_replica_priority (forget d s) = replica_priority s"
  "s_exited (forget d s) = exited s" "s_last_dead (forget d s) = d" "s_sd_sock (forget d s) = sd_sock s"
  "s_controller_name (forget d s) = controller_name s"
  by (simp_all add: forget_def)

lemma recall_fields [simp]:
  "replicas (recall t) = s_replicas t" "rep_count (recall t) = s_rep_count t" "ext_pipes (recall t) = s_ext_pipes t"
  "hist (recall t) = s_hist t" "rep_type (recall t) = s_rep_type t" "pipe_count (recall t) = s_pipe_count t"
  "timer_started (recall t)" "exited (recall t) = s_exited t"
  by (simp_all add: recall_def)

lemma forget_recall [simp]: "forget (s_last_dead t) (recall t) = t"
  by (simp add: forget_def recall_def)

lemma forget_update [simp]:
  "(forget d s)\<lparr>s_hist := h\<rparr> = forget d (s\<lparr>hist := h\<rparr>)"
  "(forget d s)\<lparr>s_replicas := reps\<rparr> = forget d (s\<lparr>replicas := reps\<rparr>)"
  "(forget d s)\<lparr>s_exited := e\<rparr> = forget d (s\<lparr>exited := e\<rparr>)"
  "(forget d s)\<lparr>s_ext_pipes := x\<rparr> = forget d (s\<lparr>ext_pipes := x\<rparr>)"
  "forget d (s\<lparr>timer_started := b\<rparr>) = forget d s"
  by (simp_all add: forget_def)

lemma put_pipe_forget [forget_simps]:
  "S_put_pipe r p v (forget d s) = map_option (forget d) (put_pipe r p v s)"
  by (simp add: S_put_pipe_def put_pipe_def split: Option.bind_split)

lemma sendPipe_forget [forget_simps]:
  "S_sendPipe K p r (forget d s) = map_option (forget d) (sendPipe K p r s)"
proof -
  have loop: "for_upto lo hi (\<lambda>r_index s. do {
         v \<leftarrow> pipe_of (s_replicas s) r_index p;
         if r = r_index then do {
           ext \<leftarrow> aget (s_ext_pipes s) p;
           (retval, v', h) \<leftarrow> buffToPipe K v (fd_out ext) b (s_hist s);
           S_put_pipe r_index p v' (s\<lparr>s_hist := h\<rparr>)
         }
         else S_put_pipe r_index p (fakeToPipe v b) s }) (forget d t)
    = map_option (forget d) (for_upto lo hi (\<lambda>r_index s. do {
         v \<leftarrow> pipe_of (replicas s) r_index p;
         if r = r_index then do {
           ext \<leftarrow> aget (ext_pipes s) p;
           (retval, v', h) \<leftarrow> buffToPipe K v (fd_out ext) b (hist s);
           put_pipe r_index p v' (s\<lparr>hist := h\<rparr>)
         }
         else put_pipe r_index p (fakeToPipe v b) s }) t)" for lo hi b t
    by (rule for_upto_map) (auto simp: put_pipe_forget split: Option.bind_split prod.splits)
  show ?thesis
  proof (cases "bytesReady (replicas s) (rep_count s) p")
    case (Some b)
    define u where "u = (if p = timer_stop_index s ! 0 \<or> p = timer_stop_index s ! 1
                   then s\<lparr>timer_started := False\<rparr> else s)"
    have u: "forget d u = forget d s" "rep_count u = rep_count s" by (simp_all add: u_def)
    show ?thesis
      unfolding S_sendPipe_def sendPipe_def forget_fields Some Option.bind.simps Let_def u_def [symmetric] u(2)
      using loop [of 0 "rep_count s" b u] u(1) by simp
  qed (simp add: S_sendPipe_def sendPipe_def)
qed

text \<open>A group of one is not balanced.\<close>

lemma on_replicas_one: "rep_count s < 2 \<Longrightarrow> on_replicas (\<lambda>reps. balanceReps K reps (rep_count s) d) s = Some s"
  by (simp add: on_replicas_def balanceReps_def)

lemma processData_forget [forget_simps]:
  assumes "timer_started s" "rep_count s < 2"
  shows "S_processData K e p (forget d s) = map_option (forget d) (processData K e p s)"
proof -
  have "for_upto 0 (rep_count s) (\<lambda>r_index s. do {
       v \<leftarrow> pipe_of (s_replicas s) r_index p;
       S_writeBuffer K (fd_out v) (buffer e) (buff_count e) s }) (forget d s)
    = map_option (forget d) (for_upto 0 (rep_count s) (\<lambda>r_index s. do {
       v \<leftarrow> pipe_of (replicas s) r_index p;
       writeBuffer K (fd_out v) (buffer e) (buff_count e) s }) s)"
    by (rule for_upto_map) (simp add: S_writeBuffer_def writeBuffer_def split: Option.bind_split)
  then show ?thesis
    using assms by (simp add: S_processData_def processData_def timer_check_def on_replicas_one)
qed

lemma startAll_forget [forget_simps]: "S_startAll K (forget d s) = map_option (forget d) (startAll K s)"
  by (auto simp: S_startAll_def startAll_def split: Option.bind_split prod.splits)

lemma checkSDC_forget [forget_simps]:
  "rep_type s = SMR \<Longrightarrow> S_checkSDC K p (forget d s) = map_option (forget d) (checkSDC K p s)"
  by (simp add: S_checkSDC_def checkSDC_def sendPipe_forget split: Option.bind_split)

lemma processFromRep_forget:
  assumes "timer_started s" "rep_type s = SMR" "rep_count s = 1"
  shows "S_processFromRep K r p (forget d s) = map_option (forget d) (processFromRep K r p s)"
proof -
  have put: "rep_count t = rep_count s \<and> rep_type t = rep_type s" if "put_pipe r p v (s\<lparr>hist := h\<rparr>) = Some t" for v h t
    using that by (auto simp: put_pipe_def split: Option.bind_splits)
  have pre: "balanceReps K reps 1 x h = Some (reps, h)" for reps x h by (simp add: balanceReps_def)
  show ?thesis
  proof (cases "pipe_of (replicas s) r p")
    case v: (Some v)
    show ?thesis
    proof (cases "pipeToBuff K v (hist s)")
      case (Some x)
      obtain ret v' h where x: "x = (ret, v', h)" by (cases x)
      show ?thesis
      proof (cases "put_pipe r p v' (s\<lparr>hist := h\<rparr>)")
        case t: (Some t)
        have "on_replicas (\<lambda>reps. balanceReps K reps (rep_count t) (replica_priority t)) t = Some t"
          using put [OF t] assms(3) by (intro on_replicas_one) simp
        then show ?thesis
          using v Some x t put [OF t] assms pre
          by (simp add: S_processFromRep_def processFromRep_def timer_check_def put_pipe_forget checkSDC_forget)
      qed (use v Some x assms in \<open>simp add: S_processFromRep_def processFromRep_def timer_check_def put_pipe_forget\<close>)
    qed (use v assms in \<open>simp add: S_processFromRep_def processFromRep_def timer_check_def\<close>)
  qed (use assms in \<open>simp add: S_processFromRep_def processFromRep_def timer_check_def\<close>)
qed

section \<open>The invariant\<close>

definition vs_ok :: "voters \<Rightarrow> bool" where
  "vs_ok t \<longleftrightarrow> s_rep_type t = SMR \<and> vd_ok (recall t)"

definition S_safe :: "(voters \<Rightarrow> voters option) \<Rightarrow> voters \<Rightarrow> bool" where
  "S_safe f t \<longleftrightarrow> (\<exists>t'. f t = Some t' \<and> vs_ok t' \<and> same_config (recall t) (recall t'))"

text \<open>The invariant does not depend on the timers.\<close>

lemma vd_ok_recall_forget: "vd_ok s \<Longrightarrow> rep_type s = SMR \<Longrightarrow> vs_ok (forget d s)"
  by (auto simp: vs_ok_def vd_ok_def vd_setup_def vd_group_def recall_def)

lemma S_safe_of:
  assumes safe: "safe f (recall t)" and type: "s_rep_type t = SMR"
    and map: "g t = map_option (forget d) (f (recall t))"
  shows "S_safe g t"
proof -
  obtain s' where s': "f (recall t) = Some s'" "vd_ok s'" "same_config (recall t) s'" using safe by (auto simp: safe_def)
  have "same_config (recall t) (recall (forget d s'))" using s'(3) by (simp add: same_config_def recall_def)
  moreover have "rep_type s' = SMR" using s'(3) type by (simp add: same_config_def)
  ultimately show ?thesis using s' map vd_ok_recall_forget [of s' d] by (simp add: S_safe_def)
qed

lemma S_safe_Some [simp]: "vs_ok t \<Longrightarrow> S_safe Some t"
  by (simp add: S_safe_def)

lemma S_safe_bind:
  assumes "S_safe f s" "\<And>s'. vs_ok s' \<Longrightarrow> same_config (recall s) (recall s') \<Longrightarrow> S_safe g s'"
  shows "S_safe (\<lambda>s. do { s' \<leftarrow> f s; g s' }) s"
  using assms same_config_trans unfolding S_safe_def by fastforce

lemma S_safe_loop:
  assumes "vs_ok s" and "\<And>i t. i < n \<Longrightarrow> vs_ok t \<Longrightarrow> same_config (recall s) (recall t) \<Longrightarrow> S_safe (f (int i)) t"
  shows "S_safe (for_upto 0 (int n) f) s"
proof -
  have "\<exists>t. for_upto 0 (int n) f s = Some t \<and> vs_ok t \<and> same_config (recall s) (recall t)"
    by (rule for_upto_nat [where P = "\<lambda>i t. vs_ok t \<and> same_config (recall s) (recall t)"])
      (use assms same_config_trans in \<open>unfold S_safe_def, auto, blast?\<close>)
  then show ?thesis by (simp add: S_safe_def)
qed

lemma S_safe_from: "S_safe f t \<Longrightarrow> same_config (recall s) (recall t) \<Longrightarrow> g s = f t \<Longrightarrow> S_safe g s"
  unfolding S_safe_def using same_config_trans by fastforce

lemma S_safe_if: "S_safe f t \<Longrightarrow> vs_ok t \<Longrightarrow> S_safe (\<lambda>t. if b then f t else Some t) t"
  by (cases b) (simp_all add: S_safe_def)

lemma vs_okE:
  assumes "vs_ok t"
  obtains n where "s_pipe_count t = int n" "0 < n" "s_rep_count t = 1" "length (s_ext_pipes t) = n"
    "good_group n 1 (s_ext_pipes t) 0 n (s_replicas t)" "list_all (ext_ok SMR) (s_ext_pipes t)"
    "s_rep_type t = SMR"
proof -
  have v: "vd_ok (recall t)" "s_rep_type t = SMR" using assms by (simp_all add: vs_ok_def)
  obtain n num where "pipe_count (recall t) = int n" "0 < n" "rep_count (recall t) = int num"
    "length (ext_pipes (recall t)) = n" "good_group n num (ext_pipes (recall t)) 0 n (replicas (recall t))"
    "int num = reptypeToCount (rep_type (recall t))" using v(1) by (rule vd_okE)
  then show ?thesis using that v by (auto simp: vd_ok_def vd_setup_def)
qed

lemma vs_ok_hist [simp]:
  "vs_ok (t\<lparr>s_hist := h\<rparr>) = vs_ok t" "vs_ok (t\<lparr>s_last_dead := d\<rparr>) = vs_ok t"
  by (simp_all add: vs_ok_def vd_ok_def vd_setup_def vd_group_def recall_def)

lemma same_config_hist [simp]:
  "same_config (recall a) (recall (t\<lparr>s_hist := h\<rparr>)) = same_config (recall a) (recall t)"
  "same_config (recall (t\<lparr>s_hist := h\<rparr>)) (recall a) = same_config (recall t) (recall a)"
  "same_config (recall (t\<lparr>s_last_dead := d\<rparr>)) (recall a) = same_config (recall t) (recall a)"
  by (simp_all add: same_config_def recall_def)

lemma S_safe_hist: "f t = Some (t\<lparr>s_hist := h\<rparr>) \<Longrightarrow> vs_ok t \<Longrightarrow> S_safe f t"
  by (simp add: S_safe_def)

lemma S_processData_eq:
  assumes ok: "vs_ok t" and p: "int p < s_pipe_count t"
    and buf: "0 \<le> buff_count e" "buff_count e \<le> int (length (buffer e))"
  shows "S_processData K e (int p) t = Some (t\<lparr>s_hist :=
    snd (sys_write K (fd_out (vpipe (s_replicas t) 0 p)) (take (nat (buff_count e)) (buffer e)) (s_hist t))\<rparr>)"
proof -
  obtain n where t: "s_pipe_count t = int n" "s_rep_count t = 1" "good_group n 1 (s_ext_pipes t) 0 n (s_replicas t)"
    using ok by (rule vs_okE)
  have "pipe_of (s_replicas t) 0 (int p) = Some (vpipe (s_replicas t) 0 p)"
    using pipe_of_wf(1) [OF good_group_wf [OF t(3)], of 0 p] p t(1) by simp
  then show ?thesis
    using buf by (simp add: S_processData_def t(2) for_upto_step S_writeBuffer_def mem_read_in)
qed

text \<open>What lies behind the buffers of \<open>restart_prep\<close> does not concern a program without it.\<close>

lemma sys_without_strays:
  "sys_read (K\<lparr>stray_word := w\<rparr>) = sys_read K" "sys_write (K\<lparr>stray_word := w\<rparr>) = sys_write K"
  "sys_setscheduler (K\<lparr>stray_word := w\<rparr>) = sys_setscheduler K"
  "sys_setpriority (K\<lparr>stray_word := w\<rparr>) = sys_setpriority K"
  "rr_priority_max (K\<lparr>stray_word := w\<rparr>) = rr_priority_max K"
  by (simp_all add: fun_eq_iff sys_read_def sys_write_def sys_setscheduler_def sys_setpriority_def)

lemma ops_without_strays:
  "pipeToBuff (K\<lparr>stray_word := w\<rparr>) = pipeToBuff K" "buffToPipe (K\<lparr>stray_word := w\<rparr>) = buffToPipe K"
  "balanceReps (K\<lparr>stray_word := w\<rparr>) = balanceReps K"
  by (unfold pipeToBuff_def buffToPipe_def balanceReps_def set_rep_priority_def sched_set_policy_def
      sys_without_strays) (rule refl)+

lemma no_stray_words: "S_processFromRep (K\<lparr>stray_word := w\<rparr>) = S_processFromRep K"
  by (unfold S_processFromRep_def S_checkSDC_def S_sendPipe_def ops_without_strays) (rule refl)

lemma processFromRep_S_safe:
  assumes ok: "vs_ok t" and p: "0 \<le> p" "p < s_pipe_count t" and r: "0 \<le> r" "r < s_rep_count t" and sys: "pipes_ok K"
  shows "S_safe (S_processFromRep K r p) t"
proof -
  let ?K = "K\<lparr>stray_word := \<lambda>h i. 0\<rparr>"
  have K: "pipes_ok ?K" "no_strays ?K" using sys by (simp_all add: pipes_ok_def no_strays_def)
  have "S_safe (S_processFromRep ?K r p) t"
  proof (rule S_safe_of)
    show "safe (processFromRep ?K r p) (recall t)"
      using processFromRep_safe [of "recall t" r p ?K] ok p r K by (simp add: vs_ok_def)
    show "s_rep_type t = SMR" using ok by (simp add: vs_ok_def)
    moreover have "rep_count (recall t) = 1" using ok by (rule vs_okE) simp
    ultimately show "S_processFromRep ?K r p t = map_option (forget (s_last_dead t)) (processFromRep ?K r p (recall t))"
      using processFromRep_forget [of "recall t" ?K r p "s_last_dead t"] by simp
  qed
  then show ?thesis by (simp add: no_stray_words)
qed

lemma startAll_S_safe:
  assumes "vs_ok t" "pipes_ok K"
  shows "S_safe (S_startAll K) t"
proof (rule S_safe_of)
  show "safe (startAll K) (recall t)" using assms by (intro startAll_safe) (simp_all add: vs_ok_def)
  show "s_rep_type t = SMR" using assms(1) by (simp add: vs_ok_def)
  show "S_startAll K t = map_option (forget (s_last_dead t)) (startAll K (recall t))"
    using startAll_forget [of K "s_last_dead t" "recall t"] by simp
qed

text \<open>What a restart sends again: the last data of each incoming pipe, to the new replica.\<close>

definition resent :: "vote_pipe list \<Rightarrow> replica list \<Rightarrow> nat \<Rightarrow> (int \<times> byte list) list" where
  "resent ext reps k =
     map (\<lambda>p. (fd_out (vpipe reps 0 p), take (nat (buff_count (ext ! p))) (buffer (ext ! p))))
       (filter (\<lambda>p. fd_in (ext ! p) \<noteq> 0) [0..<k])"

lemma S_resend_eq:
  assumes ok: "vs_ok t"
  shows "\<exists>h'. S_resend K t = Some (t\<lparr>s_hist := h'\<rparr>) \<and> (\<forall>sig. killed sig h' = killed sig (s_hist t))
    \<and> writes h' = writes (s_hist t) @ resent (s_ext_pipes t) (s_replicas t) (length (s_ext_pipes t))"
proof -
  obtain n where t: "s_pipe_count t = int n" "length (s_ext_pipes t) = n" "list_all (ext_ok SMR) (s_ext_pipes t)"
    using ok by (rule vs_okE)
  let ?P = "\<lambda>k u. \<exists>h'. u = t\<lparr>s_hist := h'\<rparr> \<and> (\<forall>sig. killed sig h' = killed sig (s_hist t))
    \<and> writes h' = writes (s_hist t) @ resent (s_ext_pipes t) (s_replicas t) k"
  have "\<exists>u. S_resend K t = Some u \<and> ?P n u"
    unfolding S_resend_def t(1)
  proof (rule for_upto_nat [where P = ?P])
    show "?P 0 t" by (intro exI [of _ "s_hist t"]) (simp add: resent_def)
  next
    fix i u assume i: "i < n" and "?P i u"
    then obtain h where u: "u = t\<lparr>s_hist := h\<rparr>" "\<forall>sig. killed sig h = killed sig (s_hist t)"
      "writes h = writes (s_hist t) @ resent (s_ext_pipes t) (s_replicas t) i" by blast
    let ?e = "s_ext_pipes t ! i"
    have e: "0 \<le> buff_count ?e" "buff_count ?e \<le> int (length (buffer ?e))"
      using t(2,3) i by (auto simp: list_all_length ext_ok_def MAX_VOTE_PIPE_BUFF_def)
    let ?h2 = "snd (sys_write K (fd_out (vpipe (s_replicas t) 0 i)) (take (nat (buff_count ?e)) (buffer ?e)) h)"
    have "S_processData K ?e (int i) u = Some (t\<lparr>s_hist := ?h2\<rparr>)"
      using S_processData_eq [of u i ?e K] ok u(1) t(1) i e by simp
    moreover have "?P (Suc i) (t\<lparr>s_hist := ?h2\<rparr>)" if "fd_in ?e \<noteq> 0"
      using u(2,3) that by (intro exI [of _ ?h2]) (simp add: resent_def)
    moreover have "?P (Suc i) u" if "fd_in ?e = 0"
      using u that by (intro exI [of _ h]) (simp add: resent_def)
    moreover have "aget (s_ext_pipes u) (int i) = Some ?e" using i t(2) u(1) by simp
    ultimately show "\<exists>u'. do { ext \<leftarrow> aget (s_ext_pipes u) (int i);
        if fd_in ext \<noteq> 0 then S_processData K ext (int i) u else Some u } = Some u' \<and> ?P (Suc i) u'"
      unfolding \<open>aget (s_ext_pipes u) (int i) = Some ?e\<close> Option.bind.simps by (metis (no_types))
  qed
  then show ?thesis using t(2) by auto
qed

lemma resend_S_safe: "vs_ok t \<Longrightarrow> S_safe (S_resend K) t"
  using S_resend_eq [of t K] by (auto simp: S_safe_def)

lemma vs_cleanup:
  assumes ok: "vs_ok t"
  obtains h' first where "aget (s_replicas t) 0 = Some first" "cleanupReplica K (s_replicas t) 0 (s_hist t) = Some h'"
    "silently (snd (sys_kill K (r_pid first) SIGKILL (s_hist t))) h'"
proof -
  obtain n where t: "good_group n 1 (s_ext_pipes t) 0 n (s_replicas t)" using ok by (rule vs_okE)
  have l: "0 < length (s_replicas t)" "wf_rep n (s_replicas t ! 0)" using good_groupD(1,2) [OF t, of 0] by auto
  then have "aget (s_replicas t) 0 = Some (s_replicas t ! 0)" using aget_int [OF l(1)] by simp
  moreover obtain h' where "cleanupReplica K (s_replicas t) (int 0) (s_hist t) = Some h'"
    "silently (snd (sys_kill K (r_pid (s_replicas t ! 0)) SIGKILL (s_hist t))) h'"
    by (rule cleanupReplica_eq [OF l])
  ultimately show thesis using that by simp
qed

lemma restart_S_safe:
  assumes ok: "vs_ok t" and sys: "pipes_ok K"
  shows "S_safe (S_voterRestartHandler K) t"
proof -
  obtain h' first where c: "aget (s_replicas t) 0 = Some first" "cleanupReplica K (s_replicas t) 0 (s_hist t) = Some h'"
    using vs_cleanup [OF ok] by metis
  let ?t = "t\<lparr>s_last_dead := r_pid first, s_hist := h'\<rparr>"
  have type: "s_rep_type t = SMR" using ok by (simp add: vs_ok_def)
  have "S_safe (\<lambda>t. do { s1 \<leftarrow> S_startAll K t; if s_exited s1 then Some s1 else S_resend K s1 }) ?t"
  proof (rule S_safe_bind)
    show "S_safe (S_startAll K) ?t" using ok sys by (intro startAll_S_safe) simp_all
    fix s' assume "vs_ok s'"
    then show "S_safe (\<lambda>s1. if s_exited s1 then Some s1 else S_resend K s1) s'"
      using resend_S_safe [of s' K] by (simp add: S_safe_def)
  qed
  then show ?thesis
    by (rule S_safe_from) (simp_all add: S_voterRestartHandler_def type c same_config_def recall_def)
qed

lemma ext_update_vs_ok:
  assumes ok: "vs_ok t" and p: "p < length (s_ext_pipes t)" and e: "ext_ok SMR e"
    "fd_in e = fd_in (s_ext_pipes t ! p)" "fd_out e = fd_out (s_ext_pipes t ! p)"
  shows "vs_ok (t\<lparr>s_ext_pipes := (s_ext_pipes t)[p := e]\<rparr>)"
    and "same_config (recall t) (recall (t\<lparr>s_ext_pipes := (s_ext_pipes t)[p := e]\<rparr>))"
proof -
  have "recall (t\<lparr>s_ext_pipes := x\<rparr>) = recall t\<lparr>ext_pipes := x\<rparr>" for x by (simp add: recall_def)
  then show "vs_ok (t\<lparr>s_ext_pipes := (s_ext_pipes t)[p := e]\<rparr>)"
    "same_config (recall t) (recall (t\<lparr>s_ext_pipes := (s_ext_pipes t)[p := e]\<rparr>))"
    using ext_update_ok [of "recall t" p e] ok p e by (simp_all add: vs_ok_def)
qed

lemma read_ext_S_safe:
  assumes ok: "vs_ok t" and sys: "\<And>h fd n. on_read K h fd n \<noteq> None" and p: "int p < s_pipe_count t"
  shows "S_safe (S_read_ext K ready (int p)) t"
proof -
  obtain n where t: "s_pipe_count t = int n" "length (s_ext_pipes t) = n" "list_all (ext_ok SMR) (s_ext_pipes t)"
    using ok by (rule vs_okE)
  let ?e = "s_ext_pipes t ! p"
  have pn: "p < length (s_ext_pipes t)" using p t by simp
  have e: "ext_ok SMR ?e" using t(3) pn by (simp add: list_all_length)
  show ?thesis
  proof (cases "fd_in ?e \<noteq> 0 \<and> fd_in ?e \<in> set ready")
    case False
    then show ?thesis using ok pn by (auto simp: S_safe_def S_read_ext_def)
  next
    case True
    obtain r bs h where rd: "sys_read K (fd_in ?e) MAX_VOTE_PIPE_BUFF (s_hist t) = (r, bs, h)"
      by (cases "sys_read K (fd_in ?e) MAX_VOTE_PIPE_BUFF (s_hist t)") auto
    have r: "r = int (length bs)" "length bs \<le> 4096"
      using rd sys [of "s_hist t" "fd_in ?e" MAX_VOTE_PIPE_BUFF]
      by (auto simp: sys_read_def Let_def MAX_VOTE_PIPE_BUFF_def)
    have len: "length (buffer ?e) = 4096" using e by (simp add: ext_ok_def MAX_VOTE_PIPE_BUFF_def)
    let ?e' = "?e\<lparr>buffer := bs @ drop (length bs) (buffer ?e), buff_count := r\<rparr>"
    let ?t = "t\<lparr>s_ext_pipes := (s_ext_pipes t)[p := ?e'], s_hist := h\<rparr>"
    have e': "ext_ok SMR ?e'" using len r by (simp add: ext_ok_def MAX_VOTE_PIPE_BUFF_def)
    have upd: "vs_ok ?t" "same_config (recall t) (recall ?t)"
      using ext_update_vs_ok [OF ok pn e'] by simp_all
    have "S_processData K ?e' (int p) ?t = Some (?t\<lparr>s_hist :=
        snd (sys_write K (fd_out (vpipe (s_replicas ?t) 0 p)) (take (nat (buff_count ?e')) (buffer ?e')) (s_hist ?t))\<rparr>)"
      by (rule S_processData_eq [OF upd(1)]) (use p r len in simp_all)
    then have "S_safe (S_processData K ?e' (int p)) ?t"
      by (rule S_safe_hist) (rule upd(1))
    then have "S_safe (\<lambda>t. if r > 0 then S_processData K ?e' (int p) t else Some t) ?t"
      using upd(1) by (rule S_safe_if)
    then show ?thesis
      by (rule S_safe_from) (use upd(2) True pn rd len r in \<open>simp_all add: S_read_ext_def mem_write_in Let_def\<close>)
  qed
qed

lemma S_counts:
  "same_config (recall t) (recall u) \<Longrightarrow> s_pipe_count u = s_pipe_count t"
  "same_config (recall t) (recall u) \<Longrightarrow> s_rep_count u = s_rep_count t"
  by (simp_all add: same_config_def)

lemma rep_round_S_safe:
  assumes ok: "vs_ok t" and sys: "pipes_ok K"
  shows "S_safe (S_rep_round K ready) t"
proof -
  obtain n where t: "s_pipe_count t = int n" "s_rep_count t = 1" using ok by (rule vs_okE)
  let ?body = "\<lambda>p r s. do { v \<leftarrow> pipe_of (s_replicas s) r p;
         if fd_in v \<noteq> 0 \<and> fd_in v \<in> set ready then S_processFromRep K r p s else Some s }"
  have "S_safe (\<lambda>s. for_upto 0 (s_rep_count s) (?body (int i)) s) u"
    if i: "i < n" and u: "vs_ok u" "same_config (recall t) (recall u)" for i u
  proof -
    have c: "s_pipe_count u = int n" "s_rep_count u = 1" using S_counts [OF u(2)] t by simp_all
    obtain m where m: "s_pipe_count u = int m" "good_group m 1 (s_ext_pipes u) 0 m (s_replicas u)"
      using u(1) by (rule vs_okE)
    have "pipe_of (s_replicas u) 0 (int i) = Some (vpipe (s_replicas u) 0 i)"
      using pipe_of_wf(1) [OF good_group_wf [OF m(2)], of 0 i] i c(1) m(1) by simp
    moreover have "S_safe (S_processFromRep K 0 (int i)) u"
      using processFromRep_S_safe [OF u(1) _ _ _ _ sys, of "int i" 0] i c by simp
    ultimately show ?thesis using u(1) c(2) by (simp add: S_safe_def for_upto_step)
  qed
  then have "S_safe (for_upto 0 (int n) (\<lambda>p s. for_upto 0 (s_rep_count s) (?body p) s)) t"
    by (intro S_safe_loop [OF ok]) blast
  then show ?thesis using t(1) by (simp add: S_safe_def S_rep_round_def)
qed

lemma S_sets_total:
  assumes ok: "vs_ok t"
  shows "\<exists>fs. S_ext_read_set t = Some fs" "\<exists>fs. S_rep_read_set t = Some fs"
proof -
  obtain n where t: "s_pipe_count t = int n" "length (s_ext_pipes t) = n" "s_rep_count t = 1"
    "good_group n 1 (s_ext_pipes t) 0 n (s_replicas t)" using ok by (rule vs_okE)
  have "\<exists>fs. S_ext_read_set t = Some fs \<and> True"
    unfolding S_ext_read_set_def t(1) by (rule for_upto_nat [where P = "\<lambda>_ _. True"]) (use t(2) in auto)
  then show "\<exists>fs. S_ext_read_set t = Some fs" by blast
  have "pipe_of (s_replicas t) 0 (int i) = Some (vpipe (s_replicas t) 0 i)" if "i < n" for i
    using pipe_of_wf(1) [OF good_group_wf [OF t(4)], of 0 i] that by simp
  then have "\<exists>fs. S_rep_read_set t = Some fs \<and> True"
    unfolding S_rep_read_set_def t(1,3)
    by (intro for_upto_nat [where P = "\<lambda>_ _. True"]) (simp_all add: for_upto_step)
  then show "\<exists>fs. S_rep_read_set t = Some fs" by blast
qed

text \<open>What this voter needs of the system: pipes can be made and no read fails.\<close>

definition S_system_ok :: "posix \<Rightarrow> bool" where
  "S_system_ok K \<longleftrightarrow> pipes_ok K \<and> (\<forall>h fd n. on_read K h fd n \<noteq> None)"

lemma doOneUpdate_S_safe:
  assumes ok: "vs_ok t" and sys: "S_system_ok K"
  shows "S_safe (S_doOneUpdate K) t"
proof -
  have sys': "pipes_ok K" "\<And>h fd n. on_read K h fd n \<noteq> None" using sys by (auto simp: S_system_ok_def)
  obtain pid h0 where w: "sys_waitpid K (s_hist t) = (pid, h0)" by (cases "sys_waitpid K (s_hist t)")
  have "S_safe (\<lambda>t. if pid > 0 then S_voterRestartHandler K t else Some t) (t\<lparr>s_hist := h0\<rparr>)"
    using restart_S_safe [of "t\<lparr>s_hist := h0\<rparr>" K] ok sys'(1) by (simp add: S_safe_def)
  then obtain s1 where s1: "(if pid > 0 then S_voterRestartHandler K (t\<lparr>s_hist := h0\<rparr>) else Some (t\<lparr>s_hist := h0\<rparr>)) = Some s1"
    "vs_ok s1" "same_config (recall t) (recall s1)" by (auto simp: S_safe_def)
  obtain fs gs where sets: "S_ext_read_set s1 = Some fs" "S_rep_read_set s1 = Some gs"
    using S_sets_total [OF s1(2)] by blast
  obtain ret ready h where sel: "sys_select K (fs @ gs) 50000 (s_hist s1) = (ret, ready, h)"
    by (cases "sys_select K (fs @ gs) 50000 (s_hist s1)") auto
  let ?s2 = "s1\<lparr>s_hist := h\<rparr>"
  have ok2: "vs_ok ?s2" using s1(2) by simp
  obtain n where n: "s_pipe_count ?s2 = int n" using ok2 by (rule vs_okE)
  have "S_safe (for_upto 0 (int n) (S_read_ext K ready)) ?s2"
    using read_ext_S_safe [OF _ sys'(2)] S_counts n by (intro S_safe_loop [OF ok2]) fastforce
  then have "S_safe (\<lambda>s2. do { s3 \<leftarrow> for_upto 0 (int n) (S_read_ext K ready) s2; S_rep_round K ready s3 }) ?s2"
    using rep_round_S_safe [OF _ sys'(1)] by (rule S_safe_bind)
  then have "S_safe (\<lambda>s2. if s_exited s1 then Some s1 else if ret > 0
      then do { s3 \<leftarrow> for_upto 0 (int n) (S_read_ext K ready) s2; S_rep_round K ready s3 } else Some s2) ?s2"
    using ok2 s1(2) by (auto simp: S_safe_def)
  then show ?thesis
    by (rule S_safe_from) (use s1 sets sel w n in \<open>simp_all add: S_doOneUpdate_def\<close>)
qed

lemma updates_S_safe:
  "vs_ok t \<Longrightarrow> S_system_ok K \<Longrightarrow> S_safe (S_updates K n) t"
proof (induction n arbitrary: t)
  case 0
  then show ?case by (simp add: S_safe_def)
next
  case (Suc n)
  have "S_safe (\<lambda>t. do { t' \<leftarrow> S_doOneUpdate K t; S_updates K n t' }) t"
    using doOneUpdate_S_safe [OF Suc.prems] Suc.IH [OF _ Suc.prems(2)] by (rule S_safe_bind)
  then show ?case using Suc.prems(1) by (simp add: S_safe_def)
qed

lemma S_startAll_eq:
  assumes ok: "vs_ok t" and sys: "pipes_ok K"
  obtains res reps' h' where "S_startAll K t = Some (t\<lparr>s_replicas := reps', s_hist := h', s_exited := \<not> res\<rparr>)"
    "silently (s_hist t) h'" "vs_ok (t\<lparr>s_replicas := reps', s_hist := h', s_exited := \<not> res\<rparr>)"
    "\<And>p. p < length (s_ext_pipes t) \<Longrightarrow> content (vpipe reps' 0 p) = []"
proof -
  obtain n where t: "s_pipe_count t = int n" "s_rep_count t = 1" "length (s_ext_pipes t) = n"
    "good_group n 1 (s_ext_pipes t) 0 n (s_replicas t)" using ok by (rule vs_okE)
  have le: "n \<le> length (s_ext_pipes t)" using t(3) by simp
  obtain res reps' h' where st: "startReplicas K (s_replicas t) (int 1) (s_sd_sock t) (s_controller_name t)
      (s_ext_pipes t) (int n) (s_replica_priority t) (s_hist t) = Some (res, reps', h')" "silently (s_hist t) h'"
    "\<And>r j. r < 1 \<Longrightarrow> j < n \<Longrightarrow> same_ring (if j < nat (r_pipe_count (s_replicas t ! r))
        then cleared (vpipe (s_replicas t) r j) else vpipe (s_replicas t) r j) (vpipe reps' r j)"
    by (rule startReplicas_eq [OF good_group_wf [OF t(4)] le sys]) blast
  let ?t = "t\<lparr>s_replicas := reps', s_hist := h', s_exited := \<not> res\<rparr>"
  have run: "S_startAll K t = Some ?t" using st(1) t(1,2) by (simp add: S_startAll_def)
  then have ok': "vs_ok ?t" using startAll_S_safe [OF ok sys] by (simp add: S_safe_def)
  have "content (vpipe reps' 0 j) = []" if "j < n" for j
    using st(3) [OF _ that] that good_groupD(3) [OF t(4)] by (simp add: same_ring_def cleared_def content_def window_def)
  with run st(2) ok' that t(3) show thesis by blast
qed

section \<open>Properties\<close>

text \<open>C16: The voter of a single replica votes like the voter of groups: on a group of one, and with the
  timers of \<open>voterd.c\<close> left aside, \<open>processFromRep\<close> of \<open>voters.c\<close> and of \<open>voterd.c\<close> make the same system
  calls, change the replica's queue alike, and are undefined alike.\<close>

theorem voters_votes_like_voterd:
  assumes "timer_started s" "rep_type s = SMR" "rep_count s = 1"
  shows "S_processFromRep K r p (forget d s) = map_option (forget d) (processFromRep K r p s)"
  using assms by (rule processFromRep_forget)

theorem voters_votes_like_voterd_witness:
  "S_processFromRep quiet 0 0 (forget 5 (sample_voter SMR [[1, 2]]\<lparr>timer_started := True\<rparr>))
    = map_option (forget 5) (processFromRep quiet 0 0 (sample_voter SMR [[1, 2]]\<lparr>timer_started := True\<rparr>))"
  using voters_votes_like_voterd [of "sample_voter SMR [[1, 2]]\<lparr>timer_started := True\<rparr>" quiet 0 0 5] by simp

lemma sample_smr_ok:
  assumes "length a < 4096"
  shows "vs_ok (forget d (sample_voter SMR [a]))"
proof -
  have "vd_ok (sample_voter SMR [a])"
    using assms
    by (simp add: vd_ok_def vd_setup_def vd_group_def good_group_def sample_voter_def sample_rep_def ext_ok_def
        wf_reps_def wf_rep_def in_step_def vpipe_def less_2_cases MAX_VOTE_PIPE_BUFF_def)
      (simp add: ring_pipe_def)
  then show ?thesis by (intro vd_ok_recall_forget) simp_all
qed

text \<open>A system whose reads deliver.\<close>

definition talking :: posix where
  "talking = quiet\<lparr>on_read := \<lambda>h fd n. Some [7, 0, 0, 0]\<rparr>"

lemma talking_ok: "S_system_ok talking"
  by (simp add: S_system_ok_def talking_def pipes_ok_def quiet_def)





end
