(* ===== verification/FdServerM.thy ===== *)
theory FdServerM
  imports FdServer
begin

text \<open>
  \<open>voter/voterm.h\<close> and \<open>voter/fd_serverm.c\<close>: the replicas of the voter for real-time components, and
  how they get their pipe ends. The file has its own copy of the message types. An \<open>M_\<close> marks a
  function whose name another file has too.
\<close>

definition MAX_PIPE_BUFF :: int where "MAX_PIPE_BUFF = 4096"

record replicaR =
  rr_pinned_cpu :: int
  rr_priority :: int
  rr_pid :: int
  rr_in_pipe_count :: int
  fd_ins :: "int list"
  rr_out_pipe_count :: int
  fd_outs :: "int list"
  buff_counts :: "int list"
  buffers :: "byte list list"

definition M_commToEnum :: "string \<Rightarrow> comm_message_t" where
  "M_commToEnum name =
     (if name = ''WAY_REQ'' then WAY_REQ
      else if name = ''WAY_RES'' then WAY_RES
      else if name = ''MOV_CMD'' then MOV_CMD
      else if name = ''RANGE_POSE_DATA'' then RANGE_POSE_DATA
      else if name = ''MAP_UPDATE'' then MAP_UPDATE
      else if name = ''COMM_ACK'' then COMM_ACK
      else if name = ''MSG_BUFFER'' then MSG_BUFFER
      else COMM_ERROR)"

lemma M_commToEnum_same: "M_commToEnum = commToEnum"
  by (simp add: fun_eq_iff M_commToEnum_def commToEnum_def)

text \<open>The descriptions of the pipes, incoming ones first, and the descriptors in the same order.\<close>

definition M_sendFDS :: "posix \<Rightarrow> int \<Rightarrow> replicaR \<Rightarrow> string list \<Rightarrow> string list \<Rightarrow> int \<Rightarrow> int \<Rightarrow> history
    \<Rightarrow> (int \<times> history) option" where
  "M_sendFDS K connection_fd rep rep_info_in rep_info_out pinned_cpu priority h =
     do {
       ins \<leftarrow> for_upto 0 (rr_in_pipe_count rep) (\<lambda>i ps. do {
         fd \<leftarrow> aget (fd_ins rep) i;
         info \<leftarrow> aget rep_info_in i;
         Some (ps @ [\<lparr>tp_type = M_commToEnum info, tp_fd_in = fd, tp_fd_out = 0\<rparr>])
       }) [];
       send_pipes \<leftarrow> for_upto 0 (rr_out_pipe_count rep) (\<lambda>i ps. do {
         fd \<leftarrow> aget (fd_outs rep) i;
         info \<leftarrow> aget rep_info_out i;
         Some (ps @ [\<lparr>tp_type = M_commToEnum info, tp_fd_in = 0, tp_fd_out = fd\<rparr>])
       }) ins;
       in_fds \<leftarrow> for_upto 0 (rr_in_pipe_count rep) (\<lambda>i fds. do { fd \<leftarrow> aget (fd_ins rep) i; Some (fds @ [fd]) }) [];
       fds \<leftarrow> for_upto 0 (rr_out_pipe_count rep) (\<lambda>i fds. do { fd \<leftarrow> aget (fd_outs rep) i; Some (fds @ [fd]) }) in_fds;
       Some (sys_sendmsg K connection_fd (fds_payload send_pipes pinned_cpu priority) fds h)
     }"

text \<open>
  \<open>createFDS\<close>: the socket and the history. The voter does not look at the result. A name of 109 to
  199 characters is copied over the end of \<open>sun_path\<close>.
\<close>

definition M_createFDS :: "posix \<Rightarrow> string \<Rightarrow> history \<Rightarrow> (int \<times> history) option" where
  "M_createFDS K name h =
     (let actual_name = ''./'' @ name @ ''_fd_server'';
          (sock, h1) = sys_call K ''socket'' [] [] h
      in if sock < 0 then Some (sock, h1)
         else let h2 = snd (sys_call K ''unlink'' [] actual_name h1)
         in if length actual_name < 200 then
              if 108 < length actual_name then None
              else let (b, h3) = sys_call K ''bind'' [sock] actual_name h2
                   in if b \<noteq> 0 then Some (sock, h3)
                      else Some (sock, snd (sys_call K ''listen'' [sock, 5] [] h3))
            else Some (sock, h2))"

text \<open>\<open>acceptSendFDS\<close>: the process id the new replica answers with, or -1.\<close>

definition M_acceptSendFDS :: "posix \<Rightarrow> int \<Rightarrow> replicaR \<Rightarrow> string list \<Rightarrow> string list \<Rightarrow> history
    \<Rightarrow> (int \<times> history) option" where
  "M_acceptSendFDS K sock_fd rep rep_info_in rep_info_out h =
     (let (connection_fd, h1) = sys_accept K sock_fd h
      in if connection_fd > -1 then
           do {
             (sent, h2) \<leftarrow> M_sendFDS K connection_fd rep rep_info_in rep_info_out
                              (rr_pinned_cpu rep) (rr_priority rep) h1;
             if sent < 0 then Some (-1, sys_close connection_fd h2)
             else
               let (r, bs, h3) = sys_read K connection_fd 4 h2
               in Some (if r \<noteq> 4 then -1 else bytes_int bs, sys_close connection_fd h3)
           }
         else Some (-1, sys_close connection_fd h1))"

end
