(* ===== verification/VoterM.thy ===== *)
theory VoterM
  imports FdServerM
begin

text \<open>
  \<open>voter/voterm.c\<close>: the voter of real-time components. It takes one input at a time, gives it to all
  replicas, collects what they answer until a deadline, compares the answers, and replaces the replica
  that is wrong or late. The globals are the record \<open>voterm\<close>; \<open>M_\<close> marks the names that \<open>voterd.c\<close> has
  too. Counts and descriptors the code keeps in \<open>unsigned int\<close> go through \<open>u32\<close>.

  The collecting loops end only when enough answers came (or the deadline passed): they take a bound
  on the number of their iterations and return \<open>None\<close> in place of their result when they are still
  running after it.
\<close>

definition M_PERIOD_USEC :: int where "M_PERIOD_USEC = 120"
definition M_VOTER_PIN :: int where "M_VOTER_PIN = 0"
definition M_QUAD_PIN_POLICY :: int where "M_QUAD_PIN_POLICY = -2"
definition M_CONTROLLER_PIN :: int where "M_CONTROLLER_PIN = M_QUAD_PIN_POLICY"

definition u32 :: "int \<Rightarrow> int" where "u32 x = x mod 2 ^ 32"

record voterm =
  m_voting_timeout :: int
  indexed_pipes :: int
  m_start_index :: "int list"
  m_stop_index :: "int list"
  m_watchdog :: timestamp
  reps :: "replicaR list"
  for_reps :: "replicaR list"
  m_voter_priority :: int
  m_sock :: int
  m_rep_count :: int
  m_controller_name :: string
  in_pipe_count :: int
  out_pipe_count :: int
  ext_in_fds :: "int list"
  rep_info_in :: "string list"
  ext_in_bufcnt :: int
  ext_in_buffer :: "byte list"
  ext_out_fds :: "int list"
  rep_info_out :: "string list"
  active_pipe_index :: int
  timeout_occurred :: bool
  fault_index :: int
  m_hist :: history
  m_exited :: bool

text \<open>One replica changed in place, on the voter's side and on the replica's side.\<close>

definition on_rep :: "int \<Rightarrow> (replicaR \<Rightarrow> replicaR option) \<Rightarrow> voterm \<Rightarrow> voterm option" where
  "on_rep r f s = do { x \<leftarrow> aget (reps s) r; y \<leftarrow> f x; xs \<leftarrow> aset (reps s) r y; Some (s\<lparr>reps := xs\<rparr>) }"

definition on_for_rep :: "int \<Rightarrow> (replicaR \<Rightarrow> replicaR option) \<Rightarrow> voterm \<Rightarrow> voterm option" where
  "on_for_rep r f s = do { x \<leftarrow> aget (for_reps s) r; y \<leftarrow> f x; xs \<leftarrow> aset (for_reps s) r y; Some (s\<lparr>for_reps := xs\<rparr>) }"

definition set_fd_in :: "int \<Rightarrow> int \<Rightarrow> replicaR \<Rightarrow> replicaR option" where
  "set_fd_in p fd x = do { fds \<leftarrow> aset (fd_ins x) p fd; Some (x\<lparr>fd_ins := fds\<rparr>) }"

definition set_fd_out :: "int \<Rightarrow> int \<Rightarrow> replicaR \<Rightarrow> replicaR option" where
  "set_fd_out p fd x = do { fds \<leftarrow> aset (fd_outs x) p fd; Some (x\<lparr>fd_outs := fds\<rparr>) }"

definition in_fd :: "voterm \<Rightarrow> int \<Rightarrow> int \<Rightarrow> int option" where
  "in_fd s r p = do { x \<leftarrow> aget (reps s) r; aget (fd_ins x) p }"

definition out_fd :: "voterm \<Rightarrow> int \<Rightarrow> int \<Rightarrow> int option" where
  "out_fd s r p = do { x \<leftarrow> aget (reps s) r; aget (fd_outs x) p }"

definition out_count :: "voterm \<Rightarrow> int \<Rightarrow> int \<Rightarrow> int option" where
  "out_count s r p = do { x \<leftarrow> aget (reps s) r; aget (buff_counts x) p }"

definition out_buffer :: "voterm \<Rightarrow> int \<Rightarrow> int \<Rightarrow> byte list option" where
  "out_buffer s r p = do { x \<leftarrow> aget (reps s) r; aget (buffers x) p }"

section \<open>Receiving\<close>

text \<open>The first ready pipe whose read delivers becomes the active one; failed reads are passed over.\<close>

primrec recv_loop :: "posix \<Rightarrow> int list \<Rightarrow> nat \<Rightarrow> int \<Rightarrow> voterm \<Rightarrow> voterm option" where
  "recv_loop K ready 0 p_index s = Some s"
| "recv_loop K ready (Suc n) p_index s =
     do {
       fd \<leftarrow> aget (ext_in_fds s) p_index;
       if fd \<in> set ready then do {
         let (r, bs, h) = sys_read K fd MAX_PIPE_BUFF (m_hist s);
         b \<leftarrow> mem_write (ext_in_buffer s) 0 bs;
         let s' = s\<lparr>ext_in_bufcnt := r, ext_in_buffer := b, m_hist := h\<rparr>;
         if r > 0 then Some (s'\<lparr>active_pipe_index := p_index\<rparr>)
         else recv_loop K ready n (p_index + 1) s'
       }
       else recv_loop K ready n (p_index + 1) s
     }"

definition recvData :: "posix \<Rightarrow> voterm \<Rightarrow> (bool \<times> voterm) option" where
  "recvData K s =
     do {
       let s0 = s\<lparr>active_pipe_index := -1\<rparr>;
       fds \<leftarrow> for_upto 0 (in_pipe_count s0) (\<lambda>p fds. do { fd \<leftarrow> aget (ext_in_fds s0) p; Some (fds @ [fd]) }) [];
       let (retval, ready, h) = sys_select K fds 500000 (m_hist s0);
       let s1 = s0\<lparr>m_hist := h\<rparr>;
       s2 \<leftarrow> (if retval > 0 then recv_loop K ready (nat (in_pipe_count s1)) 0 s1 else Some s1);
       Some (active_pipe_index s2 \<noteq> -1, s2)
     }"

definition checkWaitOnInput :: "voterm \<Rightarrow> bool option" where
  "checkWaitOnInput s =
     for_upto 0 (indexed_pipes s) (\<lambda>p_index waiting. do {
       i \<leftarrow> aget (m_start_index s) p_index;
       Some (if active_pipe_index s = i then True else waiting)
     }) False"

text \<open>The input goes to one replica.\<close>

definition give_input :: "posix \<Rightarrow> int \<Rightarrow> voterm \<Rightarrow> voterm option" where
  "give_input K r_index s =
     do {
       fd \<leftarrow> in_fd s r_index (active_pipe_index s);
       bs \<leftarrow> mem_read (ext_in_buffer s) 0 (ext_in_bufcnt s);
       Some (s\<lparr>m_hist := snd (sys_write K fd bs (m_hist s))\<rparr>)
     }"

definition sendToReps :: "posix \<Rightarrow> voterm \<Rightarrow> (bool \<times> voterm) option" where
  "sendToReps K s =
     do {
       s' \<leftarrow> for_upto 0 (m_rep_count s) (give_input K) s;
       w \<leftarrow> checkWaitOnInput s';
       Some (w, s')
     }"

section \<open>Collecting the answers\<close>

text \<open>What is left until the deadline.\<close>

definition remaining_time :: "posix \<Rightarrow> fpu \<Rightarrow> voterm \<Rightarrow> int \<times> voterm" where
  "remaining_time K F s =
     (let (current, h) = generate_timestamp K (m_hist s)
      in (f_to_long F (f_sub F (f_of_long F (m_voting_timeout s)) (diff_time F current (m_watchdog s) CPU_MHZ)),
          s\<lparr>m_hist := h\<rparr>))"

text \<open>A ready answer is read into its buffer; the flag says whether it came on the timed pipe.\<close>

definition read_answer :: "posix \<Rightarrow> int list \<Rightarrow> int \<Rightarrow> int \<Rightarrow> voterm \<Rightarrow> (bool \<times> voterm) option" where
  "read_answer K ready r_index p_index s =
     do {
       fd \<leftarrow> out_fd s r_index p_index;
       if fd \<in> set ready then do {
         let (r, bs, h) = sys_read K fd MAX_PIPE_BUFF (m_hist s);
         s' \<leftarrow> on_rep r_index (\<lambda>x. do {
           b \<leftarrow> aget (buffers x) p_index;
           b' \<leftarrow> mem_write b 0 bs;
           bs' \<leftarrow> aset (buffers x) p_index b';
           cs \<leftarrow> aset (buff_counts x) p_index (u32 r);
           Some (x\<lparr>buff_counts := cs, buffers := bs'\<rparr>) }) (s\<lparr>m_hist := h\<rparr>);
         stop \<leftarrow> aget (m_stop_index s') (active_pipe_index s');
         Some (p_index = stop, s')
       }
       else Some (False, s)
     }"

definition read_answers :: "posix \<Rightarrow> int list \<Rightarrow> int \<Rightarrow> int \<times> bool \<times> voterm \<Rightarrow> (int \<times> bool \<times> voterm) option" where
  "read_answers K ready expected st =
     for_upto 0 (m_rep_count (snd (snd st))) (\<lambda>r_index st.
       for_upto 0 (out_pipe_count (snd (snd st))) (\<lambda>p_index (rep_done, finished, s). do {
         (timed_pipe, s') \<leftarrow> read_answer K ready r_index p_index s;
         if timed_pipe then Some (rep_done + 1, if rep_done + 1 = expected then True else finished, s')
         else Some (rep_done, finished, s')
       }) st) st"

definition answer_fds :: "voterm \<Rightarrow> int list option" where
  "answer_fds s =
     for_upto 0 (m_rep_count s) (\<lambda>r_index.
       for_upto 0 (out_pipe_count s) (\<lambda>p_index fds. do {
         fd \<leftarrow> out_fd s r_index p_index;
         Some (if fd \<noteq> 0 then fds @ [fd] else fds)
       })) []"

primrec collect_loop :: "posix \<Rightarrow> fpu \<Rightarrow> bool \<Rightarrow> int \<Rightarrow> nat \<Rightarrow> int \<Rightarrow> voterm \<Rightarrow> (int option \<times> voterm) option" where
  "collect_loop K F set_timer expected 0 rep_done s = Some (None, s)"
| "collect_loop K F set_timer expected (Suc n) rep_done s =
     do {
       fds \<leftarrow> answer_fds s;
       let (remaining, s1) = (if set_timer then remaining_time K F s else (50000, s));
       if remaining > 0 then do {
         let (retval, ready, h) = sys_select K fds remaining (m_hist s1);
         (rep_done', finished, s2) \<leftarrow> read_answers K ready expected (rep_done, False, s1\<lparr>m_hist := h\<rparr>);
         if finished then Some (Some rep_done', s2)
         else collect_loop K F set_timer expected n rep_done' s2
       }
       else Some (Some rep_done, s1\<lparr>timeout_occurred := True\<rparr>)
     }"

definition collectFromReps :: "posix \<Rightarrow> fpu \<Rightarrow> nat \<Rightarrow> bool \<Rightarrow> int \<Rightarrow> voterm \<Rightarrow> (int option \<times> voterm) option" where
  "collectFromReps K F fuel set_timer expected s =
     (let (t, h) = generate_timestamp K (m_hist s)
      in collect_loop K F set_timer expected fuel 0 (s\<lparr>timeout_occurred := False, m_watchdog := t, m_hist := h\<rparr>))"

text \<open>The late replica: the first of those that answered on the fewest pipes.\<close>

definition rep_score :: "voterm \<Rightarrow> int \<Rightarrow> int option" where
  "rep_score s r_index =
     for_upto 0 (out_pipe_count s) (\<lambda>p_index score. do {
       c \<leftarrow> out_count s r_index p_index;
       Some (if c > 0 then score + 1 else score)
     }) 0"

definition findFaultReplica :: "voterm \<Rightarrow> voterm option" where
  "findFaultReplica s =
     do {
       (i, low) \<leftarrow> for_upto 0 (m_rep_count s) (\<lambda>r_index (fault, lowest_score). do {
         score \<leftarrow> rep_score s r_index;
         Some (if score < lowest_score then (r_index, score) else (fault, lowest_score))
       }) (0, out_pipe_count s);
       Some (s\<lparr>fault_index := i\<rparr>)
     }"

section \<open>Comparing and sending\<close>

definition killAndClean :: "posix \<Rightarrow> int \<Rightarrow> voterm \<Rightarrow> voterm option" where
  "killAndClean K rep_to_kill s =
     do {
       x \<leftarrow> aget (reps s) rep_to_kill;
       let s0 = s\<lparr>m_hist := snd (sys_kill K (rr_pid x) SIGKILL (m_hist s))\<rparr>;
       s1 \<leftarrow> for_upto 0 (in_pipe_count s0) (\<lambda>p_index s. do {
         a \<leftarrow> in_fd s rep_to_kill p_index;
         s \<leftarrow> on_rep rep_to_kill (set_fd_in p_index 0) (s\<lparr>m_hist := sys_close a (m_hist s)\<rparr>);
         y \<leftarrow> aget (for_reps s) rep_to_kill;
         b \<leftarrow> aget (fd_ins y) p_index;
         on_for_rep rep_to_kill (set_fd_in p_index 0) (s\<lparr>m_hist := sys_close b (m_hist s)\<rparr>)
       }) s0;
       s2 \<leftarrow> for_upto 0 (out_pipe_count s1) (\<lambda>p_index s. do {
         a \<leftarrow> out_fd s rep_to_kill p_index;
         s \<leftarrow> on_rep rep_to_kill (set_fd_out p_index 0) (s\<lparr>m_hist := sys_close a (m_hist s)\<rparr>);
         y \<leftarrow> aget (for_reps s) rep_to_kill;
         b \<leftarrow> aget (fd_outs y) p_index;
         on_for_rep rep_to_kill (set_fd_out p_index 0) (s\<lparr>m_hist := sys_close b (m_hist s)\<rparr>)
       }) s1;
       Some (if m_rep_count s2 = 1 then s2\<lparr>m_hist := snd (sys_waitpid K (m_hist s2))\<rparr> else s2)
     }"

text \<open>\<open>memcmp\<close> of the answers of two replicas, over the length of the first replica's answer.\<close>

definition cmp_answers :: "voterm \<Rightarrow> int \<Rightarrow> int \<Rightarrow> int \<Rightarrow> int option" where
  "cmp_answers s i j p =
     do {
       c \<leftarrow> out_count s 0 p;
       a \<leftarrow> out_buffer s i p;
       b \<leftarrow> out_buffer s j p;
       memcmp a 0 b 0 c
     }"

text \<open>The comparisons: \<open>Some (Some f)\<close> blames replica \<open>f\<close>. A later pipe overrides an earlier one.\<close>

definition dmr_fault :: "voterm \<Rightarrow> int option option" where
  "dmr_fault s =
     for_upto 0 (out_pipe_count s) (\<lambda>p fault. do {
       c0 \<leftarrow> out_count s 0 p;
       c1 \<leftarrow> out_count s 1 p;
       if c0 \<noteq> c1 then Some (Some (if c0 < c1 then 0 else 1))
       else do { m \<leftarrow> cmp_answers s 0 1 p; Some (if m \<noteq> 0 then Some 0 else fault) }
     }) None"

definition tmr_count_fault :: "voterm \<Rightarrow> int option option" where
  "tmr_count_fault s =
     for_upto 0 (out_pipe_count s) (\<lambda>p fault. do {
       c0 \<leftarrow> out_count s 0 p;
       c1 \<leftarrow> out_count s 1 p;
       c2 \<leftarrow> out_count s 2 p;
       Some (if c0 \<noteq> c1 then (if c0 \<noteq> c2 then Some 0 else Some 1)
             else if c0 \<noteq> c2 then Some 2 else fault)
     }) None"

definition tmr_content_fault :: "voterm \<Rightarrow> int option option" where
  "tmr_content_fault s =
     for_upto 0 (out_pipe_count s) (\<lambda>p fault. do {
       m01 \<leftarrow> cmp_answers s 0 1 p;
       m02 \<leftarrow> cmp_answers s 0 2 p;
       Some (if m01 \<noteq> 0 then (if m02 \<noteq> 0 then Some 0 else Some 1)
             else if m02 \<noteq> 0 then Some 2 else fault)
     }) None"

definition M_find_sdc :: "voterm \<Rightarrow> int option option" where
  "M_find_sdc s =
     (if m_rep_count s = 2 then dmr_fault s
      else if m_rep_count s = 3 then do {
        fault \<leftarrow> tmr_count_fault s;
        if fault \<noteq> None then Some fault else tmr_content_fault s
      }
      else Some None)"

definition M_checkSDC :: "posix \<Rightarrow> voterm \<Rightarrow> (bool \<times> voterm) option" where
  "M_checkSDC K s =
     do {
       fault \<leftarrow> M_find_sdc s;
       case fault of
         None \<Rightarrow> Some (False, s)
       | Some f \<Rightarrow> do { s' \<leftarrow> killAndClean K f (s\<lparr>fault_index := f\<rparr>); Some (True, s') }
     }"

definition sendData :: "posix \<Rightarrow> int \<Rightarrow> voterm \<Rightarrow> voterm option" where
  "sendData K rep_to_send s =
     do {
       s1 \<leftarrow> for_upto 0 (out_pipe_count s) (\<lambda>p_index s. do {
         c \<leftarrow> out_count s rep_to_send p_index;
         if c \<noteq> 0 then do {
           fd \<leftarrow> aget (ext_out_fds s) p_index;
           b \<leftarrow> out_buffer s rep_to_send p_index;
           bs \<leftarrow> mem_read b 0 c;
           Some (s\<lparr>m_hist := snd (sys_write K fd bs (m_hist s))\<rparr>)
         }
         else Some s
       }) s;
       for_upto 0 (m_rep_count s1) (\<lambda>r_index s.
         for_upto 0 (out_pipe_count s) (\<lambda>p_index s.
           on_rep r_index (\<lambda>x. do { cs \<leftarrow> aset (buff_counts x) p_index 0; Some (x\<lparr>buff_counts := cs\<rparr>) }) s) s) s1
     }"

section \<open>Starting replicas\<close>

text \<open>The priority and the number of pipes as strings of at most two characters and a sign.\<close>

definition c_char :: "int \<Rightarrow> char" where "c_char x = char_of (nat (x mod 256))"

definition priority_string :: "int \<Rightarrow> string" where
  "priority_string prio =
     takeWhile (\<lambda>c. c \<noteq> NUL)
       ((if prio < 0 then ''-'' else []) @ (if prio > 0 then [c_char (48 + prio sdiv 10)] else [])
        @ [c_char (48 + prio smod 10)])"

definition pipe_count_string :: "int \<Rightarrow> string" where
  "pipe_count_string n =
     takeWhile (\<lambda>c. c \<noteq> NUL) ((if n > 0 then [c_char (48 + n sdiv 10)] else []) @ [c_char (48 + n smod 10)])"

definition M_forkReplicas :: "posix \<Rightarrow> int \<Rightarrow> int \<Rightarrow> voterm \<Rightarrow> voterm option" where
  "M_forkReplicas K rep_index count s =
     for_upto rep_index (rep_index + count) (\<lambda>index s. do {
       x \<leftarrow> aget (reps s) index;
       Some (s\<lparr>m_hist := snd (sys_fork_exec K [m_controller_name s, priority_string (rr_priority x),
                 pipe_count_string (in_pipe_count s + out_pipe_count s)] (m_hist s))\<rparr>)
     }) s"

text \<open>A fresh pipe towards a replica and one from it; where \<open>pipe\<close> fails the descriptors stay.\<close>

definition make_in_pipe :: "posix \<Rightarrow> int \<Rightarrow> int \<Rightarrow> voterm \<Rightarrow> voterm option" where
  "make_in_pipe K index jndex s =
     (case sys_pipe K (m_hist s) of
        (None, h) \<Rightarrow> Some (s\<lparr>m_hist := h\<rparr>)
      | (Some (fd0, fd1), h) \<Rightarrow> do {
          s1 \<leftarrow> on_rep index (set_fd_in jndex (u32 fd1)) (s\<lparr>m_hist := h\<rparr>);
          on_for_rep index (set_fd_in jndex (u32 fd0)) s1
        })"

definition make_out_pipe :: "posix \<Rightarrow> int \<Rightarrow> int \<Rightarrow> voterm \<Rightarrow> voterm option" where
  "make_out_pipe K index jndex s =
     (case sys_pipe K (m_hist s) of
        (None, h) \<Rightarrow> Some (s\<lparr>m_hist := h\<rparr>)
      | (Some (fd0, fd1), h) \<Rightarrow> do {
          s1 \<leftarrow> on_rep index (set_fd_out jndex (u32 fd0)) (s\<lparr>m_hist := h\<rparr>);
          on_for_rep index (set_fd_out jndex (u32 fd1)) s1
        })"

text \<open>One replica is forked, by \<open>fork\<close> here or by the healthy replica before it, and gets its pipes.\<close>

definition start_one :: "posix \<Rightarrow> bool \<Rightarrow> int \<Rightarrow> voterm \<Rightarrow> voterm option" where
  "start_one K forking index s =
     do {
       s1 \<leftarrow> (if forking then M_forkReplicas K index 1 s
               else do {
                 x \<leftarrow> aget (reps s) ((fault_index s + (m_rep_count s - 1)) smod m_rep_count s);
                 Some (s\<lparr>m_hist := snd (sys_kill K (rr_pid x) RESTART_SIGNAL (m_hist s))\<rparr>)
               });
       y \<leftarrow> aget (for_reps s1) index;
       (pid, h) \<leftarrow> M_acceptSendFDS K (m_sock s1) y (rep_info_in s1) (rep_info_out s1) (m_hist s1);
       if pid < 0 then Some (s1\<lparr>m_hist := h, m_exited := True\<rparr>)
       else on_rep index (\<lambda>x. Some (x\<lparr>rr_pid := pid\<rparr>)) (s1\<lparr>m_hist := h\<rparr>)
     }"

definition M_startReplicas :: "posix \<Rightarrow> bool \<Rightarrow> int \<Rightarrow> int \<Rightarrow> voterm \<Rightarrow> voterm option" where
  "M_startReplicas K forking rep_index rep_start_count s =
     do {
       s1 \<leftarrow> for_upto rep_index (rep_index + rep_start_count) (\<lambda>index s.
               for_upto 0 (in_pipe_count s) (make_in_pipe K index) s) s;
       s2 \<leftarrow> for_upto rep_index (rep_index + rep_start_count) (\<lambda>index s.
               for_upto 0 (out_pipe_count s) (make_out_pipe K index) s) s1;
       for_upto rep_index (rep_index + rep_start_count) (\<lambda>index s.
         if m_exited s then Some s else start_one K forking index s) s2
     }"

section \<open>The main loop\<close>

definition healthy_rep :: "voterm \<Rightarrow> int" where
  "healthy_rep s = (fault_index s + (m_rep_count s - 1)) smod m_rep_count s"

text \<open>The blamed replica is replaced by a copy of a healthy one, whose answers are sent.\<close>

definition recover :: "posix \<Rightarrow> voterm \<Rightarrow> (bool \<times> voterm) option" where
  "recover K s =
     do {
       s1 \<leftarrow> M_startReplicas K False (fault_index s) 1 s;
       if m_exited s1 then Some (True, s1)
       else do { s2 \<leftarrow> sendData K (healthy_rep s1) s1; Some (True, s2) }
     }"

text \<open>A single replica is started afresh and given the input again.\<close>

definition recover_single :: "posix \<Rightarrow> fpu \<Rightarrow> nat \<Rightarrow> (voterm \<Rightarrow> int) \<Rightarrow> voterm \<Rightarrow> (bool \<times> voterm) option" where
  "recover_single K F fuel sender s =
     do {
       s1 \<leftarrow> M_startReplicas K True 0 1 s;
       if m_exited s1 then Some (True, s1)
       else do {
         (w, s2) \<leftarrow> sendToReps K s1;
         (res, s3) \<leftarrow> collectFromReps K F fuel False 1 s2;
         case res of
           None \<Rightarrow> Some (False, s3)
         | Some n \<Rightarrow> do { s4 \<leftarrow> sendData K (sender s3) s3; Some (True, s4) }
       }
     }"

definition vote_and_send :: "posix \<Rightarrow> voterm \<Rightarrow> (bool \<times> voterm) option" where
  "vote_and_send K s =
     do {
       (sdc, s1) \<leftarrow> M_checkSDC K s;
       if sdc then recover K s1
       else do { s2 \<leftarrow> sendData K 0 s1; Some (True, s2) }
     }"

text \<open>One turn of \<open>while(1)\<close> with \<open>QUAD_CORE\<close>: the flag is false when a collecting loop still runs.\<close>

definition quad_round :: "posix \<Rightarrow> fpu \<Rightarrow> nat \<Rightarrow> voterm \<Rightarrow> (bool \<times> voterm) option" where
  "quad_round K F fuel s =
     do {
       (got, s1) \<leftarrow> recvData K s;
       if \<not> got then Some (True, s1)
       else do {
         (waiting, s2) \<leftarrow> sendToReps K s1;
         if \<not> waiting then Some (True, s2)
         else do {
           (res, s3) \<leftarrow> collectFromReps K F fuel True (m_rep_count s2) s2;
           case res of
             None \<Rightarrow> Some (False, s3)
           | Some reps_done \<Rightarrow>
               if \<not> timeout_occurred s3 then vote_and_send K s3
               else do {
                 s4 \<leftarrow> findFaultReplica s3;
                 s5 \<leftarrow> killAndClean K (fault_index s4) s4;
                 if m_rep_count s5 = 1 then recover_single K F fuel healthy_rep s5 else recover K s5
               }
         }
       }
     }"

primrec quad_rounds :: "posix \<Rightarrow> fpu \<Rightarrow> nat \<Rightarrow> nat \<Rightarrow> voterm \<Rightarrow> (bool \<times> voterm) option" where
  "quad_rounds K F fuel 0 s = Some (True, s)"
| "quad_rounds K F fuel (Suc n) s =
     (if m_exited s then Some (True, s)
      else do { (fin, s') \<leftarrow> quad_round K F fuel s; if fin then quad_rounds K F fuel n s' else Some (False, s') })"

section \<open>One core\<close>

text \<open>
  With \<open>SINGLE_CORE\<close> the replicas run one after the other, each with its own deadline.
  \<open>await_answer\<close> waits for one of them: \<open>None\<close> as its result when it still waits, otherwise how
  many answers came on the timed pipe.
\<close>

definition rep_answer_fds :: "voterm \<Rightarrow> int \<Rightarrow> int list option" where
  "rep_answer_fds s r_index =
     for_upto 0 (out_pipe_count s) (\<lambda>p_index fds. do { fd \<leftarrow> out_fd s r_index p_index; Some (fds @ [fd]) }) []"

primrec await_answer :: "posix \<Rightarrow> fpu \<Rightarrow> int \<Rightarrow> nat \<Rightarrow> voterm \<Rightarrow> (int option \<times> voterm) option" where
  "await_answer K F r_index 0 s = Some (None, s)"
| "await_answer K F r_index (Suc n) s =
     (let (remaining, s1) = remaining_time K F s
      in if remaining > 0 then do {
           fds \<leftarrow> rep_answer_fds s1 r_index;
           let (retval, ready, h) = sys_select K fds remaining (m_hist s1);
           (count, s2) \<leftarrow> for_upto 0 (out_pipe_count s1) (\<lambda>p_index (count, s). do {
             (timed_pipe, s') \<leftarrow> read_answer K ready r_index p_index s;
             Some (if timed_pipe then count + 1 else count, s')
           }) (0, s1\<lparr>m_hist := h\<rparr>);
           if count > 0 then Some (Some count, s2) else await_answer K F r_index n s2
         }
         else Some (Some 0, s1\<lparr>timeout_occurred := True, fault_index := r_index\<rparr>))"

text \<open>The priority of a replica on both sides, when the scheduler takes it.\<close>

definition M_set_priority :: "posix \<Rightarrow> int \<Rightarrow> int \<Rightarrow> voterm \<Rightarrow> voterm option" where
  "M_set_priority K r_index prio s =
     do {
       x \<leftarrow> aget (reps s) r_index;
       let (ret, h) = sched_set_policy K (rr_pid x) prio (m_hist s);
       if ret < 0 then Some (s\<lparr>m_hist := h\<rparr>)
       else do {
         s1 \<leftarrow> on_rep r_index (\<lambda>x. Some (x\<lparr>rr_priority := prio\<rparr>)) (s\<lparr>m_hist := h\<rparr>);
         on_for_rep r_index (\<lambda>x. Some (x\<lparr>rr_priority := prio\<rparr>)) s1
       }
     }"

text \<open>The replicas from \<open>r_index\<close> on are served; the result counts the answers.\<close>

primrec serve_reps :: "posix \<Rightarrow> fpu \<Rightarrow> nat \<Rightarrow> bool \<Rightarrow> nat \<Rightarrow> int \<Rightarrow> int \<Rightarrow> voterm \<Rightarrow> (int option \<times> voterm) option" where
  "serve_reps K F fuel waiting 0 r_index done_count s = Some (Some done_count, s)"
| "serve_reps K F fuel waiting (Suc n) r_index done_count s =
     do {
       s1 \<leftarrow> give_input K r_index s;
       if \<not> waiting then serve_reps K F fuel waiting n (r_index + 1) done_count s1
       else do {
         let (t, h) = generate_timestamp K (m_hist s1);
         s2 \<leftarrow> M_set_priority K r_index (m_voter_priority s1 - 1) (s1\<lparr>m_watchdog := t, m_hist := h\<rparr>);
         (res, s3) \<leftarrow> await_answer K F r_index fuel s2;
         case res of
           None \<Rightarrow> Some (None, s3)
         | Some c \<Rightarrow> do {
             s4 \<leftarrow> M_set_priority K r_index (m_voter_priority s3 - 4) s3;
             serve_reps K F fuel waiting n (r_index + 1) (done_count + c) s4
           }
       }
     }"

definition sendCollect :: "posix \<Rightarrow> fpu \<Rightarrow> nat \<Rightarrow> voterm \<Rightarrow> (int option \<times> voterm) option" where
  "sendCollect K F fuel s =
     do {
       waiting \<leftarrow> checkWaitOnInput s;
       (res, s') \<leftarrow> serve_reps K F fuel waiting (nat (m_rep_count s)) 0 0 (s\<lparr>timeout_occurred := False\<rparr>);
       Some (case res of None \<Rightarrow> None | Some c \<Rightarrow> Some (if waiting then c else -1), s')
     }"

definition single_round :: "posix \<Rightarrow> fpu \<Rightarrow> nat \<Rightarrow> voterm \<Rightarrow> (bool \<times> voterm) option" where
  "single_round K F fuel s =
     do {
       (got, s1) \<leftarrow> recvData K s;
       if \<not> got then Some (True, s1)
       else do {
         (res, s2) \<leftarrow> sendCollect K F fuel s1;
         case res of
           None \<Rightarrow> Some (False, s2)
         | Some reps_done \<Rightarrow>
             if reps_done = -1 then Some (True, s2)
             else if reps_done = m_rep_count s2 then vote_and_send K s2
             else do {
               s3 \<leftarrow> killAndClean K (fault_index s2) s2;
               if m_rep_count s3 = 1 then recover_single K F fuel (\<lambda>_. 0) s3 else recover K s3
             }
       }
     }"

section \<open>Starting up\<close>

text \<open>
  The memory \<open>malloc\<close> gives has an indeterminate content: \<open>g\<close> tells it, for a named block of a replica.
\<close>

definition malloc_ints :: "(string \<Rightarrow> int \<Rightarrow> int \<Rightarrow> int) \<Rightarrow> string \<Rightarrow> int \<Rightarrow> int \<Rightarrow> int list" where
  "malloc_ints g block i n = map (\<lambda>j. u32 (g block i j)) [0..n - 1]"

definition malloc_buffers :: "(string \<Rightarrow> int \<Rightarrow> int \<Rightarrow> int) \<Rightarrow> int \<Rightarrow> int \<Rightarrow> byte list list" where
  "malloc_buffers g i n =
     map (\<lambda>j. map (\<lambda>k. word_of_int (g ''buffers'' i (j * MAX_PIPE_BUFF + k))) [0..MAX_PIPE_BUFF - 1]) [0..n - 1]"

definition init_rep :: "(string \<Rightarrow> int \<Rightarrow> int \<Rightarrow> int) \<Rightarrow> voterm \<Rightarrow> int \<Rightarrow> replicaR" where
  "init_rep g s index =
     \<lparr>rr_pinned_cpu = (if M_CONTROLLER_PIN = M_QUAD_PIN_POLICY then index + 1 else M_CONTROLLER_PIN),
      rr_priority = m_voter_priority s - 4, rr_pid = g ''pid'' index 0,
      rr_in_pipe_count = in_pipe_count s, fd_ins = malloc_ints g ''fd_ins'' index (in_pipe_count s),
      rr_out_pipe_count = out_pipe_count s, fd_outs = malloc_ints g ''fd_outs'' index (out_pipe_count s),
      buff_counts = malloc_ints g ''buff_counts'' index (out_pipe_count s),
      buffers = malloc_buffers g index (out_pipe_count s)\<rparr>"

definition init_for_rep :: "(string \<Rightarrow> int \<Rightarrow> int \<Rightarrow> int) \<Rightarrow> voterm \<Rightarrow> int \<Rightarrow> replicaR" where
  "init_for_rep g s index =
     \<lparr>rr_pinned_cpu = (if M_CONTROLLER_PIN = M_QUAD_PIN_POLICY then index + 1 else M_CONTROLLER_PIN),
      rr_priority = m_voter_priority s - 4, rr_pid = g ''for_pid'' index 0,
      rr_in_pipe_count = in_pipe_count s, fd_ins = malloc_ints g ''for_fd_ins'' index (in_pipe_count s),
      rr_out_pipe_count = out_pipe_count s, fd_outs = malloc_ints g ''for_fd_outs'' index (out_pipe_count s),
      buff_counts = [], buffers = []\<rparr>"

text \<open>The name of the socket; character 7 is looked at when the name starts with a G.\<close>

definition fds_name :: "string \<Rightarrow> string option" where
  "fds_name name =
     (if name \<noteq> [] \<and> name ! 0 = CHR ''G'' then
        if length name < 7 then None
        else if length name > 7 \<and> name ! 7 = CHR ''E'' then Some ''GenericEmpty'' else Some name
      else Some name)"

definition initVoterM :: "posix \<Rightarrow> (string \<Rightarrow> int \<Rightarrow> int \<Rightarrow> int) \<Rightarrow> voterm \<Rightarrow> voterm option" where
  "initVoterM K g s =
     do {
       name \<leftarrow> fds_name (m_controller_name s);
       (sock, h) \<leftarrow> M_createFDS K name (m_hist s);
       s1 \<leftarrow> M_startReplicas K True 0 (m_rep_count s)
         (s\<lparr>m_sock := sock, m_hist := h, reps := map (init_rep g s) [0..m_rep_count s - 1],
            for_reps := map (init_for_rep g s) [0..m_rep_count s - 1]\<rparr>);
       if m_exited s1 then Some s1
       else Some (s1\<lparr>m_hist := snd (InitTAS K M_VOTER_PIN (m_voter_priority s1) (m_hist s1))\<rparr>)
     }"

text \<open>
  A field of an argument up to the next colon. It is copied into ten zeroed characters, so ten or more
  leave it without an end, and without a colon the scan leaves the argument.
\<close>

definition field :: "string \<Rightarrow> (string \<times> string) option" where
  "field s =
     (let f = takeWhile (\<lambda>c. c \<noteq> CHR '':'') s
      in if length f < 10 \<and> length f < length s then Some (f, drop (length f + 1) s) else None)"

definition colon_index :: "string \<Rightarrow> nat option" where
  "colon_index s =
     (let n = length (takeWhile (\<lambda>c. c \<noteq> CHR '':'') s) in if n < 100 \<and> n < length s then Some n else None)"

text \<open>First pass over the pipe arguments: lengths of the types, and how many pipes go in and out.\<close>

definition count_pipe :: "string \<Rightarrow> nat list \<times> voterm \<Rightarrow> (nat list \<times> voterm) option" where
  "count_pipe serial = (\<lambda>(lengths, s). do {
     j \<leftarrow> colon_index serial;
     (inn, rest) \<leftarrow> field (drop (j + 1) serial);
     Some (lengths @ [j], if atoi inn \<noteq> 0 then s\<lparr>in_pipe_count := in_pipe_count s + 1\<rparr>
                          else s\<lparr>out_pipe_count := out_pipe_count s + 1\<rparr>)
   })"

text \<open>Second pass: the descriptors and types go into their arrays, the timed pipes into the index arrays.\<close>

definition parse_pipe :: "string \<Rightarrow> nat \<Rightarrow> string \<Rightarrow> int \<times> int \<times> voterm \<Rightarrow> (int \<times> int \<times> voterm) option" where
  "parse_pipe tail str_length serial = (\<lambda>(c_in, c_out, s). do {
     let rep_info = take str_length serial @ tail;
     (f_in, r1) \<leftarrow> field (drop (str_length + 1) serial);
     (f_out, r2) \<leftarrow> field r1;
     let timed = atoi r2;
     if atoi f_in \<noteq> 0 then do {
       fds \<leftarrow> aset (ext_in_fds s) c_in (u32 (atoi f_in));
       infos \<leftarrow> aset (rep_info_in s) c_in rep_info;
       let s1 = s\<lparr>ext_in_fds := fds, rep_info_in := infos\<rparr>;
       if timed \<noteq> 0 then do {
         ts \<leftarrow> aset (m_start_index s1) (timed - 1) c_in;
         Some (c_in + 1, c_out, s1\<lparr>indexed_pipes := indexed_pipes s1 + 1, m_start_index := ts\<rparr>)
       }
       else Some (c_in + 1, c_out, s1)
     }
     else do {
       fds \<leftarrow> aset (ext_out_fds s) c_out (u32 (atoi f_out));
       infos \<leftarrow> aset (rep_info_out s) c_out rep_info;
       let s1 = s\<lparr>ext_out_fds := fds, rep_info_out := infos\<rparr>;
       if timed \<noteq> 0 then do {
         ts \<leftarrow> aset (m_stop_index s1) (timed - 1) c_out;
         Some (c_in, c_out + 1, s1\<lparr>m_stop_index := ts\<rparr>)
       }
       else Some (c_in, c_out + 1, s1)
     }
   })"

definition M_rep_count_of :: "string \<Rightarrow> int" where
  "M_rep_count_of type =
     (case type of [] \<Rightarrow> 0
      | c # _ \<Rightarrow> if c = CHR ''S'' then 1 else if c = CHR ''D'' then 2 else if c = CHR ''T'' then 3 else 0)"

definition M_parseArgs :: "(string \<Rightarrow> int \<Rightarrow> int \<Rightarrow> int) \<Rightarrow> (int \<Rightarrow> string) \<Rightarrow> string list \<Rightarrow> voterm \<Rightarrow> (int \<times> voterm) option" where
  "M_parseArgs g tail argv s =
     do {
       name \<leftarrow> aget argv 1;
       type \<leftarrow> aget argv 2;
       timeout \<leftarrow> aget argv 3;
       prio \<leftarrow> aget argv 4;
       let s1 = s\<lparr>m_controller_name := name, m_rep_count := M_rep_count_of type,
                  m_voting_timeout := (if atoi timeout = 0 then M_PERIOD_USEC else atoi timeout),
                  m_voter_priority := atoi prio\<rparr>;
       if length argv < 5 then Some (-1, s1)
       else do {
         let args = drop 5 argv;
         (lengths, s2) \<leftarrow> foldM count_pipe args ([], s1);
         let s3 = s2\<lparr>ext_in_fds := malloc_ints g ''ext_in_fds'' 0 (in_pipe_count s2),
                     rep_info_in := replicate (nat (in_pipe_count s2)) [],
                     ext_out_fds := malloc_ints g ''ext_out_fds'' 0 (out_pipe_count s2),
                     rep_info_out := replicate (nat (out_pipe_count s2)) []\<rparr>;
         (c_in, c_out, s4) \<leftarrow> for_upto 0 (int (length args)) (\<lambda>i st. do {
           serial \<leftarrow> aget args i;
           n \<leftarrow> aget lengths i;
           parse_pipe (tail i) n serial st
         }) (0, 0, s3);
         Some (0, s4)
       }
     }"

definition voterm_globals :: voterm where
  "voterm_globals =
     \<lparr>m_voting_timeout = 0, indexed_pipes = 0, m_start_index = [0, 0], m_stop_index = [0, 0], m_watchdog = 0,
      reps = [], for_reps = [], m_voter_priority = 0, m_sock = 0, m_rep_count = 0, m_controller_name = [],
      in_pipe_count = 0, out_pipe_count = 0, ext_in_fds = [], rep_info_in = [], ext_in_bufcnt = 0,
      ext_in_buffer = replicate (nat MAX_PIPE_BUFF) 0, ext_out_fds = [], rep_info_out = [],
      active_pipe_index = 0, timeout_occurred = False, fault_index = 0, m_hist = [], m_exited = False\<rparr>"

definition voterm_main :: "posix \<Rightarrow> fpu \<Rightarrow> (string \<Rightarrow> int \<Rightarrow> int \<Rightarrow> int) \<Rightarrow> (int \<Rightarrow> string) \<Rightarrow> string list \<Rightarrow> nat \<Rightarrow> nat
    \<Rightarrow> (bool \<times> voterm) option" where
  "voterm_main K F g tail argv fuel n =
     do {
       (ret, s) \<leftarrow> M_parseArgs g tail argv voterm_globals;
       if ret < 0 then Some (True, s\<lparr>m_exited := True\<rparr>)
       else do { s' \<leftarrow> initVoterM K g s; quad_rounds K F fuel n s' }
     }"

end
