(* ===== verification/VoterMInv.thy ===== *)
theory VoterMInv
  imports VoterM
begin

text \<open>
  The invariant of \<open>voter/voterm.c\<close>: the arrays have the lengths the loops run over, the counts of the
  answers fit the buffers, and the active pipe has a timer slot. What each operation does to a state
  that satisfies it.
\<close>

section \<open>Well-formed states\<close>

definition wf_R :: "nat \<Rightarrow> nat \<Rightarrow> replicaR \<Rightarrow> bool" where
  "wf_R n_in n_out x \<longleftrightarrow> length (fd_ins x) = n_in \<and> length (fd_outs x) = n_out
     \<and> length (buff_counts x) = n_out \<and> length (buffers x) = n_out
     \<and> list_all (\<lambda>b. length b = 4096) (buffers x) \<and> list_all (\<lambda>c. 0 \<le> c \<and> c \<le> 4096) (buff_counts x)"

definition wf_for :: "nat \<Rightarrow> nat \<Rightarrow> replicaR \<Rightarrow> bool" where
  "wf_for n_in n_out x \<longleftrightarrow> length (fd_ins x) = n_in \<and> length (fd_outs x) = n_out
     \<and> rr_in_pipe_count x = int n_in \<and> rr_out_pipe_count x = int n_out"

definition m_group :: "nat \<Rightarrow> nat \<Rightarrow> nat \<Rightarrow> voterm \<Rightarrow> bool" where
  "m_group n_in n_out num s \<longleftrightarrow> in_pipe_count s = int n_in \<and> out_pipe_count s = int n_out
     \<and> m_rep_count s = int num \<and> 0 < num \<and> num \<le> 3
     \<and> length (reps s) = num \<and> list_all (wf_R n_in n_out) (reps s)
     \<and> length (for_reps s) = num \<and> list_all (wf_for n_in n_out) (for_reps s)"

definition m_ends :: "nat \<Rightarrow> nat \<Rightarrow> voterm \<Rightarrow> bool" where
  "m_ends n_in n_out s \<longleftrightarrow> length (ext_in_fds s) = n_in \<and> length (rep_info_in s) = n_in
     \<and> length (ext_out_fds s) = n_out \<and> length (rep_info_out s) = n_out \<and> length (ext_in_buffer s) = 4096
     \<and> 0 \<le> indexed_pipes s \<and> indexed_pipes s \<le> 2
     \<and> length (m_start_index s) = 2 \<and> length (m_stop_index s) = 2
     \<and> list_all (\<lambda>i. 0 \<le> i \<and> i < 2) (m_start_index s)"

definition m_ok :: "nat \<Rightarrow> nat \<Rightarrow> nat \<Rightarrow> voterm \<Rightarrow> bool" where
  "m_ok n_in n_out num s \<longleftrightarrow> m_group n_in n_out num s \<and> m_ends n_in n_out s"

text \<open>An input is there: the active pipe is one of the incoming ones and its data is in the buffer.\<close>

definition loaded :: "nat \<Rightarrow> voterm \<Rightarrow> bool" where
  "loaded n_in s \<longleftrightarrow> 0 \<le> active_pipe_index s \<and> active_pipe_index s < int n_in
     \<and> 0 \<le> ext_in_bufcnt s \<and> ext_in_bufcnt s \<le> 4096"

lemma m_ok_frame [simp]:
  "m_ok a b c (s\<lparr>m_hist := h\<rparr>) = m_ok a b c s" "m_ok a b c (s\<lparr>m_watchdog := w\<rparr>) = m_ok a b c s"
  "m_ok a b c (s\<lparr>timeout_occurred := t\<rparr>) = m_ok a b c s" "m_ok a b c (s\<lparr>fault_index := f\<rparr>) = m_ok a b c s"
  "m_ok a b c (s\<lparr>m_exited := e\<rparr>) = m_ok a b c s" "m_ok a b c (s\<lparr>active_pipe_index := i\<rparr>) = m_ok a b c s"
  "m_ok a b c (s\<lparr>ext_in_bufcnt := n\<rparr>) = m_ok a b c s"
  "m_ok a b c (s\<lparr>m_hist := h, reps := x\<rparr>) = m_ok a b c (s\<lparr>reps := x\<rparr>)"
  "m_ok a b c (s\<lparr>m_hist := h, for_reps := x\<rparr>) = m_ok a b c (s\<lparr>for_reps := x\<rparr>)"
  "m_ok a b c (s\<lparr>m_hist := h, reps := x, for_reps := y\<rparr>) = m_ok a b c (s\<lparr>reps := x, for_reps := y\<rparr>)"
  by (simp_all add: m_ok_def m_group_def m_ends_def)

lemma loaded_frame [simp]:
  "loaded n (s\<lparr>m_hist := h\<rparr>) = loaded n s" "loaded n (s\<lparr>m_watchdog := w\<rparr>) = loaded n s"
  "loaded n (s\<lparr>timeout_occurred := t\<rparr>) = loaded n s" "loaded n (s\<lparr>fault_index := f\<rparr>) = loaded n s"
  "loaded n (s\<lparr>m_exited := e\<rparr>) = loaded n s" "loaded n (s\<lparr>reps := x\<rparr>) = loaded n s"
  "loaded n (s\<lparr>for_reps := x\<rparr>) = loaded n s"
  by (simp_all add: loaded_def)

lemma m_ok_counts:
  "m_ok a b c s \<Longrightarrow> in_pipe_count s = int a" "m_ok a b c s \<Longrightarrow> out_pipe_count s = int b"
  "m_ok a b c s \<Longrightarrow> m_rep_count s = int c" "m_ok a b c s \<Longrightarrow> 0 < c" "m_ok a b c s \<Longrightarrow> c \<le> 3"
  "m_ok a b c s \<Longrightarrow> length (reps s) = c" "m_ok a b c s \<Longrightarrow> length (for_reps s) = c"
  by (simp_all add: m_ok_def m_group_def)

lemma m_ok_ends:
  "m_ok a b c s \<Longrightarrow> length (ext_in_fds s) = a" "m_ok a b c s \<Longrightarrow> length (ext_out_fds s) = b"
  "m_ok a b c s \<Longrightarrow> length (rep_info_in s) = a" "m_ok a b c s \<Longrightarrow> length (rep_info_out s) = b"
  "m_ok a b c s \<Longrightarrow> length (ext_in_buffer s) = 4096" "m_ok a b c s \<Longrightarrow> length (m_stop_index s) = 2"
  by (simp_all add: m_ok_def m_ends_def)

lemma m_ok_rep: "m_ok a b c s \<Longrightarrow> r < c \<Longrightarrow> wf_R a b (reps s ! r)"
  and m_ok_for: "m_ok a b c s \<Longrightarrow> r < c \<Longrightarrow> wf_for a b (for_reps s ! r)"
  by (simp_all add: m_ok_def m_group_def list_all_length)

lemma m_ok_lists:
  assumes "m_ok a b c s" "r < c" "p < b"
  shows "length (buffers (reps s ! r) ! p) = 4096"
    "0 \<le> buff_counts (reps s ! r) ! p \<and> buff_counts (reps s ! r) ! p \<le> 4096"
    "p < length (fd_outs (reps s ! r))" "p < length (buffers (reps s ! r))" "p < length (buff_counts (reps s ! r))"
  using m_ok_rep [OF assms(1,2)] assms(3) by (auto simp: wf_R_def list_all_length)

lemma m_ok_set:
  assumes "m_ok a b c s"
  shows "wf_R a b x \<Longrightarrow> m_ok a b c (s\<lparr>reps := (reps s)[r := x]\<rparr>)"
    and "wf_for a b x \<Longrightarrow> m_ok a b c (s\<lparr>for_reps := (for_reps s)[r := x]\<rparr>)"
  using assms by (simp_all add: m_ok_def m_group_def m_ends_def list_all_update)

lemma on_rep_eq:
  "m_ok a b c s \<Longrightarrow> r < c \<Longrightarrow> f (reps s ! r) = Some y \<Longrightarrow> on_rep (int r) f s = Some (s\<lparr>reps := (reps s)[r := y]\<rparr>)"
  by (simp add: on_rep_def m_ok_counts(6))

lemma on_for_rep_eq:
  "m_ok a b c s \<Longrightarrow> r < c \<Longrightarrow> f (for_reps s ! r) = Some y \<Longrightarrow>
   on_for_rep (int r) f s = Some (s\<lparr>for_reps := (for_reps s)[r := y]\<rparr>)"
  by (simp add: on_for_rep_def m_ok_counts(7))

lemma rep_access [simp]:
  assumes "m_ok a b c s" "r < c"
  shows "p < a \<Longrightarrow> in_fd s (int r) (int p) = Some (fd_ins (reps s ! r) ! p)"
    and "p < b \<Longrightarrow> out_fd s (int r) (int p) = Some (fd_outs (reps s ! r) ! p)"
    and "p < b \<Longrightarrow> out_count s (int r) (int p) = Some (buff_counts (reps s ! r) ! p)"
    and "p < b \<Longrightarrow> out_buffer s (int r) (int p) = Some (buffers (reps s ! r) ! p)"
  using assms m_ok_rep [OF assms] m_ok_counts(6) [OF assms(1)]
  by (simp_all add: in_fd_def out_fd_def out_count_def out_buffer_def wf_R_def)

text \<open>The answer of replica \<open>r\<close> on pipe \<open>p\<close>.\<close>

definition m_answer :: "voterm \<Rightarrow> nat \<Rightarrow> nat \<Rightarrow> byte list" where
  "m_answer s r p = take (nat (buff_counts (reps s ! r) ! p)) (buffers (reps s ! r) ! p)"

lemma length_m_answer:
  "m_ok a b c s \<Longrightarrow> r < c \<Longrightarrow> p < b \<Longrightarrow> int (length (m_answer s r p)) = buff_counts (reps s ! r) ! p"
  using m_ok_lists(1,2) [of a b c s r p] by (simp add: m_answer_def min_def) linarith

lemma m_answer_frame [simp]:
  "m_answer (s\<lparr>m_hist := h\<rparr>) = m_answer s" "m_answer (s\<lparr>fault_index := f\<rparr>) = m_answer s"
  "m_answer (s\<lparr>m_exited := e\<rparr>) = m_answer s" "m_answer (s\<lparr>for_reps := x\<rparr>) = m_answer s"
  by (simp_all add: m_answer_def fun_eq_iff)

section \<open>Receiving and distributing\<close>

lemma recv_loop_eq:
  assumes "m_ok a b c s" "int k + p \<le> int a" "0 \<le> p" "active_pipe_index s = -1"
  shows "\<exists>s'. recv_loop K ready k p s = Some s' \<and> m_ok a b c s' \<and> (active_pipe_index s' \<noteq> -1 \<longrightarrow> loaded a s')
    \<and> silently (m_hist s) (m_hist s') \<and> m_exited s' = m_exited s \<and> reps s' = reps s"
  using assms
proof (induction k arbitrary: s p)
  case 0
  then show ?case by simp
next
  case (Suc k)
  note IH = Suc.IH and ok = Suc.prems(1)
  obtain q where q: "p = int q" "q < a" using Suc.prems(2,3) by (metis nat_0_le of_nat_less_iff of_nat_Suc add_strict_increasing
        less_le_trans zless_add1_eq add.commute int_ops(1) less_add_same_cancel2 of_nat_0_less_iff zero_less_Suc)
  let ?fd = "ext_in_fds s ! q"
  have fd: "aget (ext_in_fds s) p = Some ?fd" using q m_ok_ends(1) [OF ok] by simp
  show ?case
  proof (cases "?fd \<in> set ready")
    case False
    then show ?thesis using IH [OF ok, of "p + 1"] Suc.prems fd by simp
  next
    case True
    obtain r bs h where rd: "sys_read K ?fd MAX_PIPE_BUFF (m_hist s) = (r, bs, h)"
      by (cases "sys_read K ?fd MAX_PIPE_BUFF (m_hist s)") auto
    have r: "length bs \<le> 4096" "r \<le> 4096" "silently (m_hist s) h"
      using rd sys_read_bound [OF rd] sys_silent(1) [OF rd] by (auto elim!: sys_read_cases simp: MAX_PIPE_BUFF_def)
    let ?b = "bs @ drop (length bs) (ext_in_buffer s)"
    let ?s = "s\<lparr>ext_in_bufcnt := r, ext_in_buffer := ?b, m_hist := h\<rparr>"
    have w: "mem_write (ext_in_buffer s) 0 bs = Some ?b" using r m_ok_ends(5) [OF ok] by (simp add: mem_write_in)
    have ok': "m_ok a b c ?s" using ok r by (simp add: m_ok_def m_group_def m_ends_def)
    have step: "recv_loop K ready (Suc k) p s =
      (if r > 0 then Some (?s\<lparr>active_pipe_index := p\<rparr>) else recv_loop K ready k (p + 1) ?s)"
      using fd True rd w by (simp add: Let_def)
    show ?thesis
    proof (cases "r > 0")
      case True
      have "m_ok a b c (?s\<lparr>active_pipe_index := p\<rparr>)" using ok' by (simp only: m_ok_frame)
      then show ?thesis using step True r q by (simp add: loaded_def)
    next
      case False
      then show ?thesis
        using IH [OF ok', of "p + 1"] Suc.prems(2-4) step silently_trans [OF r(3)] by auto
    qed
  qed
qed

lemma recvData_eq:
  assumes ok: "m_ok a b c s"
  obtains got s' where "recvData K s = Some (got, s')" "m_ok a b c s'" "got \<Longrightarrow> loaded a s'"
    "silently (m_hist s) (m_hist s')" "m_exited s' = m_exited s" "reps s' = reps s"
proof -
  let ?s0 = "s\<lparr>active_pipe_index := -1\<rparr>"
  have n: "in_pipe_count s = int a" "length (ext_in_fds s) = a" using ok by (simp_all add: m_ok_counts m_ok_ends)
  have "\<exists>fds. for_upto 0 (int a) (\<lambda>p fds. do { fd \<leftarrow> aget (ext_in_fds ?s0) p; Some (fds @ [fd]) }) [] = Some fds \<and> True"
    by (rule for_upto_nat [where P = "\<lambda>_ _. True"]) (simp_all add: n)
  then obtain fds where fds: "for_upto 0 (int a) (\<lambda>p fds. do { fd \<leftarrow> aget (ext_in_fds ?s0) p; Some (fds @ [fd]) }) [] = Some fds"
    by blast
  obtain ret ready h where sel: "sys_select K fds 500000 (m_hist s) = (ret, ready, h)"
    by (cases "sys_select K fds 500000 (m_hist s)") auto
  let ?s1 = "?s0\<lparr>m_hist := h\<rparr>"
  have ok1: "m_ok a b c ?s1" using ok by simp
  obtain s' where s': "recv_loop K ready a 0 ?s1 = Some s'" "m_ok a b c s'"
    "active_pipe_index s' \<noteq> -1 \<longrightarrow> loaded a s'" "silently h (m_hist s')" "m_exited s' = m_exited s" "reps s' = reps s"
    using recv_loop_eq [OF ok1, of a 0 K ready] by auto
  note h = sys_silent(3) [OF sel]
  show thesis
  proof (cases "ret > 0")
    case True
    show thesis
      by (rule that [of "active_pipe_index s' \<noteq> -1" s'])
        (use True n fds sel s' silently_trans [OF h] in \<open>auto simp: recvData_def\<close>)
  next
    case False
    show thesis
      by (rule that [of False ?s1]) (use False n fds sel ok1 h in \<open>auto simp: recvData_def\<close>)
  qed
qed

lemma checkWait_total:
  assumes "m_ok a b c s"
  obtains w where "checkWaitOnInput s = Some w" "w \<Longrightarrow> 0 \<le> active_pipe_index s \<and> active_pipe_index s < 2"
proof -
  have m: "0 \<le> indexed_pipes s" "indexed_pipes s \<le> 2" "length (m_start_index s) = 2"
    "list_all (\<lambda>i. 0 \<le> i \<and> i < 2) (m_start_index s)" using assms by (simp_all add: m_ok_def m_ends_def)
  have "\<exists>w. checkWaitOnInput s = Some w \<and> (w \<longrightarrow> 0 \<le> active_pipe_index s \<and> active_pipe_index s < 2)"
    unfolding checkWaitOnInput_def
  proof (rule for_upto_rule [OF m(1), where P = "\<lambda>_ w. w \<longrightarrow> 0 \<le> active_pipe_index s \<and> active_pipe_index s < 2"])
    fix i w assume i: "0 \<le> i" "i < indexed_pipes s" and w: "w \<longrightarrow> 0 \<le> active_pipe_index s \<and> active_pipe_index s < 2"
    have "aget (m_start_index s) i = Some (m_start_index s ! nat i)" using i m by (simp add: aget_in)
    moreover have "0 \<le> m_start_index s ! nat i \<and> m_start_index s ! nat i < 2"
      using i m by (simp add: list_all_length)
    ultimately show "\<exists>w'. do { k \<leftarrow> aget (m_start_index s) i; Some (if active_pipe_index s = k then True else w) } = Some w'
        \<and> (w' \<longrightarrow> 0 \<le> active_pipe_index s \<and> active_pipe_index s < 2)" using w by simp
  qed simp
  then show thesis using that by blast
qed

text \<open>The input as it is written to every replica.\<close>

definition input_data :: "voterm \<Rightarrow> byte list" where
  "input_data s = take (nat (ext_in_bufcnt s)) (ext_in_buffer s)"

definition input_fd :: "voterm \<Rightarrow> nat \<Rightarrow> int" where
  "input_fd s r = fd_ins (reps s ! r) ! nat (active_pipe_index s)"

lemma give_input_eq:
  assumes ok: "m_ok a b c s" and l: "loaded a s" and r: "r < c"
  shows "give_input K (int r) s =
    Some (s\<lparr>m_hist := snd (sys_write K (input_fd s r) (input_data s) (m_hist s))\<rparr>)"
proof -
  obtain q where q: "active_pipe_index s = int q" "q < a"
    using l unfolding loaded_def by (metis nat_0_le of_nat_less_iff)
  have "mem_read (ext_in_buffer s) 0 (ext_in_bufcnt s) = Some (input_data s)"
    using l m_ok_ends(5) [OF ok] by (simp add: loaded_def mem_read_in input_data_def)
  then show ?thesis
    using rep_access(1) [OF ok r q(2)] q(1) by (simp add: give_input_def input_fd_def)
qed

lemma sendToReps_eq:
  assumes ok: "m_ok a b c s" and l: "loaded a s"
  obtains w h' where "sendToReps K s = Some (w, s\<lparr>m_hist := h'\<rparr>)"
    "writes h' = writes (m_hist s) @ map (\<lambda>r. (input_fd s r, input_data s)) [0..<c]"
    "\<And>sig. killed sig h' = killed sig (m_hist s)"
    "w \<Longrightarrow> 0 \<le> active_pipe_index s \<and> active_pipe_index s < 2"
proof -
  let ?P = "\<lambda>k u. \<exists>h'. u = s\<lparr>m_hist := h'\<rparr> \<and> (\<forall>sig. killed sig h' = killed sig (m_hist s))
    \<and> writes h' = writes (m_hist s) @ map (\<lambda>r. (input_fd s r, input_data s)) [0..<k]"
  have "\<exists>u. for_upto 0 (int c) (give_input K) s = Some u \<and> ?P c u"
  proof (rule for_upto_nat [where P = ?P])
    show "?P 0 s" by (rule exI [of _ "m_hist s"]) simp
  next
    fix i u assume i: "i < c" and "?P i u"
    then obtain h where u: "u = s\<lparr>m_hist := h\<rparr>" "\<forall>sig. killed sig h = killed sig (m_hist s)"
      "writes h = writes (m_hist s) @ map (\<lambda>r. (input_fd s r, input_data s)) [0..<i]" by blast
    let ?h = "snd (sys_write K (input_fd s i) (input_data s) h)"
    have "give_input K (int i) u = Some (s\<lparr>m_hist := ?h\<rparr>)"
      using give_input_eq [of a b c u i K] ok l i u(1) by (simp add: input_fd_def input_data_def)
    moreover have "?P (Suc i) (s\<lparr>m_hist := ?h\<rparr>)" using u(2,3) by (intro exI [of _ ?h]) simp
    ultimately show "\<exists>u'. give_input K (int i) u = Some u' \<and> ?P (Suc i) u'" by blast
  qed
  then obtain h where h: "for_upto 0 (int c) (give_input K) s = Some (s\<lparr>m_hist := h\<rparr>)"
    "\<forall>sig. killed sig h = killed sig (m_hist s)"
    "writes h = writes (m_hist s) @ map (\<lambda>r. (input_fd s r, input_data s)) [0..<c]" by blast
  have "m_ok a b c (s\<lparr>m_hist := h\<rparr>)" using ok by simp
  then obtain w where "checkWaitOnInput (s\<lparr>m_hist := h\<rparr>) = Some w"
    "w \<Longrightarrow> 0 \<le> active_pipe_index s \<and> active_pipe_index s < 2" by (rule checkWait_total) simp
  then show thesis using that [of w h] h m_ok_counts(3) [OF ok] by (simp add: sendToReps_def)
qed

section \<open>Collecting\<close>

lemma read_answer_eq:
  assumes ok: "m_ok a b c s" and act: "0 \<le> active_pipe_index s" "active_pipe_index s < 2" and rp: "r < c" "p < b"
    and reads: "\<And>h fd n. on_read K h fd n \<noteq> None"
  obtains t reps' h' where "read_answer K ready (int r) (int p) s = Some (t, s\<lparr>reps := reps', m_hist := h'\<rparr>)"
    "m_ok a b c (s\<lparr>reps := reps', m_hist := h'\<rparr>)" "silently (m_hist s) h'"
    "t \<Longrightarrow> fd_outs (reps s ! r) ! p \<in> set ready \<and> m_stop_index s ! nat (active_pipe_index s) = int p"
proof (cases "fd_outs (reps s ! r) ! p \<in> set ready")
  case False
  show thesis
    by (rule that [of False "m_hist s" "reps s"]) (use False ok rp in \<open>simp_all add: read_answer_def\<close>)
next
  case True
  let ?x = "reps s ! r" and ?fd = "fd_outs (reps s ! r) ! p"
  obtain n bs h where rd: "sys_read K ?fd MAX_PIPE_BUFF (m_hist s) = (n, bs, h)"
    by (cases "sys_read K ?fd MAX_PIPE_BUFF (m_hist s)") auto
  have n: "n = int (length bs)" "length bs \<le> 4096"
    using rd reads [of "m_hist s" ?fd MAX_PIPE_BUFF] by (auto simp: sys_read_def Let_def MAX_PIPE_BUFF_def)
  note L = m_ok_lists [OF ok rp]
  let ?b = "bs @ drop (length bs) (buffers ?x ! p)"
  let ?y = "?x\<lparr>buff_counts := (buff_counts ?x)[p := u32 n], buffers := (buffers ?x)[p := ?b]\<rparr>"
  let ?f = "\<lambda>x. do { b \<leftarrow> aget (buffers x) (int p); b' \<leftarrow> mem_write b 0 bs;
           bs' \<leftarrow> aset (buffers x) (int p) b'; cs \<leftarrow> aset (buff_counts x) (int p) (u32 n);
           Some (x\<lparr>buff_counts := cs, buffers := bs'\<rparr>) }"
  have f: "?f ?x = Some ?y" using L n by (simp add: mem_write_in)
  have y: "wf_R a b ?y"
    using m_ok_rep [OF ok rp(1)] L n by (auto simp: wf_R_def u32_def intro!: list_all_update)
  have ok1: "m_ok a b c (s\<lparr>m_hist := h\<rparr>)" using ok by simp
  have upd: "on_rep (int r) ?f (s\<lparr>m_hist := h\<rparr>) = Some (s\<lparr>m_hist := h, reps := (reps s)[r := ?y]\<rparr>)"
    using on_rep_eq [OF ok1 rp(1), of ?f ?y] f by simp
  have stop: "aget (m_stop_index s) (active_pipe_index s) = Some (m_stop_index s ! nat (active_pipe_index s))"
    using act m_ok_ends(6) [OF ok] by (simp add: aget_in)
  have sil: "silently (m_hist s) h" using sys_silent(1) [OF rd] .
  show thesis
  proof (rule that [of "int p = m_stop_index s ! nat (active_pipe_index s)" h "(reps s)[r := ?y]"])
    show "read_answer K ready (int r) (int p) s = Some (int p = m_stop_index s ! nat (active_pipe_index s),
        s\<lparr>reps := (reps s)[r := ?y], m_hist := h\<rparr>)"
      using True rp ok rd upd stop by (simp add: read_answer_def)
    show "m_ok a b c (s\<lparr>reps := (reps s)[r := ?y], m_hist := h\<rparr>)"
      using m_ok_set(1) [OF ok y] by simp
  qed (use sil True in auto)
qed

text \<open>What collecting may change: the counts and buffers of the answers, silently.\<close>

definition blanked :: "voterm \<Rightarrow> voterm" where
  "blanked s = s\<lparr>reps := [], m_hist := []\<rparr>"

lemma blanked_update [simp]:
  "blanked (s\<lparr>reps := x\<rparr>) = blanked s" "blanked (s\<lparr>m_hist := h\<rparr>) = blanked s"
  by (simp_all add: blanked_def)

lemma blanked_fields:
  assumes "blanked s' = blanked s"
  shows "active_pipe_index s' = active_pipe_index s"
    "m_stop_index s' = m_stop_index s" "m_watchdog s' = m_watchdog s" "m_voting_timeout s' = m_voting_timeout s"
    "m_exited s' = m_exited s" "loaded n s' = loaded n s" "timeout_occurred s' = timeout_occurred s"
    "ext_out_fds s' = ext_out_fds s"
proof -
  have f: "active_pipe_index (blanked t) = active_pipe_index t" "m_stop_index (blanked t) = m_stop_index t"
    "m_watchdog (blanked t) = m_watchdog t" "m_voting_timeout (blanked t) = m_voting_timeout t"
    "m_exited (blanked t) = m_exited t" "loaded n (blanked t) = loaded n t"
    "timeout_occurred (blanked t) = timeout_occurred t" "ext_out_fds (blanked t) = ext_out_fds t" for t
    by (simp_all add: blanked_def)
  show "active_pipe_index s' = active_pipe_index s" "m_stop_index s' = m_stop_index s" "m_watchdog s' = m_watchdog s"
    "m_voting_timeout s' = m_voting_timeout s" "m_exited s' = m_exited s" "loaded n s' = loaded n s"
    "timeout_occurred s' = timeout_occurred s" "ext_out_fds s' = ext_out_fds s"
    using f [of s] f [of s'] assms by simp_all
qed

definition collected :: "nat \<Rightarrow> nat \<Rightarrow> nat \<Rightarrow> voterm \<Rightarrow> voterm \<Rightarrow> bool" where
  "collected a b c s s' \<longleftrightarrow> m_ok a b c s' \<and> silently (m_hist s) (m_hist s') \<and> blanked s' = blanked s"

lemma collected_refl [simp]: "collected a b c s s = m_ok a b c s"
  by (simp add: collected_def)

lemma collected_trans: "collected a b c s t \<Longrightarrow> collected a b c t u \<Longrightarrow> collected a b c s u"
  by (auto simp: collected_def intro: silently_trans)

lemma collected_hist: "m_ok a b c s \<Longrightarrow> silently (m_hist s) h \<Longrightarrow> collected a b c s (s\<lparr>m_hist := h\<rparr>)"
  by (simp add: collected_def)

lemma collected_facts:
  assumes "collected a b c s s'"
  shows "m_ok a b c s'" "silently (m_hist s) (m_hist s')" "active_pipe_index s' = active_pipe_index s"
    "m_stop_index s' = m_stop_index s" "m_watchdog s' = m_watchdog s" "m_voting_timeout s' = m_voting_timeout s"
    "m_exited s' = m_exited s" "loaded n s' = loaded n s" "timeout_occurred s' = timeout_occurred s"
    "ext_out_fds s' = ext_out_fds s"
  using assms blanked_fields [of s' s] by (simp_all add: collected_def)

lemma silently_length: "silently h h' \<Longrightarrow> length h \<le> length h'"
  by (auto simp: silently_def)

lemma read_answers_eq:
  assumes ok: "m_ok a b c s" and act: "0 \<le> active_pipe_index s" "active_pipe_index s < 2"
    and reads: "\<And>h fd n. on_read K h fd n \<noteq> None"
  shows "\<exists>rd fin s'. read_answers K ready expected (d, e, s) = Some (rd, fin, s') \<and> collected a b c s s'"
proof -
  let ?P = "\<lambda>st. collected a b c s (snd (snd st))"
  let ?f = "\<lambda>r_index p_index (rep_done, finished, s). do {
         (timed_pipe, s') \<leftarrow> read_answer K ready r_index p_index s;
         if timed_pipe then Some (rep_done + 1, if rep_done + 1 = expected then True else finished, s')
         else Some (rep_done, finished, s') }"
  have step: "\<exists>st'. ?f (int r) (int p) st = Some st' \<and> ?P st'" if st: "?P st" and rp: "r < c" "p < b" for r p st
  proof -
    obtain d1 e1 t where t: "st = (d1, e1, t)" by (cases st) auto
    have ct: "collected a b c s t" using st t by simp
    have "m_ok a b c t" "0 \<le> active_pipe_index t" "active_pipe_index t < 2"
      using collected_facts(1,3) [OF ct] act by simp_all
    then obtain f1 x1 h1 where "read_answer K ready (int r) (int p) t = Some (f1, t\<lparr>reps := x1, m_hist := h1\<rparr>)"
      "m_ok a b c (t\<lparr>reps := x1, m_hist := h1\<rparr>)" "silently (m_hist t) h1"
      by (rule read_answer_eq [OF _ _ _ rp reads, where ready = ready and s = t])
    moreover from this(2,3) have "collected a b c s (t\<lparr>reps := x1, m_hist := h1\<rparr>)"
      by (intro collected_trans [OF ct]) (simp add: collected_def)
    ultimately show ?thesis using t by (cases f1) auto
  qed
  have inner: "\<exists>st'. for_upto 0 (out_pipe_count (snd (snd st))) (?f (int r)) st = Some st' \<and> ?P st'"
    if st: "?P st" and r: "r < c" for r st
  proof -
    have n: "out_pipe_count (snd (snd st)) = int b" using collected_facts(1) [OF st] m_ok_counts(2) by blast
    show ?thesis unfolding n
      by (rule for_upto_nat [where P = "\<lambda>_. ?P"]) (use st step [OF _ r] in auto)
  qed
  have "\<exists>st'. for_upto 0 (int c) (\<lambda>r st. for_upto 0 (out_pipe_count (snd (snd st))) (?f r) st) (d, e, s) = Some st' \<and> ?P st'"
    by (rule for_upto_nat [where P = "\<lambda>_. ?P"]) (use ok inner in auto)
  then show ?thesis using m_ok_counts(3) [OF ok] by (simp add: read_answers_def)
qed

lemma answer_fds_total:
  assumes "m_ok a b c s"
  shows "\<exists>fds. answer_fds s = Some fds"
proof -
  have "\<exists>fds. for_upto 0 (int b) (\<lambda>p_index fds. do { fd \<leftarrow> out_fd s (int r) p_index;
         Some (if fd \<noteq> 0 then fds @ [fd] else fds) }) x = Some fds \<and> True" if "r < c" for r x
    by (rule for_upto_nat [where P = "\<lambda>_ _. True"]) (use assms that in auto)
  then have "\<exists>fds. for_upto 0 (int c) (\<lambda>r_index. for_upto 0 (int b) (\<lambda>p_index fds. do { fd \<leftarrow> out_fd s r_index p_index;
         Some (if fd \<noteq> 0 then fds @ [fd] else fds) })) [] = Some fds \<and> True"
    by (rule for_upto_nat [where P = "\<lambda>_ _. True", rotated]) simp_all
  then show ?thesis by (simp add: answer_fds_def m_ok_counts(2,3) [OF assms])
qed

text \<open>The deadline of a collection whose clock was started at \<open>w\<close>, as a test of one clock reading.\<close>

definition time_left :: "fpu \<Rightarrow> int \<Rightarrow> timestamp \<Rightarrow> timestamp \<Rightarrow> int" where
  "time_left F timeout w now = f_to_long F (f_sub F (f_of_long F timeout) (diff_time F now w CPU_MHZ))"

lemma remaining_time_eq:
  "remaining_time K F s = (time_left F (m_voting_timeout s) (m_watchdog s) (on_timestamp K (m_hist s)),
     s\<lparr>m_hist := m_hist s @ [SysTimestamp (on_timestamp K (m_hist s))]\<rparr>)"
  by (simp add: remaining_time_def time_left_def generate_timestamp_def sys_timestamp_def)

definition finished_ok :: "nat \<Rightarrow> nat \<Rightarrow> nat \<Rightarrow> voterm \<Rightarrow> voterm \<Rightarrow> bool" where
  "finished_ok a b c s s' \<longleftrightarrow> (\<exists>t. collected a b c s t \<and> (s' = t \<or> s' = t\<lparr>timeout_occurred := True\<rparr>))"

lemma finished_ok_trans: "collected a b c s t \<Longrightarrow> finished_ok a b c t u \<Longrightarrow> finished_ok a b c s u"
  by (auto simp: finished_ok_def intro: collected_trans)

lemma collect_loop_eq:
  assumes "m_ok a b c s" "0 \<le> active_pipe_index s" "active_pipe_index s < 2"
    and reads: "\<And>h fd n. on_read K h fd n \<noteq> None"
  shows "\<exists>res s'. collect_loop K F timer expected fuel d s = Some (res, s') \<and> finished_ok a b c s s'
    \<and> (timer \<and> 0 < fuel \<and> N < length (m_hist s) + fuel
       \<and> (\<forall>h. N \<le> length h \<longrightarrow> time_left F (m_voting_timeout s) (m_watchdog s) (on_timestamp K h) \<le> 0)
       \<longrightarrow> res \<noteq> None)"
  using assms(1-3)
proof (induction fuel arbitrary: s d)
  case 0
  then have "finished_ok a b c s s" unfolding finished_ok_def by (intro exI [of _ s]) simp
  then show ?case by simp
next
  case (Suc n)
  note ok = Suc.prems(1)
  obtain fds where fds: "answer_fds s = Some fds" using answer_fds_total [OF ok] by blast
  define rem where "rem = (if timer then time_left F (m_voting_timeout s) (m_watchdog s) (on_timestamp K (m_hist s)) else 50000)"
  define h1 where "h1 = (if timer then m_hist s @ [SysTimestamp (on_timestamp K (m_hist s))] else m_hist s)"
  have first: "(if timer then remaining_time K F s else (50000, s)) = (rem, s\<lparr>m_hist := h1\<rparr>)"
    by (simp add: rem_def h1_def remaining_time_eq)
  have h1: "silently (m_hist s) h1" by (simp add: h1_def)
  have c1: "collected a b c s (s\<lparr>m_hist := h1\<rparr>)" using ok h1 by (rule collected_hist)
  show ?case
  proof (cases "rem > 0")
    case False
    then have "collect_loop K F timer expected (Suc n) d s = Some (Some d, s\<lparr>m_hist := h1, timeout_occurred := True\<rparr>)"
      using fds first by simp
    moreover have "finished_ok a b c s (s\<lparr>m_hist := h1, timeout_occurred := True\<rparr>)"
      using c1 by (auto simp: finished_ok_def)
    ultimately show ?thesis by blast
  next
    case True
    obtain ret ready h2 where sel: "sys_select K fds rem h1 = (ret, ready, h2)" by (cases "sys_select K fds rem h1") auto
    have h2: "silently (m_hist s) h2" using silently_trans [OF h1 sys_silent(3) [OF sel]] .
    have grow: "length (m_hist s) < length h2"
      using sel silently_length [OF h1] by (auto simp: sys_select_def Let_def split: option.splits)
    let ?s2 = "s\<lparr>m_hist := h2\<rparr>"
    have c2: "collected a b c s ?s2" using ok h2 by (rule collected_hist)
    obtain d' fin s3 where rd: "read_answers K ready expected (d, False, ?s2) = Some (d', fin, s3)" "collected a b c ?s2 s3"
      using read_answers_eq [of a b c ?s2 K ready expected d False] collected_facts(1) [OF c2] Suc.prems reads by auto
    have c3: "collected a b c s s3" using c2 rd(2) by (rule collected_trans)
    note f3 = collected_facts [OF c3]
    have len: "length (m_hist s) < length (m_hist s3)"
      using grow silently_length [OF collected_facts(2) [OF rd(2)]] by simp
    have run: "collect_loop K F timer expected (Suc n) d s =
      (if fin then Some (Some d', s3) else collect_loop K F timer expected n d' s3)"
      using fds first True sel rd(1) by simp
    show ?thesis
    proof (cases fin)
      case True
      then show ?thesis using run c3 by (auto simp: finished_ok_def)
    next
      case False
      obtain res s' where IH: "collect_loop K F timer expected n d' s3 = Some (res, s')" "finished_ok a b c s3 s'"
        "timer \<and> 0 < n \<and> N < length (m_hist s3) + n
           \<and> (\<forall>h. N \<le> length h \<longrightarrow> time_left F (m_voting_timeout s) (m_watchdog s) (on_timestamp K h) \<le> 0) \<longrightarrow> res \<noteq> None"
        using Suc.IH [OF f3(1), of d'] f3 Suc.prems by auto
      have "res \<noteq> None" if late: "timer" "N < length (m_hist s) + Suc n"
        "\<forall>h. N \<le> length h \<longrightarrow> time_left F (m_voting_timeout s) (m_watchdog s) (on_timestamp K h) \<le> 0"
      proof -
        have "\<not> N \<le> length (m_hist s)" using late(1,3) True by (auto simp: rem_def)
        then show ?thesis using IH(3) late len by auto
      qed
      then show ?thesis using run False IH(1) finished_ok_trans [OF c3 IH(2)] by auto
    qed
  qed
qed

section \<open>The late replica\<close>

text \<open>On how many pipes a replica has answered.\<close>

definition score :: "voterm \<Rightarrow> nat \<Rightarrow> nat \<Rightarrow> int" where
  "score s n r = int (card {p. p < n \<and> 0 < buff_counts (reps s ! r) ! p})"

lemma rep_score_eq:
  assumes ok: "m_ok a b c s" and r: "r < c"
  shows "rep_score s (int r) = Some (score s b r)"
proof -
  have "\<exists>x. rep_score s (int r) = Some x \<and> x = score s b r"
    unfolding rep_score_def m_ok_counts(2) [OF ok]
  proof (rule for_upto_nat [where P = "\<lambda>k x. x = score s k r"])
    show "0 = score s 0 r" by (simp add: score_def)
  next
    fix i x assume i: "i < b" and x: "x = score s i r"
    have eq: "{p. p < Suc i \<and> 0 < buff_counts (reps s ! r) ! p} =
        (if 0 < buff_counts (reps s ! r) ! i then insert i else id) {p. p < i \<and> 0 < buff_counts (reps s ! r) ! p}"
      by (auto simp: less_Suc_eq)
    have fin: "finite {p. p < i \<and> 0 < buff_counts (reps s ! r) ! p}" by simp
    show "\<exists>x'. do { n \<leftarrow> out_count s (int r) (int i); Some (if n > 0 then x + 1 else x) } = Some x' \<and> x' = score s (Suc i) r"
      using rep_access(3) [OF ok r i] x fin by (simp add: score_def eq)
  qed
  then show ?thesis by simp
qed

text \<open>It blames the first replica with the lowest score, and replica 0 when all answered everywhere.\<close>

lemma findFault_eq:
  assumes ok: "m_ok a b c s"
  obtains f where "findFaultReplica s = Some (s\<lparr>fault_index := int f\<rparr>)" "f < c"
    "\<And>r. r < c \<Longrightarrow> score s b f \<le> score s b r" "\<And>r. r < f \<Longrightarrow> score s b f < score s b r"
proof -
  have top: "score s b r \<le> int b" for r
    using card_mono [of "{..<b}" "{p. p < b \<and> 0 < buff_counts (reps s ! r) ! p}"] by (auto simp: score_def)
  let ?I = "\<lambda>k f low. f < c \<and> (\<forall>r < k. low \<le> score s b r) \<and> (\<forall>r < f. low < score s b r)
    \<and> (low = score s b f \<or> f = 0 \<and> low = int b)"
  let ?body = "\<lambda>r_index (fault, lowest_score). do {
         sc \<leftarrow> rep_score s r_index;
         Some (if sc < lowest_score then (r_index, sc) else (fault, lowest_score)) }"
  have "\<exists>st. for_upto 0 (int c) ?body (0, int b) = Some st \<and> (\<exists>f low. st = (int f, low) \<and> ?I c f low)"
  proof (rule for_upto_nat [where P = "\<lambda>k st. \<exists>f low. st = (int f, low) \<and> ?I k f low"])
    show "\<exists>f low. (0, int b) = (int f, low) \<and> ?I 0 f low"
      using m_ok_counts(4) [OF ok] by (intro exI [of _ 0] exI [of _ "int b"]) simp
  next
    fix k st assume k: "k < c" and "\<exists>f low. st = (int f, low) \<and> ?I k f low"
    then obtain f low where st: "st = (int f, low)" and I: "?I k f low" by blast
    have sc: "rep_score s (int k) = Some (score s b k)" using rep_score_eq [OF ok k] .
    show "\<exists>st'. ?body (int k) st = Some st' \<and> (\<exists>f low. st' = (int f, low) \<and> ?I (Suc k) f low)"
    proof (cases "score s b k < low")
      case True
      have "?I (Suc k) k (score s b k)" using True I k by (simp add: less_Suc_eq) force
      moreover have "?body (int k) st = Some (int k, score s b k)" using st sc True by simp
      ultimately show ?thesis by blast
    next
      case False
      have "?I (Suc k) f low" using False I by (simp add: less_Suc_eq)
      moreover have "?body (int k) st = Some (int f, low)" using st sc False by simp
      ultimately show ?thesis by blast
    qed
  qed
  then obtain f low where r: "for_upto 0 (int c) ?body (0, int b) = Some (int f, low)" and I: "?I c f low" by blast
  have low: "low = score s b f" using I top [of f] by force
  have "findFaultReplica s = Some (s\<lparr>fault_index := int f\<rparr>)"
    using r by (simp add: findFaultReplica_def m_ok_counts(2,3) [OF ok])
  then show thesis using I low by (intro that [of f]) auto
qed

section \<open>Comparing\<close>

text \<open>The outcome of one comparison of three values: whom to blame, or what was found before.\<close>

definition blame :: "'v \<Rightarrow> 'v \<Rightarrow> 'v \<Rightarrow> int option \<Rightarrow> int option" where
  "blame x y z old = (if x \<noteq> y then (if x \<noteq> z then Some 0 else Some 1) else if x \<noteq> z then Some 2 else old)"

lemma three_roles:
  assumes "f < 3" "i < 3" "j < 3" "distinct [f, i, j]"
  obtains "f = 0" "i = 1" "j = 2" | "f = 0" "i = 2" "j = 1" | "f = 1" "i = 0" "j = 2"
    | "f = 1" "i = 2" "j = 0" | "f = 2" "i = 0" "j = 1" | "f = 2" "i = 1" "j = (0::nat)"
proof -
  have "x = 0 \<or> x = 1 \<or> x = 2" if "x < 3" for x :: nat using that by auto
  then show ?thesis using that assms by (metis distinct_length_2_or_more)
qed

lemma blame_eq:
  assumes "f < 3" "i < 3" "j < 3" "distinct [f, i, j]" "v i = v j"
  shows "blame (v 0) (v 1) (v (2::nat)) old = (if v f \<noteq> v i then Some (int f) else old)"
  using three_roles [OF assms(1-4)] by cases (use assms(5) in \<open>simp_all add: blame_def\<close>)

lemma three_equal:
  assumes "f < 3" "i < 3" "j < 3" "distinct [f, i, j]" "v f = v i" "v i = v j"
  shows "v 1 = v (0::nat) \<and> v 2 = v 0"
  by (rule three_roles [OF assms(1-4)]) (use assms(5,6) in metis)+

lemma blame_loop:
  assumes who: "f < 3" "i < 3" "j < 3" "distinct [f, i, j]"
    and same: "\<And>p. p < b \<Longrightarrow> v i p = v j p"
    and body: "\<And>p old. p < b \<Longrightarrow> body (int p) old = Some (blame (v 0 p) (v 1 p) (v (2::nat) p) old)"
  shows "for_upto 0 (int b) body None = Some (if \<exists>p < b. v f p \<noteq> v i p then Some (int f) else None)"
proof -
  have "\<exists>r. for_upto 0 (int b) body None = Some r \<and> r = (if \<exists>p < b. v f p \<noteq> v i p then Some (int f) else None)"
  proof (rule for_upto_nat [where P = "\<lambda>k r. r = (if \<exists>p < k. v f p \<noteq> v i p then Some (int f) else None)"])
    fix k r assume k: "k < b" and r: "r = (if \<exists>p < k. v f p \<noteq> v i p then Some (int f) else None)"
    have "body (int k) r = Some (if v f k \<noteq> v i k then Some (int f) else r)"
      using body [OF k] blame_eq [OF who, of "\<lambda>r. v r k" r] same [OF k] by simp
    then show "\<exists>r'. body (int k) r = Some r' \<and> r' = (if \<exists>p < Suc k. v f p \<noteq> v i p then Some (int f) else None)"
      using r by (auto simp: less_Suc_eq)
  qed simp
  then show ?thesis by simp
qed

lemma cmp_answers_eq:
  assumes ok: "m_ok a b c s" and r: "0 < c" "i < c" "j < c" "p < b"
  shows "\<exists>m. cmp_answers s (int i) (int j) (int p) = Some m \<and> (m = 0 \<longleftrightarrow>
    take (nat (buff_counts (reps s ! 0) ! p)) (buffers (reps s ! i) ! p)
    = take (nat (buff_counts (reps s ! 0) ! p)) (buffers (reps s ! j) ! p))"
proof -
  have "out_count s 0 (int p) = Some (buff_counts (reps s ! 0) ! p)" using rep_access(3) [OF ok r(1,4)] by simp
  then show ?thesis
    using rep_access(4) [OF ok r(2,4)] rep_access(4) [OF ok r(3,4)] m_ok_lists [OF ok r(1,4)]
      m_ok_lists(1) [OF ok r(2,4)] m_ok_lists(1) [OF ok r(3,4)]
    by (simp add: cmp_answers_def memcmp_in bytes_cmp_eq_0)
qed

lemma find_sdc_tmr:
  assumes ok: "m_ok a b 3 s" and who: "f < 3" "i < 3" "j < 3" "distinct [f, i, j]"
    and same: "\<And>p. p < b \<Longrightarrow> m_answer s i p = m_answer s j p"
  shows "M_find_sdc s = Some (if \<exists>p < b. m_answer s f p \<noteq> m_answer s i p then Some (int f) else None)"
proof -
  let ?c = "\<lambda>r p. buff_counts (reps s ! r) ! p"
  have num: "out_pipe_count s = int b" "m_rep_count s = 3" using m_ok_counts [OF ok] by simp_all
  have cnt: "int (length (m_answer s r p)) = ?c r p" if "r < 3" "p < b" for r p
    using length_m_answer [OF ok that] .
  have count: "out_count s 0 (int p) = Some (?c 0 p)" "out_count s 1 (int p) = Some (?c 1 p)"
    "out_count s 2 (int p) = Some (?c 2 p)" if "p < b" for p
    using rep_access(3) [OF ok _ that, of 0] rep_access(3) [OF ok _ that, of 1] rep_access(3) [OF ok _ that, of 2] by simp_all
  have "tmr_count_fault s = Some (if \<exists>p < b. ?c f p \<noteq> ?c i p then Some (int f) else None)"
    unfolding tmr_count_fault_def num
  proof (rule blame_loop [OF who, where v = ?c])
    show "?c i p = ?c j p" if "p < b" for p using same [OF that] cnt [OF who(2) that] cnt [OF who(3) that] by simp
  qed (use count in \<open>simp add: blame_def\<close>)
  moreover have "tmr_content_fault s = Some (if \<exists>p < b. m_answer s f p \<noteq> m_answer s i p then Some (int f) else None)"
    if eq: "\<not> (\<exists>p < b. ?c f p \<noteq> ?c i p)"
    unfolding tmr_content_fault_def num
  proof (rule blame_loop [OF who same])
    fix p old assume p: "p < b"
    have "?c f p = ?c i p" "?c i p = ?c j p"
      using eq p same [OF p] cnt [OF who(2) p] cnt [OF who(3) p] by auto
    then have all: "?c 1 p = ?c 0 p" "?c 2 p = ?c 0 p"
      using three_equal [OF who, of "\<lambda>r. ?c r p"] by blast+
    obtain m01 where m01: "cmp_answers s 0 1 (int p) = Some m01" "m01 = 0 \<longleftrightarrow> m_answer s 0 p = m_answer s 1 p"
      using cmp_answers_eq [OF ok _ _ _ p, of 0 1] all by (auto simp: m_answer_def)
    obtain m02 where m02: "cmp_answers s 0 2 (int p) = Some m02" "m02 = 0 \<longleftrightarrow> m_answer s 0 p = m_answer s 2 p"
      using cmp_answers_eq [OF ok _ _ _ p, of 0 2] all by (auto simp: m_answer_def)
    show "do { m01 \<leftarrow> cmp_answers s 0 1 (int p); m02 \<leftarrow> cmp_answers s 0 2 (int p);
         Some (if m01 \<noteq> 0 then (if m02 \<noteq> 0 then Some 0 else Some 1) else if m02 \<noteq> 0 then Some 2 else old) }
      = Some (blame (m_answer s 0 p) (m_answer s 1 p) (m_answer s 2 p) old)"
      using m01 m02 by (simp add: blame_def)
  qed
  moreover have "(\<exists>p < b. ?c f p \<noteq> ?c i p) \<Longrightarrow> (\<exists>p < b. m_answer s f p \<noteq> m_answer s i p)"
    using cnt who(1,2) by metis
  ultimately show ?thesis using num by (auto simp: M_find_sdc_def)
qed

section \<open>Sending, killing, starting\<close>

text \<open>What is sent of replica \<open>r\<close>: its non-empty answers, to the external pipes in their order.\<close>

definition outputs :: "voterm \<Rightarrow> nat \<Rightarrow> nat \<Rightarrow> (int \<times> byte list) list" where
  "outputs s r n = map (\<lambda>p. (ext_out_fds s ! p, m_answer s r p)) (filter (\<lambda>p. m_answer s r p \<noteq> []) [0..<n])"

lemma answer_empty: "m_ok a b c s \<Longrightarrow> r < c \<Longrightarrow> p < b \<Longrightarrow> m_answer s r p = [] \<longleftrightarrow> buff_counts (reps s ! r) ! p = 0"
  using length_m_answer [of a b c s r p] by (metis length_0_conv of_nat_eq_0_iff)

text \<open>Nothing but the replicas' own records and the history changed.\<close>

definition rest :: "voterm \<Rightarrow> voterm" where
  "rest s = s\<lparr>reps := [], for_reps := [], m_hist := [], m_exited := False\<rparr>"

lemma rest_update [simp]:
  "rest (s\<lparr>reps := x\<rparr>) = rest s" "rest (s\<lparr>for_reps := y\<rparr>) = rest s" "rest (s\<lparr>m_hist := h\<rparr>) = rest s"
  "rest (s\<lparr>m_exited := e\<rparr>) = rest s"
  by (simp_all add: rest_def)

lemma rest_fields:
  assumes "rest t = rest s"
  shows "fault_index t = fault_index s" "ext_out_fds t = ext_out_fds s" "m_rep_count t = m_rep_count s"
    "loaded n t = loaded n s" "active_pipe_index t = active_pipe_index s"
proof -
  have f: "fault_index (rest u) = fault_index u" "ext_out_fds (rest u) = ext_out_fds u"
    "m_rep_count (rest u) = m_rep_count u" "loaded n (rest u) = loaded n u"
    "active_pipe_index (rest u) = active_pipe_index u" for u by (simp_all add: rest_def)
  show "fault_index t = fault_index s" "ext_out_fds t = ext_out_fds s" "m_rep_count t = m_rep_count s"
    "loaded n t = loaded n s" "active_pipe_index t = active_pipe_index s"
    using f [of s] f [of t] assms by simp_all
qed

lemma send_loop_eq:
  assumes ok: "m_ok a b c s" and r: "r < c"
  obtains h where "for_upto 0 (int b) (\<lambda>p_index s. do {
         n \<leftarrow> out_count s (int r) p_index;
         if n \<noteq> 0 then do {
           fd \<leftarrow> aget (ext_out_fds s) p_index;
           x \<leftarrow> out_buffer s (int r) p_index;
           bs \<leftarrow> mem_read x 0 n;
           Some (s\<lparr>m_hist := snd (sys_write K fd bs (m_hist s))\<rparr>)
         }
         else Some s }) s = Some (s\<lparr>m_hist := h\<rparr>)"
    "writes h = writes (m_hist s) @ outputs s r b" "\<And>sig. killed sig h = killed sig (m_hist s)"
proof -
  let ?P = "\<lambda>k u. \<exists>h. u = s\<lparr>m_hist := h\<rparr> \<and> writes h = writes (m_hist s) @ outputs s r k
     \<and> (\<forall>sig. killed sig h = killed sig (m_hist s))"
  let ?body = "\<lambda>p_index s. do {
         n \<leftarrow> out_count s (int r) p_index;
         if n \<noteq> 0 then do {
           fd \<leftarrow> aget (ext_out_fds s) p_index;
           x \<leftarrow> out_buffer s (int r) p_index;
           bs \<leftarrow> mem_read x 0 n;
           Some (s\<lparr>m_hist := snd (sys_write K fd bs (m_hist s))\<rparr>)
         }
         else Some s }"
  have "\<exists>u. for_upto 0 (int b) ?body s = Some u \<and> ?P b u"
  proof (rule for_upto_nat [where P = ?P])
    show "?P 0 s" by (rule exI [of _ "m_hist s"]) (simp add: outputs_def)
  next
    fix i u assume i: "i < b" and "?P i u"
    then obtain h where u: "u = s\<lparr>m_hist := h\<rparr>" "writes h = writes (m_hist s) @ outputs s r i"
      "\<forall>sig. killed sig h = killed sig (m_hist s)" by blast
    let ?n = "buff_counts (reps s ! r) ! i"
    have oku: "m_ok a b c u" using ok u(1) by simp
    have acc: "out_count u (int r) (int i) = Some ?n" "out_buffer u (int r) (int i) = Some (buffers (reps s ! r) ! i)"
      "aget (ext_out_fds u) (int i) = Some (ext_out_fds s ! i)"
      using rep_access(3,4) [OF oku r i] u(1) i m_ok_ends(2) [OF ok] by simp_all
    have rd: "mem_read (buffers (reps s ! r) ! i) 0 ?n = Some (m_answer s r i)"
      using m_ok_lists [OF ok r i] by (simp add: mem_read_in m_answer_def)
    let ?h = "snd (sys_write K (ext_out_fds s ! i) (m_answer s r i) h)"
    have "?n = 0 \<longleftrightarrow> m_answer s r i = []" using answer_empty [OF ok r i] by simp
    moreover have "?P (Suc i) (s\<lparr>m_hist := ?h\<rparr>)" if "m_answer s r i \<noteq> []"
      using u(2,3) that by (intro exI [of _ ?h]) (simp add: outputs_def)
    moreover have "?P (Suc i) u" if "m_answer s r i = []"
      using u that by (intro exI [of _ h]) (simp add: outputs_def)
    moreover have "?body (int i) u = Some (if ?n = 0 then u else s\<lparr>m_hist := ?h\<rparr>)"
      using acc rd u(1) by simp
    ultimately have "?body (int i) u = Some (if m_answer s r i = [] then u else s\<lparr>m_hist := ?h\<rparr>)
      \<and> ?P (Suc i) (if m_answer s r i = [] then u else s\<lparr>m_hist := ?h\<rparr>)"
      by presburger
    then show "\<exists>u'. ?body (int i) u = Some u' \<and> ?P (Suc i) u'" by (rule exI)
  qed
  then show thesis using that by blast
qed

lemma zero_count_eq:
  assumes ok: "m_ok a b c s" and rp: "r < c" "p < b"
  shows "\<exists>x. on_rep (int r) (\<lambda>x. do { cs \<leftarrow> aset (buff_counts x) (int p) 0; Some (x\<lparr>buff_counts := cs\<rparr>) }) s
      = Some (s\<lparr>reps := x\<rparr>) \<and> m_ok a b c (s\<lparr>reps := x\<rparr>)
    \<and> (\<forall>i q. buff_counts (x ! i) ! q = (if i = r \<and> q = p then 0 else buff_counts (reps s ! i) ! q))"
proof -
  let ?y = "(reps s ! r)\<lparr>buff_counts := (buff_counts (reps s ! r))[p := 0]\<rparr>"
  have "wf_R a b ?y" using m_ok_rep [OF ok rp(1)] by (auto simp: wf_R_def intro!: list_all_update)
  moreover have "on_rep (int r) (\<lambda>x. do { cs \<leftarrow> aset (buff_counts x) (int p) 0; Some (x\<lparr>buff_counts := cs\<rparr>) }) s
      = Some (s\<lparr>reps := (reps s)[r := ?y]\<rparr>)"
    by (rule on_rep_eq [OF ok rp(1)]) (use m_ok_lists(5) [OF ok rp] in simp)
  moreover have "buff_counts ((reps s)[r := ?y] ! i) ! q = (if i = r \<and> q = p then 0 else buff_counts (reps s ! i) ! q)" for i q
    using m_ok_lists(5) [OF ok rp] m_ok_counts(6) [OF ok] rp(1) by (cases "i = r") (auto simp: nth_list_update)
  ultimately show ?thesis using m_ok_set(1) [OF ok] by blast
qed

lemma clear_loop_eq:
  assumes ok: "m_ok a b c s"
  obtains x where "for_upto 0 (int c) (\<lambda>r_index s. for_upto 0 (out_pipe_count s) (\<lambda>p_index s.
           on_rep r_index (\<lambda>x. do { cs \<leftarrow> aset (buff_counts x) p_index 0; Some (x\<lparr>buff_counts := cs\<rparr>) }) s) s) s
         = Some (s\<lparr>reps := x\<rparr>)" "m_ok a b c (s\<lparr>reps := x\<rparr>)"
    "\<And>r p. r < c \<Longrightarrow> p < b \<Longrightarrow> buff_counts (x ! r) ! p = 0"
proof -
  let ?z = "\<lambda>r p s. on_rep r (\<lambda>x. do { cs \<leftarrow> aset (buff_counts x) p 0; Some (x\<lparr>buff_counts := cs\<rparr>) }) s"
  let ?P = "\<lambda>k m u. \<exists>x. u = s\<lparr>reps := x\<rparr> \<and> m_ok a b c u
     \<and> (\<forall>r p. p < b \<and> (r < k \<or> r = k \<and> p < m) \<longrightarrow> buff_counts (x ! r) ! p = 0)"
  have inner: "\<exists>u'. for_upto 0 (int b) (?z (int k)) u = Some u' \<and> ?P k b u'" if k: "k < c" and u: "?P k 0 u" for k u
  proof (rule for_upto_nat [where P = "?P k"])
    show "?P k 0 u" using u .
    fix m v assume m: "m < b" and "?P k m v"
    then obtain x where v: "v = s\<lparr>reps := x\<rparr>" "m_ok a b c v"
      "\<forall>r p. p < b \<and> (r < k \<or> r = k \<and> p < m) \<longrightarrow> buff_counts (x ! r) ! p = 0" by blast
    obtain y where y: "?z (int k) (int m) v = Some (v\<lparr>reps := y\<rparr>)" "m_ok a b c (v\<lparr>reps := y\<rparr>)"
      "\<forall>i q. buff_counts (y ! i) ! q = (if i = k \<and> q = m then 0 else buff_counts (reps v ! i) ! q)"
      using zero_count_eq [OF v(2) k m] by blast
    have "?P k (Suc m) (v\<lparr>reps := y\<rparr>)"
      using y(2,3) v(1,3) by (intro exI [of _ y]) (auto simp: less_Suc_eq)
    then show "\<exists>u'. ?z (int k) (int m) v = Some u' \<and> ?P k (Suc m) u'" using y(1) by blast
  qed
  have "\<exists>u. for_upto 0 (int c) (\<lambda>r s. for_upto 0 (out_pipe_count s) (?z r) s) s = Some u \<and> ?P c 0 u"
  proof (rule for_upto_nat [where P = "\<lambda>k. ?P k 0"])
    show "?P 0 0 s" using ok by (intro exI [of _ "reps s"]) simp
    fix k u assume k: "k < c" and u: "?P k 0 u"
    have n: "out_pipe_count u = int b" using u m_ok_counts(2) by blast
    obtain u' where u': "for_upto 0 (int b) (?z (int k)) u = Some u'" "?P k b u'" using inner [OF k u] by blast
    have "?P (Suc k) 0 u'" using u'(2) by (auto simp: less_Suc_eq)
    then show "\<exists>u'. for_upto 0 (out_pipe_count u) (?z (int k)) u = Some u' \<and> ?P (Suc k) 0 u'"
      unfolding n using u'(1) by blast
  qed
  then obtain u x where u: "for_upto 0 (int c) (\<lambda>r s. for_upto 0 (out_pipe_count s) (?z r) s) s = Some u"
    "u = s\<lparr>reps := x\<rparr>" "m_ok a b c u"
    "\<forall>r p. p < b \<and> (r < c \<or> r = c \<and> p < 0) \<longrightarrow> buff_counts (x ! r) ! p = 0" by blast
  have run: "for_upto 0 (int c) (\<lambda>r s. for_upto 0 (out_pipe_count s) (?z r) s) s = Some (s\<lparr>reps := x\<rparr>)"
    using u(1) unfolding u(2) .
  have "m_ok a b c (s\<lparr>reps := x\<rparr>)" using u(3) unfolding u(2) .
  moreover have "buff_counts (x ! r) ! p = 0" if "r < c" "p < b" for r p using u(4) that by blast
  ultimately show thesis by (rule that [OF run])
qed

lemma sendData_eq:
  assumes ok: "m_ok a b c s" and r: "r < c"
  obtains x h where "sendData K (int r) s = Some (s\<lparr>reps := x, m_hist := h\<rparr>)" "m_ok a b c (s\<lparr>reps := x, m_hist := h\<rparr>)"
    "writes h = writes (m_hist s) @ outputs s r b" "\<And>sig. killed sig h = killed sig (m_hist s)"
    "\<And>r p. r < c \<Longrightarrow> p < b \<Longrightarrow> buff_counts (x ! r) ! p = 0"
proof -
  obtain h where h: "for_upto 0 (int b) (\<lambda>p_index s. do {
         n \<leftarrow> out_count s (int r) p_index;
         if n \<noteq> 0 then do {
           fd \<leftarrow> aget (ext_out_fds s) p_index;
           x \<leftarrow> out_buffer s (int r) p_index;
           bs \<leftarrow> mem_read x 0 n;
           Some (s\<lparr>m_hist := snd (sys_write K fd bs (m_hist s))\<rparr>)
         }
         else Some s }) s = Some (s\<lparr>m_hist := h\<rparr>)"
    "writes h = writes (m_hist s) @ outputs s r b" "\<And>sig. killed sig h = killed sig (m_hist s)"
    by (rule send_loop_eq [OF ok r, where K = K]) blast
  let ?s = "s\<lparr>m_hist := h\<rparr>"
  have oks: "m_ok a b c ?s" using ok by simp
  obtain x where x: "for_upto 0 (int c) (\<lambda>r_index s. for_upto 0 (out_pipe_count s) (\<lambda>p_index s.
           on_rep r_index (\<lambda>x. do { cs \<leftarrow> aset (buff_counts x) p_index 0; Some (x\<lparr>buff_counts := cs\<rparr>) }) s) s) ?s
         = Some (?s\<lparr>reps := x\<rparr>)" "m_ok a b c (?s\<lparr>reps := x\<rparr>)"
    "\<And>r p. r < c \<Longrightarrow> p < b \<Longrightarrow> buff_counts (x ! r) ! p = 0"
    by (rule clear_loop_eq [OF oks]) blast
  have "sendData K (int r) s = Some (s\<lparr>reps := x, m_hist := h\<rparr>)"
    using h(1) x(1) by (simp add: sendData_def m_ok_counts(2,3) [OF ok])
  moreover have "m_ok a b c (s\<lparr>reps := x, m_hist := h\<rparr>)" using x(2) by simp
  ultimately show thesis by (rule that) (use h(2,3) x(3) in simp_all)
qed

text \<open>Only descriptors (and the history) changed.\<close>

definition kept :: "voterm \<Rightarrow> voterm \<Rightarrow> bool" where
  "kept s t \<longleftrightarrow> rest t = rest s \<and> m_exited t = m_exited s \<and> (\<forall>r. rr_pid (reps t ! r) = rr_pid (reps s ! r)
     \<and> buff_counts (reps t ! r) = buff_counts (reps s ! r) \<and> buffers (reps t ! r) = buffers (reps s ! r))"

lemma kept_refl [simp]: "kept s s" "kept s (s\<lparr>m_hist := h\<rparr>)"
  by (simp_all add: kept_def)

lemma kept_trans: "kept s t \<Longrightarrow> kept t u \<Longrightarrow> kept s u"
  by (simp add: kept_def)

lemma kept_hist [simp]: "kept (s\<lparr>m_hist := h\<rparr>) t = kept s t"
  by (simp add: kept_def)

lemma kept_answer: "kept s t \<Longrightarrow> m_answer t = m_answer s"
  by (simp add: kept_def m_answer_def fun_eq_iff)

lemma set_fd_keeps:
  assumes ok: "m_ok a b c s" and r: "r < c"
  shows "p < a \<Longrightarrow> \<exists>t. on_rep (int r) (set_fd_in (int p) fd) s = Some t \<and> m_ok a b c t \<and> kept s t \<and> m_hist t = m_hist s"
    and "p < b \<Longrightarrow> \<exists>t. on_rep (int r) (set_fd_out (int p) fd) s = Some t \<and> m_ok a b c t \<and> kept s t \<and> m_hist t = m_hist s"
    and "p < a \<Longrightarrow> \<exists>t. on_for_rep (int r) (set_fd_in (int p) fd) s = Some t \<and> m_ok a b c t \<and> kept s t \<and> m_hist t = m_hist s"
    and "p < b \<Longrightarrow> \<exists>t. on_for_rep (int r) (set_fd_out (int p) fd) s = Some t \<and> m_ok a b c t \<and> kept s t \<and> m_hist t = m_hist s"
proof -
  let ?x = "reps s ! r" and ?z = "for_reps s ! r"
  have len: "length (fd_ins ?x) = a" "length (fd_outs ?x) = b" "length (fd_ins ?z) = a" "length (fd_outs ?z) = b"
    using m_ok_rep [OF ok r] m_ok_for [OF ok r] by (simp_all add: wf_R_def wf_for_def)
  have R: "kept s (s\<lparr>reps := (reps s)[r := y]\<rparr>)"
    if "rr_pid y = rr_pid ?x" "buff_counts y = buff_counts ?x" "buffers y = buffers ?x" for y
    using that m_ok_counts(6) [OF ok] r by (auto simp: kept_def nth_list_update)
  have F: "kept s (s\<lparr>for_reps := y\<rparr>)" for y by (simp add: kept_def)
  show "\<exists>t. on_rep (int r) (set_fd_in (int p) fd) s = Some t \<and> m_ok a b c t \<and> kept s t \<and> m_hist t = m_hist s" if "p < a"
  proof -
    let ?y = "?x\<lparr>fd_ins := (fd_ins ?x)[p := fd]\<rparr>"
    have "on_rep (int r) (set_fd_in (int p) fd) s = Some (s\<lparr>reps := (reps s)[r := ?y]\<rparr>)"
      by (rule on_rep_eq [OF ok r]) (use len that in \<open>simp add: set_fd_in_def\<close>)
    moreover have "wf_R a b ?y" using m_ok_rep [OF ok r] by (simp add: wf_R_def)
    ultimately show ?thesis using m_ok_set(1) [OF ok] R [of ?y] by auto
  qed
  show "\<exists>t. on_rep (int r) (set_fd_out (int p) fd) s = Some t \<and> m_ok a b c t \<and> kept s t \<and> m_hist t = m_hist s" if "p < b"
  proof -
    let ?y = "?x\<lparr>fd_outs := (fd_outs ?x)[p := fd]\<rparr>"
    have "on_rep (int r) (set_fd_out (int p) fd) s = Some (s\<lparr>reps := (reps s)[r := ?y]\<rparr>)"
      by (rule on_rep_eq [OF ok r]) (use len that in \<open>simp add: set_fd_out_def\<close>)
    moreover have "wf_R a b ?y" using m_ok_rep [OF ok r] by (simp add: wf_R_def)
    ultimately show ?thesis using m_ok_set(1) [OF ok] R [of ?y] by auto
  qed
  show "\<exists>t. on_for_rep (int r) (set_fd_in (int p) fd) s = Some t \<and> m_ok a b c t \<and> kept s t \<and> m_hist t = m_hist s" if "p < a"
  proof -
    let ?y = "?z\<lparr>fd_ins := (fd_ins ?z)[p := fd]\<rparr>"
    have "on_for_rep (int r) (set_fd_in (int p) fd) s = Some (s\<lparr>for_reps := (for_reps s)[r := ?y]\<rparr>)"
      by (rule on_for_rep_eq [OF ok r]) (use len that in \<open>simp add: set_fd_in_def\<close>)
    moreover have "wf_for a b ?y" using m_ok_for [OF ok r] by (simp add: wf_for_def)
    ultimately show ?thesis using m_ok_set(2) [OF ok] F by auto
  qed
  show "\<exists>t. on_for_rep (int r) (set_fd_out (int p) fd) s = Some t \<and> m_ok a b c t \<and> kept s t \<and> m_hist t = m_hist s" if "p < b"
  proof -
    let ?y = "?z\<lparr>fd_outs := (fd_outs ?z)[p := fd]\<rparr>"
    have "on_for_rep (int r) (set_fd_out (int p) fd) s = Some (s\<lparr>for_reps := (for_reps s)[r := ?y]\<rparr>)"
      by (rule on_for_rep_eq [OF ok r]) (use len that in \<open>simp add: set_fd_out_def\<close>)
    moreover have "wf_for a b ?y" using m_ok_for [OF ok r] by (simp add: wf_for_def)
    ultimately show ?thesis using m_ok_set(2) [OF ok] F by auto
  qed
qed

text \<open>Both ends of a pipe set, silently: the body of the loops that close and open pipes.\<close>

definition quietly :: "nat \<Rightarrow> nat \<Rightarrow> nat \<Rightarrow> (voterm \<Rightarrow> voterm option) \<Rightarrow> voterm \<Rightarrow> bool" where
  "quietly a b c f s \<longleftrightarrow> (\<exists>t. f s = Some t \<and> m_ok a b c t \<and> kept s t \<and> silently (m_hist s) (m_hist t))"

lemma quietly_bind:
  "quietly a b c f s \<Longrightarrow> (\<And>t. m_ok a b c t \<Longrightarrow> quietly a b c g t) \<Longrightarrow> quietly a b c (\<lambda>s. do { t \<leftarrow> f s; g t }) s"
  unfolding quietly_def by (metis Option.bind.simps(2) kept_trans silently_trans)

lemma quietly_loop:
  assumes ok: "m_ok a b c s" and step: "\<And>i t. i < n \<Longrightarrow> m_ok a b c t \<Longrightarrow> quietly a b c (f (int i)) t"
  shows "quietly a b c (for_upto 0 (int n) f) s"
proof -
  have "\<exists>t. for_upto 0 (int n) f s = Some t \<and> (m_ok a b c t \<and> kept s t \<and> silently (m_hist s) (m_hist t))"
  proof (rule for_upto_nat [where P = "\<lambda>_ t. m_ok a b c t \<and> kept s t \<and> silently (m_hist s) (m_hist t)"])
    fix i t assume "i < n" and t: "m_ok a b c t \<and> kept s t \<and> silently (m_hist s) (m_hist t)"
    then obtain u where "f (int i) t = Some u" "m_ok a b c u" "kept t u" "silently (m_hist t) (m_hist u)"
      using step unfolding quietly_def by metis
    with t show "\<exists>u. f (int i) t = Some u \<and> (m_ok a b c u \<and> kept s u \<and> silently (m_hist s) (m_hist u))"
      using kept_trans silently_trans by blast
  qed (use ok in simp)
  then show ?thesis by (simp add: quietly_def)
qed

lemma close_in_quietly:
  assumes ok: "m_ok a b c s" and r: "r < c" and p: "p < a"
  shows "quietly a b c (\<lambda>s. do {
         x \<leftarrow> in_fd s (int r) (int p);
         s \<leftarrow> on_rep (int r) (set_fd_in (int p) 0) (s\<lparr>m_hist := sys_close x (m_hist s)\<rparr>);
         y \<leftarrow> aget (for_reps s) (int r);
         z \<leftarrow> aget (fd_ins y) (int p);
         on_for_rep (int r) (set_fd_in (int p) 0) (s\<lparr>m_hist := sys_close z (m_hist s)\<rparr>) }) s"
proof -
  let ?s1 = "s\<lparr>m_hist := sys_close (fd_ins (reps s ! r) ! p) (m_hist s)\<rparr>"
  have "m_ok a b c ?s1" using ok by simp
  then obtain t where t: "on_rep (int r) (set_fd_in (int p) 0) ?s1 = Some t" "m_ok a b c t" "kept s t"
    "m_hist t = sys_close (fd_ins (reps s ! r) ! p) (m_hist s)" using set_fd_keeps(1) [OF _ r p, of b ?s1 0] by auto
  let ?t1 = "t\<lparr>m_hist := sys_close (fd_ins (for_reps t ! r) ! p) (m_hist t)\<rparr>"
  have "m_ok a b c ?t1" using t(2) by simp
  then obtain u where u: "on_for_rep (int r) (set_fd_in (int p) 0) ?t1 = Some u" "m_ok a b c u" "kept t u"
    "m_hist u = sys_close (fd_ins (for_reps t ! r) ! p) (m_hist t)" using set_fd_keeps(3) [OF _ r p, of b ?t1 0] by auto
  have "aget (for_reps t) (int r) = Some (for_reps t ! r)" "aget (fd_ins (for_reps t ! r)) (int p) = Some (fd_ins (for_reps t ! r) ! p)"
    using m_ok_counts(7) [OF t(2)] m_ok_for [OF t(2) r] r p by (simp_all add: wf_for_def)
  then show ?thesis
    using rep_access(1) [OF ok r p] t u kept_trans [OF t(3) u(3)] by (simp add: quietly_def sys_close_def)
qed

lemma close_out_quietly:
  assumes ok: "m_ok a b c s" and r: "r < c" and p: "p < b"
  shows "quietly a b c (\<lambda>s. do {
         x \<leftarrow> out_fd s (int r) (int p);
         s \<leftarrow> on_rep (int r) (set_fd_out (int p) 0) (s\<lparr>m_hist := sys_close x (m_hist s)\<rparr>);
         y \<leftarrow> aget (for_reps s) (int r);
         z \<leftarrow> aget (fd_outs y) (int p);
         on_for_rep (int r) (set_fd_out (int p) 0) (s\<lparr>m_hist := sys_close z (m_hist s)\<rparr>) }) s"
proof -
  let ?s1 = "s\<lparr>m_hist := sys_close (fd_outs (reps s ! r) ! p) (m_hist s)\<rparr>"
  have "m_ok a b c ?s1" using ok by simp
  then obtain t where t: "on_rep (int r) (set_fd_out (int p) 0) ?s1 = Some t" "m_ok a b c t" "kept s t"
    "m_hist t = sys_close (fd_outs (reps s ! r) ! p) (m_hist s)" using set_fd_keeps(2) [OF _ r p, of a ?s1 0] by auto
  let ?t1 = "t\<lparr>m_hist := sys_close (fd_outs (for_reps t ! r) ! p) (m_hist t)\<rparr>"
  have "m_ok a b c ?t1" using t(2) by simp
  then obtain u where u: "on_for_rep (int r) (set_fd_out (int p) 0) ?t1 = Some u" "m_ok a b c u" "kept t u"
    "m_hist u = sys_close (fd_outs (for_reps t ! r) ! p) (m_hist t)" using set_fd_keeps(4) [OF _ r p, of a ?t1 0] by auto
  have "aget (for_reps t) (int r) = Some (for_reps t ! r)" "aget (fd_outs (for_reps t ! r)) (int p) = Some (fd_outs (for_reps t ! r) ! p)"
    using m_ok_counts(7) [OF t(2)] m_ok_for [OF t(2) r] r p by (simp_all add: wf_for_def)
  then show ?thesis
    using rep_access(2) [OF ok r p] t u kept_trans [OF t(3) u(3)] by (simp add: quietly_def sys_close_def)
qed

lemma make_pipes_quietly:
  assumes ok: "m_ok a b c s" and r: "r < c"
  shows "p < a \<Longrightarrow> quietly a b c (make_in_pipe K (int r) (int p)) s"
    and "p < b \<Longrightarrow> quietly a b c (make_out_pipe K (int r) (int p)) s"
proof -
  obtain pp h where pp: "sys_pipe K (m_hist s) = (pp, h)" by (cases "sys_pipe K (m_hist s)") auto
  have sil: "silently (m_hist s) h" using sys_silent(2) [OF pp] .
  have oks: "m_ok a b c (s\<lparr>m_hist := h\<rparr>)" using ok by simp
  show "quietly a b c (make_in_pipe K (int r) (int p)) s" if p: "p < a"
  proof (cases pp)
    case None
    then show ?thesis using pp sil oks by (simp add: quietly_def make_in_pipe_def)
  next
    case (Some x)
    obtain fd0 fd1 where x: "x = (fd0, fd1)" by (cases x)
    obtain t where t: "on_rep (int r) (set_fd_in (int p) (u32 fd1)) (s\<lparr>m_hist := h\<rparr>) = Some t" "m_ok a b c t" "kept s t" "m_hist t = h"
      using set_fd_keeps(1) [OF oks r p, of "u32 fd1"] by auto
    obtain u where u: "on_for_rep (int r) (set_fd_in (int p) (u32 fd0)) t = Some u" "m_ok a b c u" "kept t u" "m_hist u = h"
      using set_fd_keeps(3) [OF t(2) r p, of "u32 fd0"] t(4) by auto
    show ?thesis using pp Some x t u sil kept_trans [OF t(3) u(3)] by (simp add: quietly_def make_in_pipe_def)
  qed
  show "quietly a b c (make_out_pipe K (int r) (int p)) s" if p: "p < b"
  proof (cases pp)
    case None
    then show ?thesis using pp sil oks by (simp add: quietly_def make_out_pipe_def)
  next
    case (Some x)
    obtain fd0 fd1 where x: "x = (fd0, fd1)" by (cases x)
    obtain t where t: "on_rep (int r) (set_fd_out (int p) (u32 fd0)) (s\<lparr>m_hist := h\<rparr>) = Some t" "m_ok a b c t" "kept s t" "m_hist t = h"
      using set_fd_keeps(2) [OF oks r p, of "u32 fd0"] by auto
    obtain u where u: "on_for_rep (int r) (set_fd_out (int p) (u32 fd1)) t = Some u" "m_ok a b c u" "kept t u" "m_hist u = h"
      using set_fd_keeps(4) [OF t(2) r p, of "u32 fd1"] t(4) by auto
    show ?thesis using pp Some x t u sil kept_trans [OF t(3) u(3)] by (simp add: quietly_def make_out_pipe_def)
  qed
qed

lemma killAndClean_eq:
  assumes ok: "m_ok a b c s" and f: "f < c"
  obtains t where "killAndClean K (int f) s = Some t" "m_ok a b c t" "kept s t"
    "silently (snd (sys_kill K (rr_pid (reps s ! f)) SIGKILL (m_hist s))) (m_hist t)"
proof -
  let ?s0 = "s\<lparr>m_hist := snd (sys_kill K (rr_pid (reps s ! f)) SIGKILL (m_hist s))\<rparr>"
  let ?close_in = "\<lambda>p_index s. do {
         a \<leftarrow> in_fd s (int f) p_index;
         s \<leftarrow> on_rep (int f) (set_fd_in p_index 0) (s\<lparr>m_hist := sys_close a (m_hist s)\<rparr>);
         y \<leftarrow> aget (for_reps s) (int f);
         b \<leftarrow> aget (fd_ins y) p_index;
         on_for_rep (int f) (set_fd_in p_index 0) (s\<lparr>m_hist := sys_close b (m_hist s)\<rparr>) }"
  let ?close_out = "\<lambda>p_index s. do {
         a \<leftarrow> out_fd s (int f) p_index;
         s \<leftarrow> on_rep (int f) (set_fd_out p_index 0) (s\<lparr>m_hist := sys_close a (m_hist s)\<rparr>);
         y \<leftarrow> aget (for_reps s) (int f);
         b \<leftarrow> aget (fd_outs y) p_index;
         on_for_rep (int f) (set_fd_out p_index 0) (s\<lparr>m_hist := sys_close b (m_hist s)\<rparr>) }"
  have ok0: "m_ok a b c ?s0" using ok by simp
  have "quietly a b c (\<lambda>s. do { s1 \<leftarrow> for_upto 0 (int a) ?close_in s; for_upto 0 (int b) ?close_out s1 }) ?s0"
    by (rule quietly_bind; rule quietly_loop) (use ok0 f close_in_quietly close_out_quietly in blast)+
  then obtain s1 s2 where s2: "for_upto 0 (int a) ?close_in ?s0 = Some s1" "for_upto 0 (int b) ?close_out s1 = Some s2"
    "m_ok a b c s2" "kept ?s0 s2" "silently (m_hist ?s0) (m_hist s2)"
    unfolding quietly_def bind_eq_Some_conv by blast
  have s1: "out_pipe_count s1 = int b"
  proof -
    have "quietly a b c (for_upto 0 (int a) ?close_in) ?s0"
      by (rule quietly_loop [OF ok0]) (use f close_in_quietly in blast)
    then show ?thesis using s2(1) m_ok_counts(2) unfolding quietly_def by fastforce
  qed
  have rep: "aget (reps s) (int f) = Some (reps s ! f)" using m_ok_counts(6) [OF ok] f by simp
  let ?t = "if m_rep_count s2 = 1 then s2\<lparr>m_hist := snd (sys_waitpid K (m_hist s2))\<rparr> else s2"
  have "killAndClean K (int f) s = Some ?t"
    using rep s2(1,2) s1 m_ok_counts(1) [OF ok] by (simp add: killAndClean_def)
  moreover have "silently (m_hist ?s0) (m_hist ?t)"
    using s2(5) sys_silent(4) [of K "m_hist s2"] by (auto intro: silently_trans simp: sys_waitpid_def Let_def)
  moreover have "m_ok a b c ?t" "kept s ?t" using s2(3,4) kept_trans [OF s2(4)[simplified] kept_refl(2)] by simp_all
  ultimately show thesis using that by auto
qed

lemma accept_total:
  assumes ok: "m_ok a b c s" and r: "r < c"
  obtains pid h where "M_acceptSendFDS K sock (for_reps s ! r) (rep_info_in s) (rep_info_out s) g = Some (pid, h)" "silently g h"
proof -
  let ?y = "for_reps s ! r"
  have y: "length (fd_ins ?y) = a" "length (fd_outs ?y) = b" "rr_in_pipe_count ?y = int a" "rr_out_pipe_count ?y = int b"
    using m_ok_for [OF ok r] by (simp_all add: wf_for_def)
  have i: "length (rep_info_in s) = a" "length (rep_info_out s) = b" using m_ok_ends(3,4) [OF ok] by simp_all
  obtain conn h1 where acc: "sys_accept K sock g = (conn, h1)" by (cases "sys_accept K sock g")
  have total: "\<exists>res. for_upto 0 (int n) f x = Some res" if "\<And>i y. i < n \<Longrightarrow> \<exists>z. f (int i) y = Some z" for n f and x :: "'z list"
    using for_upto_nat [where P = "\<lambda>_ _. True" and n = n and f = f and s = x] that by auto
  obtain ins where ins: "for_upto 0 (int a) (\<lambda>i ps. do { fd \<leftarrow> aget (fd_ins ?y) i; info \<leftarrow> aget (rep_info_in s) i;
         Some (ps @ [\<lparr>tp_type = M_commToEnum info, tp_fd_in = fd, tp_fd_out = 0\<rparr>]) }) [] = Some ins"
    using total [of a "\<lambda>i ps. do { fd \<leftarrow> aget (fd_ins ?y) i; info \<leftarrow> aget (rep_info_in s) i;
         Some (ps @ [\<lparr>tp_type = M_commToEnum info, tp_fd_in = fd, tp_fd_out = 0\<rparr>]) }" "[]"] y i by auto
  obtain ps where ps: "for_upto 0 (int b) (\<lambda>i ps. do { fd \<leftarrow> aget (fd_outs ?y) i; info \<leftarrow> aget (rep_info_out s) i;
         Some (ps @ [\<lparr>tp_type = M_commToEnum info, tp_fd_in = 0, tp_fd_out = fd\<rparr>]) }) ins = Some ps"
    using total [of b "\<lambda>i ps. do { fd \<leftarrow> aget (fd_outs ?y) i; info \<leftarrow> aget (rep_info_out s) i;
         Some (ps @ [\<lparr>tp_type = M_commToEnum info, tp_fd_in = 0, tp_fd_out = fd\<rparr>]) }" ins] y i by auto
  obtain in_fds where in_fds: "for_upto 0 (int a) (\<lambda>i fds. do { fd \<leftarrow> aget (fd_ins ?y) i; Some (fds @ [fd]) }) [] = Some in_fds"
    using total [of a "\<lambda>i fds. do { fd \<leftarrow> aget (fd_ins ?y) i; Some (fds @ [fd]) }" "[]"] y by auto
  obtain fds where fds: "for_upto 0 (int b) (\<lambda>i fds. do { fd \<leftarrow> aget (fd_outs ?y) i; Some (fds @ [fd]) }) in_fds = Some fds"
    using total [of b "\<lambda>i fds. do { fd \<leftarrow> aget (fd_outs ?y) i; Some (fds @ [fd]) }" in_fds] y by auto
  have sent: "M_sendFDS K conn ?y (rep_info_in s) (rep_info_out s) (rr_pinned_cpu ?y) (rr_priority ?y) h1
      = Some (sys_sendmsg K conn (fds_payload ps (rr_pinned_cpu ?y) (rr_priority ?y)) fds h1)"
    unfolding M_sendFDS_def y ins ps in_fds fds Option.bind.simps ..
  obtain n h2 where n: "sys_sendmsg K conn (fds_payload ps (rr_pinned_cpu ?y) (rr_priority ?y)) fds h1 = (n, h2)"
    by (cases "sys_sendmsg K conn (fds_payload ps (rr_pinned_cpu ?y) (rr_priority ?y)) fds h1")
  obtain k bs h3 where k: "sys_read K conn 4 h2 = (k, bs, h3)" by (cases "sys_read K conn 4 h2") auto
  have sil: "silently g h1" "silently g h2" "silently g h3"
    using sys_silent(7) [OF acc] sys_silent(8) [OF n] sys_silent(1) [OF k] silently_trans by blast+
  have cl: "silently g (sys_close conn h')" if "silently g h'" for h'
    using silently_trans [OF that sys_silent(10)] .
  show thesis
  proof (cases "conn > -1")
    case False
    then show thesis using that acc cl [OF sil(1)] by (simp add: M_acceptSendFDS_def)
  next
    case True
    then show thesis using that acc sent n k cl [OF sil(2)] cl [OF sil(3)]
      by (cases "n < 0") (simp_all add: M_acceptSendFDS_def)
  qed
qed

text \<open>Only descriptors, process ids and the history changed.\<close>

definition resumed :: "voterm \<Rightarrow> voterm \<Rightarrow> bool" where
  "resumed s t \<longleftrightarrow> rest t = rest s \<and> (\<forall>r. buff_counts (reps t ! r) = buff_counts (reps s ! r)
     \<and> buffers (reps t ! r) = buffers (reps s ! r))"

lemma kept_resumed: "kept s t \<Longrightarrow> resumed s t"
  by (simp add: kept_def resumed_def)

lemma resumed_trans: "resumed s t \<Longrightarrow> resumed t u \<Longrightarrow> resumed s u"
  by (simp add: resumed_def)

lemma resumed_answer: "resumed s t \<Longrightarrow> m_answer t = m_answer s"
  by (simp add: resumed_def m_answer_def fun_eq_iff)

lemma resumed_outputs: "resumed s t \<Longrightarrow> outputs t = outputs s"
  using rest_fields(2) [of t s] by (simp add: outputs_def resumed_answer fun_eq_iff) (simp add: resumed_def)

text \<open>Starting replica \<open>f\<close>: with \<open>fork\<close> nobody is signalled, otherwise the healthy one before it.\<close>

definition fork_signal :: "bool \<Rightarrow> nat \<Rightarrow> voterm \<Rightarrow> int list" where
  "fork_signal forking c s =
     (if forking then [] else [rr_pid (reps s ! ((nat (fault_index s) + (c - 1)) mod c))])"

lemma start_one_eq:
  assumes ok: "m_ok a b c s" and f: "f < c" and fault: "\<not> forking \<Longrightarrow> 0 \<le> fault_index s"
  obtains t where "start_one K forking (int f) s = Some t" "m_ok a b c t" "resumed s t"
    "writes (m_hist t) = writes (m_hist s)"
    "\<And>sig. killed sig (m_hist t) = killed sig (m_hist s) @ (if sig = RESTART_SIGNAL then fork_signal forking c s else [])"
proof -
  have c: "0 < c" "length (reps s) = c" "m_rep_count s = int c" using m_ok_counts [OF ok] by simp_all
  let ?h = "(nat (fault_index s) + (c - 1)) mod c"
  have h: "(fault_index s + (m_rep_count s - 1)) smod m_rep_count s = int ?h" if "\<not> forking"
  proof -
    have "fault_index s + (m_rep_count s - 1) = int (nat (fault_index s) + (c - 1))" using fault [OF that] c by simp
    moreover have "int (nat (fault_index s) + (c - 1)) smod int c = int ?h"
      using smod_nonneg [of "int (nat (fault_index s) + (c - 1))" "int c"] c(1) by (simp only: zmod_int)
    ultimately show ?thesis by (simp only: c(3))
  qed
  have "\<exists>g. (if forking then M_forkReplicas K (int f) 1 s
               else do {
                 x \<leftarrow> aget (reps s) ((fault_index s + (m_rep_count s - 1)) smod m_rep_count s);
                 Some (s\<lparr>m_hist := snd (sys_kill K (rr_pid x) RESTART_SIGNAL (m_hist s))\<rparr>)
               }) = Some (s\<lparr>m_hist := g\<rparr>) \<and> writes g = writes (m_hist s)
      \<and> (\<forall>sig. killed sig g = killed sig (m_hist s) @ (if sig = RESTART_SIGNAL then fork_signal forking c s else []))"
  proof (cases forking)
    case True
    have "aget (reps s) (int f) = Some (reps s ! f)" using f c by simp
    obtain r g where g: "sys_fork_exec K [m_controller_name s, priority_string (rr_priority (reps s ! f)),
        pipe_count_string (in_pipe_count s + out_pipe_count s)] (m_hist s) = (r, g)"
      by (cases "sys_fork_exec K [m_controller_name s, priority_string (rr_priority (reps s ! f)),
        pipe_count_string (in_pipe_count s + out_pipe_count s)] (m_hist s)")
    have "silently (m_hist s) g" using sys_silent(5) [OF g] .
    then show ?thesis
      using True g \<open>aget (reps s) (int f) = Some (reps s ! f)\<close>
      by (intro exI [of _ g])
        (simp add: M_forkReplicas_def for_upto_step fork_signal_def silently_writes silently_killed)
  next
    case False
    have "aget (reps s) (int ?h) = Some (reps s ! ?h)" using c by (intro aget_int) simp
    then show ?thesis using False h by (auto simp: fork_signal_def)
  qed
  then obtain g where g: "(if forking then M_forkReplicas K (int f) 1 s
               else do {
                 x \<leftarrow> aget (reps s) ((fault_index s + (m_rep_count s - 1)) smod m_rep_count s);
                 Some (s\<lparr>m_hist := snd (sys_kill K (rr_pid x) RESTART_SIGNAL (m_hist s))\<rparr>)
               }) = Some (s\<lparr>m_hist := g\<rparr>)" "writes g = writes (m_hist s)"
    "\<And>sig. killed sig g = killed sig (m_hist s) @ (if sig = RESTART_SIGNAL then fork_signal forking c s else [])" by blast
  let ?s1 = "s\<lparr>m_hist := g\<rparr>"
  have ok1: "m_ok a b c ?s1" using ok by simp
  obtain pid h1 where acc: "M_acceptSendFDS K (m_sock s) (for_reps s ! f) (rep_info_in s) (rep_info_out s) g = Some (pid, h1)"
    "silently g h1" by (rule accept_total [OF ok f])
  note views = silently_writes [OF acc(2)] silently_killed [OF acc(2)]
  have y: "aget (for_reps ?s1) (int f) = Some (for_reps s ! f)" using f m_ok_counts(7) [OF ok] by simp
  let ?x = "(reps s ! f)\<lparr>rr_pid := pid\<rparr>"
  let ?t = "if pid < 0 then s\<lparr>m_hist := h1, m_exited := True\<rparr> else s\<lparr>m_hist := h1, reps := (reps s)[f := ?x]\<rparr>"
  have upd: "on_rep (int f) (\<lambda>x. Some (x\<lparr>rr_pid := pid\<rparr>)) (s\<lparr>m_hist := h1\<rparr>) = Some (s\<lparr>m_hist := h1, reps := (reps s)[f := ?x]\<rparr>)"
    using on_rep_eq [of a b c "s\<lparr>m_hist := h1\<rparr>" f "\<lambda>x. Some (x\<lparr>rr_pid := pid\<rparr>)"] ok f by simp
  have run: "start_one K forking (int f) s = Some ?t"
    unfolding start_one_def g(1) using y acc(1) upd by simp
  have "wf_R a b ?x" using m_ok_rep [OF ok f] by (simp add: wf_R_def)
  then have ok': "m_ok a b c ?t" using ok m_ok_set(1) [OF ok] by simp
  have res: "resumed s ?t" using f c by (auto simp: resumed_def nth_list_update)
  show thesis by (rule that [OF run ok' res]) (use views g in auto)
qed

lemma start_replica_eq:
  assumes ok: "m_ok a b c s" and f: "f < c" and fault: "\<not> forking \<Longrightarrow> 0 \<le> fault_index s" and live: "\<not> m_exited s"
  obtains t where "M_startReplicas K forking (int f) 1 s = Some t" "m_ok a b c t" "resumed s t"
    "writes (m_hist t) = writes (m_hist s)"
    "\<And>sig. killed sig (m_hist t) = killed sig (m_hist s) @ (if sig = RESTART_SIGNAL then fork_signal forking c s else [])"
proof -
  have "quietly a b c (\<lambda>s. do { s1 \<leftarrow> for_upto 0 (int a) (make_in_pipe K (int f)) s; for_upto 0 (int b) (make_out_pipe K (int f)) s1 }) s"
    by (rule quietly_bind; rule quietly_loop) (use ok f make_pipes_quietly in blast)+
  then obtain s1 s2 where s2: "for_upto 0 (int a) (make_in_pipe K (int f)) s = Some s1"
    "for_upto 0 (int b) (make_out_pipe K (int f)) s1 = Some s2" "m_ok a b c s2" "kept s s2" "silently (m_hist s) (m_hist s2)"
    unfolding quietly_def bind_eq_Some_conv by blast
  have s1: "out_pipe_count s1 = int b"
  proof -
    have "quietly a b c (for_upto 0 (int a) (make_in_pipe K (int f))) s"
      by (rule quietly_loop [OF ok]) (use f make_pipes_quietly(1) in blast)
    then show ?thesis using s2(1) m_ok_counts(2) unfolding quietly_def by fastforce
  qed
  have fi: "fault_index s2 = fault_index s" using s2(4) rest_fields(1) [of s2 s] by (simp add: kept_def)
  have sig: "fork_signal forking c s2 = fork_signal forking c s" using s2(4) fi by (simp add: fork_signal_def kept_def)
  obtain t where t: "start_one K forking (int f) s2 = Some t" "m_ok a b c t" "resumed s2 t"
    "writes (m_hist t) = writes (m_hist s2)"
    "\<And>sig. killed sig (m_hist t) = killed sig (m_hist s2) @ (if sig = RESTART_SIGNAL then fork_signal forking c s2 else [])"
    using start_one_eq [OF s2(3) f, of forking K] fault fi by metis
  have live2: "\<not> m_exited s2" using live s2(4) by (simp add: kept_def)
  have run: "M_startReplicas K forking (int f) 1 s = Some t"
    using s2(1,2) s1 t(1) live2 m_ok_counts(1) [OF ok] by (simp add: M_startReplicas_def for_upto_step)
  show thesis
    by (rule that [OF run t(2) resumed_trans [OF kept_resumed [OF s2(4)] t(3)]])
      (use t(4,5) silently_writes [OF s2(5)] silently_killed [OF s2(5)] sig in auto)
qed

section \<open>Recovering and voting\<close>

text \<open>The healthy replica whose answers are sent when replica \<open>f\<close> is blamed.\<close>

definition donor :: "nat \<Rightarrow> nat \<Rightarrow> nat" where
  "donor c f = (f + (c - 1)) mod c"

lemma healthy_rep_eq:
  assumes ok: "m_ok a b c s" and f: "fault_index s = int f"
  shows "healthy_rep s = int (donor c f)"
proof -
  have c: "0 < c" "m_rep_count s = int c" using m_ok_counts [OF ok] by simp_all
  have "fault_index s + (m_rep_count s - 1) = int (f + (c - 1))" using f c by simp
  then show ?thesis using c smod_nonneg [of "int (f + (c - 1))" "int c"]
    by (simp only: healthy_rep_def donor_def zmod_int)
qed

lemma donor_less: "0 < c \<Longrightarrow> donor c f < c"
  by (simp add: donor_def)

lemma donor_other:
  assumes "2 \<le> c" "f < c"
  shows "donor c f \<noteq> f"
proof (cases "f = 0")
  case False
  then have "f + (c - 1) = (f - 1) + c" using assms by simp
  then have "donor c f = f - 1" using assms by (simp only: donor_def mod_add_self2) simp
  then show ?thesis using False by simp
qed (use assms in \<open>simp add: donor_def\<close>)

lemma recover_eq:
  assumes ok: "m_ok a b c s" and f: "fault_index s = int f" "f < c" and live: "\<not> m_exited s"
  obtains t where "recover K s = Some (True, t)" "m_ok a b c t"
    "writes (m_hist t) = writes (m_hist s) @ (if m_exited t then [] else outputs s (donor c f) b)"
    "\<And>sig. killed sig (m_hist t) = killed sig (m_hist s)
       @ (if sig = RESTART_SIGNAL then [rr_pid (reps s ! donor c f)] else [])"
proof -
  obtain t where t: "M_startReplicas K False (int f) 1 s = Some t" "m_ok a b c t" "resumed s t"
    "writes (m_hist t) = writes (m_hist s)"
    "\<And>sig. killed sig (m_hist t) = killed sig (m_hist s) @ (if sig = RESTART_SIGNAL then fork_signal False c s else [])"
    by (rule start_replica_eq [OF ok f(2) _ live, of False K]) (use f in auto)
  have sig: "fork_signal False c s = [rr_pid (reps s ! donor c f)]" using f by (simp add: fork_signal_def donor_def)
  show thesis
  proof (cases "m_exited t")
    case True
    show thesis by (rule that [of t]) (use t f sig True in \<open>auto simp: recover_def\<close>)
  next
    case False
    have "fault_index t = int f" using t(3) rest_fields(1) [of t s] f by (simp add: resumed_def)
    then have h: "healthy_rep t = int (donor c f)" using healthy_rep_eq [OF t(2)] by simp
    have d: "donor c f < c" using donor_less m_ok_counts(4) [OF ok] by blast
    obtain x h' where x: "sendData K (int (donor c f)) t = Some (t\<lparr>reps := x, m_hist := h'\<rparr>)"
      "m_ok a b c (t\<lparr>reps := x, m_hist := h'\<rparr>)" "writes h' = writes (m_hist t) @ outputs t (donor c f) b"
      "\<And>sig. killed sig h' = killed sig (m_hist t)" by (rule sendData_eq [OF t(2) d]) blast
    show thesis
      by (rule that [of "t\<lparr>reps := x, m_hist := h'\<rparr>"])
        (use t f sig False h x resumed_outputs [OF t(3)] in \<open>auto simp: recover_def\<close>)
  qed
qed

lemma vote_fault_eq:
  assumes ok: "m_ok a b c s" and sdc: "M_find_sdc s = Some (Some (int f))" and f: "f < c" and live: "\<not> m_exited s"
  obtains t where "vote_and_send K s = Some (True, t)" "m_ok a b c t"
    "writes (m_hist t) = writes (m_hist s) @ (if m_exited t then [] else outputs s (donor c f) b)"
    "\<And>sig. killed sig (m_hist t) = killed sig (m_hist s) @ (if sig = SIGKILL then [rr_pid (reps s ! f)] else [])
       @ (if sig = RESTART_SIGNAL then [rr_pid (reps s ! donor c f)] else [])"
proof -
  let ?s = "s\<lparr>fault_index := int f\<rparr>"
  have oks: "m_ok a b c ?s" using ok by simp
  obtain u where u: "killAndClean K (int f) ?s = Some u" "m_ok a b c u" "kept ?s u"
    "silently (snd (sys_kill K (rr_pid (reps ?s ! f)) SIGKILL (m_hist ?s))) (m_hist u)"
    by (rule killAndClean_eq [OF oks f])
  have fi: "fault_index u = int f" using u(3) rest_fields(1) [of u ?s] by (simp add: kept_def)
  have live': "\<not> m_exited u" and pid: "rr_pid (reps u ! r) = rr_pid (reps s ! r)" for r
    using u(3) live by (simp_all add: kept_def)
  have out: "outputs u = outputs s"
    using resumed_outputs [OF kept_resumed [OF u(3)]] by (simp add: outputs_def fun_eq_iff)
  obtain t where t: "recover K u = Some (True, t)" "m_ok a b c t"
    "writes (m_hist t) = writes (m_hist u) @ (if m_exited t then [] else outputs u (donor c f) b)"
    "\<And>sig. killed sig (m_hist t) = killed sig (m_hist u) @ (if sig = RESTART_SIGNAL then [rr_pid (reps u ! donor c f)] else [])"
    by (rule recover_eq [OF u(2) fi f live', where K = K]) blast
  have "vote_and_send K s = Some (True, t)" using sdc u(1) t(1) by (simp add: vote_and_send_def M_checkSDC_def)
  then show thesis
    by (rule that) (use t(2-4) out pid silently_writes [OF u(4)] silently_killed [OF u(4)] in auto)
qed

lemma vote_clean_eq:
  assumes ok: "m_ok a b c s" and sdc: "M_find_sdc s = Some None"
  obtains t where "vote_and_send K s = Some (True, t)" "m_ok a b c t"
    "writes (m_hist t) = writes (m_hist s) @ outputs s 0 b" "\<And>sig. killed sig (m_hist t) = killed sig (m_hist s)"
    "\<And>r p. r < c \<Longrightarrow> p < b \<Longrightarrow> buff_counts (reps t ! r) ! p = 0" "m_exited t = m_exited s"
proof -
  obtain x h' where x: "sendData K (int 0) s = Some (s\<lparr>reps := x, m_hist := h'\<rparr>)"
    "m_ok a b c (s\<lparr>reps := x, m_hist := h'\<rparr>)" "writes h' = writes (m_hist s) @ outputs s 0 b"
    "\<And>sig. killed sig h' = killed sig (m_hist s)" "\<And>r p. r < c \<Longrightarrow> p < b \<Longrightarrow> buff_counts (x ! r) ! p = 0"
    by (rule sendData_eq [OF ok m_ok_counts(4) [OF ok]]) blast
  show thesis
    by (rule that [of "s\<lparr>reps := x, m_hist := h'\<rparr>"]) (use sdc x in \<open>auto simp: vote_and_send_def M_checkSDC_def\<close>)
qed

text \<open>With any number of replicas the comparison ends and blames one of them, or none.\<close>

lemma find_sdc_total:
  assumes ok: "m_ok a b c s"
  obtains "M_find_sdc s = Some None" | f where "M_find_sdc s = Some (Some (int f))" "f < c"
proof -
  have c: "0 < c" "c \<le> 3" "m_rep_count s = int c" "out_pipe_count s = int b" using m_ok_counts [OF ok] by simp_all
  let ?P = "\<lambda>x. x = None \<or> (\<exists>f < c. x = Some (int f))"
  have one: "out_count s (int r) (int p) = Some (buff_counts (reps s ! r) ! p)" if "r < c" "p < b" for r p
    using rep_access(3) [OF ok that] .
  have cmp: "\<exists>m. cmp_answers s (int i) (int j) (int p) = Some m" if "i < c" "j < c" "p < b" for i j p
    using cmp_answers_eq [OF ok c(1) that] by blast
  have loop: "\<exists>x. for_upto 0 (int b) body None = Some x \<and> ?P x"
    if "\<And>p old. p < b \<Longrightarrow> ?P old \<Longrightarrow> \<exists>x. body (int p) old = Some x \<and> ?P x" for body
    by (rule for_upto_nat [where P = "\<lambda>_. ?P"]) (use that in auto)
  have dmr: "\<exists>x. dmr_fault s = Some x \<and> ?P x" if "c = 2"
  proof -
    have r: "0 < c" "1 < c" using that by simp_all
    show ?thesis unfolding dmr_fault_def c
    proof (rule loop)
      fix p old assume p: "p < b" and old: "?P old"
      have P01: "?P (Some 0)" "?P (Some 1)"
        using r exI [of "\<lambda>f. f < c \<and> Some 0 = Some (int f)" 0] exI [of "\<lambda>f. f < c \<and> Some 1 = Some (int f)" 1] by simp_all
      obtain m where m: "cmp_answers s 0 1 (int p) = Some m" using cmp [OF r p] by auto
      have n: "out_count s 0 (int p) = Some (buff_counts (reps s ! 0) ! p)" "out_count s 1 (int p) = Some (buff_counts (reps s ! 1) ! p)"
        using one [OF r(1) p] one [OF r(2) p] by simp_all
      show "\<exists>x. do { c0 \<leftarrow> out_count s 0 (int p); c1 \<leftarrow> out_count s 1 (int p);
          if c0 \<noteq> c1 then Some (Some (if c0 < c1 then 0 else 1))
          else do { m \<leftarrow> cmp_answers s 0 1 (int p); Some (if m \<noteq> 0 then Some 0 else old) } } = Some x \<and> ?P x"
        using n m P01 old by simp
    qed
  qed
  have tmr: "\<exists>x. tmr_count_fault s = Some x \<and> ?P x" "\<exists>x. tmr_content_fault s = Some x \<and> ?P x" if "c = 3"
  proof -
    have r: "0 < c" "1 < c" "2 < c" using that by simp_all
    have P012: "?P (Some 0)" "?P (Some 1)" "?P (Some 2)"
      using r exI [of "\<lambda>f. f < c \<and> Some 0 = Some (int f)" 0] exI [of "\<lambda>f. f < c \<and> Some 1 = Some (int f)" 1]
        exI [of "\<lambda>f. f < c \<and> Some 2 = Some (int f)" 2] by simp_all
    have n: "out_count s 0 (int p) = Some (buff_counts (reps s ! 0) ! p)" "out_count s 1 (int p) = Some (buff_counts (reps s ! 1) ! p)"
      "out_count s 2 (int p) = Some (buff_counts (reps s ! 2) ! p)" if "p < b" for p
      using one [OF r(1) that] one [OF r(2) that] one [OF r(3) that] by simp_all
    show "\<exists>x. tmr_count_fault s = Some x \<and> ?P x" unfolding tmr_count_fault_def c
      by (rule loop) (use n P012 in simp)
    show "\<exists>x. tmr_content_fault s = Some x \<and> ?P x" unfolding tmr_content_fault_def c
    proof (rule loop)
      fix p old assume p: "p < b" and old: "?P old"
      obtain m1 m2 where "cmp_answers s 0 1 (int p) = Some m1" "cmp_answers s 0 2 (int p) = Some m2"
        using cmp [OF r(1,2) p] cmp [OF r(1,3) p] by auto
      then show "\<exists>x. do { m01 \<leftarrow> cmp_answers s 0 1 (int p); m02 \<leftarrow> cmp_answers s 0 2 (int p);
         Some (if m01 \<noteq> 0 then (if m02 \<noteq> 0 then Some 0 else Some 1) else if m02 \<noteq> 0 then Some 2 else old) } = Some x \<and> ?P x"
        using P012 old by simp
    qed
  qed
  have "\<exists>x. M_find_sdc s = Some x \<and> ?P x"
  proof -
    consider "c = 1" | "c = 2" | "c = 3" using c(1,2) by linarith
    then show ?thesis
    proof cases
      case 3
      then show ?thesis using tmr [OF 3] c(3) by (auto simp: M_find_sdc_def)
    qed (use dmr c(3) in \<open>simp_all add: M_find_sdc_def\<close>)
  qed
  then show thesis using that by blast
qed

section \<open>The rounds\<close>

text \<open>An operation is fine on a state when it makes no undefined access and keeps the invariant.\<close>

definition fine :: "nat \<Rightarrow> nat \<Rightarrow> nat \<Rightarrow> ('x \<times> voterm) option \<Rightarrow> bool" where
  "fine a b c r \<longleftrightarrow> (\<exists>x t. r = Some (x, t) \<and> m_ok a b c t)"

lemma fine_Some [simp]: "fine a b c (Some (x, t)) = m_ok a b c t"
  by (simp add: fine_def)

lemma vote_fine:
  assumes ok: "m_ok a b c s" and live: "\<not> m_exited s"
  shows "fine a b c (vote_and_send K s)"
  using ok
proof (rule find_sdc_total)
  assume sdc: "M_find_sdc s = Some None"
  show ?thesis by (rule vote_clean_eq [OF ok sdc, where K = K]) simp
next
  fix f assume sdc: "M_find_sdc s = Some (Some (int f))" and f: "f < c"
  show ?thesis by (rule vote_fault_eq [OF ok sdc f live, where K = K]) simp
qed

lemma collect_fine:
  assumes ok: "m_ok a b c s" and act: "0 \<le> active_pipe_index s" "active_pipe_index s < 2"
    and reads: "\<And>h fd n. on_read K h fd n \<noteq> None"
  obtains res t where "collectFromReps K F fuel timer expected s = Some (res, t)" "m_ok a b c t"
    "m_exited t = m_exited s" "silently (m_hist s) (m_hist t)" "loaded a t = loaded a s"
    "active_pipe_index t = active_pipe_index s"
    "timer \<and> 0 < fuel \<and> N < length (m_hist s) + fuel
       \<and> (\<forall>h. N \<le> length h \<longrightarrow> time_left F (m_voting_timeout s) (on_timestamp K (m_hist s)) (on_timestamp K h) \<le> 0)
     \<Longrightarrow> res \<noteq> None"
proof -
  define w h where "w = on_timestamp K (m_hist s)" and "h = m_hist s @ [SysTimestamp w]"
  have gen: "generate_timestamp K (m_hist s) = (w, h)"
    by (simp add: generate_timestamp_def sys_timestamp_def w_def h_def)
  have h: "silently (m_hist s) h" "length (m_hist s) < length h" by (simp_all add: h_def)
  let ?s = "s\<lparr>timeout_occurred := False, m_watchdog := w, m_hist := h\<rparr>"
  have oks: "m_ok a b c ?s" using ok by simp
  obtain res t where t: "collect_loop K F timer expected fuel 0 ?s = Some (res, t)" "finished_ok a b c ?s t"
    "timer \<and> 0 < fuel \<and> N < length (m_hist ?s) + fuel
       \<and> (\<forall>h. N \<le> length h \<longrightarrow> time_left F (m_voting_timeout ?s) (m_watchdog ?s) (on_timestamp K h) \<le> 0)
     \<longrightarrow> res \<noteq> None"
    using collect_loop_eq [OF oks _ _ reads, where F = F and timer = timer and expected = expected and fuel = fuel and d = 0 and N = N] act
    by auto
  obtain u where u: "collected a b c ?s u" "t = u \<or> t = u\<lparr>timeout_occurred := True\<rparr>"
    using t(2) unfolding finished_ok_def by blast
  have "collectFromReps K F fuel timer expected s = Some (res, t)"
    using t(1) gen by (simp add: collectFromReps_def)
  moreover have "m_ok a b c t" "m_exited t = m_exited s" "silently (m_hist s) (m_hist t)" "loaded a t = loaded a s"
    "active_pipe_index t = active_pipe_index s"
    using u(2) collected_facts(1,2,3,7,8) [OF u(1)] silently_trans [OF h(1)] by auto
  moreover have "timer \<and> 0 < fuel \<and> N < length (m_hist s) + fuel
       \<and> (\<forall>h. N \<le> length h \<longrightarrow> time_left F (m_voting_timeout s) (on_timestamp K (m_hist s)) (on_timestamp K h) \<le> 0)
     \<Longrightarrow> res \<noteq> None" using t(3) h(2) by (simp add: w_def)
  ultimately show thesis by (rule that)
qed

lemma recover_single_fine:
  assumes ok: "m_ok a b 1 s" and l: "loaded a s" and act: "active_pipe_index s < 2" and live: "\<not> m_exited s"
    and reads: "\<And>h fd n. on_read K h fd n \<noteq> None" and sender: "\<And>t. m_ok a b 1 t \<Longrightarrow> sender t = 0"
  shows "fine a b 1 (recover_single K F fuel sender s)"
proof -
  obtain t where t: "M_startReplicas K True (int 0) 1 s = Some t" "m_ok a b 1 t" "resumed s t"
    by (rule start_replica_eq [OF ok _ _ live, where K = K and forking = True and f = 0]) auto
  have lt: "loaded a t" "active_pipe_index t < 2" "0 \<le> active_pipe_index t"
    using t(3) rest_fields(4,5) [of t s] l act by (auto simp: resumed_def loaded_def)
  obtain w h' where w: "sendToReps K t = Some (w, t\<lparr>m_hist := h'\<rparr>)"
    by (rule sendToReps_eq [OF t(2) lt(1), where K = K]) blast
  have okw: "m_ok a b 1 (t\<lparr>m_hist := h'\<rparr>)" using t(2) by simp
  obtain res u where u: "collectFromReps K F fuel False 1 (t\<lparr>m_hist := h'\<rparr>) = Some (res, u)" "m_ok a b 1 u"
    by (rule collect_fine [OF okw _ _ reads, where F = F and fuel = fuel and timer = False and expected = 1]) (use lt in auto)
  obtain x h where x: "sendData K (int 0) u = Some (u\<lparr>reps := x, m_hist := h\<rparr>)" "m_ok a b 1 (u\<lparr>reps := x, m_hist := h\<rparr>)"
    by (rule sendData_eq [OF u(2), where K = K and r = 0]) auto
  show ?thesis
    using t(1,2) w u x sender [OF u(2)] by (cases res) (simp_all add: recover_single_def)
qed

lemma quad_round_fine:
  assumes ok: "m_ok a b c s" and live: "\<not> m_exited s" and reads: "\<And>h fd n. on_read K h fd n \<noteq> None"
  shows "fine a b c (quad_round K F fuel s)"
proof -
  obtain got s1 where s1: "recvData K s = Some (got, s1)" "m_ok a b c s1" "got \<Longrightarrow> loaded a s1" "m_exited s1 = m_exited s"
    by (rule recvData_eq [OF ok, where K = K]) blast
  show ?thesis
  proof (cases got)
    case False
    then show ?thesis using s1 by (simp add: quad_round_def)
  next
    case True
    note l = s1(3) [OF True]
    obtain w h' where w: "sendToReps K s1 = Some (w, s1\<lparr>m_hist := h'\<rparr>)"
      "w \<Longrightarrow> 0 \<le> active_pipe_index s1 \<and> active_pipe_index s1 < 2"
      by (rule sendToReps_eq [OF s1(2) l, where K = K]) blast
    let ?s2 = "s1\<lparr>m_hist := h'\<rparr>"
    have ok2: "m_ok a b c ?s2" using s1(2) by simp
    show ?thesis
    proof (cases w)
      case False
      then show ?thesis using s1 True w ok2 by (simp add: quad_round_def)
    next
      case waiting: True
      have act: "0 \<le> active_pipe_index ?s2" "active_pipe_index ?s2 < 2" using w(2) [OF waiting] by simp_all
      obtain res s3 where C: "collectFromReps K F fuel True (m_rep_count ?s2) ?s2 = Some (res, s3)" "m_ok a b c s3"
        "m_exited s3 = m_exited ?s2" "loaded a s3 = loaded a ?s2" "active_pipe_index s3 = active_pipe_index ?s2"
        by (rule collect_fine [OF ok2 act reads, where F = F and fuel = fuel and timer = True and expected = "m_rep_count ?s2"]) blast
      have f3: "m_ok a b c s3" "m_exited s3 = m_exited s" "loaded a s3" "active_pipe_index s3 < 2"
        using C s1(4) l act by auto
      have live3: "\<not> m_exited s3" using f3(2) live by simp
      have run: "quad_round K F fuel s = (case res of None \<Rightarrow> Some (False, s3)
           | Some reps_done \<Rightarrow>
               if \<not> timeout_occurred s3 then vote_and_send K s3
               else do {
                 s4 \<leftarrow> findFaultReplica s3;
                 s5 \<leftarrow> killAndClean K (fault_index s4) s4;
                 if m_rep_count s5 = 1 then recover_single K F fuel healthy_rep s5 else recover K s5 })"
        using s1(1) True w(1) waiting C(1) by (simp add: quad_round_def)
      show ?thesis
      proof (cases "res = None \<or> \<not> timeout_occurred s3")
        case True
        then show ?thesis using run f3(1) vote_fine [OF f3(1) live3] by (cases res) auto
      next
        case False
        obtain f where f: "findFaultReplica s3 = Some (s3\<lparr>fault_index := int f\<rparr>)" "f < c"
          by (rule findFault_eq [OF f3(1)]) blast
        let ?s4 = "s3\<lparr>fault_index := int f\<rparr>"
        have ok4: "m_ok a b c ?s4" using f3(1) by simp
        obtain s5 where s5: "killAndClean K (int f) ?s4 = Some s5" "m_ok a b c s5" "kept ?s4 s5"
          by (rule killAndClean_eq [OF ok4 f(2), where K = K]) blast
        have k5: "fault_index s5 = int f" "loaded a s5" "active_pipe_index s5 < 2" "\<not> m_exited s5"
          using s5(3) rest_fields(1,4,5) [of s5 ?s4] f3(3,4) live3 by (auto simp: kept_def)
        have "fine a b c (if m_rep_count s5 = 1 then recover_single K F fuel healthy_rep s5 else recover K s5)"
        proof (cases "c = 1")
          case True
          have "healthy_rep t = 0" if "m_ok a b 1 t" for t
            using m_ok_counts(3) [OF that] by (simp add: healthy_rep_def smod_int_alt_def)
          then have "fine a b 1 (recover_single K F fuel healthy_rep s5)"
            using recover_single_fine [OF _ k5(2,3,4) reads, of b healthy_rep F fuel] s5(2) True by simp
          then show ?thesis using m_ok_counts(3) [OF s5(2)] True by simp
        next
          case False
          obtain t where "recover K s5 = Some (True, t)" "m_ok a b c t"
            by (rule recover_eq [OF s5(2) k5(1) f(2) k5(4), where K = K]) blast
          then show ?thesis using m_ok_counts(3) [OF s5(2)] False by simp
        qed
        then show ?thesis using run False f(1) s5(1) by auto
      qed
    qed
  qed
qed

lemma quad_rounds_fine:
  assumes "m_ok a b c s" and reads: "\<And>h fd n. on_read K h fd n \<noteq> None"
  shows "fine a b c (quad_rounds K F fuel n s)"
  using assms(1)
proof (induction n arbitrary: s)
  case (Suc n)
  show ?case
  proof (cases "m_exited s")
    case False
    obtain fin t where "quad_round K F fuel s = Some (fin, t)" "m_ok a b c t"
      using quad_round_fine [OF Suc.prems False reads, of F fuel] by (auto simp: fine_def)
    then show ?thesis using Suc.IH False by (cases fin) simp_all
  qed (use Suc.prems in simp)
qed simp

end
