(* ===== verification/VoterMProps.thy ===== *)
theory VoterMProps
  imports VoterMInv
begin

text \<open>
  What \<open>voter/voterm.c\<close> promises: the comparison of three answers refines a majority vote, a single
  wrong replica is masked, a collection with a deadline ends, no operation makes an undefined access;
  and where the code does less than it means to.
\<close>

section \<open>Sample states\<close>

text \<open>One incoming timed pipe and one outgoing pipe, with three replicas that gave the answers \<open>as\<close>.\<close>

definition sample_R :: "int \<Rightarrow> byte list \<Rightarrow> replicaR" where
  "sample_R pid bs =
     \<lparr>rr_pinned_cpu = 1, rr_priority = 5, rr_pid = pid, rr_in_pipe_count = 1, fd_ins = [pid + 100],
      rr_out_pipe_count = 1, fd_outs = [pid + 200], buff_counts = [int (length bs)],
      buffers = [bs @ replicate (4096 - length bs) 0]\<rparr>"

definition sample_m :: "byte list list \<Rightarrow> voterm" where
  "sample_m as =
     voterm_globals\<lparr>m_voting_timeout := 120, indexed_pipes := 1, m_rep_count := int (length as),
       in_pipe_count := 1, out_pipe_count := 1, ext_in_fds := [8], rep_info_in := [''RANGE_POSE_DATA''],
       ext_out_fds := [9], rep_info_out := [''MOV_CMD''],
       reps := map (\<lambda>(pid, bs). sample_R pid bs) (zip [101, 102, 103] as),
       for_reps := map (\<lambda>(pid, bs). sample_R pid bs) (zip [101, 102, 103] as)\<rparr>"

lemma sample_m_ok:
  assumes "length x \<le> 4096" "length y \<le> 4096" "length z \<le> 4096"
  shows "m_ok 1 1 3 (sample_m [x, y, z])" "m_ok 1 1 1 (sample_m [x])" "m_ok 1 1 2 (sample_m [x, y])"
  using assms by (simp_all add: m_ok_def m_group_def m_ends_def sample_m_def voterm_globals_def sample_R_def
      wf_R_def wf_for_def MAX_PIPE_BUFF_def)

lemma sample_m_answers:
  "m_answer (sample_m [x, y, z]) 0 0 = x" "m_answer (sample_m [x, y, z]) (Suc 0) 0 = y"
  "m_answer (sample_m [x, y, z]) 2 0 = z"
  "rr_pid (reps (sample_m [x, y, z]) ! 0) = 101" "rr_pid (reps (sample_m [x, y, z]) ! Suc 0) = 102"
  "rr_pid (reps (sample_m [x, y, z]) ! 2) = 103"
  by (simp_all add: m_answer_def sample_m_def sample_R_def)

lemma sample_m_fields [simp]:
  "m_exited (sample_m as) = False" "m_hist (sample_m as) = []" "ext_out_fds (sample_m as) = [9]"
  "active_pipe_index (sample_m as) = 0" "m_voting_timeout (sample_m as) = 120"
  by (simp_all add: sample_m_def voterm_globals_def)

text \<open>A system whose clock jumps far ahead after ten calls.\<close>

definition jumping :: posix where
  "jumping = quiet\<lparr>on_read := \<lambda>h fd n. Some [7, 0, 0, 0],
     on_timestamp := \<lambda>h. if length h < 10 then 0 else 1000000\<rparr>"

lemma jumping_reads: "on_read jumping h fd n \<noteq> None"
  by (simp add: jumping_def)

section \<open>Properties\<close>

subsection \<open>Comparing the answers\<close>

text \<open>C19: With three replicas the comparison blames the one that differs. When two replicas gave the
  same answers on every pipe, \<open>checkSDC\<close> finds no fault if the third agrees with them everywhere, and
  blames the third otherwise, whichever of the three it is and whether lengths or contents differ.\<close>

theorem m_tmr_blames_dissenter:
  assumes "m_ok a b 3 s" and "f < 3" "i < 3" "j < 3" "distinct [f, i, j]"
    and "\<And>p. p < b \<Longrightarrow> m_answer s i p = m_answer s j p"
  shows "M_find_sdc s = Some (if \<exists>p < b. m_answer s f p \<noteq> m_answer s i p then Some (int f) else None)"
  using assms by (rule find_sdc_tmr)

theorem m_tmr_blames_dissenter_witness:
  "M_find_sdc (sample_m [[1, 2], [1, 2], [1]]) = Some (Some 2) \<and> M_find_sdc (sample_m [[1, 2], [1, 2], [1, 2]]) = Some None"
proof
  show "M_find_sdc (sample_m [[1, 2], [1, 2], [1]]) = Some (Some 2)"
    using m_tmr_blames_dissenter [OF sample_m_ok(1), of "[1, 2]" "[1, 2]" "[1]" 2 0 1] by (simp add: sample_m_answers)
  show "M_find_sdc (sample_m [[1, 2], [1, 2], [1, 2]]) = Some None"
    using m_tmr_blames_dissenter [OF sample_m_ok(1), of "[1, 2]" "[1, 2]" "[1, 2]" 2 0 1] by (simp add: sample_m_answers)
qed

text \<open>C20: One wrong replica is masked. When two of three replicas gave the same answers and the third
  did not, the vote completes, kills that replica and no other, has a healthy one fork, and (unless
  the hand-over to the new process fails, when the program exits) writes the answers the two agree on,
  each to its external pipe, and nothing else.\<close>

theorem m_tmr_masks_one_fault:
  assumes ok: "m_ok a b 3 s" and live: "\<not> m_exited s" and who: "f < 3" "i < 3" "j < 3" "distinct [f, i, j]"
    and same: "\<And>p. p < b \<Longrightarrow> m_answer s i p = m_answer s j p"
    and faulty: "q < b" "m_answer s f q \<noteq> m_answer s i q"
  shows "\<exists>t. vote_and_send K s = Some (True, t) \<and> m_ok a b 3 t
    \<and> writes (m_hist t) = writes (m_hist s) @ (if m_exited t then [] else outputs s i b)
    \<and> killed SIGKILL (m_hist t) = killed SIGKILL (m_hist s) @ [rr_pid (reps s ! f)]
    \<and> killed RESTART_SIGNAL (m_hist t) = killed RESTART_SIGNAL (m_hist s) @ [rr_pid (reps s ! donor 3 f)]
    \<and> donor 3 f \<noteq> f"
proof -
  have sdc: "M_find_sdc s = Some (Some (int f))" using find_sdc_tmr [OF ok who same] faulty by auto
  obtain t where t: "vote_and_send K s = Some (True, t)" "m_ok a b 3 t"
    "writes (m_hist t) = writes (m_hist s) @ (if m_exited t then [] else outputs s (donor 3 f) b)"
    "\<And>sig. killed sig (m_hist t) = killed sig (m_hist s) @ (if sig = SIGKILL then [rr_pid (reps s ! f)] else [])
       @ (if sig = RESTART_SIGNAL then [rr_pid (reps s ! donor 3 f)] else [])"
    by (rule vote_fault_eq [OF ok sdc who(1) live, where K = K]) blast
  have d: "donor 3 f < 3" "donor 3 f \<noteq> f" using donor_less [of 3 f] donor_other [of 3 f] who(1) by simp_all
  have "donor 3 f = i \<or> donor 3 f = j" by (rule three_roles [OF who]) (simp_all add: donor_def)
  then have "outputs s (donor 3 f) b = outputs s i b"
    using same by (auto simp: outputs_def intro!: map_cong filter_cong)
  then show ?thesis
    using t d(2) by (intro exI [of _ t]) (simp add: SIGKILL_def RESTART_SIGNAL_def)
qed

theorem m_tmr_masks_one_fault_witness:
  "\<exists>t. vote_and_send quiet (sample_m [[1, 2], [3, 2], [1, 2]]) = Some (True, t)
    \<and> killed SIGKILL (m_hist t) = [102] \<and> (m_exited t \<or> writes (m_hist t) = [(9, [1, 2])])"
proof -
  have out: "outputs (sample_m [[1, 2], [3, 2], [1, 2]]) 0 (Suc 0) = [(9, [1, 2])]"
    by (simp add: outputs_def sample_m_answers)
  show ?thesis
    using m_tmr_masks_one_fault [OF sample_m_ok(1), of "[1, 2]" "[3, 2]" "[1, 2]" 1 0 2 0 quiet]
    by (auto simp: sample_m_answers out)
qed

text \<open>When all three replicas gave the same answers, these are sent, each to its external pipe and
  in the order of the pipes, nobody is signalled, and every count is cleared for the next input.\<close>

theorem m_unanimous_sends:
  assumes ok: "m_ok a b 3 s"
    and same: "\<And>p. p < b \<Longrightarrow> m_answer s 1 p = m_answer s 0 p" "\<And>p. p < b \<Longrightarrow> m_answer s 2 p = m_answer s 0 p"
  shows "\<exists>t. vote_and_send K s = Some (True, t) \<and> m_ok a b 3 t
    \<and> writes (m_hist t) = writes (m_hist s) @ outputs s 0 b
    \<and> (\<forall>sig. killed sig (m_hist t) = killed sig (m_hist s))
    \<and> (\<forall>r < 3. \<forall>p < b. m_answer t r p = [])"
proof -
  have sdc: "M_find_sdc s = Some None"
    using find_sdc_tmr [OF ok, of 1 0 2] same by auto
  show ?thesis
  proof (rule vote_clean_eq [OF ok sdc, where K = K])
    fix t assume t: "vote_and_send K s = Some (True, t)" "m_ok a b 3 t"
      "writes (m_hist t) = writes (m_hist s) @ outputs s 0 b" "\<And>sig. killed sig (m_hist t) = killed sig (m_hist s)"
      "\<And>r p. r < 3 \<Longrightarrow> p < b \<Longrightarrow> buff_counts (reps t ! r) ! p = 0"
    then show ?thesis by (intro exI [of _ t]) (simp add: m_answer_def)
  qed
qed

theorem m_unanimous_sends_witness:
  "\<exists>t. vote_and_send quiet (sample_m [[1, 2], [1, 2], [1, 2]]) = Some (True, t) \<and> writes (m_hist t) = [(9, [1, 2])]"
proof -
  have out: "outputs (sample_m [[1, 2], [1, 2], [1, 2]]) 0 (Suc 0) = [(9, [1, 2])]"
    by (simp add: outputs_def sample_m_answers)
  show ?thesis
    using m_unanimous_sends [OF sample_m_ok(1), of "[1, 2]" "[1, 2]" "[1, 2]" quiet]
    by (auto simp: sample_m_answers out)
qed

subsection \<open>The late replica\<close>

text \<open>C21: After a timeout the replica that is replaced is the first of those that answered on the fewest
  pipes.\<close>

theorem m_late_replica:
  assumes "m_ok a b c s"
  shows "\<exists>f < c. findFaultReplica s = Some (s\<lparr>fault_index := int f\<rparr>)
    \<and> (\<forall>r < c. score s b f \<le> score s b r) \<and> (\<forall>r < f. score s b f < score s b r)"
  using findFault_eq [OF assms] by metis

lemma score_one: "score s (Suc 0) r = (if 0 < buff_counts (reps s ! r) ! 0 then 1 else 0)"
proof -
  have "{p. p < Suc 0 \<and> 0 < buff_counts (reps s ! r) ! p} = (if 0 < buff_counts (reps s ! r) ! 0 then {0} else {})"
    by auto
  then show ?thesis by (simp add: score_def)
qed

theorem m_late_replica_witness:
  "findFaultReplica (sample_m [[1], [], []]) = Some (sample_m [[1], [], []]\<lparr>fault_index := 1\<rparr>)"
proof -
  let ?s = "sample_m [[1], [], []]"
  have sc: "score ?s 1 0 = 1" "score ?s 1 1 = 0" "score ?s 1 2 = 0"
    by (simp_all add: score_one sample_m_def sample_R_def)
  obtain f where f: "f < 3" "findFaultReplica ?s = Some (?s\<lparr>fault_index := int f\<rparr>)"
    "\<forall>r < 3. score ?s 1 f \<le> score ?s 1 r" "\<forall>r < f. score ?s 1 f < score ?s 1 r"
    using m_late_replica [OF sample_m_ok(1), of "[1]" "[]" "[]"] by auto
  have "f \<noteq> 0"
  proof
    assume "f = 0"
    then show False using f(3) [rule_format, of 1] sc by simp
  qed
  moreover have "f \<noteq> 2"
  proof
    assume "f = 2"
    then show False using f(4) [rule_format, of 1] sc by simp
  qed
  ultimately have "f = 1" using f(1) by linarith
  then show ?thesis using f(2) by simp
qed

subsection \<open>The loops\<close>





subsection \<open>Arguments of a new replica\<close>

lemma digits_priority:
  assumes "0 \<le> p" "p \<le> 99"
  shows "atoi (priority_string p) = p"
proof -
  have "\<forall>p \<in> {0..99}. atoi (priority_string p) = p" by code_simp
  then show ?thesis using assms by simp
qed

text \<open>A replica reads the priority that the voter gave it: for a priority of 0 to 99 the digits in the
  argument that \<open>forkReplicas\<close> builds give \<open>atoi\<close> that number again.\<close>

theorem m_priority_roundtrip:
  "0 \<le> p \<Longrightarrow> p \<le> 99 \<Longrightarrow> atoi (priority_string p) = p"
  by (rule digits_priority)

theorem m_priority_roundtrip_witness: "priority_string 42 = ''42'' \<and> atoi (priority_string 42) = 42"
proof
  show "priority_string 42 = ''42''" by code_simp
  show "atoi (priority_string 42) = 42" using m_priority_roundtrip [of 42] by simp
qed

text \<open>A negative priority does not survive: the sign is written and then the digit is counted down
  from the character 0, so that \<open>-5\<close> becomes the two characters minus and plus, which \<open>atoi\<close> reads as 0.
  Every priority from \<open>-9\<close> to \<open>-1\<close> is lost in this way.\<close>

theorem m_negative_priority_lost:
  "priority_string (-5) = ''-+'' \<and> map (\<lambda>p. atoi (priority_string p)) [-9..-1] = replicate 9 0"
  by code_simp

subsection \<open>Where the code does less\<close>

lemma read_answers_none:
  assumes ok: "m_ok a b c s"
  shows "read_answers K [] expected (d, e, s) = Some (d, e, s)"
proof -
  let ?f = "\<lambda>r_index p_index (rep_done, finished, s). do {
         (timed_pipe, s') \<leftarrow> read_answer K [] r_index p_index s;
         if timed_pipe then Some (rep_done + 1, if rep_done + 1 = expected then True else finished, s')
         else Some (rep_done, finished, s') }"
  let ?g = "\<lambda>r st. for_upto 0 (out_pipe_count (snd (snd st))) (?f r) st"
  have inner: "?g (int r) (d, e, s) = Some (d, e, s)" if r: "r < c" for r
  proof -
    have "\<exists>st. for_upto 0 (int b) (?f (int r)) (d, e, s) = Some st \<and> st = (d, e, s)"
      by (rule for_upto_nat [where P = "\<lambda>_ st. st = (d, e, s)"])
        (use rep_access(2) [OF ok r] in \<open>auto simp: read_answer_def\<close>)
    then show ?thesis using m_ok_counts(2) [OF ok] by simp
  qed
  have "\<exists>st. for_upto 0 (int c) ?g (d, e, s) = Some st \<and> st = (d, e, s)"
    by (rule for_upto_nat [where P = "\<lambda>_ st. st = (d, e, s)"]) (use inner in auto)
  then show ?thesis using m_ok_counts(3) [OF ok] by (simp add: read_answers_def)
qed

lemma collect_waits:
  assumes "m_ok a b c s" and silent: "\<And>h fds t. on_select K h fds t = Some []"
  shows "\<exists>t. collect_loop K F False expected fuel d s = Some (None, t)"
  using assms(1)
proof (induction fuel arbitrary: s)
  case (Suc n)
  obtain fds where fds: "answer_fds s = Some fds" using answer_fds_total [OF Suc.prems] by blast
  obtain h where sel: "sys_select K fds 50000 (m_hist s) = (0, [], h)" using silent by (auto simp: sys_select_def)
  have ok: "m_ok a b c (s\<lparr>m_hist := h\<rparr>)" using Suc.prems by simp
  show ?case using Suc.IH [OF ok] fds sel read_answers_none [OF ok] by simp
qed simp

text \<open>C24: The retry after a timeout of a single replica has no deadline: \<open>collectFromReps(false, 1)\<close> still
  waits after any number of turns when the new process never answers, although every wait in \<open>select\<close>
  is bounded. No second fault is detected there.\<close>

theorem m_retry_has_no_deadline:
  assumes "m_ok a b c s" and "\<And>h fds t. on_select K h fds t = Some []"
  shows "\<exists>t. collectFromReps K F fuel False 1 s = Some (None, t)"
proof -
  obtain w h where w: "generate_timestamp K (m_hist s) = (w, h)" by (cases "generate_timestamp K (m_hist s)")
  have "m_ok a b c (s\<lparr>timeout_occurred := False, m_watchdog := w, m_hist := h\<rparr>)" using assms(1) by simp
  then show ?thesis
    using collect_waits [of a b c _ K F 1 fuel 0] assms(2) w by (simp add: collectFromReps_def)
qed

theorem m_retry_has_no_deadline_witness:
  "\<exists>t. collectFromReps quiet int_fpu 1000 False 1 (sample_m [[]]) = Some (None, t)"
  using m_retry_has_no_deadline [OF sample_m_ok(2), of "[]" "[]" "[]" quiet int_fpu 1000] by (simp add: quiet_def)

text \<open>The two index arrays are filled by the number of the pair and read by the number of the input
  pipe. With the timed pair second on both sides, an input on pipe 1 makes the voter wait, the pair's
  answer comes on outgoing pipe 1, and the array entry that is compared with is that of input pipe 1,
  which says 0. When the timed input is the third, the entry is beyond the end of the array.\<close>

definition two_inputs :: "string list" where
  "two_inputs = [''VoterM'', ''Art'', ''TMR'', ''120'', ''20'', ''WAY_RES:5:0:0'', ''RANGE_POSE_DATA:6:0:1'',
     ''WAY_REQ:0:9:0'', ''MOV_CMD:0:7:1'']"

definition three_inputs :: "string list" where
  "three_inputs = [''VoterM'', ''Art'', ''TMR'', ''120'', ''20'', ''WAY_RES:5:0:0'', ''COMM_ACK:4:0:0'',
     ''RANGE_POSE_DATA:6:0:1'', ''MOV_CMD:0:7:1'']"

theorem m_index_mismatch:
  "map_option (\<lambda>(r, s). (r, checkWaitOnInput (s\<lparr>active_pipe_index := 1\<rparr>), ext_out_fds s, m_stop_index s))
     (M_parseArgs (\<lambda>_ _ _. 0) (\<lambda>_. []) two_inputs voterm_globals) = Some (0, Some True, [9, 7], [1, 0])
   \<and> map_option (\<lambda>(r, s). (r, checkWaitOnInput (s\<lparr>active_pipe_index := 2\<rparr>), aget (m_stop_index s) 2))
     (M_parseArgs (\<lambda>_ _ _. 0) (\<lambda>_. []) three_inputs voterm_globals) = Some (0, Some True, None)"
  by code_simp

end
