(* ===== verification/Plumber.thy ===== *)
theory Plumber
  imports VoterD
begin

text \<open>
  The plumber (\<open>plumber/plumbing.c\<close>): it collects the components that the configuration file declares,
  links them by pipes, and starts each one, alone or behind a voter. The actions of the grammar are values
  of \<open>statement\<close>; the scanner and the parser that find them in the text are in \<open>PlumberConfig\<close>.

  A component is addressed by its position in the list, where C has a pointer to it.
\<close>

section \<open>Components\<close>

record node =
  nd_name :: string
  nd_value :: string
  nd_priority :: string
  nd_rep_strat :: replication_t
  nd_voter_name :: "string option"
  nd_voter_timer :: "string option"
  nd_pipe_count :: int
  nd_timed :: "int list"
  nd_pipes :: "typed_pipe list"

text \<open>
  A cell of the list: \<open>Blank\<close> has a null \<open>current\<close>, as the global list head; \<open>Malloced\<close> comes from
  \<open>malloc\<close>, and its \<open>current\<close> was never written.
\<close>

datatype nodelist = Blank | Malloced | Cell node nodelist

text \<open>
  What the program relies on in \<open>malloc\<close> is a parameter: \<open>usable n\<close> bytes can be used in a block for
  which \<open>n\<close> were asked, and \<open>zeroed\<close> says whether fresh cells happen to be zero. A name is copied into
  a block for its characters alone; its NUL needs one more.
\<close>

record allocator =
  usable :: "nat \<Rightarrow> nat"
  zeroed :: bool
  garbage :: node

definition malloc_copy :: "allocator \<Rightarrow> string \<Rightarrow> string option" where
  "malloc_copy A str = (if length str + 1 \<le> usable A (length str) then Some str else None)"

text \<open>\<open>malloc\<close> of a node leaves the arrays of pipes and timers as they were in \<open>garbage\<close>.\<close>

definition new_node :: "allocator \<Rightarrow> string \<Rightarrow> string \<Rightarrow> replication_t \<Rightarrow> string option \<Rightarrow> string option \<Rightarrow> string
    \<Rightarrow> node option" where
  "new_node A name value type voter_name voter_timer priority =
     do {
       nm \<leftarrow> malloc_copy A name;
       val \<leftarrow> malloc_copy A value;
       (vn, vt) \<leftarrow> (if type \<noteq> NONE then do {
           v \<leftarrow> voter_name; vn \<leftarrow> malloc_copy A v;
           t \<leftarrow> voter_timer; vt \<leftarrow> malloc_copy A t;
           Some (Some vn, Some vt) }
         else Some (None, None));
       prio \<leftarrow> malloc_copy A priority;
       Some ((garbage A)\<lparr>nd_name := nm, nd_value := val, nd_pipe_count := 0, nd_rep_strat := type,
         nd_voter_name := vn, nd_voter_timer := vt, nd_priority := prio\<rparr>)
     }"

fun add_node :: "allocator \<Rightarrow> nodelist \<Rightarrow> string \<Rightarrow> string \<Rightarrow> replication_t \<Rightarrow> string option \<Rightarrow> string option
    \<Rightarrow> string \<Rightarrow> (bool \<times> nodelist) option" where
  "add_node A Blank name value type voter_name voter_timer priority =
     do { n \<leftarrow> new_node A name value type voter_name voter_timer priority; Some (True, Cell n Malloced) }"
| "add_node A Malloced name value type voter_name voter_timer priority =
     (if zeroed A then
        do { n \<leftarrow> new_node A name value type voter_name voter_timer priority; Some (True, Cell n Malloced) }
      else None)"
| "add_node A (Cell c rest) name value type voter_name voter_timer priority =
     (if name = nd_name c then Some (False, Cell c rest)
      else do {
        (ok, rest') \<leftarrow> add_node A rest name value type voter_name voter_timer priority;
        Some (ok, Cell c rest')
      })"

text \<open>\<open>get_node\<close>: the position of the component, \<open>None\<close> for a null pointer.\<close>

fun get_node :: "allocator \<Rightarrow> nodelist \<Rightarrow> string \<Rightarrow> nat option option" where
  "get_node A Blank name = Some None"
| "get_node A Malloced name = (if zeroed A then Some None else None)"
| "get_node A (Cell c rest) name =
     (if name = nd_name c then Some (Some 0)
      else do { r \<leftarrow> get_node A rest name; Some (map_option Suc r) })"

fun nodes_of :: "nodelist \<Rightarrow> node list" where
  "nodes_of (Cell c rest) = c # nodes_of rest"
| "nodes_of _ = []"

fun on_node :: "nat \<Rightarrow> (node \<Rightarrow> node option) \<Rightarrow> nodelist \<Rightarrow> nodelist option" where
  "on_node 0 f (Cell c rest) = do { c' \<leftarrow> f c; Some (Cell c' rest) }"
| "on_node (Suc i) f (Cell c rest) = do { rest' \<leftarrow> on_node i f rest; Some (Cell c rest') }"
| "on_node i f _ = None"

section \<open>Links\<close>

definition link_bench :: "comm_message_t \<Rightarrow> int \<Rightarrow> int \<Rightarrow> int \<Rightarrow> node \<Rightarrow> node option" where
  "link_bench type fdi fdo timer n =
     do {
       ps \<leftarrow> aset (nd_pipes n) (nd_pipe_count n) \<lparr>tp_type = type, tp_fd_in = fdi, tp_fd_out = fdo\<rparr>;
       ts \<leftarrow> aset (nd_timed n) (nd_pipe_count n) timer;
       Some (n\<lparr>nd_pipes := ps, nd_timed := ts, nd_pipe_count := nd_pipe_count n + 1\<rparr>)
     }"

definition link_node :: "posix \<Rightarrow> comm_message_t \<Rightarrow> nat \<Rightarrow> int \<Rightarrow> nat \<Rightarrow> int \<Rightarrow> nodelist \<times> history
    \<Rightarrow> (nodelist \<times> history) option" where
  "link_node K type fromNode fromTimed toNode toTimed st =
     (let (nodes, h) = st; (pipe_fds, h') = sys_pipe K h
      in case pipe_fds of
           None \<Rightarrow> Some (nodes, h')
         | Some (r, w) \<Rightarrow> do {
             nodes1 \<leftarrow> on_node fromNode (link_bench type 0 w fromTimed) nodes;
             nodes2 \<leftarrow> on_node toNode (link_bench type r 0 toTimed) nodes1;
             Some (nodes2, h')
           })"

section \<open>Starting the components\<close>

definition serializeRep :: "replication_t \<Rightarrow> string" where
  "serializeRep type = REP_TYPE_T type"

text \<open>The argument vectors, without their final null pointer.\<close>

definition plain_argv :: "(nat \<Rightarrow> char) \<Rightarrow> node \<Rightarrow> string list option" where
  "plain_argv g n =
     for_upto 0 (nd_pipe_count n) (\<lambda>i argv. do {
       p \<leftarrow> aget (nd_pipes n) i;
       s \<leftarrow> serializePipe g p;
       Some (argv @ [s])
     }) [nd_value n, nd_priority n, show_int (nd_pipe_count n)]"

definition voter_argv :: "(nat \<Rightarrow> char) \<Rightarrow> node \<Rightarrow> string list option" where
  "voter_argv g n =
     do {
       vn \<leftarrow> nd_voter_name n;
       vt \<leftarrow> nd_voter_timer n;
       for_upto 0 (nd_pipe_count n) (\<lambda>i argv. do {
         p \<leftarrow> aget (nd_pipes n) i;
         s \<leftarrow> serializePipe g p;
         t \<leftarrow> aget (nd_timed n) i;
         Some (argv @ [s @ '':'' @ show_int t])
       }) [vn, nd_value n, serializeRep (nd_rep_strat n), vt, nd_priority n]
     }"

text \<open>
  \<open>launch_node\<close> as the parent runs it: each component is started, then the rest of the list. When
  \<open>fork\<close> fails the rest is not started.
\<close>

fun launch_node :: "posix \<Rightarrow> bool \<Rightarrow> (nat \<Rightarrow> char) \<Rightarrow> nodelist \<Rightarrow> history \<Rightarrow> history option" where
  "launch_node K zero g Blank h = Some h"
| "launch_node K zero g Malloced h = (if zero then Some h else None)"
| "launch_node K zero g (Cell c rest) h =
     do {
       argv \<leftarrow> (if nd_rep_strat c = NONE then plain_argv g c else voter_argv g c);
       let (pid, h') = sys_fork_exec K argv h;
       if pid \<ge> 0 then launch_node K zero g rest h' else Some h'
     }"

section \<open>The configuration\<close>

text \<open>
  The actions of the grammar. A component in a relation is named plainly, or in parentheses (timer 1), or in
  brackets (timer 2); \<open>Bench\<close> stands for the two descriptors the plumber was started with. A relation
  with an unknown component follows a null pointer, except that an unknown message type is found first
  between two components.
\<close>

datatype statement =
    Declare string string string
  | DeclareVoted string string string replication_t string string
  | FromBench string string bool
  | ToBench string string bool
  | Relate string int string string int

definition run_statement :: "posix \<Rightarrow> allocator \<Rightarrow> int \<Rightarrow> int \<Rightarrow> statement \<Rightarrow> nodelist \<times> history
    \<Rightarrow> (bool \<times> nodelist \<times> history) option" where
  "run_statement K A data_in cmd_out stmt st =
     (let (nodes, h) = st
      in case stmt of
        Declare name value priority \<Rightarrow> do {
          (ok, nodes') \<leftarrow> add_node A nodes name value NONE None None priority;
          Some (True, nodes', h) }
      | DeclareVoted name voter value type timer priority \<Rightarrow> do {
          (ok, nodes') \<leftarrow> add_node A nodes name value type (Some voter) (Some timer) priority;
          Some (True, nodes', h) }
      | FromBench type name voted \<Rightarrow> do {
          n \<leftarrow> get_node A nodes name;
          i \<leftarrow> n;
          nodes' \<leftarrow> on_node i (link_bench (commToEnum type) data_in 0 (if voted then 1 else 0)) nodes;
          Some (True, nodes', h) }
      | ToBench name type voted \<Rightarrow> do {
          n \<leftarrow> get_node A nodes name;
          i \<leftarrow> n;
          nodes' \<leftarrow> on_node i (link_bench (commToEnum type) 0 cmd_out (if voted then 1 else 0)) nodes;
          Some (True, nodes', h) }
      | Relate a timed_a type b timed_b \<Rightarrow> do {
          na \<leftarrow> get_node A nodes a;
          nb \<leftarrow> get_node A nodes b;
          if commToEnum type = COMM_ERROR then Some (False, nodes, h)
          else do {
            i \<leftarrow> na;
            j \<leftarrow> nb;
            st' \<leftarrow> link_node K (commToEnum type) i timed_a j timed_b (nodes, h);
            Some (True, st')
          } })"

text \<open>\<open>return -1\<close> in an action ends the parse; what was read until then is launched.\<close>

fun run_config :: "posix \<Rightarrow> allocator \<Rightarrow> int \<Rightarrow> int \<Rightarrow> statement list \<Rightarrow> nodelist \<times> history
    \<Rightarrow> (nodelist \<times> history) option" where
  "run_config K A data_in cmd_out [] st = Some st"
| "run_config K A data_in cmd_out (stmt # stmts) st =
     do {
       (go, st') \<leftarrow> run_statement K A data_in cmd_out stmt st;
       if go then run_config K A data_in cmd_out stmts st' else Some st'
     }"

definition plumber_main :: "posix \<Rightarrow> allocator \<Rightarrow> (nat \<Rightarrow> char) \<Rightarrow> string list \<Rightarrow> statement list \<Rightarrow> history
    \<Rightarrow> (int \<times> history) option" where
  "plumber_main K A g argv config h =
     (if length argv \<ge> 5 then do {
        din \<leftarrow> deserializePipe (argv ! 3);
        cout \<leftarrow> deserializePipe (argv ! 4);
        (nodes, h1) \<leftarrow> run_config K A (tp_fd_in din) (tp_fd_out cout) config (Blank, h);
        h2 \<leftarrow> launch_node K (zeroed A) g nodes h1;
        Some (0, h2)
      }
      else Some (1, h))"

end
