(* ===== verification/PlumberProps.thy ===== *)
theory PlumberProps
  imports Plumber CommProps
begin

text \<open>
  Properties of the plumber: the list of components behaves as a register of names, a link gives the two
  ends of one pipe to the two components, and what the plumber writes on a voter's command line is what
  the voter's \<open>parseArgs\<close> reads from it.
\<close>

section \<open>The register of components\<close>

definition names :: "nodelist \<Rightarrow> string list" where
  "names ns = map nd_name (nodes_of ns)"

lemma names_simps [simp]: "names Blank = []" "names Malloced = []" "names (Cell c ns) = nd_name c # names ns"
  by (simp_all add: names_def)

text \<open>
  The allocator leaves room for the NUL of the strings of up to 23 characters, as one does that rounds
  blocks up; longer names can run one byte past their block.
\<close>

definition roomy :: "allocator \<Rightarrow> bool" where
  "roomy A \<longleftrightarrow> zeroed A \<and> (\<forall>n < 24. n < usable A n)"

definition short :: "string \<Rightarrow> bool" where
  "short str \<longleftrightarrow> length str < 24"

lemma malloc_copy_roomy [simp]: "roomy A \<Longrightarrow> short str \<Longrightarrow> malloc_copy A str = Some str"
  by (simp add: malloc_copy_def roomy_def short_def Suc_le_eq)

lemma new_node_eq:
  assumes "roomy A" "list_all short [name, val, prio]"
    and "type \<noteq> NONE \<Longrightarrow> \<exists>v t. vn = Some v \<and> vt = Some t \<and> short v \<and> short t"
  shows "new_node A name val type vn vt prio = Some ((garbage A)\<lparr>nd_name := name, nd_value := val, nd_pipe_count := 0,
    nd_rep_strat := type, nd_voter_name := (if type = NONE then None else vn),
    nd_voter_timer := (if type = NONE then None else vt), nd_priority := prio\<rparr>)"
  using assms by (auto simp: new_node_def)

lemma exact_malloc_overruns: "usable A (length name) = length name \<Longrightarrow> add_node A Blank name val type vn vt prio = None"
  by (simp add: new_node_def malloc_copy_def)

lemma add_node_known:
  assumes "roomy A" "name \<in> set (names ns)"
  shows "add_node A ns name val type vn vt prio = Some (False, ns)"
  using assms by (induction ns) (auto simp: roomy_def)

lemma add_node_new:
  assumes "roomy A" "name \<notin> set (names ns)" and n: "new_node A name val type vn vt prio = Some n"
  shows "\<exists>ns'. add_node A ns name val type vn vt prio = Some (True, ns') \<and> nodes_of ns' = nodes_of ns @ [n]"
  using assms by (induction ns) (auto simp: roomy_def)

lemma new_node_name:
  assumes "new_node A name val type vn vt prio = Some n"
  shows "nd_name n = name \<and> nd_pipe_count n = 0"
  using assms by (auto simp: new_node_def malloc_copy_def Option.bind_eq_Some_conv split: if_splits)

lemma get_node_eq:
  assumes "zeroed A"
  shows "get_node A ns name = Some (if name \<in> set (names ns) then Some (LEAST i. i < length (names ns) \<and> names ns ! i = name) else None)"
proof (induction ns)
  case (Cell c ns)
  show ?case
  proof (cases "name = nd_name c")
    case True
    then have "(LEAST i. i < Suc (length (names ns)) \<and> (nd_name c # names ns) ! i = name) = 0"
      by (intro Least_equality) auto
    then show ?thesis using True by simp
  next
    case False
    show ?thesis
    proof (cases "name \<in> set (names ns)")
      case True
      then obtain k where k: "k < length (names ns)" "names ns ! k = name" by (auto simp: in_set_conv_nth)
      have "(LEAST i. i < Suc (length (names ns)) \<and> (nd_name c # names ns) ! i = name)
        = Suc (LEAST i. Suc i < Suc (length (names ns)) \<and> (nd_name c # names ns) ! Suc i = name)"
        by (rule Least_Suc [of _ "Suc k"]) (use k False in auto)
      then show ?thesis using True False Cell.IH by simp
    next
      case False': False
      then show ?thesis using False Cell.IH by simp
    qed
  qed
qed (use assms in simp_all)

text \<open>The list is a register of distinct names: declaring a name that is taken is refused and changes
  nothing; any other declaration appends one component of that name without pipes, keeps the names
  distinct, and \<open>get_node\<close> finds it at its position.\<close>

theorem add_node_registers:
  assumes "roomy A" "distinct (names ns)" "list_all short [name, val, prio]"
    and "type \<noteq> NONE \<Longrightarrow> \<exists>v t. vn = Some v \<and> vt = Some t \<and> short v \<and> short t"
  shows "if name \<in> set (names ns) then add_node A ns name val type vn vt prio = Some (False, ns)
    else \<exists>ns' n. add_node A ns name val type vn vt prio = Some (True, ns') \<and> nodes_of ns' = nodes_of ns @ [n]
      \<and> nd_name n = name \<and> nd_pipe_count n = 0 \<and> distinct (names ns') \<and> get_node A ns' name = Some (Some (length (nodes_of ns)))"
proof (cases "name \<in> set (names ns)")
  case True
  then show ?thesis using add_node_known [OF assms(1)] by simp
next
  case False
  obtain n where n: "new_node A name val type vn vt prio = Some n"
    using new_node_eq [OF assms(1,3,4)] by blast
  obtain ns' where ns': "add_node A ns name val type vn vt prio = Some (True, ns')" "nodes_of ns' = nodes_of ns @ [n]"
    using add_node_new [OF assms(1) False n] by blast
  have nm: "names ns' = names ns @ [name]" using ns'(2) new_node_name [OF n] by (simp add: names_def)
  have "(LEAST i. i < length (names ns') \<and> names ns' ! i = name) = length (nodes_of ns)"
  proof (rule Least_equality)
    show "length (nodes_of ns) < length (names ns') \<and> names ns' ! length (nodes_of ns) = name"
      using nm ns'(2) by (simp add: names_def nth_append)
    fix i assume i: "i < length (names ns') \<and> names ns' ! i = name"
    show "length (nodes_of ns) \<le> i"
    proof (rule ccontr)
      assume "\<not> length (nodes_of ns) \<le> i"
      then have "i < length (names ns)" by (simp add: names_def)
      then show False using i nm False by (auto simp: nth_append)
    qed
  qed
  then have "get_node A ns' name = Some (Some (length (nodes_of ns)))"
    using get_node_eq [of A ns' name] assms(1) nm by (simp add: roomy_def)
  then show ?thesis using False ns' nm new_node_name [OF n] assms(2) by auto
qed

definition glibc :: allocator where
  "glibc = \<lparr>usable = (\<lambda>n. max 24 ((n + 23) div 16 * 16 - 8)), zeroed = True,
     garbage = \<lparr>nd_name = [], nd_value = [], nd_priority = [], nd_rep_strat = NONE, nd_voter_name = None,
       nd_voter_timer = None, nd_pipe_count = 0, nd_timed = replicate 10 0, nd_pipes = replicate 10 blank_typed_pipe\<rparr>\<rparr>"

lemma roomy_glibc: "roomy glibc"
  by (simp add: roomy_def glibc_def less_max_iff_disj)

theorem add_node_registers_witness:
  "\<exists>ns'. add_node glibc Blank ''mapper'' ''Mapper'' TMR (Some ''VoterM'') (Some ''400'') ''20'' = Some (True, ns')
     \<and> get_node glibc ns' ''mapper'' = Some (Some 0)"
  using add_node_registers [of glibc Blank "''mapper''" "''Mapper''" "''20''" TMR "Some ''VoterM''" "Some ''400''"] roomy_glibc
  by (auto simp: short_def)

section \<open>Links\<close>

lemma on_node_eq:
  assumes "i < length (nodes_of ns)" "f (nodes_of ns ! i) = Some c"
  shows "\<exists>ns'. on_node i f ns = Some ns' \<and> nodes_of ns' = (nodes_of ns)[i := c]"
  using assms
proof (induction ns arbitrary: i)
  case (Cell d ns)
  show ?case
  proof (cases i)
    case 0
    then show ?thesis using Cell.prems by simp
  next
    case (Suc k)
    then obtain ns' where "on_node k f ns = Some ns'" "nodes_of ns' = (nodes_of ns)[k := c]"
      using Cell.IH [of k] Cell.prems by auto
    then show ?thesis using Suc by simp
  qed
qed simp_all

definition wf_node :: "node \<Rightarrow> bool" where
  "wf_node n \<longleftrightarrow> 0 \<le> nd_pipe_count n \<and> nd_pipe_count n \<le> PIPE_LIMIT
    \<and> length (nd_pipes n) = nat PIPE_LIMIT \<and> length (nd_timed n) = nat PIPE_LIMIT"

definition links :: "node \<Rightarrow> (typed_pipe \<times> int) list" where
  "links n = zip (take (nat (nd_pipe_count n)) (nd_pipes n)) (take (nat (nd_pipe_count n)) (nd_timed n))"

lemma link_bench_eq:
  assumes "wf_node n" "nd_pipe_count n < PIPE_LIMIT"
  shows "\<exists>m. link_bench type fdi fdo timer n = Some m \<and> wf_node m
    \<and> links m = links n @ [(\<lparr>tp_type = type, tp_fd_in = fdi, tp_fd_out = fdo\<rparr>, timer)]
    \<and> nd_name m = nd_name n \<and> nd_pipe_count m = nd_pipe_count n + 1"
proof -
  obtain k where k: "nd_pipe_count n = int k" "k < 10"
    using assms by (metis wf_node_def PIPE_LIMIT_def nonneg_int_cases of_nat_less_numeral_iff)
  have "nat (int k + 1) = Suc k" by simp
  then show ?thesis
    using assms k by (auto simp: link_bench_def wf_node_def links_def PIPE_LIMIT_def take_Suc_conv_app_nth zip_append)
qed

text \<open>A link connects two components: when the system gives a pipe, one call adds its write end to
  the links of the first component and its read end to those of the second, with the same type and each
  with its own timer, and nothing else in the list changes.\<close>

theorem link_node_connects:
  assumes "i < length (nodes_of ns)" "j < length (nodes_of ns)" "i \<noteq> j"
    and "wf_node (nodes_of ns ! i)" "wf_node (nodes_of ns ! j)"
    and "nd_pipe_count (nodes_of ns ! i) < PIPE_LIMIT" "nd_pipe_count (nodes_of ns ! j) < PIPE_LIMIT"
    and "on_pipe K h = Some (r, w)"
  shows "\<exists>ns' h'. link_node K type i ti j tj (ns, h) = Some (ns', h') \<and> length (nodes_of ns') = length (nodes_of ns)
    \<and> links (nodes_of ns' ! i) = links (nodes_of ns ! i) @ [(\<lparr>tp_type = type, tp_fd_in = 0, tp_fd_out = w\<rparr>, ti)]
    \<and> links (nodes_of ns' ! j) = links (nodes_of ns ! j) @ [(\<lparr>tp_type = type, tp_fd_in = r, tp_fd_out = 0\<rparr>, tj)]
    \<and> (\<forall>k. k \<noteq> i \<longrightarrow> k \<noteq> j \<longrightarrow> k < length (nodes_of ns) \<longrightarrow> nodes_of ns' ! k = nodes_of ns ! k)
    \<and> names ns' = names ns"
proof -
  obtain c where c: "link_bench type 0 w ti (nodes_of ns ! i) = Some c"
    "links c = links (nodes_of ns ! i) @ [(\<lparr>tp_type = type, tp_fd_in = 0, tp_fd_out = w\<rparr>, ti)]"
    "nd_name c = nd_name (nodes_of ns ! i)"
    using link_bench_eq [OF assms(4,6)] by blast
  obtain d where d: "link_bench type r 0 tj (nodes_of ns ! j) = Some d"
    "links d = links (nodes_of ns ! j) @ [(\<lparr>tp_type = type, tp_fd_in = r, tp_fd_out = 0\<rparr>, tj)]"
    "nd_name d = nd_name (nodes_of ns ! j)"
    using link_bench_eq [OF assms(5,7)] by blast
  obtain ns1 where ns1: "on_node i (link_bench type 0 w ti) ns = Some ns1" "nodes_of ns1 = (nodes_of ns)[i := c]"
    using on_node_eq [of i ns "link_bench type 0 w ti", OF assms(1) c(1)] by blast
  have "nodes_of ns1 ! j = nodes_of ns ! j" using ns1(2) assms(3) by simp
  then obtain ns2 where ns2: "on_node j (link_bench type r 0 tj) ns1 = Some ns2" "nodes_of ns2 = (nodes_of ns1)[j := d]"
    using on_node_eq [of j ns1 "link_bench type r 0 tj" d] d(1) ns1(2) assms(2) by auto
  have nm: "names ns2 = names ns"
  proof (rule nth_equalityI)
    show "length (names ns2) = length (names ns)" using ns1(2) ns2(2) by (simp add: names_def)
    fix k assume "k < length (names ns2)"
    then show "names ns2 ! k = names ns ! k"
      using ns1(2) ns2(2) c(3) d(3) assms(1-3) by (cases "k = j"; cases "k = i") (simp_all add: names_def)
  qed
  have "link_node K type i ti j tj (ns, h) = Some (ns2, h @ [SysPipe (Some (r, w))])"
    using assms(8) ns1(1) ns2(1) by (simp add: link_node_def sys_pipe_def)
  then show ?thesis using ns1(2) ns2(2) c(2) d(2) assms(1-3) nm by auto
qed

definition two_nodes :: nodelist where
  "two_nodes = Cell ((garbage glibc)\<lparr>nd_name := ''mapper''\<rparr>) (Cell ((garbage glibc)\<lparr>nd_name := ''planner''\<rparr>) Malloced)"

theorem link_node_connects_witness:
  "\<exists>ns' h'. link_node quiet MAP_UPDATE 0 1 1 2 (two_nodes, []) = Some (ns', h')
     \<and> links (nodes_of ns' ! 0) = [(\<lparr>tp_type = MAP_UPDATE, tp_fd_in = 0, tp_fd_out = 4\<rparr>, 1)]
     \<and> links (nodes_of ns' ! 1) = [(\<lparr>tp_type = MAP_UPDATE, tp_fd_in = 3, tp_fd_out = 0\<rparr>, 2)]"
proof -
  have pre: "nodes_of two_nodes = [(garbage glibc)\<lparr>nd_name := ''mapper''\<rparr>, (garbage glibc)\<lparr>nd_name := ''planner''\<rparr>]"
    "wf_node ((garbage glibc)\<lparr>nd_name := nm\<rparr>)" "nd_pipe_count (garbage glibc) < PIPE_LIMIT"
    "links ((garbage glibc)\<lparr>nd_name := nm\<rparr>) = []" "on_pipe quiet [] = Some (3, 4)" for nm
    by (simp_all add: two_nodes_def glibc_def wf_node_def PIPE_LIMIT_def links_def quiet_def)
  show ?thesis
    using link_node_connects [of 0 two_nodes 1 quiet "[]" 3 4 MAP_UPDATE 1 2] pre by auto
qed

section \<open>Command lines\<close>

definition one_end :: "typed_pipe \<Rightarrow> bool" where
  "one_end p \<longleftrightarrow> tp_fd_in p = 0 \<and> 1 \<le> tp_fd_out p \<and> tp_fd_out p < 100
     \<or> tp_fd_out p = 0 \<and> 1 \<le> tp_fd_in p \<and> tp_fd_in p < 100"

definition pipe_text :: "typed_pipe \<Rightarrow> string" where
  "pipe_text p = MESSAGE_T (tp_type p) @ '':'' @ fd_string (tp_fd_in p) @ '':'' @ fd_string (tp_fd_out p)"

lemma fd_string_0: "fd_string 0 = ''0''"
  by code_simp

lemma serializePipe_ends: "one_end p \<Longrightarrow> serializePipe g p = Some (pipe_text p)"
  using serializePipe_out [of p g] serializePipe_in [of p g]
  by (auto simp: one_end_def pipe_text_def fd_string_0)

lemma scan_digits_fd:
  assumes "0 \<le> d" "d < 100" "r = [] \<or> \<not> is_digit (hd r)"
  shows "scan_int (fd_string d @ r) = Some (d, r)"
proof -
  have stop: "scan_digits acc r = (acc, r)" for acc using assms(3) by (cases r) auto
  have "\<forall>x \<in> {0..9}. is_digit (digit_char x) \<and> \<not> is_space (digit_char x) \<and> digit_char x \<noteq> CHR ''-''
      \<and> digit_char x \<noteq> CHR ''+'' \<and> (of_char (digit_char x) :: int) = 48 + x"
    by code_simp
  then have dig: "is_digit (digit_char x)" "\<not> is_space (digit_char x)" "digit_char x \<noteq> CHR ''-''"
    "digit_char x \<noteq> CHR ''+''" "(of_char (digit_char x) :: int) = 48 + x" if "0 \<le> x" "x < 10" for x
    using that by simp_all
  have "0 \<le> d mod 10" "d mod 10 < 10" "0 \<le> d div 10" "d div 10 < 10" using assms by auto
  note facts = dig [OF this(1,2)] dig [OF this(3,4)]
  show ?thesis
    using facts dig [of d] assms by (cases "d < 10") (simp_all add: fd_string_def scan_unsigned_def stop)
qed

lemma parse_pipe_text:
  assumes "one_end p" "0 \<le> t" "t < 100"
  shows "parsePipe tail (pipe_text p @ '':'' @ fd_string t) v = Some (v\<lparr>rep_info := MESSAGE_T (tp_type p) @ tail,
    fd_in := tp_fd_in p, fd_out := tp_fd_out p, timed := (if t \<noteq> 0 then 1 else 0)\<rparr>)"
proof -
  have fds: "0 \<le> tp_fd_in p" "tp_fd_in p < 100" "0 \<le> tp_fd_out p" "tp_fd_out p < 100"
    using assms(1) by (auto simp: one_end_def)
  have colon: "\<not> is_digit (CHR '':'')" by code_simp
  have sl: "takeWhile (\<lambda>c. c \<noteq> CHR '':'') (MESSAGE_T (tp_type p) @ CHR '':'' # r) = MESSAGE_T (tp_type p)" for r
    using MESSAGE_T_chars [of _ "tp_type p"] by (simp add: takeWhile_append2)
  have "length (MESSAGE_T (tp_type p)) < 100" by (cases "tp_type p") simp_all
  then show ?thesis
    using scan_digits_fd [OF fds(1,2), of "CHR '':'' # r" for r] scan_digits_fd [OF fds(3,4), of "CHR '':'' # r" for r]
      scan_digits_fd [OF assms(2,3), of "[]"] colon
    by (simp add: parsePipe_def pipe_text_def sl scan_colon_int_def)
qed

lemma show_int_fd:
  assumes "0 \<le> t" "t < 100"
  shows "show_int t = fd_string t"
proof -
  obtain k where k: "t = int k" "k < 100" using assms by (cases t) auto
  have "nat (48 + int k div 10) = nat (int (48 + k div 10))" "nat (48 + int k mod 10) = nat (int (48 + k mod 10))"
    "nat (48 + int k) = nat (int (48 + k))" by (simp_all add: of_nat_div of_nat_mod)
  then show ?thesis
    using k by (auto simp: show_int_def fd_string_def show_nat.simps digit_char_def simp del: of_nat_add)
qed

text \<open>The arguments that \<open>launch_node\<close> builds for a voter.\<close>

definition launchable :: "node \<Rightarrow> bool" where
  "launchable n \<longleftrightarrow> wf_node n \<and> list_all (\<lambda>(p, t). one_end p \<and> 0 \<le> t \<and> t < 100) (links n)"

lemma wf_nodeE:
  assumes "wf_node n"
  obtains k where "nd_pipe_count n = int k" "k \<le> 10" "length (nd_pipes n) = 10" "length (nd_timed n) = 10"
  by (rule that [of "nat (nd_pipe_count n)"]) (use assms in \<open>auto simp: wf_node_def PIPE_LIMIT_def\<close>)

lemma length_links: "wf_node n \<Longrightarrow> length (links n) = nat (nd_pipe_count n)"
  by (erule wf_nodeE) (simp add: links_def)

lemma links_nth:
  assumes "wf_node n" "i < nat (nd_pipe_count n)"
  shows "aget (nd_pipes n) (int i) = Some (fst (links n ! i))" "aget (nd_timed n) (int i) = Some (snd (links n ! i))"
  using assms by (auto elim!: wf_nodeE simp: links_def)

lemma voter_argv_eq:
  assumes "launchable n" "nd_voter_name n = Some vn" "nd_voter_timer n = Some vt"
  shows "voter_argv g n = Some ([vn, nd_value n, REP_TYPE_T (nd_rep_strat n), vt, nd_priority n]
    @ map (\<lambda>(p, t). pipe_text p @ '':'' @ fd_string t) (links n))"
proof -
  let ?k = "nat (nd_pipe_count n)" and ?arg = "\<lambda>(p, t). pipe_text p @ '':'' @ fd_string t"
  let ?base = "[vn, nd_value n, REP_TYPE_T (nd_rep_strat n), vt, nd_priority n]"
  have wf: "wf_node n" using assms(1) by (simp add: launchable_def)
  have "\<exists>r. for_upto 0 (int ?k) (\<lambda>i argv. do {
         p \<leftarrow> aget (nd_pipes n) i; s \<leftarrow> serializePipe g p; t \<leftarrow> aget (nd_timed n) i;
         Some (argv @ [s @ '':'' @ show_int t]) }) ?base = Some r \<and> r = ?base @ map ?arg (take ?k (links n))"
  proof (rule for_upto_nat [where P = "\<lambda>i r. r = ?base @ map ?arg (take i (links n))"])
    fix i r assume i: "i < ?k" "r = ?base @ map ?arg (take i (links n))"
    obtain p t where pt: "links n ! i = (p, t)" by (cases "links n ! i")
    then have "one_end p" "0 \<le> t" "t < 100"
      using assms(1) i(1) length_links [OF wf] by (auto simp: launchable_def list_all_length)
    then show "\<exists>s'. do { p \<leftarrow> aget (nd_pipes n) (int i); s \<leftarrow> serializePipe g p; t \<leftarrow> aget (nd_timed n) (int i);
         Some (r @ [s @ '':'' @ show_int t]) } = Some s' \<and> s' = ?base @ map ?arg (take (Suc i) (links n))"
      using i links_nth [OF wf i(1)] pt length_links [OF wf]
      by (simp add: serializePipe_ends show_int_fd take_Suc_conv_app_nth)
  qed simp
  moreover have "int ?k = nd_pipe_count n" using wf by (simp add: wf_node_def)
  ultimately show ?thesis
    using assms(2,3) length_links [OF wf] by (simp add: voter_argv_def serializeRep_def)
qed

subsection \<open>What the voter reads\<close>

lemma aget_base: "aget ([a, b, c, d, e] @ xs) 1 = Some b" "aget ([a, b, c, d, e] @ xs) 2 = Some c"
  "aget ([a, b, c, d, e] @ xs) 3 = Some d" "aget ([a, b, c, d, e] @ xs) 4 = Some e"
  by (simp_all add: aget_def)

lemma aget_args: "i < length xs \<Longrightarrow> aget ([a, b, c, d, e] @ xs) (int i + 5) = Some (xs ! i)"
  by (simp add: aget_def nat_add_distrib nth_append)

definition parsed :: "string \<Rightarrow> typed_pipe \<times> int \<Rightarrow> vote_pipe \<Rightarrow> vote_pipe" where
  "parsed tail l v = v\<lparr>rep_info := MESSAGE_T (tp_type (fst l)) @ tail, fd_in := tp_fd_in (fst l),
    fd_out := tp_fd_out (fst l), timed := (if snd l \<noteq> 0 then 1 else 0)\<rparr>"

lemma parse_exts:
  assumes "list_all (\<lambda>(p, t). one_end p \<and> 0 \<le> t \<and> t < 100) ls" "length vs = length ls"
  shows "for_upto 0 (int (length ls)) (\<lambda>i exts. do {
      serial \<leftarrow> aget ([a, b, c, d, e] @ map (\<lambda>(p, t). pipe_text p @ '':'' @ fd_string t) ls) (i + 5);
      x \<leftarrow> aget exts i; x' \<leftarrow> parsePipe (tail i) serial x; aset exts i x' }) vs
    = Some (map (\<lambda>i. parsed (tail (int i)) (ls ! i) (vs ! i)) [0..<length ls])"
proof -
  let ?r = "\<lambda>i. map (\<lambda>i. parsed (tail (int i)) (ls ! i) (vs ! i)) [0..<i] @ drop i vs"
  have "\<exists>r. for_upto 0 (int (length ls)) (\<lambda>i exts. do {
      serial \<leftarrow> aget ([a, b, c, d, e] @ map (\<lambda>(p, t). pipe_text p @ '':'' @ fd_string t) ls) (i + 5);
      x \<leftarrow> aget exts i; x' \<leftarrow> parsePipe (tail i) serial x; aset exts i x' }) vs = Some r \<and> r = ?r (length ls)"
  proof (rule for_upto_nat [where P = "\<lambda>i r. r = ?r i"])
    fix i r assume i: "i < length ls" "r = ?r i"
    obtain p t where pt: "ls ! i = (p, t)" by (cases "ls ! i")
    then have ok: "one_end p" "0 \<le> t" "t < 100" using assms(1) i(1) by (auto simp: list_all_length)
    have x: "aget r (int i) = Some (vs ! i)" using i assms(2) by (simp add: nth_append)
    have "parsePipe (tail (int i)) (pipe_text p @ '':'' @ fd_string t) (vs ! i) = Some (parsed (tail (int i)) (p, t) (vs ! i))"
      using parse_pipe_text [OF ok] by (simp add: parsed_def)
    moreover have "aset r (int i) y = Some (map (\<lambda>i. parsed (tail (int i)) (ls ! i) (vs ! i)) [0..<i] @ y # drop (Suc i) vs)" for y
      using i assms(2) by (simp add: list_update_append Cons_nth_drop_Suc [symmetric])
    ultimately show "\<exists>s'. do {
      serial \<leftarrow> aget ([a, b, c, d, e] @ map (\<lambda>(p, t). pipe_text p @ '':'' @ fd_string t) ls) (int i + 5);
      x \<leftarrow> aget r (int i); x' \<leftarrow> parsePipe (tail (int i)) serial x; aset r (int i) x' } = Some s' \<and> s' = ?r (Suc i)"
      using aget_args [of i "map (\<lambda>(p, t). pipe_text p @ '':'' @ fd_string t) ls" a b c d e] i(1) pt x by simp
  qed simp
  then show ?thesis using assms(2) by simp
qed

text \<open>The two tables have room for two timed inputs and two timed outputs.\<close>

definition timed_in :: "vote_pipe \<Rightarrow> bool" where
  "timed_in e \<longleftrightarrow> timed e \<noteq> 0 \<and> fd_in e \<noteq> 0"

definition timed_out :: "vote_pipe \<Rightarrow> bool" where
  "timed_out e \<longleftrightarrow> timed e \<noteq> 0 \<and> fd_in e = 0"

lemma set_timer_indices_total:
  assumes len: "length (timer_start_index s) = 2" "length (timer_stop_index s) = 2" "pipe_count s = int (length (ext_pipes s))"
    and few: "length (filter timed_in (ext_pipes s)) \<le> 2" "length (filter timed_out (ext_pipes s)) \<le> 2"
  shows "\<exists>a b. set_timer_indices s = Some (s\<lparr>timer_start_index := a, timer_stop_index := b\<rparr>)"
proof -
  let ?E = "ext_pipes s"
  let ?f = "\<lambda>i (s, c_in_pipe, c_out_pipe). do {
         ext \<leftarrow> aget (ext_pipes s) i;
         if timed ext \<noteq> 0 then
           if fd_in ext \<noteq> 0 then do {
             ts \<leftarrow> aset (timer_start_index s) c_in_pipe i;
             Some (s\<lparr>timer_start_index := ts\<rparr>, c_in_pipe + 1, c_out_pipe)
           }
           else do {
             ts \<leftarrow> aset (timer_stop_index s) c_out_pipe i;
             Some (s\<lparr>timer_stop_index := ts\<rparr>, c_in_pipe, c_out_pipe + 1)
           }
         else Some (s, c_in_pipe, c_out_pipe)
       }"
  let ?P = "\<lambda>i (t, c, d). \<exists>a b. t = s\<lparr>timer_start_index := a, timer_stop_index := b\<rparr> \<and> length a = 2 \<and> length b = 2
      \<and> c = int (length (filter timed_in (take i ?E))) \<and> d = int (length (filter timed_out (take i ?E)))"
  have "\<exists>r. for_upto 0 (int (length ?E)) ?f (s, 0, 0) = Some r \<and> ?P (length ?E) r"
  proof (rule for_upto_nat [where P = ?P])
    show "case (s, 0, 0) of (t, c, d) \<Rightarrow> \<exists>a b. t = s\<lparr>timer_start_index := a, timer_stop_index := b\<rparr> \<and> length a = 2
        \<and> length b = 2 \<and> c = int (length (filter timed_in (take 0 ?E))) \<and> d = int (length (filter timed_out (take 0 ?E)))"
      unfolding prod.case
      by (rule exI [of _ "timer_start_index s"], rule exI [of _ "timer_stop_index s"]) (use len(1,2) in simp)
    fix i st assume i: "i < length ?E" "?P i st"
    let ?m = "length (filter timed_in (take i ?E))" and ?k = "length (filter timed_out (take i ?E))"
    obtain a b where st: "st = (s\<lparr>timer_start_index := a, timer_stop_index := b\<rparr>, int ?m, int ?k)"
      "length a = 2" "length b = 2"
      using i(2) by (cases st) auto
    have up: "filter P (take (Suc i) ?E) = filter P (take i ?E) @ (if P (?E ! i) then [?E ! i] else [])" for P
      using i(1) by (simp add: take_Suc_conv_app_nth)
    have "length (filter P (take (Suc i) ?E)) \<le> length (filter P ?E)" for P
      by (metis append_take_drop_id filter_append length_append le_add1)
    then have small: "timed_in (?E ! i) \<Longrightarrow> ?m < 2" "timed_out (?E ! i) \<Longrightarrow> ?k < 2"
      using few up [of timed_in] up [of timed_out] order_trans by fastforce+
    have e: "aget (ext_pipes (s\<lparr>timer_start_index := a, timer_stop_index := b\<rparr>)) (int i) = Some (?E ! i)" using i(1) by simp
    show "\<exists>s'. ?f (int i) st = Some s' \<and> ?P (Suc i) s'"
    proof (cases "timed (?E ! i) = 0")
      case True
      then show ?thesis using st e up by (auto simp: timed_in_def timed_out_def)
    next
      case False
      show ?thesis
      proof (cases "fd_in (?E ! i) = 0")
        case True
        then have run: "?f (int i) st = Some (s\<lparr>timer_start_index := a, timer_stop_index := b[?k := int i]\<rparr>, int ?m, int (Suc ?k))"
          using False st small(2) e by (simp add: add.commute timed_out_def)
        have "?P (Suc i) (s\<lparr>timer_start_index := a, timer_stop_index := b[?k := int i]\<rparr>, int ?m, int (Suc ?k))"
          unfolding prod.case
          by (rule exI [of _ a], rule exI [of _ "b[?k := int i]"])
            (use False True st(2,3) up in \<open>simp add: timed_in_def timed_out_def\<close>)
        then show ?thesis using run by blast
      next
        case fd: False
        then have run: "?f (int i) st = Some (s\<lparr>timer_start_index := a[?m := int i], timer_stop_index := b\<rparr>, int (Suc ?m), int ?k)"
          using False st small(1) e by (simp add: add.commute timed_in_def)
        have "?P (Suc i) (s\<lparr>timer_start_index := a[?m := int i], timer_stop_index := b\<rparr>, int (Suc ?m), int ?k)"
          unfolding prod.case
          by (rule exI [of _ "a[?m := int i]"], rule exI [of _ b])
            (use False fd st(2,3) up in \<open>simp add: timed_in_def timed_out_def\<close>)
        then show ?thesis using run by blast
      qed
    qed
  qed
  then obtain a b c d where "for_upto 0 (int (length ?E)) ?f (s, 0, 0) = Some (s\<lparr>timer_start_index := a, timer_stop_index := b\<rparr>, c, d)"
    by auto
  then show ?thesis using len(3) by (auto simp: set_timer_indices_def)
qed

lemma replica_blocks:
  assumes "length reps = 3" "0 \<le> m" "m \<le> 3"
  obtains reps' where "for_upto 0 m (\<lambda>i reps. do {
        r \<leftarrow> aget reps i;
        aset reps i (r\<lparr>vot_pipes := malloc_pipes g (2 * i + 1) k,
                       voter_rep_in_copy := map (\<lambda>j. fd_in (g (2 * i + 1) j)) [0..k - 1],
                       rep_pipes := malloc_pipes g (2 * i + 2) k\<rparr>)
      }) reps = Some reps'"
proof -
  have "\<exists>reps'. for_upto 0 (int (nat m)) (\<lambda>i reps. do {
        r \<leftarrow> aget reps i;
        aset reps i (r\<lparr>vot_pipes := malloc_pipes g (2 * i + 1) k,
                       voter_rep_in_copy := map (\<lambda>j. fd_in (g (2 * i + 1) j)) [0..k - 1],
                       rep_pipes := malloc_pipes g (2 * i + 2) k\<rparr>)
      }) reps = Some reps' \<and> length reps' = 3"
    by (rule for_upto_nat [where P = "\<lambda>_ reps. length reps = 3"]) (use assms in auto)
  then show ?thesis using assms(2) that by auto
qed

definition parsed_exts :: "(int \<Rightarrow> string) \<Rightarrow> (typed_pipe \<times> int) list \<Rightarrow> vote_pipe list \<Rightarrow> vote_pipe list" where
  "parsed_exts tail ls vs = map (\<lambda>i. parsed (tail (int i)) (ls ! i) (vs ! i)) [0..<length ls]"

lemma length_parsed_exts [simp]: "length (parsed_exts tail ls vs) = length ls"
  by (simp add: parsed_exts_def)

lemma parsed_exts_nth: "i < length ls \<Longrightarrow> rep_info (parsed_exts tail ls vs ! i) = MESSAGE_T (tp_type (fst (ls ! i))) @ tail (int i)"
  by (simp add: parsed_exts_def parsed_def)

lemma parsed_exts_view: "map (\<lambda>e. (fd_in e, fd_out e, timed e)) (parsed_exts tail ls vs)
    = map (\<lambda>(p, t). (tp_fd_in p, tp_fd_out p, if t \<noteq> 0 then 1 else 0)) ls"
  by (rule nth_equalityI) (simp_all add: parsed_exts_def parsed_def case_prod_unfold)

lemma timed_parsed_exts:
  "length (filter timed_in (parsed_exts tail ls vs)) = length (filter (\<lambda>(p, t). t \<noteq> 0 \<and> tp_fd_in p \<noteq> 0) ls)"
  "length (filter timed_out (parsed_exts tail ls vs)) = length (filter (\<lambda>(p, t). t \<noteq> 0 \<and> tp_fd_in p = 0) ls)"
proof -
  have view: "map (\<lambda>e. (fd_in e, timed e)) (parsed_exts tail ls vs) = map (\<lambda>(p, t). (tp_fd_in p, if t \<noteq> 0 then 1 else 0)) ls"
    by (rule nth_equalityI) (auto simp: parsed_exts_def parsed_def split: prod.split)
  have count: "length (filter (\<lambda>e. P (fd_in e, timed e)) (parsed_exts tail ls vs))
      = length (filter (\<lambda>(p, t). P (tp_fd_in p, if t \<noteq> 0 then 1 else 0)) ls)" for P
    using arg_cong [OF view, of "\<lambda>xs. length (filter P xs)"] by (simp add: filter_map o_def case_prod_unfold)
  show "length (filter timed_in (parsed_exts tail ls vs)) = length (filter (\<lambda>(p, t). t \<noteq> 0 \<and> tp_fd_in p \<noteq> 0) ls)"
    using count [of "\<lambda>(i, t). t \<noteq> 0 \<and> i \<noteq> 0"]
    by (simp add: timed_in_def [abs_def] case_prod_unfold) (rule arg_cong [where f = length], rule filter_cong, auto)
  show "length (filter timed_out (parsed_exts tail ls vs)) = length (filter (\<lambda>(p, t). t \<noteq> 0 \<and> tp_fd_in p = 0) ls)"
    using count [of "\<lambda>(i, t). t \<noteq> 0 \<and> i = 0"]
    by (simp add: timed_out_def [abs_def] case_prod_unfold) (rule arg_cong [where f = length], rule filter_cong, auto)
qed

text \<open>The arguments of a voter, whoever wrote them.\<close>

definition link_args :: "(typed_pipe \<times> int) list \<Rightarrow> string list" where
  "link_args ls = map (\<lambda>(p, t). pipe_text p @ '':'' @ fd_string t) ls"

definition voter_links :: "(typed_pipe \<times> int) list \<Rightarrow> bool" where
  "voter_links ls \<longleftrightarrow> list_all (\<lambda>(p, t). one_end p \<and> 0 \<le> t \<and> t < 100) ls \<and> int (length ls) \<le> PIPE_LIMIT
     \<and> length (filter (\<lambda>(p, t). t \<noteq> 0 \<and> tp_fd_in p \<noteq> 0) ls) \<le> 2 \<and> length (filter (\<lambda>(p, t). t \<noteq> 0 \<and> tp_fd_in p = 0) ls) \<le> 2"

lemma voter_args_parsed:
  assumes ls: "voter_links ls" and type: "type \<in> {SMR, DMR, TMR}"
  shows "\<exists>s. parseArgs g' tail ([vn, name, REP_TYPE_T type, vt, prio] @ link_args ls) voterd_globals = Some (0, s)
    \<and> controller_name s = name \<and> rep_type s = type \<and> rep_count s = reptypeToCount type
    \<and> voting_timeout s = (if atoi vt = 0 then PERIOD_USEC else atoi vt) \<and> voter_priority s = atoi prio
    \<and> pipe_count s = int (length ls)
    \<and> map (\<lambda>e. (fd_in e, fd_out e, timed e)) (ext_pipes s)
        = map (\<lambda>(p, t). (tp_fd_in p, tp_fd_out p, if t \<noteq> 0 then 1 else 0)) ls
    \<and> (\<forall>i < length ls. rep_info (ext_pipes s ! i) = MESSAGE_T (tp_type (fst (ls ! i))) @ tail (int i))"
proof -
  let ?k = "length ls" and ?argv = "[vn, name, REP_TYPE_T type, vt, prio] @ link_args ls"
  let ?exts = "parsed_exts tail ls (malloc_pipes g' 0 (int ?k))"
  have t: "reptypeToEnum (REP_TYPE_T type) = type" "0 \<le> reptypeToCount type" "reptypeToCount type \<le> 3"
    using type by (auto simp: reptypeToEnum_def)
  let ?s1 = "voterd_globals\<lparr>controller_name := name, rep_type := type, rep_count := reptypeToCount type,
      voting_timeout := (if atoi vt = 0 then PERIOD_USEC else atoi vt), voter_priority := atoi prio, pipe_count := int ?k\<rparr>"
  have ok: "list_all (\<lambda>(p, t). one_end p \<and> 0 \<le> t \<and> t < 100) ls" using ls by (simp add: voter_links_def)
  have "length (malloc_pipes g' 0 (int ?k)) = ?k" by (simp add: malloc_pipes_def)
  note exts = parse_exts [OF ok this, folded parsed_exts_def link_args_def, of vn name "REP_TYPE_T type" vt prio tail]
  obtain reps where reps: "for_upto 0 (reptypeToCount type) (\<lambda>i reps. do {
        r \<leftarrow> aget reps i;
        aset reps i (r\<lparr>vot_pipes := malloc_pipes g' (2 * i + 1) (int ?k),
                       voter_rep_in_copy := map (\<lambda>j. fd_in (g' (2 * i + 1) j)) [0..int ?k - 1],
                       rep_pipes := malloc_pipes g' (2 * i + 2) (int ?k)\<rparr>)
      }) (replicas voterd_globals) = Some reps"
    by (rule replica_blocks [OF _ t(2,3), of "replicas voterd_globals" g' "int ?k"]) (simp_all add: voterd_globals_def REP_MAX_def)
  let ?s2 = "?s1\<lparr>ext_pipes := ?exts, replicas := reps\<rparr>"
  have few: "length (filter timed_in (ext_pipes ?s2)) \<le> 2" "length (filter timed_out (ext_pipes ?s2)) \<le> 2"
    using ls by (simp_all add: timed_parsed_exts voter_links_def)
  obtain a b where ab: "set_timer_indices ?s2 = Some (?s2\<lparr>timer_start_index := a, timer_stop_index := b\<rparr>)"
    using set_timer_indices_total [of ?s2, OF _ _ _ few] by (auto simp: voterd_globals_def)
  have min: "min (int ?k) PIPE_LIMIT = int ?k" "length (link_args ls) = ?k" using ls by (simp_all add: voter_links_def link_args_def)
  have "parseArgs g' tail ?argv voterd_globals = Some (0, ?s2\<lparr>timer_start_index := a, timer_stop_index := b\<rparr>)"
    unfolding parseArgs_def Let_def aget_base
    using exts reps ab t(1) min by (simp add: voterd_globals_def)
  then show ?thesis by (simp add: parsed_exts_nth parsed_exts_view)
qed

text \<open>C33: What the plumber writes the voter reads: for a component with a replication strategy, whose pipes
  each have one end of one or two digits and of which at most two inputs and two outputs are timed, the
  argument vector that \<open>launch_node\<close> builds makes the voter's \<open>parseArgs\<close> succeed with the controller, the
  strategy and its number of replicas, the timer and the priority of the declaration, and with one external
  pipe for each link, of the same direction, descriptor and timing. Only the type is not the same string:
  the voter's copy of it has no end of its own and goes on with the memory behind it.\<close>

theorem voter_argv_parsed:
  assumes n: "launchable n" "nd_voter_name n = Some vn" "nd_voter_timer n = Some vt"
    and rep: "nd_rep_strat n = SMR \<or> nd_rep_strat n = DMR \<or> nd_rep_strat n = TMR"
    and few: "length (filter (\<lambda>(p, t). t \<noteq> 0 \<and> tp_fd_in p \<noteq> 0) (links n)) \<le> 2"
      "length (filter (\<lambda>(p, t). t \<noteq> 0 \<and> tp_fd_in p = 0) (links n)) \<le> 2"
  shows "\<exists>argv s. voter_argv g n = Some argv \<and> parseArgs g' tail argv voterd_globals = Some (0, s)
    \<and> controller_name s = nd_value n \<and> rep_type s = nd_rep_strat n \<and> rep_count s = reptypeToCount (nd_rep_strat n)
    \<and> voting_timeout s = (if atoi vt = 0 then PERIOD_USEC else atoi vt) \<and> voter_priority s = atoi (nd_priority n)
    \<and> pipe_count s = nd_pipe_count n
    \<and> map (\<lambda>e. (fd_in e, fd_out e, timed e)) (ext_pipes s)
        = map (\<lambda>(p, t). (tp_fd_in p, tp_fd_out p, if t \<noteq> 0 then 1 else 0)) (links n)
    \<and> (\<forall>i < length (links n). rep_info (ext_pipes s ! i) = MESSAGE_T (tp_type (fst (links n ! i))) @ tail (int i))"
proof -
  have wf: "wf_node n" using n(1) by (simp add: launchable_def)
  have k: "nd_pipe_count n = int (length (links n))" using length_links [OF wf] wf by (auto simp: wf_node_def)
  have ls: "voter_links (links n)"
    using n(1) few k wf by (simp add: voter_links_def launchable_def wf_node_def)
  have type: "nd_rep_strat n \<in> {SMR, DMR, TMR}" using rep by auto
  show ?thesis
    using voter_argv_eq [OF n, of g, folded link_args_def] k voter_args_parsed [OF ls type, of g' tail vn "nd_value n" vt "nd_priority n"]
    by auto
qed

text \<open>The planner as \<open>controllers/configs/all_tmr_wl.cfg\<close> declares and links it.\<close>

definition voted_planner :: node where
  "voted_planner = (garbage glibc)\<lparr>nd_name := ''plan'', nd_value := ''AStar'', nd_priority := ''10'', nd_rep_strat := TMR,
     nd_voter_name := Some ''VoterD'', nd_voter_timer := Some ''400000'', nd_pipe_count := 4,
     nd_timed := [1, 1, 2, 2] @ replicate 6 0,
     nd_pipes := [\<lparr>tp_type = MAP_UPDATE, tp_fd_in = 7, tp_fd_out = 0\<rparr>, \<lparr>tp_type = COMM_ACK, tp_fd_in = 0, tp_fd_out = 9\<rparr>,
       \<lparr>tp_type = WAY_REQ, tp_fd_in = 9, tp_fd_out = 0\<rparr>, \<lparr>tp_type = WAY_RES, tp_fd_in = 0, tp_fd_out = 11\<rparr>]
       @ replicate 6 blank_typed_pipe\<rparr>"

theorem voter_argv_parsed_witness:
  "\<exists>argv s. voter_argv (\<lambda>_. NUL) voted_planner = Some argv \<and> parseArgs (\<lambda>_ _. command_pipe \<lparr>mov_seq_count = 0, vel_cmd = []\<rparr>) (\<lambda>_. []) argv voterd_globals = Some (0, s)
     \<and> controller_name s = ''AStar'' \<and> rep_count s = 3 \<and> voting_timeout s = 400000
     \<and> map (\<lambda>e. (fd_in e, fd_out e, timed e)) (ext_pipes s) = [(7, 0, 1), (0, 9, 1), (9, 0, 1), (0, 11, 1)]"
proof -
  have pre: "nd_voter_name voted_planner = Some ''VoterD''" "nd_voter_timer voted_planner = Some ''400000''"
    "nd_rep_strat voted_planner = TMR" "nd_value voted_planner = ''AStar''"
    "links voted_planner = [(\<lparr>tp_type = MAP_UPDATE, tp_fd_in = 7, tp_fd_out = 0\<rparr>, 1), (\<lparr>tp_type = COMM_ACK, tp_fd_in = 0, tp_fd_out = 9\<rparr>, 1),
       (\<lparr>tp_type = WAY_REQ, tp_fd_in = 9, tp_fd_out = 0\<rparr>, 2), (\<lparr>tp_type = WAY_RES, tp_fd_in = 0, tp_fd_out = 11\<rparr>, 2)]"
    by (simp_all add: voted_planner_def links_def)
  have "launchable voted_planner"
    using pre(5) by (simp add: launchable_def wf_node_def one_end_def voted_planner_def PIPE_LIMIT_def)
  moreover have "atoi ''400000'' = 400000" by code_simp
  ultimately show ?thesis
    using voter_argv_parsed [of voted_planner "''VoterD''" "''400000''" "\<lambda>_. NUL" "\<lambda>_ _. command_pipe \<lparr>mov_seq_count = 0, vel_cmd = []\<rparr>" "\<lambda>_. []"] pre
    by (auto simp del: atoi.simps)
qed

end
