(* ===== verification/PlumberConfig.thy ===== *)
theory PlumberConfig
  imports PlumberProps "HOL-Library.Sublist"
begin

text \<open>
  The configuration language of the plumber. The scanner of \<open>plumber/pb.l\<close> is its table of patterns, run
  by flex's rule: the longest match, of the earliest pattern that has it. The parser of \<open>plumber/pb.y\<close> is
  given twice: as the productions of the grammar with the calls their actions make, and as a function that
  reads a list of tokens once, as the generated parser does. They are proved to agree; what the printed
  form of a configuration denotes is the configuration.
\<close>

section \<open>Patterns\<close>

datatype pattern =
    Fail
  | Epsilon
  | Chars "char \<Rightarrow> bool"
  | Seq pattern pattern
  | Alt pattern pattern
  | Star pattern

definition Lit :: "string \<Rightarrow> pattern" where
  "Lit str = foldr (\<lambda>c p. Seq (Chars (\<lambda>x. x = c)) p) str Epsilon"

definition Plus :: "pattern \<Rightarrow> pattern" where
  "Plus p = Seq p (Star p)"

definition Opt :: "pattern \<Rightarrow> pattern" where
  "Opt p = Alt p Epsilon"

inductive denotes :: "pattern \<Rightarrow> string \<Rightarrow> bool" where
  epsilon: "denotes Epsilon []"
| chars: "f c \<Longrightarrow> denotes (Chars f) [c]"
| seq: "denotes p u \<Longrightarrow> denotes q v \<Longrightarrow> denotes (Seq p q) (u @ v)"
| alt1: "denotes p u \<Longrightarrow> denotes (Alt p q) u"
| alt2: "denotes q u \<Longrightarrow> denotes (Alt p q) u"
| star0: "denotes (Star p) []"
| star: "denotes p u \<Longrightarrow> u \<noteq> [] \<Longrightarrow> denotes (Star p) v \<Longrightarrow> denotes (Star p) (u @ v)"

inductive_simps denotes_simps [simp]:
  "denotes Fail u" "denotes Epsilon u" "denotes (Chars f) u" "denotes (Seq p q) u" "denotes (Alt p q) u"

inductive_cases denotes_StarE: "denotes (Star p) u"

lemma denotes_Lit [simp]: "denotes (Lit str) u \<longleftrightarrow> u = str"
  by (induction str arbitrary: u) (auto simp: Lit_def)

lemma denotes_Star_Chars [simp]: "denotes (Star (Chars f)) u \<longleftrightarrow> list_all f u"
proof
  assume "denotes (Star (Chars f)) u"
  then show "list_all f u"
    by (induction "Star (Chars f)" u) auto
next
  assume "list_all f u"
  then show "denotes (Star (Chars f)) u"
  proof (induction u)
    case (Cons c u)
    then show ?case using star [of "Chars f" "[c]" u] by (simp add: chars)
  qed (simp add: star0)
qed

lemma denotes_Plus_Chars [simp]: "denotes (Plus (Chars f)) u \<longleftrightarrow> u \<noteq> [] \<and> list_all f u"
proof
  assume "u \<noteq> [] \<and> list_all f u"
  then obtain c v where "u = [c] @ v" "f c" "list_all f v" by (cases u) auto
  then show "denotes (Plus (Chars f)) u"
    by (simp only: Plus_def denotes_simps denotes_Star_Chars) blast
qed (auto simp: Plus_def)

subsection \<open>Matching\<close>

text \<open>What is left of a pattern after a character; a pattern that cannot match any more is \<open>Fail\<close>.\<close>

fun nullable :: "pattern \<Rightarrow> bool" where
  "nullable Fail = False"
| "nullable Epsilon = True"
| "nullable (Chars f) = False"
| "nullable (Seq p q) = (nullable p \<and> nullable q)"
| "nullable (Alt p q) = (nullable p \<or> nullable q)"
| "nullable (Star p) = True"

fun seq_of :: "pattern \<Rightarrow> pattern \<Rightarrow> pattern" where
  "seq_of Fail q = Fail"
| "seq_of Epsilon q = q"
| "seq_of p q = Seq p q"

fun alt_of :: "pattern \<Rightarrow> pattern \<Rightarrow> pattern" where
  "alt_of Fail q = q"
| "alt_of p Fail = p"
| "alt_of p q = Alt p q"

fun after :: "char \<Rightarrow> pattern \<Rightarrow> pattern" where
  "after c Fail = Fail"
| "after c Epsilon = Fail"
| "after c (Chars f) = (if f c then Epsilon else Fail)"
| "after c (Seq p q) = (if nullable p then alt_of (seq_of (after c p) q) (after c q) else seq_of (after c p) q)"
| "after c (Alt p q) = alt_of (after c p) (after c q)"
| "after c (Star p) = seq_of (after c p) (Star p)"

lemma nullable_iff: "nullable p \<longleftrightarrow> denotes p []"
  by (induction p) (auto intro: star0)

lemma denotes_seq_of [simp]: "denotes (seq_of p q) u \<longleftrightarrow> denotes (Seq p q) u"
  by (cases "(p, q)" rule: seq_of.cases) auto

lemma denotes_alt_of [simp]: "denotes (alt_of p q) u \<longleftrightarrow> denotes p u \<or> denotes q u"
  by (cases "(p, q)" rule: alt_of.cases) auto

lemma denotes_Star_Cons: "denotes (Star p) (c # w) \<longleftrightarrow> (\<exists>u v. w = u @ v \<and> denotes p (c # u) \<and> denotes (Star p) v)"
proof
  assume "denotes (Star p) (c # w)"
  then obtain u v where uv: "c # w = u @ v" "denotes p u" "u \<noteq> []" "denotes (Star p) v"
    by (auto elim: denotes_StarE)
  then obtain u' where "u = c # u'" by (cases u) auto
  then show "\<exists>u v. w = u @ v \<and> denotes p (c # u) \<and> denotes (Star p) v" using uv by auto
next
  assume "\<exists>u v. w = u @ v \<and> denotes p (c # u) \<and> denotes (Star p) v"
  then obtain u v where "w = u @ v" "denotes p (c # u)" "denotes (Star p) v" by blast
  then show "denotes (Star p) (c # w)" using star [of p "c # u" v] by simp
qed

lemma denotes_after: "denotes (after c p) u \<longleftrightarrow> denotes p (c # u)"
proof (induction p arbitrary: u)
  case (Seq p q)
  have "denotes (Seq p q) (c # u) \<longleftrightarrow> (denotes p [] \<and> denotes q (c # u))
      \<or> (\<exists>v w. u = v @ w \<and> denotes p (c # v) \<and> denotes q w)"
    by (simp only: denotes_simps Cons_eq_append_conv) blast
  then show ?case by (simp add: Seq.IH nullable_iff del: denotes_simps(4)) (auto simp: Seq.IH)
next
  case (Star p)
  then show ?case by (auto simp: denotes_Star_Cons)
qed auto

text \<open>The length of the longest prefix that a pattern denotes.\<close>

fun munch :: "pattern \<Rightarrow> string \<Rightarrow> nat option" where
  "munch Fail cs = None"
| "munch p [] = (if nullable p then Some 0 else None)"
| "munch p (c # cs) = (case munch (after c p) cs of
       Some n \<Rightarrow> Some (Suc n)
     | None \<Rightarrow> if nullable p then Some 0 else None)"

lemma munch_Nil: "munch p [] = (if nullable p then Some 0 else None)"
  by (cases p) auto

lemma munch_Cons: "munch p (c # cs) = (case munch (after c p) cs of
       Some n \<Rightarrow> Some (Suc n) | None \<Rightarrow> if nullable p then Some 0 else None)"
  by (cases p) auto

lemma munch_longest:
  "case munch p cs of
     None \<Rightarrow> \<forall>u. prefix u cs \<longrightarrow> \<not> denotes p u
   | Some n \<Rightarrow> n \<le> length cs \<and> denotes p (take n cs) \<and> (\<forall>u. prefix u cs \<longrightarrow> denotes p u \<longrightarrow> length u \<le> n)"
proof (induction cs arbitrary: p)
  case Nil
  then show ?case by (simp add: munch_Nil nullable_iff)
next
  case (Cons c cs)
  have conv: "(\<forall>u. prefix u (c # cs) \<longrightarrow> P u) \<longleftrightarrow> P [] \<and> (\<forall>u. prefix u cs \<longrightarrow> P (c # u))" for P
    by (auto simp: prefix_Cons)
  show ?case
    using Cons.IH [of "after c p"] by (auto simp: munch_Cons conv denotes_after nullable_iff split: option.splits)
qed

lemma munch_eq:
  assumes "denotes p u" "prefix u cs" "\<And>v. prefix v cs \<Longrightarrow> denotes p v \<Longrightarrow> length v \<le> length u"
  shows "munch p cs = Some (length u)"
proof (cases "munch p cs")
  case None
  then show ?thesis using munch_longest [of cs p] assms(1,2) by auto
next
  case (Some n)
  then have n: "n \<le> length cs" "denotes p (take n cs)" "length u \<le> n"
    using munch_longest [of cs p] assms(1,2) by auto
  have "length (take n cs) \<le> length u"
    using assms(3) [OF take_is_prefix n(2)] .
  then show ?thesis using Some n(1,3) by simp
qed

section \<open>The scanner\<close>

datatype token =
    BENCH string
  | P_SMR replication_t
  | P_DMR replication_t
  | P_TMR replication_t
  | START_PIPE
  | END_PIPE
  | START_VOTE
  | END_VOTE
  | START_I2
  | END_I2
  | ASSIGN
  | DELIM
  | VAR_NAME string
  | NAMED_OB string
  | NUMBER_VAL string
  | EOL

abbreviation newline :: char where
  "newline \<equiv> CHR 0x0A"

definition is_blank :: "char \<Rightarrow> bool" where
  "is_blank c \<longleftrightarrow> c = CHR '' '' \<or> c = CHR 0x09 \<or> c = CHR 0x0D"

definition is_lower :: "char \<Rightarrow> bool" where
  "is_lower c \<longleftrightarrow> 97 \<le> (of_char c :: int) \<and> (of_char c :: int) \<le> 122"

definition is_upper :: "char \<Rightarrow> bool" where
  "is_upper c \<longleftrightarrow> 65 \<le> (of_char c :: int) \<and> (of_char c :: int) \<le> 90"

definition is_name_char :: "char \<Rightarrow> bool" where
  "is_name_char c \<longleftrightarrow> is_lower c \<or> is_upper c \<or> c = CHR ''_''"

text \<open>
  The table: a pattern and the token its action returns; an action without a \<open>return\<close> gives \<open>None\<close> and
  the scanner goes on. What the last action prints is not kept.
\<close>

definition rules :: "(pattern \<times> (string \<Rightarrow> token option)) list" where
  "rules = [
     (Chars is_blank, \<lambda>yytext. None),
     (Lit ''Bench'', \<lambda>yytext. Some (BENCH ''Bench'')),
     (Lit ''SMR'', \<lambda>yytext. Some (P_SMR SMR)),
     (Lit ''DMR'', \<lambda>yytext. Some (P_DMR DMR)),
     (Lit ''TMR'', \<lambda>yytext. Some (P_TMR TMR)),
     (Lit ''--'', \<lambda>yytext. Some START_PIPE),
     (Lit ''->'', \<lambda>yytext. Some END_PIPE),
     (Lit ''('', \<lambda>yytext. Some START_VOTE),
     (Lit '')'', \<lambda>yytext. Some END_VOTE),
     (Lit ''['', \<lambda>yytext. Some START_I2),
     (Lit '']'', \<lambda>yytext. Some END_I2),
     (Lit '':='', \<lambda>yytext. Some ASSIGN),
     (Lit '','', \<lambda>yytext. Some DELIM),
     (Seq (Chars is_lower) (Plus (Chars is_name_char)), \<lambda>yytext. Some (VAR_NAME yytext)),
     (Seq (Chars is_upper) (Plus (Chars is_name_char)), \<lambda>yytext. Some (NAMED_OB yytext)),
     (Seq (Opt (Lit ''-'')) (Plus (Chars is_digit)), \<lambda>yytext. Some (NUMBER_VAL yytext)),
     (Seq (Lit ''//'') (Star (Chars (\<lambda>c. c \<noteq> newline))), \<lambda>yytext. Some EOL),
     (Chars (\<lambda>c. c = newline), \<lambda>yytext. Some EOL),
     (Chars (\<lambda>c. c \<noteq> newline), \<lambda>yytext. None)]"

text \<open>The longest match, and of several of that length the first in the table.\<close>

fun flex_match :: "(pattern \<times> 'a) list \<Rightarrow> string \<Rightarrow> (nat \<times> 'a) option" where
  "flex_match [] cs = None"
| "flex_match ((p, act) # rs) cs = (case (munch p cs, flex_match rs cs) of
       (None, m) \<Rightarrow> m
     | (Some n, None) \<Rightarrow> Some (n, act)
     | (Some n, Some (m, act')) \<Rightarrow> if n < m then Some (m, act') else Some (n, act))"

text \<open>A character that no pattern matches is copied to the output by flex; this table has no such character.\<close>

fun consed :: "'a option \<Rightarrow> 'a list \<Rightarrow> 'a list" where
  "consed None xs = xs"
| "consed (Some x) xs = x # xs"

function yylex :: "string \<Rightarrow> token list" where
  "yylex [] = []"
| "yylex (c # cs) = (case flex_match rules (c # cs) of
       None \<Rightarrow> yylex cs
     | Some (n, act) \<Rightarrow> consed (act (take n (c # cs))) (yylex (drop (n - 1) cs)))"
  by pat_completeness auto

termination
  by (relation "measure length") auto

declare yylex.simps(2) [simp del]

definition wins :: "(pattern \<times> 'a) list \<Rightarrow> string \<Rightarrow> nat \<Rightarrow> nat \<Rightarrow> bool" where
  "wins rs cs i n \<longleftrightarrow> i < length rs \<and> munch (fst (rs ! i)) cs = Some n
     \<and> (\<forall>j m. j < length rs \<longrightarrow> munch (fst (rs ! j)) cs = Some m \<longrightarrow> m < n \<or> m = n \<and> i \<le> j)"

lemma wins_Cons_0: "munch p cs = Some n \<Longrightarrow> (\<And>j m. j < length rs \<Longrightarrow> munch (fst (rs ! j)) cs = Some m \<Longrightarrow> m \<le> n)
    \<Longrightarrow> wins ((p, act) # rs) cs 0 n"
  by (fastforce simp: wins_def nth_Cons split: nat.splits)

lemma wins_Cons_Suc: "wins rs cs i n \<Longrightarrow> (\<And>m. munch p cs = Some m \<Longrightarrow> m < n) \<Longrightarrow> wins ((p, act) # rs) cs (Suc i) n"
  by (fastforce simp: wins_def nth_Cons split: nat.splits)

lemma flex_match_longest:
  "case flex_match rs cs of
     None \<Rightarrow> \<forall>(p, act) \<in> set rs. munch p cs = None
   | Some (n, act) \<Rightarrow> \<exists>i. wins rs cs i n \<and> snd (rs ! i) = act"
proof (induction rs)
  case (Cons r rs)
  obtain p act where r: "r = (p, act)" by (cases r)
  show ?case
  proof (cases "flex_match rs cs")
    case None
    then have none: "munch (fst (rs ! j)) cs = None" if "j < length rs" for j
      using Cons.IH that by (metis (mono_tags, lifting) case_prod_unfold nth_mem option.simps(4))
    show ?thesis
    proof (cases "munch p cs")
      case (Some n)
      then have "wins (r # rs) cs 0 n" using wins_Cons_0 [OF Some, of rs act] none r by simp
      then show ?thesis using None Some r by (auto intro: exI [of _ 0])
    qed (use None Cons.IH r in simp)
  next
    case (Some m)
    obtain k act' where m: "m = (k, act')" by (cases m)
    obtain i where i: "wins rs cs i k" "snd (rs ! i) = act'" using Cons.IH Some m by auto
    show ?thesis
    proof (cases "\<exists>n. munch p cs = Some n \<and> k \<le> n")
      case True
      then obtain n where n: "munch p cs = Some n" "k \<le> n" by blast
      have "wins (r # rs) cs 0 n"
        unfolding r by (rule wins_Cons_0 [OF n(1)]) (use i(1) n(2) in \<open>fastforce simp: wins_def\<close>)
      then show ?thesis using Some m n r by (auto intro: exI [of _ 0])
    next
      case False
      have "wins (r # rs) cs (Suc i) k"
        unfolding r by (rule wins_Cons_Suc [OF i(1)]) (use False in auto)
      then show ?thesis using Some m False r i(2) by (cases "munch p cs") (auto intro!: exI [of _ "Suc i"])
    qed
  qed
qed simp

text \<open>What flex promises: a first longest match takes a non-empty part of the input off its front.\<close>

definition first_longest :: "nat \<Rightarrow> string \<Rightarrow> string \<Rightarrow> bool" where
  "first_longest i u cs \<longleftrightarrow> i < length rules \<and> prefix u cs \<and> u \<noteq> [] \<and> denotes (fst (rules ! i)) u
     \<and> (\<forall>j v. j < length rules \<longrightarrow> prefix v cs \<longrightarrow> denotes (fst (rules ! j)) v \<longrightarrow>
          length v < length u \<or> length v = length u \<and> i \<le> j)"

inductive tokenized :: "string \<Rightarrow> token list \<Rightarrow> bool" where
  eof: "tokenized [] []"
| lexeme: "first_longest i u (u @ v) \<Longrightarrow> tokenized v ts \<Longrightarrow> tokenized (u @ v) (consed (snd (rules ! i) u) ts)"

lemma first_longest_unique:
  assumes "first_longest i u cs" "first_longest j v cs"
  shows "i = j \<and> u = v"
proof -
  have "length v = length u" "i = j"
    using assms unfolding first_longest_def by (metis le_antisym less_asym less_irrefl)+
  then show ?thesis
    using assms unfolding first_longest_def by (metis prefix_length_prefix prefix_order.antisym order_refl)
qed

lemma no_rule_empty: "(p, act) \<in> set rules \<Longrightarrow> \<not> denotes p []"
  by (auto simp: rules_def Opt_def)

lemma some_rule: "\<exists>(p, act) \<in> set rules. denotes p [c]"
  by (cases "c = newline") (simp_all add: rules_def)

lemma yylex_step:
  assumes "cs \<noteq> []"
  shows "\<exists>i u v. cs = u @ v \<and> first_longest i u cs \<and> yylex cs = consed (snd (rules ! i) u) (yylex v)"
proof -
  obtain c cs' where cs: "cs = c # cs'" using assms by (cases cs) auto
  obtain p0 act0 where p0: "(p0, act0) \<in> set rules" "denotes p0 [c]" using some_rule [of c] by auto
  have "prefix [c] cs" using cs by simp
  then have "munch p0 cs \<noteq> None" using munch_longest [of cs p0] p0(2) by (cases "munch p0 cs") auto
  then have "flex_match rules cs \<noteq> None"
    using flex_match_longest [of rules cs] p0(1) by (cases "flex_match rules cs") auto
  then obtain n act where m: "flex_match rules cs = Some (n, act)" by auto
  then obtain i where i: "wins rules cs i n" "snd (rules ! i) = act"
    using flex_match_longest [of rules cs] by auto
  let ?u = "take n cs"
  have u: "n \<le> length cs" "denotes (fst (rules ! i)) ?u" "i < length rules"
    using munch_longest [of cs "fst (rules ! i)"] i(1) by (simp_all add: wins_def)
  have "(fst (rules ! i), act) \<in> set rules" using u(3) i(2) by (metis nth_mem prod.collapse)
  then have ne: "?u \<noteq> []" using no_rule_empty u(2) by metis
  have "length v < length ?u \<or> length v = length ?u \<and> i \<le> j"
    if j: "j < length rules" "prefix v cs" "denotes (fst (rules ! j)) v" for j v
  proof -
    obtain k where k: "munch (fst (rules ! j)) cs = Some k" "length v \<le> k"
      using munch_longest [of cs "fst (rules ! j)"] j(2,3) by (cases "munch (fst (rules ! j)) cs") auto
    then have "k < n \<or> k = n \<and> i \<le> j" using i(1) j(1) by (simp add: wins_def)
    then show ?thesis using k(2) u(1) by auto
  qed
  then have "first_longest i ?u cs"
    using u ne by (simp add: first_longest_def take_is_prefix)
  moreover have "yylex cs = consed (snd (rules ! i) ?u) (yylex (drop n cs))"
  proof -
    have "n \<noteq> 0" using ne by auto
    then show ?thesis using m i cs by (cases n) (simp_all add: yylex.simps(2))
  qed
  ultimately show ?thesis by (metis append_take_drop_id)
qed

lemma yylex_lexeme:
  assumes "first_longest i u (u @ v)"
  shows "yylex (u @ v) = consed (snd (rules ! i) u) (yylex v)"
proof -
  have "u @ v \<noteq> []" using assms by (auto simp: first_longest_def)
  from yylex_step [OF this] obtain j u' v' where
    j: "u @ v = u' @ v'" "first_longest j u' (u @ v)" "yylex (u @ v) = consed (snd (rules ! j) u') (yylex v')" by blast
  then show ?thesis using first_longest_unique [OF assms j(2)] by simp
qed

lemma tokenized_yylex: "tokenized cs (yylex cs)"
proof (induction "length cs" arbitrary: cs rule: less_induct)
  case less
  show ?case
  proof (cases "cs = []")
    case False
    then obtain i u v where u: "cs = u @ v" "first_longest i u cs" "yylex cs = consed (snd (rules ! i) u) (yylex v)"
      using yylex_step by blast
    then have "u \<noteq> []" by (simp add: first_longest_def)
    then show ?thesis using tokenized.lexeme [of i u v "yylex v"] less [of v] u by simp
  qed (simp add: tokenized.eof)
qed

lemma tokenized_iff: "tokenized cs ts \<longleftrightarrow> yylex cs = ts"
proof
  assume "tokenized cs ts"
  then show "yylex cs = ts" by induction (simp_all add: yylex_lexeme)
qed (auto intro: tokenized_yylex)


section \<open>The grammar\<close>

text \<open>
  The productions of \<open>pb.y\<close>, with what their actions leave in \<open>$$\<close>, or the call they make. A name in
  parentheses or brackets has the index 1 or 2; the relations with \<open>Bench\<close> only keep that there is one.
\<close>

inductive arrow :: "token list \<Rightarrow> string \<Rightarrow> bool" where
  arrow: "arrow [START_PIPE, NAMED_OB t, END_PIPE] t"

inductive rep_name :: "token list \<Rightarrow> int \<Rightarrow> string \<Rightarrow> bool" where
  parens: "rep_name [START_VOTE, VAR_NAME n, END_VOTE] 1 n"
| brackets: "rep_name [START_I2, VAR_NAME n, END_I2] 2 n"

inductive rep_strat :: "token list \<Rightarrow> replication_t \<Rightarrow> bool" where
  smr: "rep_strat [P_SMR r] r"
| dmr: "rep_strat [P_DMR r] r"
| tmr: "rep_strat [P_TMR r] r"

inductive rep_comp :: "token list \<Rightarrow> string \<Rightarrow> bool" where
  comp: "rep_comp [START_VOTE, NAMED_OB v, END_VOTE] v"

inductive decl :: "token list \<Rightarrow> statement \<Rightarrow> bool" where
  plain: "decl [VAR_NAME n, ASSIGN, NAMED_OB v, NUMBER_VAL p] (Declare n v p)"
| voted: "rep_comp cs v \<Longrightarrow> rep_strat rs r \<Longrightarrow>
    decl ([VAR_NAME n, ASSIGN, NAMED_OB voter] @ cs @ rs @ [DELIM, NUMBER_VAL t, NUMBER_VAL p])
      (DeclareVoted n voter v r t p)"

inductive relationship :: "token list \<Rightarrow> statement \<Rightarrow> bool" where
  bench_var: "arrow as t \<Longrightarrow> relationship (BENCH b # as @ [VAR_NAME n]) (FromBench t n False)"
| bench_rep: "arrow as t \<Longrightarrow> rep_name bs i n \<Longrightarrow> relationship (BENCH b # as @ bs) (FromBench t n True)"
| var_bench: "arrow as t \<Longrightarrow> relationship (VAR_NAME n # as @ [BENCH b]) (ToBench n t False)"
| rep_bench: "rep_name bs i n \<Longrightarrow> arrow as t \<Longrightarrow> relationship (bs @ as @ [BENCH b]) (ToBench n t True)"
| var_var: "arrow as t \<Longrightarrow> relationship (VAR_NAME m # as @ [VAR_NAME n]) (Relate m 0 t n 0)"
| rep_rep: "rep_name bs i m \<Longrightarrow> arrow as t \<Longrightarrow> rep_name cs j n \<Longrightarrow> relationship (bs @ as @ cs) (Relate m i t n j)"
| var_rep: "arrow as t \<Longrightarrow> rep_name cs j n \<Longrightarrow> relationship (VAR_NAME m # as @ cs) (Relate m 0 t n j)"
| rep_var: "rep_name bs i m \<Longrightarrow> arrow as t \<Longrightarrow> relationship (bs @ as @ [VAR_NAME n]) (Relate m i t n 0)"

inductive line :: "token list \<Rightarrow> statement list \<Rightarrow> bool" where
  empty: "line [] []"
| relation: "line ts ss \<Longrightarrow> relationship st s \<Longrightarrow> line (ts @ st @ [EOL]) (ss @ [s])"
| declared: "line ts ss \<Longrightarrow> decl st s \<Longrightarrow> line (ts @ st @ [EOL]) (ss @ [s])"
| blank: "line ts ss \<Longrightarrow> line (ts @ [EOL]) ss"

inductive_simps arrow_iff: "arrow ts t"
inductive_simps rep_name_iff: "rep_name ts i n"
inductive_simps rep_strat_iff: "rep_strat ts r"
inductive_simps rep_comp_iff: "rep_comp ts v"
inductive_simps decl_iff: "decl ts s"
inductive_simps relationship_iff: "relationship ts s"

lemmas grammar_iffs = arrow_iff rep_name_iff rep_strat_iff rep_comp_iff decl_iff relationship_iff

section \<open>The parser\<close>

text \<open>
  Every state of the generated automaton with a finished production has that one only, so it reduces, and
  runs the action, before it looks at the next token: a statement takes effect even if no end of line
  follows. The parser then reports an error, which the program ignores.
\<close>

fun accept :: "token \<Rightarrow> token list \<Rightarrow> token list option" where
  "accept t [] = None"
| "accept t (x # xs) = (if x = t then Some xs else None)"

definition read_named :: "token list \<Rightarrow> (string \<times> token list) option" where
  "read_named ts = (case ts of NAMED_OB n # xs \<Rightarrow> Some (n, xs) | _ \<Rightarrow> None)"

definition read_number :: "token list \<Rightarrow> (string \<times> token list) option" where
  "read_number ts = (case ts of NUMBER_VAL n # xs \<Rightarrow> Some (n, xs) | _ \<Rightarrow> None)"

definition read_var :: "token list \<Rightarrow> (string \<times> token list) option" where
  "read_var ts = (case ts of VAR_NAME n # xs \<Rightarrow> Some (n, xs) | _ \<Rightarrow> None)"

definition read_strat :: "token list \<Rightarrow> (replication_t \<times> token list) option" where
  "read_strat ts = (case ts of P_SMR r # xs \<Rightarrow> Some (r, xs) | P_DMR r # xs \<Rightarrow> Some (r, xs)
     | P_TMR r # xs \<Rightarrow> Some (r, xs) | _ \<Rightarrow> None)"

definition read_arrow :: "token list \<Rightarrow> (string \<times> token list) option" where
  "read_arrow ts = do { xs \<leftarrow> accept START_PIPE ts; (t, ys) \<leftarrow> read_named xs; zs \<leftarrow> accept END_PIPE ys; Some (t, zs) }"

definition read_comp :: "token list \<Rightarrow> (string \<times> token list) option" where
  "read_comp ts = do { xs \<leftarrow> accept START_VOTE ts; (v, ys) \<leftarrow> read_named xs; zs \<leftarrow> accept END_VOTE ys; Some (v, zs) }"

definition read_declaration :: "token list \<Rightarrow> (statement \<times> token list) option" where
  "read_declaration ts =
     do {
       (n, xs) \<leftarrow> read_var ts; ys \<leftarrow> accept ASSIGN xs; (v, zs) \<leftarrow> read_named ys;
       case read_number zs of
         Some (p, us) \<Rightarrow> Some (Declare n v p, us)
       | None \<Rightarrow> do {
           (c, us) \<leftarrow> read_comp zs; (r, vs) \<leftarrow> read_strat us; ws \<leftarrow> accept DELIM vs;
           (t, xs) \<leftarrow> read_number ws; (p, ys) \<leftarrow> read_number xs;
           Some (DeclareVoted n v c r t p, ys)
         }
     }"

text \<open>One side of a relation: \<open>Bench\<close>, or a component with its index.\<close>

datatype side = Bench_side | Component string int bool

definition read_side :: "token list \<Rightarrow> (side \<times> token list) option" where
  "read_side ts = (case ts of
       BENCH b # xs \<Rightarrow> Some (Bench_side, xs)
     | VAR_NAME n # xs \<Rightarrow> Some (Component n 0 False, xs)
     | START_VOTE # xs \<Rightarrow> do { (n, ys) \<leftarrow> read_var xs; zs \<leftarrow> accept END_VOTE ys; Some (Component n 1 True, zs) }
     | START_I2 # xs \<Rightarrow> do { (n, ys) \<leftarrow> read_var xs; zs \<leftarrow> accept END_I2 ys; Some (Component n 2 True, zs) }
     | _ \<Rightarrow> None)"

fun relate :: "side \<Rightarrow> string \<Rightarrow> side \<Rightarrow> statement option" where
  "relate Bench_side t Bench_side = None"
| "relate Bench_side t (Component n i v) = Some (FromBench t n v)"
| "relate (Component n i v) t Bench_side = Some (ToBench n t v)"
| "relate (Component m i v) t (Component n j w) = Some (Relate m i t n j)"

definition read_relationship :: "token list \<Rightarrow> (statement \<times> token list) option" where
  "read_relationship ts =
     do {
       (a, xs) \<leftarrow> read_side ts; (t, ys) \<leftarrow> read_arrow xs; (b, zs) \<leftarrow> read_side ys;
       s \<leftarrow> relate a t b; Some (s, zs)
     }"

definition read_statement :: "token list \<Rightarrow> (statement \<times> token list) option" where
  "read_statement ts = (case read_declaration ts of Some r \<Rightarrow> Some r | None \<Rightarrow> read_relationship ts)"

lemma accept_iff: "accept t ts = Some xs \<longleftrightarrow> ts = t # xs"
  by (cases ts) auto

lemma read_named_iff: "read_named ts = Some (n, xs) \<longleftrightarrow> ts = NAMED_OB n # xs"
  by (auto simp: read_named_def split: list.splits token.splits)

lemma read_number_iff: "read_number ts = Some (n, xs) \<longleftrightarrow> ts = NUMBER_VAL n # xs"
  by (auto simp: read_number_def split: list.splits token.splits)

lemma read_var_iff: "read_var ts = Some (n, xs) \<longleftrightarrow> ts = VAR_NAME n # xs"
  by (auto simp: read_var_def split: list.splits token.splits)

lemma read_strat_iff: "read_strat ts = Some (r, xs) \<longleftrightarrow> ts = P_SMR r # xs \<or> ts = P_DMR r # xs \<or> ts = P_TMR r # xs"
  by (auto simp: read_strat_def split: list.splits token.splits)

lemma read_arrow_iff: "read_arrow ts = Some (t, xs) \<longleftrightarrow> ts = START_PIPE # NAMED_OB t # END_PIPE # xs"
  by (auto simp: read_arrow_def accept_iff read_named_iff Option.bind_eq_Some_conv)

lemma read_comp_iff: "read_comp ts = Some (v, xs) \<longleftrightarrow> ts = START_VOTE # NAMED_OB v # END_VOTE # xs"
  by (auto simp: read_comp_def accept_iff read_named_iff Option.bind_eq_Some_conv)

lemma read_side_iff:
  "read_side ts = Some (a, xs) \<longleftrightarrow>
     (\<exists>b. ts = BENCH b # xs \<and> a = Bench_side) \<or> (\<exists>n. ts = VAR_NAME n # xs \<and> a = Component n 0 False)
     \<or> (\<exists>n. ts = START_VOTE # VAR_NAME n # END_VOTE # xs \<and> a = Component n 1 True)
     \<or> (\<exists>n. ts = START_I2 # VAR_NAME n # END_I2 # xs \<and> a = Component n 2 True)"
  by (auto simp: read_side_def accept_iff read_var_iff Option.bind_eq_Some_conv split: list.splits token.splits)

definition is_statement :: "token list \<Rightarrow> statement \<Rightarrow> bool" where
  "is_statement st s \<longleftrightarrow> relationship st s \<or> decl st s"

lemma read_declaration_iff: "read_declaration ts = Some (s, xs) \<longleftrightarrow> (\<exists>st. ts = st @ xs \<and> decl st s)"
proof
  assume "read_declaration ts = Some (s, xs)"
  then show "\<exists>st. ts = st @ xs \<and> decl st s"
    by (auto simp: read_declaration_def accept_iff read_named_iff read_number_iff read_var_iff read_strat_iff
        read_comp_iff grammar_iffs Option.bind_eq_Some_conv split: option.splits)
next
  assume "\<exists>st. ts = st @ xs \<and> decl st s"
  then show "read_declaration ts = Some (s, xs)"
    by (auto simp: read_declaration_def read_named_def read_number_def read_var_def read_strat_def read_comp_def
        grammar_iffs)
qed

lemma read_relationship_iff: "read_relationship ts = Some (s, xs) \<longleftrightarrow> (\<exists>st. ts = st @ xs \<and> relationship st s)"
proof
  assume "read_relationship ts = Some (s, xs)"
  then show "\<exists>st. ts = st @ xs \<and> relationship st s"
    by (auto simp: read_relationship_def read_side_iff read_arrow_iff grammar_iffs Option.bind_eq_Some_conv)
next
  assume "\<exists>st. ts = st @ xs \<and> relationship st s"
  then show "read_relationship ts = Some (s, xs)"
    by (auto simp: read_relationship_def read_side_def read_arrow_def read_named_def read_var_def grammar_iffs)
qed

lemma decl_front: "decl st s \<Longrightarrow> \<exists>n r. st = VAR_NAME n # ASSIGN # r"
  by (auto simp: grammar_iffs)

lemma relationship_front: "relationship st s \<Longrightarrow> st @ xs \<noteq> VAR_NAME n # ASSIGN # r"
  by (auto simp: grammar_iffs)

lemma read_statement_iff: "read_statement ts = Some (s, xs) \<longleftrightarrow> (\<exists>st. ts = st @ xs \<and> is_statement st s)"
proof (cases "read_declaration ts")
  case None
  then have "\<not> (\<exists>st. ts = st @ xs \<and> decl st s)" using read_declaration_iff [of ts s xs] by auto
  then show ?thesis using None read_relationship_iff [of ts s xs] by (auto simp: read_statement_def is_statement_def)
next
  case (Some r)
  obtain s' ys where r: "r = (s', ys)" by (cases r)
  obtain st where st: "ts = st @ ys" "decl st s'" using Some read_declaration_iff [of ts s' ys] r by auto
  then obtain n q where "ts = VAR_NAME n # ASSIGN # q" using decl_front by fastforce
  then have "\<not> (\<exists>st. ts = st @ xs \<and> relationship st s)" using relationship_front by metis
  then show ?thesis using Some read_declaration_iff [of ts s xs] by (auto simp: read_statement_def is_statement_def)
qed

lemma is_statement_nonempty: "is_statement st s \<Longrightarrow> st \<noteq> [] \<and> hd st \<noteq> EOL"
  by (auto simp: is_statement_def grammar_iffs)

text \<open>The statements whose actions run, and whether the parser accepts the input.\<close>

lemma read_statement_shorter: "read_statement ts = Some (s, xs) \<Longrightarrow> length xs < length ts"
  using is_statement_nonempty by (fastforce simp: read_statement_iff)

function yyparse :: "token list \<Rightarrow> statement list \<times> bool" where
  "yyparse [] = ([], True)"
| "yyparse (t # ts) =
     (if t = EOL then yyparse ts
      else case read_statement (t # ts) of
        None \<Rightarrow> ([], False)
      | Some (s, xs) \<Rightarrow> (case accept EOL xs of
          None \<Rightarrow> ([s], False)
        | Some ys \<Rightarrow> (s # fst (yyparse ys), snd (yyparse ys))))"
  by pat_completeness auto

termination
  by (relation "measure length") (auto simp: accept_iff dest!: read_statement_shorter)

declare yyparse.simps(2) [simp del]

lemma yyparse_EOL [simp]: "yyparse (EOL # ts) = yyparse ts"
  by (simp add: yyparse.simps(2))

lemma yyparse_statement:
  assumes "is_statement st s"
  shows "yyparse (st @ xs) = (case accept EOL xs of None \<Rightarrow> ([s], False)
     | Some ys \<Rightarrow> (s # fst (yyparse ys), snd (yyparse ys)))"
proof -
  have r: "read_statement (st @ xs) = Some (s, xs)" using assms read_statement_iff by blast
  obtain t st' where st: "st = t # st'" "t \<noteq> EOL" using is_statement_nonempty [OF assms] by (cases st) auto
  then show ?thesis using r yyparse.simps(2) [of t "st' @ xs"] by simp
qed

lemma yyparse_error:
  assumes "ts \<noteq> []" "hd ts \<noteq> EOL" "read_statement ts = None"
  shows "yyparse ts = ([], False)"
proof -
  obtain t ts' where "ts = t # ts'" "t \<noteq> EOL" using assms(1,2) by (cases ts) auto
  then show ?thesis using assms(3) yyparse.simps(2) [of t ts'] by simp
qed

lemma yyparse_line: "line ts ss \<Longrightarrow> yyparse (ts @ xs) = (ss @ fst (yyparse xs), snd (yyparse xs))"
proof (induction arbitrary: xs rule: line.induct)
  case (relation ts ss st s)
  have "is_statement st s" using relation.hyps by (simp add: is_statement_def)
  then show ?case using relation.IH [of "st @ EOL # xs"] yyparse_statement [of st s "EOL # xs"] by simp
next
  case (declared ts ss st s)
  have "is_statement st s" using declared.hyps by (simp add: is_statement_def)
  then show ?case using declared.IH [of "st @ EOL # xs"] yyparse_statement [of st s "EOL # xs"] by simp
qed simp_all

lemma line_app: "line ts ss \<Longrightarrow> line us rs \<Longrightarrow> line (us @ ts) (rs @ ss)"
proof (induction rule: line.induct)
  case (relation ts ss st s)
  then show ?case using line.relation [of "us @ ts" "rs @ ss" st s] by simp
next
  case (declared ts ss st s)
  then show ?case using line.declared [of "us @ ts" "rs @ ss" st s] by simp
next
  case (blank ts ss)
  then show ?case using line.blank [of "us @ ts" "rs @ ss"] by simp
qed simp

lemma line_statement: "is_statement st s \<Longrightarrow> line (st @ [EOL]) [s]"
  using line.relation [OF line.empty, of st s] line.declared [OF line.empty, of st s] by (auto simp: is_statement_def)

lemma line_EOL: "line [EOL] []"
  using line.blank [OF line.empty] by simp

text \<open>The statements that a piece of input has been reduced to: lines, and perhaps one more statement.\<close>

inductive reduced :: "token list \<Rightarrow> statement list \<Rightarrow> bool" where
  lines: "line ts ss \<Longrightarrow> reduced ts ss"
| partial: "line ts ss \<Longrightarrow> is_statement st s \<Longrightarrow> reduced (ts @ st) (ss @ [s])"

lemma reduced_app: "line us rs \<Longrightarrow> reduced ts ss \<Longrightarrow> reduced (us @ ts) (rs @ ss)"
proof (erule reduced.cases)
  fix ts' ss' st s
  assume "line us rs" "ts = ts' @ st" "ss = ss' @ [s]" "line ts' ss'" "is_statement st s"
  then show "reduced (us @ ts) (rs @ ss)"
    using reduced.partial [OF line_app [of ts' ss' us rs], of st s] by simp
qed (auto intro: reduced.lines line_app)

lemma token_cases:
  obtains "ts = []" | xs where "ts = EOL # xs" | "ts \<noteq> []" "hd ts \<noteq> EOL" "read_statement ts = None"
    | st s xs where "ts = st @ xs" "is_statement st s"
proof (cases "read_statement ts")
  case None
  then show ?thesis using that(1-3) by (cases ts) auto
next
  case (Some r)
  obtain s xs where "r = (s, xs)" by (cases r)
  then show ?thesis using that(4) Some read_statement_iff [of ts s xs] by auto
qed

lemma yyparse_reduces: "\<exists>pre. prefix pre ts \<and> reduced pre (fst (yyparse ts)) \<and> (snd (yyparse ts) \<longrightarrow> line ts (fst (yyparse ts)))"
proof (induction "length ts" arbitrary: ts rule: less_induct)
  case less
  show ?case
  proof (cases rule: token_cases [of ts])
    case 1
    then show ?thesis by (auto intro: reduced.lines line.empty)
  next
    case (2 xs)
    then obtain pre where pre: "prefix pre xs" "reduced pre (fst (yyparse xs))" "snd (yyparse xs) \<longrightarrow> line xs (fst (yyparse xs))"
      using less [of xs] by auto
    then show ?thesis
      using 2 reduced_app [OF line_EOL pre(2)] line_app [OF _ line_EOL, of xs] by (intro exI [of _ "EOL # pre"]) auto
  next
    case 3
    then show ?thesis using yyparse_error by (auto intro!: exI [of _ "[]"] reduced.lines line.empty)
  next
    case (4 st s xs)
    show ?thesis
    proof (cases "accept EOL xs")
      case None
      have "reduced st [s]" using reduced.partial [OF line.empty 4(2)] by simp
      then show ?thesis using yyparse_statement [OF 4(2), of xs] None 4(1) by (intro exI [of _ st]) simp
    next
      case (Some ys)
      then have xs: "xs = EOL # ys" by (simp add: accept_iff)
      then obtain pre where pre: "prefix pre ys" "reduced pre (fst (yyparse ys))" "snd (yyparse ys) \<longrightarrow> line ys (fst (yyparse ys))"
        using less [of ys] 4(1) by auto
      show ?thesis
        using yyparse_statement [OF 4(2), of xs] Some 4(1) xs pre(1,3) reduced_app [OF line_statement [OF 4(2)] pre(2)]
          line_app [OF _ line_statement [OF 4(2)], of ys]
        by (intro exI [of _ "st @ EOL # pre"]) auto
    qed
  qed
qed

lemma reduced_prefix: "reduced pre ss \<Longrightarrow> prefix ss (fst (yyparse (pre @ xs)))"
proof (induction rule: reduced.induct)
  case (lines ts ss)
  then show ?case using yyparse_line by simp
next
  case (partial ts ss st s)
  then show ?case using yyparse_line [of ts ss "st @ xs"] yyparse_statement [of st s xs] by (auto split: option.splits)
qed



section \<open>Printing\<close>

fun word_text :: "token \<Rightarrow> string" where
  "word_text (BENCH b) = b"
| "word_text (P_SMR r) = ''SMR''"
| "word_text (P_DMR r) = ''DMR''"
| "word_text (P_TMR r) = ''TMR''"
| "word_text START_PIPE = ''--''"
| "word_text END_PIPE = ''->''"
| "word_text START_VOTE = ''(''"
| "word_text END_VOTE = '')''"
| "word_text START_I2 = ''[''"
| "word_text END_I2 = '']''"
| "word_text ASSIGN = '':=''"
| "word_text DELIM = '',''"
| "word_text (VAR_NAME n) = n"
| "word_text (NAMED_OB n) = n"
| "word_text (NUMBER_VAL n) = n"
| "word_text EOL = ''//''"

definition token_text :: "token \<Rightarrow> string" where
  "token_text t = (if t = EOL then [newline] else word_text t @ '' '')"

definition var_word :: "string \<Rightarrow> bool" where
  "var_word n \<longleftrightarrow> 2 \<le> length n \<and> is_lower (hd n) \<and> list_all is_name_char (tl n)"

definition named_word :: "string \<Rightarrow> bool" where
  "named_word n \<longleftrightarrow> 2 \<le> length n \<and> is_upper (hd n) \<and> list_all is_name_char (tl n)
     \<and> n \<notin> {''Bench'', ''SMR'', ''DMR'', ''TMR''}"

definition number_word :: "string \<Rightarrow> bool" where
  "number_word n \<longleftrightarrow> (case n of [] \<Rightarrow> False | c # ds \<Rightarrow> (is_digit c \<or> c = CHR ''-'' \<and> ds \<noteq> []) \<and> list_all is_digit ds)"

fun valid_token :: "token \<Rightarrow> bool" where
  "valid_token (BENCH b) = (b = ''Bench'')"
| "valid_token (P_SMR r) = (r = SMR)"
| "valid_token (P_DMR r) = (r = DMR)"
| "valid_token (P_TMR r) = (r = TMR)"
| "valid_token (VAR_NAME n) = var_word n"
| "valid_token (NAMED_OB n) = named_word n"
| "valid_token (NUMBER_VAL n) = number_word n"
| "valid_token _ = True"

lemma char_classes [simp]:
  "\<not> is_lower CHR '' ''" "\<not> is_upper CHR '' ''" "\<not> is_digit CHR '' ''" "\<not> is_name_char CHR '' ''"
  "\<not> is_lower newline" "\<not> is_upper newline" "\<not> is_digit newline" "\<not> is_name_char newline" "\<not> is_blank newline"
  by code_simp+

lemma name_chars_inside: "list_all is_name_char v \<Longrightarrow> CHR '' '' \<notin> set v \<and> newline \<notin> set v"
  by (auto simp: list_all_iff)

lemma digits_inside: "list_all is_digit v \<Longrightarrow> CHR '' '' \<notin> set v \<and> newline \<notin> set v"
  by (auto simp: list_all_iff)

lemma others_inside: "list_all (\<lambda>c. c \<noteq> newline) v \<Longrightarrow> newline \<notin> set v"
  by (auto simp: list_all_iff)

lemma all_rules: "(\<forall>j < length rules. P j (fst (rules ! j))) \<longleftrightarrow>
    list_all (\<lambda>(j, p, act). P j p) (zip [0..<length rules] rules)"
  by (auto simp: list_all_length)

lemma blank_match:
  assumes "j < length rules" "denotes (fst (rules ! j)) v" "CHR '' '' \<in> set v"
  shows "v = '' '' \<or> hd v = CHR ''/''"
proof -
  have "\<forall>j < length rules. denotes (fst (rules ! j)) v \<longrightarrow> v = '' '' \<or> hd v = CHR ''/''"
    by (rule all_rules [where P = "\<lambda>j p. denotes p v \<longrightarrow> v = '' '' \<or> hd v = CHR ''/''", THEN iffD2], use assms(3) in \<open>auto simp: rules_def upt_rec Opt_def dest!: name_chars_inside digits_inside others_inside\<close>)
  then show ?thesis using assms(1,2) by blast
qed

lemma newline_match:
  assumes "j < length rules" "denotes (fst (rules ! j)) v" "newline \<in> set v"
  shows "v = [newline] \<and> j = 17"
proof -
  have "\<forall>j < length rules. denotes (fst (rules ! j)) v \<longrightarrow> v = [newline] \<and> j = 17"
    by (rule all_rules [where P = "\<lambda>j p. denotes p v \<longrightarrow> v = [newline] \<and> j = 17", THEN iffD2], use assms(3) in \<open>auto simp: rules_def upt_rec Opt_def dest!: name_chars_inside digits_inside others_inside\<close>)
  then show ?thesis using assms(1,2) by blast
qed

lemma yylex_newline: "yylex (newline # cs) = EOL # yylex cs"
proof -
  have "first_longest 17 [newline] ([newline] @ cs)"
    unfolding first_longest_def
  proof (intro conjI allI impI)
    fix j v assume v: "j < length rules" "prefix v ([newline] @ cs)" "denotes (fst (rules ! j)) v"
    show "length v < length [newline] \<or> length v = length [newline] \<and> 17 \<le> j"
    proof (cases v)
      case (Cons c v')
      then have "newline \<in> set v" using v(2) by (simp add: prefix_Cons)
      then show ?thesis using newline_match v(1,3) by simp
    qed simp
  qed (simp_all add: rules_def)
  then show ?thesis using yylex_lexeme by (fastforce simp: rules_def)
qed

lemma yylex_blank: "yylex (CHR '' '' # cs) = yylex cs"
proof -
  have "first_longest 0 '' '' ('' '' @ cs)"
    unfolding first_longest_def
  proof (intro conjI allI impI)
    fix j v assume v: "j < length rules" "prefix v ('' '' @ cs)" "denotes (fst (rules ! j)) v"
    show "length v < length '' '' \<or> length v = length '' '' \<and> 0 \<le> j"
    proof (cases v)
      case (Cons c v')
      then show ?thesis using blank_match [OF v(1,3)] v(2) by (auto simp: prefix_Cons)
    qed simp
  qed (simp_all add: rules_def is_blank_def)
  then show ?thesis using yylex_lexeme by (fastforce simp: rules_def)
qed

lemma yylex_word:
  assumes i: "i < length rules" "denotes (fst (rules ! i)) u" "list_all (\<lambda>r. \<not> denotes (fst r) u) (take i rules)"
    and u: "u \<noteq> []" "CHR '' '' \<notin> set u" "hd u \<noteq> CHR ''/''"
  shows "yylex (u @ CHR '' '' # cs) = consed (snd (rules ! i) u) (yylex cs)"
proof -
  let ?cs = "u @ CHR '' '' # cs"
  have "length v < length u \<or> length v = length u \<and> i \<le> j"
    if v: "j < length rules" "prefix v ?cs" "denotes (fst (rules ! j)) v" for j v
  proof -
    consider "prefix v u" "v \<noteq> u" | "v = u" | w where "v = u @ CHR '' '' # w"
      using v(2) by (auto simp: prefix_append prefix_Cons)
    then show ?thesis
    proof cases
      case 1
      then have "strict_prefix v u" by (simp add: strict_prefix_def)
      then show ?thesis using prefix_length_less by blast
    next
      case 2
      then have "\<not> j < i" using i(1,3) v(3) by (auto simp: list_all_length)
      then show ?thesis using 2 by simp
    next
      case (3 w)
      then have "v \<noteq> '' ''" "CHR '' '' \<in> set v" "hd v \<noteq> CHR ''/''" using u by (auto simp: append_eq_Cons_conv)
      then show ?thesis using blank_match [OF v(1,3)] by simp
    qed
  qed
  then have "first_longest i u ?cs" using i u(1) by (simp add: first_longest_def)
  then show ?thesis using yylex_lexeme yylex_blank by metis
qed

lemma var_wordE:
  assumes "var_word n"
  obtains c d cs where "n = c # d # cs" "is_lower c" "is_name_char d" "list_all is_name_char cs"
proof -
  obtain c d cs where "n = c # d # cs" using assms by (cases n rule: remdups_adj.cases) (auto simp: var_word_def)
  then show thesis using that assms by (simp add: var_word_def)
qed

lemma named_wordE:
  assumes "named_word n"
  obtains c d cs where "n = c # d # cs" "is_upper c" "is_name_char d" "list_all is_name_char cs"
proof -
  obtain c d cs where "n = c # d # cs" using assms by (cases n rule: remdups_adj.cases) (auto simp: named_word_def)
  then show thesis using that assms by (simp add: named_word_def)
qed

lemma number_wordE:
  assumes "number_word n"
  obtains (plus) d ds where "n = d # ds" "is_digit d" "list_all is_digit ds"
    | (minus) d ds where "n = CHR ''-'' # d # ds" "is_digit d" "list_all is_digit ds"
proof (cases n)
  case (Cons c ds)
  show ?thesis
  proof (cases "is_digit c")
    case False
    then obtain d es where "n = CHR ''-'' # d # es" "is_digit d" "list_all is_digit es"
      using Cons assms by (cases ds) (auto simp: number_word_def)
    then show ?thesis by (rule that(2))
  qed (use that(1) Cons assms in \<open>simp add: number_word_def\<close>)
qed (use assms in \<open>simp add: number_word_def\<close>)

lemma upper_char: "is_upper c \<Longrightarrow> \<not> is_blank c \<and> \<not> is_lower c \<and> \<not> is_digit c \<and> c \<notin> set ''-()[]:,/''"
  by (auto simp: is_lower_def is_upper_def is_digit_def is_blank_def)

lemma digit_char_class: "is_digit c \<Longrightarrow> \<not> is_blank c \<and> \<not> is_lower c \<and> \<not> is_upper c \<and> c \<notin> set ''BSDT-()[]:,/>''"
  by (auto simp: is_lower_def is_upper_def is_digit_def is_blank_def)

lemma lower_char: "is_lower c \<Longrightarrow> \<not> is_blank c \<and> \<not> is_upper c \<and> \<not> is_digit c \<and> c \<notin> set ''BSDT-()[]:,/''"
  by (auto simp: is_lower_def is_upper_def is_digit_def is_blank_def)

lemma char_classes_minus [simp]: "\<not> is_blank CHR ''-''" "\<not> is_lower CHR ''-''" "\<not> is_upper CHR ''-''"
  by code_simp+

text \<open>Whether a sequence denotes a word is found character by character.\<close>

declare denotes_simps(4) [simp del]

lemma Lit_Cons: "Lit (a # b) = Seq (Chars (\<lambda>x. x = a)) (Lit b)" "Lit [] = Epsilon"
  by (simp_all add: Lit_def)

lemma denotes_Seq_Cons [simp]:
  "denotes (Seq (Chars f) p) (c # u) \<longleftrightarrow> f c \<and> denotes p u"
  "denotes (Seq (Alt (Lit [a]) Epsilon) p) (c # u) \<longleftrightarrow> c = a \<and> denotes p u \<or> denotes p (c # u)"
  "denotes (Seq (Lit (a # b)) p) (c # u) \<longleftrightarrow> c = a \<and> denotes (Seq (Lit b) p) u"
proof -
  have eps: "denotes (Seq Epsilon p) u \<longleftrightarrow> denotes p u" "\<not> denotes (Seq Fail p) u" for p u
    by (simp_all add: denotes_simps(4))
  show "denotes (Seq (Chars f) p) (c # u) \<longleftrightarrow> f c \<and> denotes p u"
    "denotes (Seq (Alt (Lit [a]) Epsilon) p) (c # u) \<longleftrightarrow> c = a \<and> denotes p u \<or> denotes p (c # u)"
    "denotes (Seq (Lit (a # b)) p) (c # u) \<longleftrightarrow> c = a \<and> denotes (Seq (Lit b) p) u"
    by (simp_all add: denotes_after [symmetric] Lit_Cons eps del: denotes_Lit)
qed

lemma scan_var:
  assumes "var_word n"
  shows "yylex (n @ CHR '' '' # cs) = VAR_NAME n # yylex cs"
proof -
  obtain c d r where n: "n = c # d # r" "is_lower c" "is_name_char d" "list_all is_name_char r" using var_wordE [OF assms] .
  note c = lower_char [OF n(2), simplified]
  have "CHR '' '' \<notin> set n" using n name_chars_inside [OF n(4)] by auto
  then have "yylex (n @ CHR '' '' # cs) = consed (snd (rules ! 13) n) (yylex cs)"
    using n c by (intro yylex_word) (simp_all add: rules_def Opt_def)
  then show ?thesis by (simp add: rules_def)
qed

lemma scan_named:
  assumes "named_word n"
  shows "yylex (n @ CHR '' '' # cs) = NAMED_OB n # yylex cs"
proof -
  obtain c d r where n: "n = c # d # r" "is_upper c" "is_name_char d" "list_all is_name_char r" using named_wordE [OF assms] .
  note c = upper_char [OF n(2), simplified]
  have "n \<notin> {''Bench'', ''SMR'', ''DMR'', ''TMR''}" using assms by (simp add: named_word_def)
  moreover have "CHR '' '' \<notin> set n" using n name_chars_inside [OF n(4)] by auto
  ultimately have "yylex (n @ CHR '' '' # cs) = consed (snd (rules ! 14) n) (yylex cs)"
    using n c by (intro yylex_word) (simp_all add: rules_def Opt_def)
  then show ?thesis by (simp add: rules_def)
qed

lemma scan_number:
  assumes "number_word n"
  shows "yylex (n @ CHR '' '' # cs) = NUMBER_VAL n # yylex cs"
proof -
  have "yylex (n @ CHR '' '' # cs) = consed (snd (rules ! 15) n) (yylex cs)"
    using assms
  proof (cases rule: number_wordE)
    case (plus d ds)
    note d = digit_char_class [OF plus(2), simplified]
    have "CHR '' '' \<notin> set n" using plus digits_inside [OF plus(3)] by auto
    then show ?thesis using plus d by (intro yylex_word) (simp_all add: rules_def Opt_def)
  next
    case (minus d ds)
    note d = digit_char_class [OF minus(2), simplified]
    have "CHR '' '' \<notin> set n" using minus digits_inside [OF minus(3)] by auto
    then show ?thesis using minus d by (intro yylex_word) (simp_all add: rules_def Opt_def)
  qed
  then show ?thesis by (simp add: rules_def)
qed

lemma scan_fixed:
  "yylex (''Bench'' @ CHR '' '' # cs) = BENCH ''Bench'' # yylex cs"
  "yylex (''SMR'' @ CHR '' '' # cs) = P_SMR SMR # yylex cs"
  "yylex (''DMR'' @ CHR '' '' # cs) = P_DMR DMR # yylex cs"
  "yylex (''TMR'' @ CHR '' '' # cs) = P_TMR TMR # yylex cs"
  "yylex (''--'' @ CHR '' '' # cs) = START_PIPE # yylex cs"
  "yylex (''->'' @ CHR '' '' # cs) = END_PIPE # yylex cs"
  "yylex (''('' @ CHR '' '' # cs) = START_VOTE # yylex cs"
  "yylex ('')'' @ CHR '' '' # cs) = END_VOTE # yylex cs"
  "yylex (''['' @ CHR '' '' # cs) = START_I2 # yylex cs"
  "yylex ('']'' @ CHR '' '' # cs) = END_I2 # yylex cs"
  "yylex ('':='' @ CHR '' '' # cs) = ASSIGN # yylex cs"
  "yylex ('','' @ CHR '' '' # cs) = DELIM # yylex cs"
  using yylex_word [of 1 "''Bench''" cs] yylex_word [of 2 "''SMR''" cs] yylex_word [of 3 "''DMR''" cs]
    yylex_word [of 4 "''TMR''" cs] yylex_word [of 5 "''--''" cs] yylex_word [of 6 "''->''" cs] yylex_word [of 7 "''(''" cs]
    yylex_word [of 8 "'')''" cs] yylex_word [of 9 "''[''" cs] yylex_word [of 10 "'']''" cs] yylex_word [of 11 "'':=''" cs]
    yylex_word [of 12 "'',''" cs]
  by (simp_all add: rules_def is_blank_def)

lemma yylex_token: "valid_token t \<Longrightarrow> yylex (token_text t @ cs) = t # yylex cs"
  using scan_fixed yylex_newline scan_var scan_named scan_number by (cases t) (simp_all add: token_text_def)

lemma yylex_tokens: "list_all valid_token ts \<Longrightarrow> yylex (concat (map token_text ts) @ cs) = ts @ yylex cs"
  by (induction ts) (simp_all add: yylex_token)

subsection \<open>Statements\<close>

text \<open>A statement as the grammar's tokens, and its line of text, the tokens apart.\<close>

fun strat_token :: "replication_t \<Rightarrow> token" where
  "strat_token SMR = P_SMR SMR"
| "strat_token DMR = P_DMR DMR"
| "strat_token TMR = P_TMR TMR"
| "strat_token _ = EOL"

definition name_tokens :: "int \<Rightarrow> string \<Rightarrow> token list" where
  "name_tokens i n = (if i = 0 then [VAR_NAME n] else if i = 1 then [START_VOTE, VAR_NAME n, END_VOTE]
     else [START_I2, VAR_NAME n, END_I2])"

fun statement_tokens :: "statement \<Rightarrow> token list" where
  "statement_tokens (Declare n v p) = [VAR_NAME n, ASSIGN, NAMED_OB v, NUMBER_VAL p]"
| "statement_tokens (DeclareVoted n voter v r t p) =
     [VAR_NAME n, ASSIGN, NAMED_OB voter, START_VOTE, NAMED_OB v, END_VOTE, strat_token r, DELIM, NUMBER_VAL t, NUMBER_VAL p]"
| "statement_tokens (FromBench t n voted) =
     [BENCH ''Bench'', START_PIPE, NAMED_OB t, END_PIPE] @ name_tokens (if voted then 1 else 0) n"
| "statement_tokens (ToBench n t voted) =
     name_tokens (if voted then 1 else 0) n @ [START_PIPE, NAMED_OB t, END_PIPE, BENCH ''Bench'']"
| "statement_tokens (Relate m i t n j) = name_tokens i m @ [START_PIPE, NAMED_OB t, END_PIPE] @ name_tokens j n"

fun valid_statement :: "statement \<Rightarrow> bool" where
  "valid_statement (Declare n v p) = (var_word n \<and> named_word v \<and> number_word p)"
| "valid_statement (DeclareVoted n voter v r t p) =
     (var_word n \<and> named_word voter \<and> named_word v \<and> r \<in> {SMR, DMR, TMR} \<and> number_word t \<and> number_word p)"
| "valid_statement (FromBench t n voted) = (named_word t \<and> var_word n)"
| "valid_statement (ToBench n t voted) = (var_word n \<and> named_word t)"
| "valid_statement (Relate m i t n j) = (var_word m \<and> named_word t \<and> var_word n \<and> i \<in> {0, 1, 2} \<and> j \<in> {0, 1, 2})"

definition config_tokens :: "statement list \<Rightarrow> token list" where
  "config_tokens ss = concat (map (\<lambda>s. statement_tokens s @ [EOL]) ss)"

definition config_text :: "statement list \<Rightarrow> string" where
  "config_text ss = concat (map token_text (config_tokens ss))"

lemma valid_tokens: "valid_statement s \<Longrightarrow> list_all valid_token (statement_tokens s)"
proof (cases s)
  case (DeclareVoted n voter v r t p)
  then show "valid_statement s \<Longrightarrow> ?thesis" by (cases r) simp_all
qed (auto simp: name_tokens_def)

lemma rep_name_tokens: "i \<in> {1, 2} \<Longrightarrow> rep_name (name_tokens i n) i n"
  by (auto simp: name_tokens_def rep_name_iff)

lemma strat_tokens: "r \<in> {SMR, DMR, TMR} \<Longrightarrow> rep_strat [strat_token r] r"
  by (cases r) (simp_all add: rep_strat_iff)

lemma statement_of_tokens:
  assumes "valid_statement s"
  shows "is_statement (statement_tokens s) s"
proof (cases s)
  case (Declare n v p)
  then show ?thesis by (simp add: is_statement_def decl.plain)
next
  case (DeclareVoted n voter v r t p)
  then have "decl ([VAR_NAME n, ASSIGN, NAMED_OB voter] @ [START_VOTE, NAMED_OB v, END_VOTE] @ [strat_token r] @ [DELIM, NUMBER_VAL t, NUMBER_VAL p])
      (DeclareVoted n voter v r t p)"
    using assms by (intro decl.voted rep_comp.comp strat_tokens) simp
  then show ?thesis using DeclareVoted by (simp add: is_statement_def)
next
  case (FromBench t n voted)
  then show ?thesis
    using bench_var [OF arrow.arrow, of "''Bench''" t n] bench_rep [OF arrow.arrow rep_name_tokens, of 1 "''Bench''" t n]
    by (cases voted) (simp_all add: is_statement_def name_tokens_def)
next
  case (ToBench n t voted)
  then show ?thesis
    using var_bench [OF arrow.arrow, of n t "''Bench''"] rep_bench [OF rep_name_tokens arrow.arrow, of 1 n t "''Bench''"]
    by (cases voted) (simp_all add: is_statement_def name_tokens_def)
next
  case (Relate m i t n j)
  then have "i \<in> {0, 1, 2}" "j \<in> {0, 1, 2}" using assms by auto
  then have "relationship (name_tokens i m @ [START_PIPE, NAMED_OB t, END_PIPE] @ name_tokens j n) (Relate m i t n j)"
    using var_var [OF arrow.arrow, of m t n] var_rep [OF arrow.arrow rep_name_tokens, of j m t n]
      rep_var [OF rep_name_tokens arrow.arrow, of i m t n] rep_rep [OF rep_name_tokens arrow.arrow rep_name_tokens, of i j m t n]
    by (cases "i = 0"; cases "j = 0") (simp_all add: name_tokens_def)
  then show ?thesis using Relate by (simp add: is_statement_def)
qed

lemma config_line: "list_all valid_statement ss \<Longrightarrow> line (config_tokens ss) ss"
proof (induction ss)
  case (Cons s ss)
  then show ?case
    using line_app [OF _ line_statement [OF statement_of_tokens], of "config_tokens ss" ss s] by (simp add: config_tokens_def)
qed (simp add: config_tokens_def line.empty)

text \<open>C31: A configuration that is written out, one statement on a line, is read back: for names and numbers
  of the shape the patterns ask for, other than the reserved words, scanning and parsing the text accepts
  it and runs exactly the statements that were written.\<close>

theorem config_roundtrip:
  assumes "list_all valid_statement ss"
  shows "yyparse (yylex (config_text ss)) = (ss, True)"
proof -
  have "list_all valid_token (config_tokens ss)"
    using assms valid_tokens by (auto simp: config_tokens_def list_all_iff)
  then have "yylex (config_text ss) = config_tokens ss"
    using yylex_tokens [of "config_tokens ss" "[]"] by (simp add: config_text_def)
  then show ?thesis using yyparse_line [OF config_line [OF assms], of "[]"] by simp
qed

definition planning :: "statement list" where
  "planning = [Declare ''log'' ''Logger'' ''15'', DeclareVoted ''plan'' ''VoterD'' ''AStar'' TMR ''400000'' ''-5'',
     Declare ''l_n'' ''ArtPot'' ''30'', FromBench ''RANGE_POSE_DATA'' ''l_n'' True, Relate ''l_n'' 0 ''WAY_REQ'' ''plan'' 2,
     Relate ''plan'' 2 ''WAY_RES'' ''l_n'' 0, ToBench ''l_n'' ''MOV_CMD'' True]"

theorem config_roundtrip_witness: "list_all valid_statement planning \<and> yyparse (yylex (config_text planning)) = (planning, True)"
proof -
  have "list_all valid_statement planning" by code_simp
  then show ?thesis using config_roundtrip by blast
qed

end
