(* ===== verification/PlumberGraph.thy ===== *)
theory PlumberGraph
  imports PlumberConfig
begin

text \<open>
  What a configuration means: a graph of components, each with its links in the order of the relations.
  \<open>graph\<close> says it by names, without positions, arrays or a parser; the theorem at the end says that the
  program, from the text of its configuration file to the commands it starts, does that.
\<close>

section \<open>The program\<close>

text \<open>
  \<open>main\<close> of \<open>pb.y\<close>: \<open>cfg\<close> is the text of \<open>config_plumber.cfg\<close>, \<open>None\<close> when it cannot be opened. What
  \<open>yyparse\<close> returns is not looked at: the statements it has run count.
\<close>

definition plumber_program :: "posix \<Rightarrow> allocator \<Rightarrow> (nat \<Rightarrow> char) \<Rightarrow> string list \<Rightarrow> string option \<Rightarrow> history
    \<Rightarrow> (int \<times> history) option" where
  "plumber_program K A g argv cfg h =
     (case cfg of
        None \<Rightarrow> Some (1, h)
      | Some text \<Rightarrow> plumber_main K A g argv (fst (yyparse (yylex text))) h)"

section \<open>Components and their links\<close>

record component =
  cp_name :: string
  cp_value :: string
  cp_strat :: replication_t
  cp_voter :: "string option"
  cp_timer :: "string option"
  cp_priority :: string
  cp_links :: "(typed_pipe \<times> int) list"

definition component_of :: "node \<Rightarrow> component" where
  "component_of n = \<lparr>cp_name = nd_name n, cp_value = nd_value n, cp_strat = nd_rep_strat n, cp_voter = nd_voter_name n,
     cp_timer = nd_voter_timer n, cp_priority = nd_priority n, cp_links = links n\<rparr>"

definition link_to :: "string \<Rightarrow> typed_pipe \<times> int \<Rightarrow> component list \<Rightarrow> component list" where
  "link_to name l cs = map (\<lambda>c. if cp_name c = name then c\<lparr>cp_links := cp_links c @ [l]\<rparr> else c) cs"

definition room :: "string \<Rightarrow> component list \<Rightarrow> bool" where
  "room name cs \<longleftrightarrow> list_ex (\<lambda>c. cp_name c = name \<and> length (cp_links c) < 10) cs"

definition declare_component :: "component \<Rightarrow> component list \<Rightarrow> component list" where
  "declare_component c cs = (if cp_name c \<in> set (map cp_name cs) then cs else cs @ [c])"

text \<open>
  The meaning of a statement, where it has one: names that fit their block, components that are declared
  and have fewer than ten links, message types that exist. The pipes come from the system.
\<close>

fun graph_step :: "posix \<Rightarrow> int \<Rightarrow> int \<Rightarrow> statement \<Rightarrow> component list \<times> history \<Rightarrow> (component list \<times> history) option" where
  "graph_step K din cout (Declare n v p) (cs, h) =
     (if list_all short [n, v, p] then Some (declare_component \<lparr>cp_name = n, cp_value = v, cp_strat = NONE,
        cp_voter = None, cp_timer = None, cp_priority = p, cp_links = []\<rparr> cs, h) else None)"
| "graph_step K din cout (DeclareVoted n voter v r t p) (cs, h) =
     (if list_all short [n, v, p, voter, t] \<and> r \<noteq> NONE then Some (declare_component \<lparr>cp_name = n, cp_value = v,
        cp_strat = r, cp_voter = Some voter, cp_timer = Some t, cp_priority = p, cp_links = []\<rparr> cs, h) else None)"
| "graph_step K din cout (FromBench t n voted) (cs, h) =
     (if room n cs then Some (link_to n (\<lparr>tp_type = commToEnum t, tp_fd_in = din, tp_fd_out = 0\<rparr>, if voted then 1 else 0) cs, h)
      else None)"
| "graph_step K din cout (ToBench n t voted) (cs, h) =
     (if room n cs then Some (link_to n (\<lparr>tp_type = commToEnum t, tp_fd_in = 0, tp_fd_out = cout\<rparr>, if voted then 1 else 0) cs, h)
      else None)"
| "graph_step K din cout (Relate a i t b j) (cs, h) =
     (let ty = commToEnum t; link_a = (\<lambda>w. link_to a (\<lparr>tp_type = ty, tp_fd_in = 0, tp_fd_out = w\<rparr>, i) cs)
      in if ty \<noteq> COMM_ERROR \<and> room a cs \<and> room b (link_a 0) then
           case on_pipe K h of
             None \<Rightarrow> Some (cs, h @ [SysPipe None])
           | Some (r, w) \<Rightarrow> Some (link_to b (\<lparr>tp_type = ty, tp_fd_in = r, tp_fd_out = 0\<rparr>, j) (link_a w), h @ [SysPipe (Some (r, w))])
         else None)"

fun graph :: "posix \<Rightarrow> int \<Rightarrow> int \<Rightarrow> statement list \<Rightarrow> component list \<times> history \<Rightarrow> (component list \<times> history) option" where
  "graph K din cout [] st = Some st"
| "graph K din cout (s # ss) st = do { st' \<leftarrow> graph_step K din cout s st; graph K din cout ss st' }"

section \<open>The list of components implements the graph\<close>

definition clean :: "allocator \<Rightarrow> bool" where
  "clean A \<longleftrightarrow> roomy A \<and> length (nd_pipes (garbage A)) = 10 \<and> length (nd_timed (garbage A)) = 10"

definition builds :: "nodelist \<Rightarrow> component list \<Rightarrow> bool" where
  "builds ns cs \<longleftrightarrow> map component_of (nodes_of ns) = cs \<and> list_all wf_node (nodes_of ns) \<and> distinct (names ns)"

lemma get_node_at:
  assumes "zeroed A" "distinct (names ns)" "i < length (names ns)"
  shows "get_node A ns (names ns ! i) = Some (Some i)"
  using assms(2,3)
proof (induction ns arbitrary: i)
  case (Cell c ns)
  show ?case
  proof (cases i)
    case (Suc k)
    then have "names ns ! k \<noteq> nd_name c" using Cell.prems nth_mem by fastforce
    then show ?thesis using Suc Cell by auto
  qed simp
qed simp_all

lemma room_link_to:
  "room b (link_to a l cs) \<longleftrightarrow>
     list_ex (\<lambda>c. cp_name c = b \<and> length (cp_links c) + (if cp_name c = a then 1 else 0) < 10) cs"
  by (induction cs) (auto simp: room_def link_to_def)

lemma builds_names: "builds ns cs \<Longrightarrow> map cp_name cs = names ns"
  by (auto simp: builds_def names_def component_of_def)

lemma link_bench_component:
  assumes "wf_node n" "length (links n) < 10"
  shows "\<exists>m. link_bench ty a b t n = Some m \<and> wf_node m
    \<and> component_of m = (component_of n)\<lparr>cp_links := links n @ [(\<lparr>tp_type = ty, tp_fd_in = a, tp_fd_out = b\<rparr>, t)]\<rparr>"
proof -
  have "nd_pipe_count n < PIPE_LIMIT" using assms length_links [OF assms(1)] by (simp add: PIPE_LIMIT_def)
  then obtain m where m: "link_bench ty a b t n = Some m" "wf_node m"
    "links m = links n @ [(\<lparr>tp_type = ty, tp_fd_in = a, tp_fd_out = b\<rparr>, t)]"
    using link_bench_eq [OF assms(1)] by blast
  then show ?thesis
    by (auto simp: component_of_def link_bench_def Option.bind_eq_Some_conv)
qed

text \<open>A link by position is a link by name.\<close>

lemma on_node_links:
  assumes B: "builds ns cs" and A: "zeroed A" and r: "room name cs"
  shows "\<exists>i ns'. get_node A ns name = Some (Some i) \<and> on_node i (link_bench ty a b t) ns = Some ns'
    \<and> builds ns' (link_to name (\<lparr>tp_type = ty, tp_fd_in = a, tp_fd_out = b\<rparr>, t) cs)"
proof -
  let ?l = "(\<lparr>tp_type = ty, tp_fd_in = a, tp_fd_out = b\<rparr>, t)"
  obtain i where i: "i < length cs" "cp_name (cs ! i) = name" "length (cp_links (cs ! i)) < 10"
    using r by (auto simp: room_def list_ex_iff in_set_conv_nth)
  have len: "length cs = length (nodes_of ns)" "length (names ns) = length (nodes_of ns)"
    using B by (auto simp: builds_def names_def)
  have ci: "cs ! i = component_of (nodes_of ns ! i)" and wf: "wf_node (nodes_of ns ! i)"
    using B i(1) len by (auto simp: builds_def list_all_length)
  have nm: "names ns ! i = name" using i(1,2) ci len by (simp add: names_def component_of_def)
  have get: "get_node A ns name = Some (Some i)"
    using get_node_at [OF A, of ns i] B i(1) len nm by (simp add: builds_def)
  obtain m where m: "link_bench ty a b t (nodes_of ns ! i) = Some m" "wf_node m"
    "component_of m = (component_of (nodes_of ns ! i))\<lparr>cp_links := links (nodes_of ns ! i) @ [?l]\<rparr>"
    using link_bench_component [OF wf, of ty a b t] i(3) ci by (fastforce simp: component_of_def)
  obtain ns' where ns': "on_node i (link_bench ty a b t) ns = Some ns'" "nodes_of ns' = (nodes_of ns)[i := m]"
    using on_node_eq [of i ns "link_bench ty a b t", OF _ m(1)] i(1) len by auto
  have "map component_of (nodes_of ns') = cs[i := (cs ! i)\<lparr>cp_links := cp_links (cs ! i) @ [?l]\<rparr>]"
    using ns'(2) m(3) ci B by (simp add: map_update builds_def component_of_def)
  also have "\<dots> = link_to name ?l cs"
  proof (rule nth_equalityI)
    fix k assume "k < length (cs[i := (cs ! i)\<lparr>cp_links := cp_links (cs ! i) @ [?l]\<rparr>])"
    then have k: "k < length cs" by simp
    have "cp_name (cs ! k) = name \<longleftrightarrow> k = i"
      using builds_names [OF B] B k i(1,2) by (metis builds_def length_map nth_eq_iff_index_eq nth_map)
    then show "cs[i := (cs ! i)\<lparr>cp_links := cp_links (cs ! i) @ [?l]\<rparr>] ! k = link_to name ?l cs ! k"
      using k by (auto simp: link_to_def nth_list_update)
  qed (simp add: link_to_def)
  finally have comps: "map component_of (nodes_of ns') = link_to name ?l cs" .
  moreover have "names ns' = names ns"
    using ns'(2) m(3) nm i(1) len by (auto simp: names_def map_update component_of_def list_update_same_conv)
  moreover have "list_all wf_node (nodes_of ns')"
    using B ns'(2) m(2) set_update_subset_insert [of "nodes_of ns" i m] by (auto simp: builds_def list_all_iff)
  ultimately show ?thesis using get ns'(1) B by (auto simp: builds_def)
qed

lemma add_node_builds:
  assumes B: "builds ns cs" and A: "clean A" and short: "list_all short [n, v, p]"
    and vs: "type \<noteq> NONE \<Longrightarrow> \<exists>x t. vn = Some x \<and> vt = Some t \<and> short x \<and> short t"
    and none: "type = NONE \<Longrightarrow> vn = None \<and> vt = None"
  shows "\<exists>ok ns'. add_node A ns n v type vn vt p = Some (ok, ns')
    \<and> builds ns' (declare_component \<lparr>cp_name = n, cp_value = v, cp_strat = type, cp_voter = vn, cp_timer = vt,
        cp_priority = p, cp_links = []\<rparr> cs)"
proof (cases "n \<in> set (names ns)")
  case True
  then show ?thesis
    using add_node_known [of A n ns v type vn vt p] A B builds_names [OF B]
    by (intro exI [of _ False] exI [of _ ns]) (simp add: clean_def declare_component_def)
next
  case False
  have roomy: "roomy A" using A by (simp add: clean_def)
  note new = new_node_eq [OF roomy short vs]
  obtain ns' where ns': "add_node A ns n v type vn vt p = Some (True, ns')" "nodes_of ns' = nodes_of ns @
      [(garbage A)\<lparr>nd_name := n, nd_value := v, nd_pipe_count := 0, nd_rep_strat := type,
        nd_voter_name := (if type = NONE then None else vn), nd_voter_timer := (if type = NONE then None else vt), nd_priority := p\<rparr>]"
    using add_node_new [OF roomy False new] by blast
  then show ?thesis
    using B builds_names [OF B] A False none
    by (auto simp: builds_def names_def declare_component_def component_of_def links_def wf_node_def PIPE_LIMIT_def clean_def)
qed

lemma run_statement_graph:
  assumes B: "builds ns cs" and A: "clean A" and step: "graph_step K din cout s (cs, h) = Some (cs', h')"
  shows "\<exists>ns'. run_statement K A din cout s (ns, h) = Some (True, ns', h') \<and> builds ns' cs'"
proof -
  have z: "zeroed A" using A by (simp add: clean_def roomy_def)
  show ?thesis
  proof (cases s)
    case (Declare n v p)
    then show ?thesis
      using step add_node_builds [OF B A, of n v p NONE None None] by (auto simp: run_statement_def split: if_splits)
  next
    case (DeclareVoted n voter v r t p)
    then show ?thesis
      using step add_node_builds [OF B A, of n v p r "Some voter" "Some t"] by (auto simp: run_statement_def split: if_splits)
  next
    case (FromBench t n voted)
    then show ?thesis
      using step on_node_links [OF B z, of n "commToEnum t" din 0 "if voted then 1 else 0"]
      by (auto simp: run_statement_def split: if_splits)
  next
    case (ToBench n t voted)
    then show ?thesis
      using step on_node_links [OF B z, of n "commToEnum t" 0 cout "if voted then 1 else 0"]
      by (auto simp: run_statement_def split: if_splits)
  next
    case (Relate a i t b j)
    let ?la = "\<lambda>w. link_to a (\<lparr>tp_type = commToEnum t, tp_fd_in = 0, tp_fd_out = w\<rparr>, i) cs"
    have ok: "commToEnum t \<noteq> COMM_ERROR" "room a cs" "room b (?la 0)"
      using step Relate by (auto simp: Let_def split: if_splits)
    have rb: "room b (?la w)" for w
      using ok(3) by (simp add: room_link_to)
    obtain k where k: "get_node A ns a = Some (Some k)"
      and k': "\<And>w. \<exists>ns1. on_node k (link_bench (commToEnum t) 0 w i) ns = Some ns1 \<and> builds ns1 (?la w)"
      using on_node_links [OF B z ok(2)] by (metis option.inject)
    have same: "map cp_name (?la w) = map cp_name cs" for w by (simp add: link_to_def)
    have getb: "\<exists>l. get_node A ns b = Some (Some l) \<and> l < length (names ns) \<and> names ns ! l = b"
    proof -
      have "b \<in> set (names ns)"
        using rb [of 0] by (auto simp: room_link_to list_ex_iff builds_names [OF B, symmetric])
      then obtain l where "l < length (names ns)" "names ns ! l = b" by (auto simp: in_set_conv_nth)
      then show ?thesis using get_node_at [OF z, of ns l] B by (auto simp: builds_def)
    qed
    then obtain l where l: "get_node A ns b = Some (Some l)" "l < length (names ns)" "names ns ! l = b" by blast
    show ?thesis
    proof (cases "on_pipe K h")
      case None
      then show ?thesis
        using step Relate ok k l(1) B by (auto simp: run_statement_def link_node_def sys_pipe_def Let_def)
    next
      case (Some rw)
      obtain r w where rw: "rw = (r, w)" by (cases rw)
      obtain ns1 where ns1: "on_node k (link_bench (commToEnum t) 0 w i) ns = Some ns1" "builds ns1 (?la w)"
        using k' by blast
      have names1: "names ns1 = names ns" using builds_names [OF B] builds_names [OF ns1(2)] same by simp
      obtain ns2 where ns2: "on_node l (link_bench (commToEnum t) r 0 j) ns1 = Some ns2"
        "builds ns2 (link_to b (\<lparr>tp_type = commToEnum t, tp_fd_in = r, tp_fd_out = 0\<rparr>, j) (?la w))"
        using on_node_links [OF ns1(2) z rb] get_node_at [OF z, of ns1 l] l(2,3) names1 ns1(2)
        by (metis builds_def option.inject)
      then show ?thesis
        using step Relate ok k l(1) Some rw ns1(1)
        by (auto simp: run_statement_def link_node_def sys_pipe_def Let_def)
    qed
  qed
qed

lemma run_config_graph:
  assumes "builds ns cs" "clean A" "graph K din cout ss (cs, h) = Some (cs', h')"
  shows "\<exists>ns'. run_config K A din cout ss (ns, h) = Some (ns', h') \<and> builds ns' cs'"
  using assms
proof (induction ss arbitrary: ns cs h)
  case (Cons s ss)
  then obtain cs1 h1 where s: "graph_step K din cout s (cs, h) = Some (cs1, h1)" "graph K din cout ss (cs1, h1) = Some (cs', h')"
    by (auto simp: Option.bind_eq_Some_conv)
  obtain ns1 where "run_statement K A din cout s (ns, h) = Some (True, ns1, h1)" "builds ns1 cs1"
    using run_statement_graph [OF Cons.prems(1,2) s(1)] by blast
  then show ?case using Cons.IH [OF _ Cons.prems(2) s(2)] by simp
qed simp

section \<open>Starting the components\<close>

definition started :: "history \<Rightarrow> string list list" where
  "started h = concat (map (\<lambda>e. case e of SysForkExec argv r \<Rightarrow> [argv] | _ \<Rightarrow> []) h)"

lemma started_simps [simp]: "started [] = []" "started (h @ [SysForkExec argv r]) = started h @ [argv]"
  "started (h @ [SysPipe p]) = started h"
  by (simp_all add: started_def)

text \<open>The command of a component: alone, or behind its voter, which also gets the timers of the links.\<close>

definition component_argv :: "component \<Rightarrow> string list" where
  "component_argv c =
     (case (cp_voter c, cp_timer c) of
        (Some voter, Some timer) \<Rightarrow> [voter, cp_value c, REP_TYPE_T (cp_strat c), timer, cp_priority c]
          @ map (\<lambda>(p, t). pipe_text p @ '':'' @ fd_string t) (cp_links c)
      | _ \<Rightarrow> [cp_value c, cp_priority c, fd_string (int (length (cp_links c)))] @ map (\<lambda>(p, t). pipe_text p) (cp_links c))"

definition cabled :: "component \<Rightarrow> bool" where
  "cabled c \<longleftrightarrow> list_all (\<lambda>(p, t). one_end p \<and> 0 \<le> t \<and> t < 100) (cp_links c)"

definition voter_named :: "component \<Rightarrow> bool" where
  "voter_named c \<longleftrightarrow> (if cp_strat c = NONE then cp_voter c = None else cp_voter c \<noteq> None \<and> cp_timer c \<noteq> None)"

lemma voter_named_link [simp]: "list_all voter_named (link_to n l cs) = list_all voter_named cs"
  by (induction cs) (auto simp: link_to_def voter_named_def)

lemma graph_step_voters:
  "graph_step K din cout s (cs, h) = Some (cs', h') \<Longrightarrow> list_all voter_named cs \<Longrightarrow> list_all voter_named cs' \<and> started h' = started h"
  by (cases s) (auto simp: declare_component_def voter_named_def Let_def split: if_splits option.splits)

lemma graph_voters:
  "graph K din cout ss (cs, h) = Some (cs', h') \<Longrightarrow> list_all voter_named cs \<Longrightarrow> list_all voter_named cs' \<and> started h' = started h"
proof (induction ss arbitrary: cs h)
  case (Cons s ss)
  then obtain cs1 h1 where "graph_step K din cout s (cs, h) = Some (cs1, h1)" "graph K din cout ss (cs1, h1) = Some (cs', h')"
    by (auto simp: Option.bind_eq_Some_conv)
  then show ?case using graph_step_voters Cons.IH Cons.prems(2) by metis
qed simp

lemma plain_argv_eq:
  assumes "launchable n"
  shows "plain_argv g n = Some ([nd_value n, nd_priority n, fd_string (int (length (links n)))] @ map (\<lambda>(p, t). pipe_text p) (links n))"
proof -
  let ?k = "nat (nd_pipe_count n)" and ?arg = "\<lambda>(p, t). pipe_text p"
  let ?base = "[nd_value n, nd_priority n, fd_string (int (length (links n)))]"
  have wf: "wf_node n" using assms by (simp add: launchable_def)
  have k: "int ?k = nd_pipe_count n" "nd_pipe_count n < 100" using wf by (auto simp: wf_node_def PIPE_LIMIT_def)
  have "\<exists>r. for_upto 0 (int ?k) (\<lambda>i argv. do {
         p \<leftarrow> aget (nd_pipes n) i; s \<leftarrow> serializePipe g p; Some (argv @ [s]) }) ?base = Some r
      \<and> r = ?base @ map ?arg (take ?k (links n))"
  proof (rule for_upto_nat [where P = "\<lambda>i r. r = ?base @ map ?arg (take i (links n))"])
    fix i r assume i: "i < ?k" "r = ?base @ map ?arg (take i (links n))"
    obtain p t where pt: "links n ! i = (p, t)" by (cases "links n ! i")
    then have "one_end p" using assms i(1) length_links [OF wf] by (auto simp: launchable_def list_all_length)
    then show "\<exists>s'. do { p \<leftarrow> aget (nd_pipes n) (int i); s \<leftarrow> serializePipe g p; Some (r @ [s]) } = Some s'
        \<and> s' = ?base @ map ?arg (take (Suc i) (links n))"
      using i links_nth [OF wf i(1)] pt length_links [OF wf] by (simp add: serializePipe_ends take_Suc_conv_app_nth)
  qed simp
  moreover have "show_int (nd_pipe_count n) = fd_string (int (length (links n)))"
    using k length_links [OF wf] show_int_fd [of "nd_pipe_count n"] wf by (simp add: wf_node_def)
  ultimately show ?thesis using k length_links [OF wf] by (simp add: plain_argv_def)
qed

lemma node_argv:
  assumes "wf_node n" "cabled (component_of n)" "voter_named (component_of n)"
  shows "(if nd_rep_strat n = NONE then plain_argv g n else voter_argv g n) = Some (component_argv (component_of n))"
proof -
  have l: "launchable n" using assms(1,2) by (simp add: launchable_def cabled_def component_of_def)
  show ?thesis
  proof (cases "nd_rep_strat n = NONE")
    case True
    then show ?thesis
      using plain_argv_eq [OF l, of g] assms(3) by (simp add: component_argv_def component_of_def voter_named_def)
  next
    case False
    then obtain vn vt where "nd_voter_name n = Some vn" "nd_voter_timer n = Some vt"
      using assms(3) by (auto simp: component_of_def voter_named_def)
    then show ?thesis using voter_argv_eq [OF l, of vn vt g] False by (simp add: component_argv_def component_of_def)
  qed
qed

lemma launch_node_starts:
  assumes "list_all wf_node (nodes_of ns)" "list_all cabled (map component_of (nodes_of ns))"
    "list_all voter_named (map component_of (nodes_of ns))" and fork: "\<And>h argv. 0 \<le> on_fork_exec K h argv"
  shows "\<exists>h'. launch_node K True g ns h = Some h'
    \<and> started h' = started h @ map component_argv (map component_of (nodes_of ns))"
  using assms(1-3)
proof (induction ns arbitrary: h)
  case (Cell c ns)
  let ?argv = "component_argv (component_of c)"
  obtain h' where "launch_node K True g ns (h @ [SysForkExec ?argv (on_fork_exec K h ?argv)]) = Some h'"
    "started h' = started (h @ [SysForkExec ?argv (on_fork_exec K h ?argv)]) @ map component_argv (map component_of (nodes_of ns))"
    using Cell by fastforce
  then show ?case
    using node_argv [of c g] Cell.prems fork by (simp add: sys_fork_exec_def Let_def)
qed simp_all


text \<open>The file \<open>controllers/configs/tmr_empty.cfg\<close>.\<close>

definition tmr_empty_cfg :: string where
  "tmr_empty_cfg = ''empty := VoterM(Empty)TMR, 4000 40
Bench --RANGE_POSE_DATA-> (empty)
(empty) --MOV_CMD-> Bench
''"

definition tmr_empty :: "statement list" where
  "tmr_empty = [DeclareVoted ''empty'' ''VoterM'' ''Empty'' TMR ''4000'' ''40'',
     FromBench ''RANGE_POSE_DATA'' ''empty'' True, ToBench ''empty'' ''MOV_CMD'' True]"

lemma tmr_empty_line: "line (yylex tmr_empty_cfg) tmr_empty"
proof -
  have "yyparse (yylex tmr_empty_cfg) = (tmr_empty, True)" by code_simp
  then show ?thesis using yyparse_reduces [of "yylex tmr_empty_cfg"] by auto
qed


end
