(* ===== verification/Pingpong.thy ===== *)
theory Pingpong
  imports Controller
begin

text \<open>
  The small controllers: \<open>controllers/empty.c\<close> answers every range message with a constant command,
  \<open>controllers/generic_empty.c\<close> passes on whatever it reads, \<open>controllers/filter.c\<close> passes range messages
  on to several components. Doubles are their 64-bit patterns.
\<close>

definition D_0_1 :: "64 word" where "D_0_1 = 0x3FB999999999999A"
definition D_1_0 :: "64 word" where "D_1_0 = 0x3FF0000000000000"

section \<open>Empty\<close>

record pingpong = controller +
  read_in_index :: int
  write_out_index :: int
  pp_seq_count :: int

definition empty_setPipeIndexes :: "pingpong \<Rightarrow> pingpong option" where
  "empty_setPipeIndexes s = Some (s\<lparr>read_in_index := 0, write_out_index := 1\<rparr>)"

definition parse_two :: "posix \<Rightarrow> string \<Rightarrow> string list \<Rightarrow> pingpong \<Rightarrow> (int \<times> pingpong) option" where
  "parse_two K name argv s =
     do {
       s0 \<leftarrow> empty_setPipeIndexes s;
       prio \<leftarrow> aget argv 1;
       let s1 = s0\<lparr>c_priority := atoi prio, c_pipe_count := 2\<rparr>;
       if int (length argv) < 5 then do {
         let (pid, h) = sys_call K ''getpid'' [] [] (c_hist s1);
         (r, s2) \<leftarrow> take_over_pipes K pid 2 name (s1\<lparr>c_hist := h\<rparr>);
         Some (0, s2)
       }
       else do { s2 \<leftarrow> parse_pipes 2 argv s1; Some (0, s2) }
     }"

definition empty_parseArgs :: "posix \<Rightarrow> string list \<Rightarrow> pingpong \<Rightarrow> (int \<times> pingpong) option" where
  "empty_parseArgs K argv s = parse_two K ''Empty'' argv s"

text \<open>The answer to a range message; an inserted fault turns the robot.\<close>

definition empty_answer :: "posix \<Rightarrow> byte list \<Rightarrow> pingpong \<Rightarrow> pingpong option" where
  "empty_answer K bs s =
     do {
       let s1 = s\<lparr>pp_seq_count := range_seq_count (bytes_range_pose bs)\<rparr>;
       out \<leftarrow> aget (c_pipes s1) (write_out_index s1);
       let (r, h) = commSendMoveCommand K out (pp_seq_count s1) D_0_1 (if insertSDC s1 then D_1_0 else 0) (c_hist s1);
       Some (s1\<lparr>insertSDC := False, c_hist := h\<rparr>)
     }"

text \<open>One turn of the loop; the flag is false when an inserted control-flow error hangs the process.\<close>

definition empty_turn :: "posix \<Rightarrow> pingpong \<Rightarrow> (bool \<times> pingpong) option" where
  "empty_turn K s =
     (if insertCFE s then Some (False, s)
      else do {
        inp \<leftarrow> aget (c_pipes s) (read_in_index s);
        let (retval, ready, h) = sys_select K [tp_fd_in inp] 1000000 (c_hist s);
        if retval > 0 \<and> tp_fd_in inp \<in> set ready then do {
          let (read_ret, bs, h') = sys_read K (tp_fd_in inp) 160 h;
          s' \<leftarrow> (if read_ret = 160 then empty_answer K bs (s\<lparr>c_hist := h'\<rparr>) else Some (s\<lparr>c_hist := h'\<rparr>));
          Some (True, s')
        }
        else Some (True, s\<lparr>c_hist := h\<rparr>)
      })"

definition pingpong_globals :: "string \<Rightarrow> pingpong" where
  "pingpong_globals name =
     \<lparr>c_pipes = replicate 2 blank_typed_pipe, c_pipe_count = 2, c_name = name, c_priority = 0, c_pinned_cpu = 0,
      insertSDC = False, insertCFE = False, c_hist = [], read_in_index = 0, write_out_index = 0, pp_seq_count = 0\<rparr>"

definition empty_main :: "posix \<Rightarrow> string list \<Rightarrow> nat \<Rightarrow> (int option \<times> pingpong) option" where
  "empty_main K argv n =
     controller_main K (empty_parseArgs K argv) id (empty_turn K) n (pingpong_globals ''Empty'')"

section \<open>Generic empty\<close>

definition generic_parseArgs :: "posix \<Rightarrow> string list \<Rightarrow> pingpong \<Rightarrow> (int \<times> pingpong) option" where
  "generic_parseArgs K argv s = parse_two K (c_name s) argv s"

definition generic_turn :: "posix \<Rightarrow> pingpong \<Rightarrow> (bool \<times> pingpong) option" where
  "generic_turn K s =
     (if insertCFE s then Some (False, s)
      else do {
        inp \<leftarrow> aget (c_pipes s) (read_in_index s);
        let (retval, ready, h) = sys_select K [tp_fd_in inp] 1000000 (c_hist s);
        if retval > 0 \<and> tp_fd_in inp \<in> set ready then do {
          let (read_ret, bs, h') = sys_read K (tp_fd_in inp) 4096 h;
          out \<leftarrow> aget (c_pipes s) (write_out_index s);
          Some (True, s\<lparr>c_hist := (if read_ret > 0 then snd (sys_write K (tp_fd_out out) bs h') else h')\<rparr>)
        }
        else Some (True, s\<lparr>c_hist := h\<rparr>)
      })"

definition generic_main :: "posix \<Rightarrow> string list \<Rightarrow> nat \<Rightarrow> (int option \<times> pingpong) option" where
  "generic_main K argv n =
     controller_main K (generic_parseArgs K argv) id (generic_turn K) n (pingpong_globals ''GenericEmpty'')"

section \<open>Filter\<close>

definition FILTER_PIPES :: int where "FILTER_PIPES = 4"

record filter_state = controller +
  f_seq_count :: int
  f_ranges :: "64 word list"
  f_pose :: "64 word list"
  f_data_index :: int
  f_out_index :: "int list"

definition filter_setPipeIndexes :: "filter_state \<Rightarrow> filter_state option" where
  "filter_setPipeIndexes s =
     for_upto 1 FILTER_PIPES (\<lambda>i s. do {
       out \<leftarrow> aset (f_out_index s) (i - 1) i;
       Some (s\<lparr>f_out_index := out\<rparr>)
     }) (s\<lparr>f_data_index := 0\<rparr>)"

definition filter_parseArgs :: "posix \<Rightarrow> string list \<Rightarrow> filter_state \<Rightarrow> (int \<times> filter_state) option" where
  "filter_parseArgs K argv s =
     do {
       s0 \<leftarrow> filter_setPipeIndexes s;
       prio \<leftarrow> aget argv 1;
       cnt \<leftarrow> aget argv 2;
       let s1 = s0\<lparr>c_priority := atoi prio, c_pipe_count := atoi cnt\<rparr>;
       if int (length argv) < 5 then do {
         let (pid, h) = sys_call K ''getpid'' [] [] (c_hist s1);
         (r, s2) \<leftarrow> take_over_pipes K pid (c_pipe_count s1) (c_name s1) (s1\<lparr>c_hist := h\<rparr>);
         Some (0, s2)
       }
       else do {
         a \<leftarrow> aget argv 3;
         p \<leftarrow> deserializePipe a;
         ps0 \<leftarrow> aset (c_pipes s1) (f_data_index s1) p;
         ps \<leftarrow> for_upto 4 (4 + c_pipe_count s1 - 1) (\<lambda>i ps. do {
           b \<leftarrow> aget argv i;
           q \<leftarrow> deserializePipe b;
           j \<leftarrow> aget (f_out_index s1) (i - 4);
           aset ps j q
         }) ps0;
         Some (0, s1\<lparr>c_pipes := ps\<rparr>)
       }
     }"

text \<open>\<open>command\<close>: the message goes out on every pipe but the first. \<open>ranges[0]++\<close> adds 1.0 (\<open>add\<close> is the double addition).\<close>

definition filter_command :: "posix \<Rightarrow> (64 word \<Rightarrow> 64 word \<Rightarrow> 64 word) \<Rightarrow> filter_state \<Rightarrow> filter_state option" where
  "filter_command K add s =
     do {
       rs \<leftarrow> (if insertSDC s then do { r \<leftarrow> aget (f_ranges s) 0; aset (f_ranges s) 0 (add r D_1_0) } else Some (f_ranges s));
       let s1 = s\<lparr>insertSDC := False, f_ranges := rs\<rparr>;
       for_upto 1 (c_pipe_count s1) (\<lambda>i s. do {
         j \<leftarrow> aget (f_out_index s) (i - 1);
         out \<leftarrow> aget (c_pipes s) j;
         (r, h) \<leftarrow> commSendRanger K out (f_seq_count s) (f_ranges s) (f_pose s) (c_hist s);
         Some (s\<lparr>c_hist := h\<rparr>)
       }) s1
     }"

definition filter_turn :: "posix \<Rightarrow> (64 word \<Rightarrow> 64 word \<Rightarrow> 64 word) \<Rightarrow> filter_state \<Rightarrow> (bool \<times> filter_state) option" where
  "filter_turn K add s =
     do {
       inp \<leftarrow> aget (c_pipes s) (f_data_index s);
       let (retval, ready, h) = sys_select K [tp_fd_in inp] 1000000 (c_hist s);
       if retval > 0 then
         if insertCFE s then Some (False, s\<lparr>c_hist := h\<rparr>)
         else if tp_fd_in inp \<in> set ready then do {
           let (read_ret, bs, h') = sys_read K (tp_fd_in inp) 160 h;
           if read_ret = 160 then do {
             (seq, rs, ps) \<leftarrow> commCopyRanger (bytes_range_pose bs) (f_ranges s) (f_pose s);
             s' \<leftarrow> filter_command K add (s\<lparr>c_hist := h', f_seq_count := seq, f_ranges := rs, f_pose := ps\<rparr>);
             Some (True, s')
           }
           else Some (True, s\<lparr>c_hist := h'\<rparr>)
         }
         else Some (True, s\<lparr>c_hist := h\<rparr>)
       else Some (True, s\<lparr>c_hist := h\<rparr>)
     }"

definition filter_globals :: filter_state where
  "filter_globals =
     \<lparr>c_pipes = replicate 4 blank_typed_pipe, c_pipe_count = FILTER_PIPES, c_name = ''Filter'', c_priority = 0,
      c_pinned_cpu = 0, insertSDC = False, insertCFE = False, c_hist = [], f_seq_count = -1,
      f_ranges = replicate 16 0, f_pose = replicate 3 0, f_data_index = 0, f_out_index = replicate 3 0\<rparr>"

definition filter_main :: "posix \<Rightarrow> (64 word \<Rightarrow> 64 word \<Rightarrow> 64 word) \<Rightarrow> string list \<Rightarrow> nat
    \<Rightarrow> (int option \<times> filter_state) option" where
  "filter_main K add argv n =
     controller_main K (filter_parseArgs K argv) id (filter_turn K add) n filter_globals"

end
