(* ===== verification/ControllerProps.thy ===== *)
theory ControllerProps
  imports CommProps Pingpong
begin

text \<open>
  What a restarted controller holds: the pipes that the voter hands it over the socket.
\<close>

section \<open>The restarted controller\<close>

lemma sched_set_policy_silent: "silently h (snd (sched_set_policy K pid prio h))"
  by (auto simp: sched_set_policy_def sys_setscheduler_def sys_setpriority_def Let_def)

lemma sys_call_silent: "silently h (snd (sys_call K name args str h))"
  by (simp add: sys_call_def Let_def)

lemma RefreshTAS_silent: "silently h (snd (RefreshTAS K h))"
  by (simp add: RefreshTAS_def sys_call_silent)

lemma cpu_bind_silent: "silently h (snd (cpu_bind K pid cpu h))"
  by (simp add: cpu_bind_def sys_call_def Let_def)

lemma InitTAS_silent: "silently h (snd (InitTAS K cpu prio h))"
proof -
  obtain pid h1 where h1: "sys_call K ''getpid'' [] [] h = (pid, h1)" by (cases "sys_call K ''getpid'' [] [] h")
  let ?h2 = "snd (sys_call K ''setrlimit'' [] [] h1)"
  let ?h3 = "snd (sys_call K ''getrlimit'' [] [] ?h2)"
  let ?h4 = "if cpu < 0 then ?h3 else snd (cpu_bind K pid cpu ?h3)"
  have "silently h h1" using sys_call_silent [of h K "''getpid''" "[]" "[]"] h1 by simp
  also have "silently h1 ?h2" by (rule sys_call_silent)
  also have "silently ?h2 ?h3" by (rule sys_call_silent)
  also have "silently ?h3 ?h4" by (simp add: cpu_bind_silent)
  also have "silently ?h4 (snd (sched_set_policy K pid prio ?h4))" by (rule sched_set_policy_silent)
  also have "silently (snd (sched_set_policy K pid prio ?h4)) (snd (RefreshTAS K (snd (sched_set_policy K pid prio ?h4))))"
    by (rule RefreshTAS_silent)
  finally show ?thesis by (simp add: InitTAS_def h1 Let_def)
qed

lemma InitTAS_writes [simp]: "writes (snd (InitTAS K cpu prio h)) = writes h"
  by (rule silently_writes [OF InitTAS_silent])

lemma reset_all_writes:
  assumes "reset_all s = Some t"
  shows "writes (c_hist t) = writes (c_hist s)"
  by (rule for_upto_keeps [where P = "\<lambda>t. writes (c_hist t) = writes (c_hist s)", OF _ assms [unfolded reset_all_def]])
    (auto simp: Option.bind_eq_Some_conv resetPipe_def sys_close_def Let_def split: if_splits)

text \<open>
  What the child meets: \<open>fork\<close> returns 0, the voter's socket accepts, and the voter's message with the
  pipes \<open>ts\<close> and the descriptors \<open>fds\<close> arrives whole.
\<close>

definition voter_serves :: "posix \<Rightarrow> typed_pipe list \<Rightarrow> int list \<Rightarrow> int \<Rightarrow> int \<Rightarrow> int \<Rightarrow> bool" where
  "voter_serves K ts fds cpu prio pid \<longleftrightarrow>
     (\<forall>h. on_call K h ''fork'' [] [] = 0 \<and> on_call K h ''getpid'' [] [] = pid \<and> 0 \<le> on_call K h ''socket'' [] []
        \<and> (\<forall>args a. on_call K h ''connect'' args a = 0)
        \<and> (\<forall>sock n. on_recvmsg K h sock n = Some (fds_payload ts cpu prio, fds))
        \<and> (\<forall>fd bs. 0 \<le> on_write K h fd bs))"

lemma connectRecvFDS_eq:
  assumes "voter_serves K ts fds cpu prio pid'" "length name \<le> 80"
    and "list_all wf_typed_pipe ts" "c_int cpu" "c_int prio" "length ts = length old" "length fds = length old"
  shows "\<exists>sock h'. connectRecvFDS K pid old (int (length old)) name c p h
      = Some (0, map (\<lambda>(t, fd). received t fd) (zip ts fds), cpu, prio, h')
    \<and> writes h' = writes h @ [(sock, int_bytes pid)]"
proof -
  let ?name = "''./'' @ name @ ''_fd_server''"
  obtain sock h1 where h1: "sys_call K ''socket'' [] [] h = (sock, h1)" "0 \<le> sock"
    using assms(1) by (auto simp: sys_call_def voter_serves_def Let_def)
  obtain h2 where h2: "sys_call K ''connect'' [sock] ?name h1 = (0, h2)"
    using assms(1) by (auto simp: sys_call_def voter_serves_def Let_def)
  have "on_recvmsg K h2 sock (12 * int (length old) + 8) = Some (fds_payload ts cpu prio, fds)"
    using assms(1) by (simp add: voter_serves_def)
  then obtain h3 where h3: "requestFDS K sock old (int (length old)) c p h2
      = Some (12 * int (length old) + 8, map (\<lambda>(t, fd). received t fd) (zip ts fds), cpu, prio, h3)"
    using requestFDS_eq [OF assms(3-7), of K h2 sock c p] by blast
  let ?h4 = "snd (InitTAS K cpu prio h3)"
  obtain w h5 where h5: "sys_write K sock (int_bytes pid) ?h4 = (w, h5)" by (cases "sys_write K sock (int_bytes pid) ?h4")
  have "0 \<le> on_write K ?h4 sock (int_bytes pid)" using assms(1) by (simp add: voter_serves_def)
  then have w: "0 \<le> w" using h5 by (auto simp: sys_write_def Let_def)
  have hist: "silently h h1" "silently h1 h2" "silently h2 h3"
  proof -
    show "silently h h1" "silently h1 h2" using h1(1) h2 by (auto intro: sys_silent)
    show "silently h2 h3" using h3
      by (auto simp: requestFDS_def sys_recvmsg_def Let_def Option.bind_eq_Some_conv case_prod_unfold split: option.splits if_splits)
  qed
  have "writes h5 = writes h @ [(sock, int_bytes pid)]"
    using h5 sys_write_views(1) [of K sock "int_bytes pid" ?h4] silently_writes [OF hist(1)] silently_writes [OF hist(2)]
      silently_writes [OF hist(3)] by simp
  moreover have "writes (sys_close sock h5) = writes h5" by (simp add: sys_close_def)
  ultimately show ?thesis
    using h1 h2 h3 h5 w assms(2) by (auto simp: connectRecvFDS_def Let_def)
qed


definition serving :: posix where
  "serving = quiet\<lparr>on_call := \<lambda>h name args a. if name = ''getpid'' then 4711 else 0,
     on_recvmsg := \<lambda>h sock n. Some (fds_payload [\<lparr>tp_type = RANGE_POSE_DATA, tp_fd_in = 21, tp_fd_out = 0\<rparr>,
       \<lparr>tp_type = MOV_CMD, tp_fd_in = 0, tp_fd_out = 22\<rparr>] 2 7, [5, 6])\<rparr>"


end
