(* ===== verification/Benchmarker.thy ===== *)
theory Benchmarker
  imports Replicas CommTypes
begin

text \<open>
  The benchmarker (\<open>controllers/benchmarker.c\<close>): it starts the plumber as its only replica and sits between the
  simulator and the controllers, passing scans in and commands out and timing the round trips
  (\<open>TIME_FULL_BENCH\<close> is set). What it prints is \<open>bm_times\<close>, the elapsed times of the round trips.
\<close>

definition DEFAULT_CPU :: int where "DEFAULT_CPU = 1"

record benchmarker =
  bm_replica :: replica
  range_pose_data_msg :: "byte list"
  mov_cmd_msg :: "byte list"
  bm_seq_count :: int
  bm_priority :: int
  trans_pipes :: "typed_pipe list"
  waiting_response :: bool
  bm_last :: timestamp
  bm_times :: "32 word list"
  bm_hist :: history

section \<open>Setting up\<close>

text \<open>\<open>new_pipes\<close> and \<open>pipes\<close> are local arrays; what they hold before (\<open>v0\<close>, \<open>t0\<close>) is overwritten.\<close>

definition initBenchMarker :: "posix \<Rightarrow> (nat \<Rightarrow> char) \<Rightarrow> vote_pipe \<Rightarrow> typed_pipe \<Rightarrow> benchmarker \<Rightarrow> (int \<times> benchmarker) option" where
  "initBenchMarker K g v0 t0 s =
     do {
       let h1 = snd (InitTAS K DEFAULT_CPU (bm_priority s) (bm_hist s));
       let h2 = snd (sys_call K ''sched_getscheduler'' [0] [] h1);
       (reps1, h3) \<leftarrow> initReplicas [bm_replica s] 1 ''plumber'' 10 h2;
       new_pipes \<leftarrow> convertTypedToVote (trans_pipes s) 2 [v0, v0];
       (reps2, h4) \<leftarrow> createPipes K reps1 1 new_pipes 2 h3;
       rep \<leftarrow> aget reps2 0;
       pipes \<leftarrow> convertVoteToTyped (rep_pipes rep) 2 [t0, t0];
       p0 \<leftarrow> aget pipes 0;
       p1 \<leftarrow> aget pipes 1;
       a0 \<leftarrow> serializePipe g p0;
       a1 \<leftarrow> serializePipe g p1;
       (reps3, h5) \<leftarrow> forkReplicas K reps2 1 [a0, a1] h4;
       rep' \<leftarrow> aget reps3 0;
       Some (0, s\<lparr>bm_replica := rep', bm_hist := h5\<rparr>)
     }"

text \<open>The arrays of the replica come from \<open>malloc\<close>.\<close>

definition bench_parseArgs :: "vote_pipe \<Rightarrow> int \<Rightarrow> string list \<Rightarrow> benchmarker \<Rightarrow> (int \<times> benchmarker) option" where
  "bench_parseArgs v0 c0 argv s =
     (if int (length argv) < 5 then Some (-1, s)
      else do {
        prio \<leftarrow> aget argv 1;
        in_arg \<leftarrow> aget argv 3;
        out_arg \<leftarrow> aget argv 4;
        p0 \<leftarrow> deserializePipe in_arg;
        p1 \<leftarrow> deserializePipe out_arg;
        Some (0, s\<lparr>bm_priority := atoi prio, trans_pipes := [p0, p1],
                 bm_replica := (bm_replica s)\<lparr>vot_pipes := [v0, v0], voter_rep_in_copy := [c0, c0], rep_pipes := [v0, v0]\<rparr>\<rparr>)
      })"

section \<open>The loop\<close>

text \<open>What a read of \<open>n\<close> bytes leaves in a struct.\<close>

definition read_into :: "byte list \<Rightarrow> byte list \<Rightarrow> byte list" where
  "read_into old bs = bs @ drop (length bs) old"

text \<open>A scan arrives: it is passed on unless the answer to the last one is still outstanding.\<close>

definition bench_scan :: "posix \<Rightarrow> fpu \<Rightarrow> int \<Rightarrow> benchmarker \<Rightarrow> benchmarker option" where
  "bench_scan K F fd s =
     (let (retval, bs, h) = sys_read K fd 160 (bm_hist s);
          s1 = s\<lparr>range_pose_data_msg := read_into (range_pose_data_msg s) bs, bm_hist := h\<rparr>
      in if retval = 160 then
           let s2 = s1\<lparr>bm_seq_count := range_seq_count (bytes_range_pose (range_pose_data_msg s1))\<rparr>
           in if waiting_response s2 then
                let (toss, h2) = generate_timestamp K (bm_hist s2)
                in Some (s2\<lparr>bm_times := bm_times s2 @ [diff_time F toss (bm_last s2) CPU_MHZ], bm_last := toss, bm_hist := h2\<rparr>)
              else do {
                let (now, h2) = generate_timestamp K (bm_hist s2);
                out \<leftarrow> aget (vot_pipes (bm_replica s2)) 0;
                let (r, h3) = sys_write K (fd_out out) (range_pose_data_msg s2) h2;
                Some (s2\<lparr>waiting_response := True, bm_last := now, bm_hist := h3\<rparr>)
              }
         else Some s1)"

text \<open>The answer of the replica is passed to the simulator.\<close>

definition bench_answer :: "posix \<Rightarrow> fpu \<Rightarrow> int \<Rightarrow> benchmarker \<Rightarrow> benchmarker option" where
  "bench_answer K F fd s =
     (let (retval, bs, h) = sys_read K fd 24 (bm_hist s);
          s1 = s\<lparr>mov_cmd_msg := read_into (mov_cmd_msg s) bs, bm_hist := h\<rparr>
      in if retval = 24 then do {
           let (current, h2) = generate_timestamp K (bm_hist s1);
           out \<leftarrow> aget (trans_pipes s1) 1;
           let (r, h3) = sys_write K (tp_fd_out out) (mov_cmd_msg s1) h2;
           Some (s1\<lparr>waiting_response := False, bm_times := bm_times s1 @ [diff_time F current (bm_last s1) CPU_MHZ], bm_hist := h3\<rparr>)
         }
         else Some s1)"

definition bench_turn :: "posix \<Rightarrow> fpu \<Rightarrow> benchmarker \<Rightarrow> benchmarker option" where
  "bench_turn K F s =
     do {
       t \<leftarrow> aget (trans_pipes s) 0;
       v \<leftarrow> aget (vot_pipes (bm_replica s)) 1;
       let (retval, ready, h) = sys_select K [tp_fd_in t, fd_in v] 1000000 (bm_hist s);
       let s1 = s\<lparr>bm_hist := h\<rparr>;
       if retval > 0 then do {
         s2 \<leftarrow> (if tp_fd_in t \<in> set ready then bench_scan K F (tp_fd_in t) s1 else Some s1);
         if fd_in v \<in> set ready then bench_answer K F (fd_in v) s2 else Some s2
       }
       else Some s1
     }"

fun bench_turns :: "posix \<Rightarrow> fpu \<Rightarrow> nat \<Rightarrow> benchmarker \<Rightarrow> benchmarker option" where
  "bench_turns K F 0 s = Some s"
| "bench_turns K F (Suc n) s = do { s' \<leftarrow> bench_turn K F s; bench_turns K F n s' }"

text \<open>The first fifty scans are read and dropped; \<open>bench_main\<close> is what follows for \<open>n\<close> turns.\<close>

definition drop_scans :: "posix \<Rightarrow> benchmarker \<Rightarrow> benchmarker option" where
  "drop_scans K s =
     for_upto 0 50 (\<lambda>i s. do {
       t \<leftarrow> aget (trans_pipes s) 0;
       let (r, bs, h) = sys_read K (tp_fd_in t) 160 (bm_hist s);
       Some (s\<lparr>range_pose_data_msg := read_into (range_pose_data_msg s) bs, bm_hist := h\<rparr>)
     }) s"

definition bench_globals :: benchmarker where
  "bench_globals =
     \<lparr>bm_replica = \<lparr>r_pid = 0, r_priority = 0, r_pinned_cpu = 0, r_name = None, r_pipe_count = 0, vot_pipes = [],
        voter_rep_in_copy = [], rep_pipes = []\<rparr>, range_pose_data_msg = replicate 160 0, mov_cmd_msg = replicate 24 0,
      bm_seq_count = -1, bm_priority = 0, trans_pipes = [], waiting_response = False, bm_last = 0, bm_times = [], bm_hist = []\<rparr>"

definition bench_main :: "posix \<Rightarrow> fpu \<Rightarrow> (nat \<Rightarrow> char) \<Rightarrow> vote_pipe \<Rightarrow> typed_pipe \<Rightarrow> int \<Rightarrow> string list \<Rightarrow> nat
    \<Rightarrow> (int option \<times> benchmarker) option" where
  "bench_main K F g v0 t0 c0 argv n =
     do {
       (ret, s1) \<leftarrow> bench_parseArgs v0 c0 argv bench_globals;
       if ret < 0 then Some (Some (-1), s1)
       else do {
         (r, s2) \<leftarrow> initBenchMarker K g v0 t0 s1;
         if r < 0 then Some (Some (-1), s2)
         else do {
           s3 \<leftarrow> drop_scans K (s2\<lparr>bm_hist := snd (sys_call K ''sleep'' [2] [] (bm_hist s2))\<rparr>);
           s4 \<leftarrow> bench_turns K F n s3;
           Some (None, s4)
         }
       }
     }"

section \<open>Scans and answers alternate\<close>

text \<open>
  \<open>bench_ok fs ft\<close>: scans go to descriptor \<open>fs\<close>, answers to \<open>ft\<close>, and their numbers differ by the one
  scan that is outstanding, if there is one, at most: an answer that nobody asked for can only be one too many.
\<close>

definition bench_ok :: "int \<Rightarrow> int \<Rightarrow> benchmarker \<Rightarrow> bool" where
  "bench_ok fs ft s \<longleftrightarrow>
     (\<exists>v0 v1. vot_pipes (bm_replica s) = [v0, v1] \<and> fd_out v0 = fs) \<and> (\<exists>t0 t1. trans_pipes s = [t0, t1] \<and> tp_fd_out t1 = ft)
     \<and> length (range_pose_data_msg s) = 160 \<and> length (mov_cmd_msg s) = 24
     \<and> length (written_to fs (bm_hist s)) \<le> length (written_to ft (bm_hist s)) + (if waiting_response s then 1 else 0)
     \<and> list_all (\<lambda>bs. length bs = 160) (written_to fs (bm_hist s)) \<and> list_all (\<lambda>bs. length bs = 24) (written_to ft (bm_hist s))"

lemma read_into_length: "length bs \<le> length old \<Longrightarrow> length (read_into old bs) = length old"
  by (simp add: read_into_def)

lemma bench_scan_ok:
  assumes ok: "bench_ok fs ft s" and "fs \<noteq> ft"
  shows "\<exists>s'. bench_scan K F fd s = Some s' \<and> bench_ok fs ft s' \<and> bm_replica s' = bm_replica s \<and> trans_pipes s' = trans_pipes s"
proof -
  obtain r bs h where r: "sys_read K fd 160 (bm_hist s) = (r, bs, h)" by (cases "sys_read K fd 160 (bm_hist s)")
  then have bs: "length bs \<le> 160" and w: "written_to f h = written_to f (bm_hist s)" for f
    using sys_silent(1) [OF r] silently_written by (auto elim: sys_read_cases)
  obtain v0 v1 where v: "vot_pipes (bm_replica s) = [v0, v1]" "fd_out v0 = fs" using ok by (auto simp: bench_ok_def)
  have ts: "written_to f (snd (generate_timestamp K h')) = written_to f h'" for f h'
    by (simp add: generate_timestamp_def sys_timestamp_def)
  have wr: "written_to f (snd (sys_write K fs b h')) = written_to f h' @ (if f = fs then [b] else [])" for f b h'
    by (simp add: sys_write_hist)
  show ?thesis
    using ok r bs w v ts wr assms(2)
    by (auto simp: bench_scan_def bench_ok_def read_into_length Let_def case_prod_unfold aget_def)
qed

lemma bench_answer_ok:
  assumes ok: "bench_ok fs ft s" and "fs \<noteq> ft"
  shows "\<exists>s'. bench_answer K F fd s = Some s' \<and> bench_ok fs ft s'"
proof -
  obtain r bs h where r: "sys_read K fd 24 (bm_hist s) = (r, bs, h)" by (cases "sys_read K fd 24 (bm_hist s)")
  then have bs: "length bs \<le> 24" and w: "written_to f h = written_to f (bm_hist s)" for f
    using sys_silent(1) [OF r] silently_written by (auto elim: sys_read_cases)
  obtain t0 t1 where t: "trans_pipes s = [t0, t1]" "tp_fd_out t1 = ft" using ok by (auto simp: bench_ok_def)
  have ts: "written_to f (snd (generate_timestamp K h')) = written_to f h'" for f h'
    by (simp add: generate_timestamp_def sys_timestamp_def)
  have wr: "written_to f (snd (sys_write K ft b h')) = written_to f h' @ (if f = ft then [b] else [])" for f b h'
    by (simp add: sys_write_hist)
  show ?thesis
    using ok r bs w t ts wr assms(2)
    by (auto simp: bench_answer_def bench_ok_def read_into_length Let_def case_prod_unfold aget_def split: if_splits)
qed

lemma bench_turn_ok:
  assumes ok: "bench_ok fs ft s" and "fs \<noteq> ft"
  shows "\<exists>s'. bench_turn K F s = Some s' \<and> bench_ok fs ft s'"
proof -
  obtain v0 v1 t0 t1 where v: "vot_pipes (bm_replica s) = [v0, v1]" "trans_pipes s = [t0, t1]" using ok by (auto simp: bench_ok_def)
  obtain r ready h where sel: "sys_select K [tp_fd_in t0, fd_in v1] 1000000 (bm_hist s) = (r, ready, h)"
    by (cases "sys_select K [tp_fd_in t0, fd_in v1] 1000000 (bm_hist s)")
  then have w: "written_to f h = written_to f (bm_hist s)" for f
    using sys_silent(3) [OF sel] silently_written by blast
  have ok1: "bench_ok fs ft (s\<lparr>bm_hist := h\<rparr>)" using ok w by (simp add: bench_ok_def)
  obtain s2 where s2: "(if tp_fd_in t0 \<in> set ready then bench_scan K F (tp_fd_in t0) (s\<lparr>bm_hist := h\<rparr>) else Some (s\<lparr>bm_hist := h\<rparr>)) = Some s2"
    "bench_ok fs ft s2"
    using bench_scan_ok [OF ok1 assms(2), of K F "tp_fd_in t0"] ok1 by (cases "tp_fd_in t0 \<in> set ready") auto
  then show ?thesis
    using bench_answer_ok [OF s2(2) assms(2), of K F "fd_in v1"] v sel ok1
    by (auto simp: bench_turn_def aget_def Let_def)
qed

text \<open>C39: Never two scans without an answer: whatever the simulator and the replica do, after any number of turns the
  benchmarker has passed on at most one scan more than answers, all of full length, and has made no
  undefined access.\<close>

theorem bench_one_outstanding:
  assumes "bench_ok fs ft s" "fs \<noteq> ft"
  shows "\<exists>s'. bench_turns K F n s = Some s' \<and> bench_ok fs ft s'
    \<and> length (written_to fs (bm_hist s')) \<le> Suc (length (written_to ft (bm_hist s')))"
proof -
  have "\<exists>s'. bench_turns K F n s = Some s' \<and> bench_ok fs ft s'"
    using assms(1)
  proof (induction n arbitrary: s)
    case (Suc n)
    then show ?case using bench_turn_ok [OF Suc.prems assms(2), of K F] by auto
  qed simp
  then show ?thesis by (auto simp: bench_ok_def split: if_splits)
qed

definition bench_pipe :: "int \<Rightarrow> int \<Rightarrow> vote_pipe" where
  "bench_pipe i out = \<lparr>rep_info = [], fd_in = i, fd_out = out, timed = 0, buff_count = 0, buff_index = 0, buffer = []\<rparr>"

theorem bench_one_outstanding_witness:
  "\<exists>s'. bench_turns quiet int_fpu 1000 (bench_globals\<lparr>trans_pipes := [\<lparr>tp_type = RANGE_POSE_DATA, tp_fd_in = 3, tp_fd_out = 0\<rparr>,
       \<lparr>tp_type = MOV_CMD, tp_fd_in = 0, tp_fd_out = 4\<rparr>], bm_replica := (bm_replica bench_globals)\<lparr>vot_pipes :=
       [bench_pipe 0 5, bench_pipe 6 0]\<rparr>\<rparr>) = Some s'
     \<and> length (written_to 5 (bm_hist s')) \<le> Suc (length (written_to 4 (bm_hist s')))"
proof -
  have "bench_ok 5 4 (bench_globals\<lparr>trans_pipes := [\<lparr>tp_type = RANGE_POSE_DATA, tp_fd_in = 3, tp_fd_out = 0\<rparr>,
       \<lparr>tp_type = MOV_CMD, tp_fd_in = 0, tp_fd_out = 4\<rparr>], bm_replica := (bm_replica bench_globals)\<lparr>vot_pipes :=
       [bench_pipe 0 5, bench_pipe 6 0]\<rparr>\<rparr>)"
    by (simp add: bench_ok_def bench_globals_def bench_pipe_def)
  from bench_one_outstanding [OF this, of quiet int_fpu 1000] show ?thesis by auto
qed

end
