(* ===== verification/Logger.thy ===== *)
theory Logger
  imports Mapping_Grid Controller Tas
begin

text \<open>
  The logger (\<open>controllers/logger.c\<close>), which writes scans and text messages to a file, and the load
  component (\<open>controllers/load.c\<close>), which sends such messages. The file is \<open>log_file\<close>, a list of what is
  printed; how numbers are formatted is not modelled. The computer-vision library of \<open>load.c\<close> is
  \<open>detect\<close>: how many objects it finds in the picture, or none when there is no picture.
\<close>

definition GOAL_X :: double where "GOAL_X = D_7"
definition GOAL_Y :: double where "GOAL_Y = D_7"
definition LOGGER_PIPES :: int where "LOGGER_PIPES = 5"
definition D_1000 :: double where "D_1000 = 0x408F400000000000"
definition L_m7 :: double where "L_m7 = 0xC01C000000000000"

datatype log_entry =
    LogHeader
  | LogRow double double double double double double int
  | LogMsg string

record logger = controller +
  lg_seq_count :: int
  lg_ranges :: "double list"
  lg_pose :: "double list"
  lg_data_index :: int
  finished :: bool
  prev_x :: double
  prev_y :: double
  prev_time :: timestamp
  time_elapsed :: double
  log_file :: "log_entry list"

section \<open>Setting up\<close>

definition logger_setPipeIndexes :: "logger \<Rightarrow> logger option" where
  "logger_setPipeIndexes s = Some (s\<lparr>lg_data_index := 0\<rparr>)"

text \<open>The pipes after the first, up to the limit; -1 when there are more.\<close>

fun logger_more_pipes :: "string list \<Rightarrow> logger \<Rightarrow> (int \<times> logger) option" where
  "logger_more_pipes [] s = Some (0, s)"
| "logger_more_pipes (a # argv) s =
     (if c_pipe_count s \<ge> LOGGER_PIPES then Some (-1, s)
      else do {
        p \<leftarrow> deserializePipe a;
        ps \<leftarrow> aset (c_pipes s) (c_pipe_count s) p;
        logger_more_pipes argv (s\<lparr>c_pipes := ps, c_pipe_count := c_pipe_count s + 1\<rparr>)
      })"

definition logger_parseArgs :: "posix \<Rightarrow> string list \<Rightarrow> logger \<Rightarrow> (int \<times> logger) option" where
  "logger_parseArgs K argv s =
     do {
       s0 \<leftarrow> logger_setPipeIndexes s;
       prio \<leftarrow> aget argv 1;
       let s1 = s0\<lparr>c_priority := atoi prio\<rparr>;
       if int (length argv) < 4 then do {
         let (pid, h) = sys_call K ''getpid'' [] [] (c_hist s1);
         (r, s2) \<leftarrow> take_over_pipes K pid 1 (c_name s1) (s1\<lparr>c_hist := h\<rparr>);
         Some (0, s2)
       }
       else do {
         a \<leftarrow> aget argv 3;
         p \<leftarrow> deserializePipe a;
         ps \<leftarrow> aset (c_pipes s1) (lg_data_index s1) p;
         logger_more_pipes (drop 4 argv) (s1\<lparr>c_pipes := ps, c_pipe_count := 1\<rparr>)
       }
     }"

section \<open>A scan\<close>

text \<open>
  \<open>d_of_float\<close> widens a single. \<open>1000000 * CPU_MHZ\<close> is a double that is narrowed to the parameter of
  \<open>diff_time\<close> (\<open>mhz\<close>); the comparisons of doubles with \<open>==\<close> are \<open>eq\<close>.
\<close>

definition distance_to :: "dpu \<Rightarrow> double \<Rightarrow> double \<Rightarrow> double \<Rightarrow> double \<Rightarrow> double" where
  "distance_to D x y x' y' = d_sqrt D (d_add D (d_mul D (d_sub D x x') (d_sub D x x')) (d_mul D (d_sub D y y') (d_sub D y y')))"

definition nearest :: "dpu \<Rightarrow> double list \<Rightarrow> double option" where
  "nearest D rs = for_upto 0 RANGER_COUNT (\<lambda>i m. do { r \<leftarrow> aget rs i; Some (if d_less D r m then r else m) }) D_1000"

definition logger_command :: "posix \<Rightarrow> dpu \<Rightarrow> fpu \<Rightarrow> (32 word \<Rightarrow> double) \<Rightarrow> (double \<Rightarrow> double \<Rightarrow> bool) \<Rightarrow> 32 word
    \<Rightarrow> logger \<Rightarrow> logger option" where
  "logger_command K D F d_of_float eq mhz s =
     do {
       let (current_time, h) = generate_timestamp K (c_hist s);
       let s0 = s\<lparr>c_hist := h\<rparr>;
       x \<leftarrow> aget (lg_pose s0) 0;
       y \<leftarrow> aget (lg_pose s0) 1;
       s1 \<leftarrow>
         (if d_less D (distance_to D x y GOAL_X GOAL_Y) (d_of_int D 1) then Some (s0\<lparr>finished := True\<rparr>)
          else if prev_time s0 = 0 then Some s0
          else do {
            let distance = distance_to D x y (prev_x s0) (prev_y s0);
            let time_this_round = d_of_float (diff_time F current_time (prev_time s0) mhz);
            let elapsed = d_add D (time_elapsed s0) time_this_round;
            let still = eq x (prev_x s0) \<and> eq y (prev_y s0);
            let vel = (if still then D_0 else d_div D distance elapsed);
            m \<leftarrow> nearest D (lg_ranges s0);
            Some (s0\<lparr>time_elapsed := (if still then elapsed else D_0),
                     log_file := log_file s0 @ [LogRow m vel distance time_this_round x y (lg_seq_count s0)]\<rparr>)
          });
       Some (s1\<lparr>prev_time := current_time, prev_x := x, prev_y := y\<rparr>)
     }"

section \<open>A message\<close>

text \<open>
  \<open>msg\<close> is an uninitialised local: \<open>commRecvMsgBuffer\<close> allocates its text only after a complete length,
  otherwise a wild pointer is printed and freed. \<open>%s\<close> reads the text up to its NUL.
\<close>

definition msg_allocated :: "posix \<Rightarrow> typed_pipe \<Rightarrow> history \<Rightarrow> bool" where
  "msg_allocated K p h \<longleftrightarrow> tp_fd_in p \<noteq> 0 \<and> tp_type p = MSG_BUFFER \<and> fst (sys_read K (tp_fd_in p) 4 h) = 4"

definition block_text :: "byte list \<Rightarrow> string option" where
  "block_text bs = c_str (map (\<lambda>b. char_of (unat b)) bs)"

definition logger_msg :: "posix \<Rightarrow> (nat \<Rightarrow> byte) \<Rightarrow> comm_msg_buffer \<Rightarrow> typed_pipe \<Rightarrow> logger \<Rightarrow> logger option" where
  "logger_msg K g msg0 p s =
     do {
       (r, msg, h) \<leftarrow> commRecvMsgBuffer K g p msg0 (c_hist s);
       let s1 = s\<lparr>c_hist := h\<rparr>;
       if \<not> msg_allocated K p (c_hist s) then None
       else if finished s1 then Some s1
       else do { t \<leftarrow> block_text (message msg); Some (s1\<lparr>log_file := log_file s1 @ [LogMsg t]\<rparr>) }
     }"

section \<open>The loop\<close>

definition logger_scan :: "posix \<Rightarrow> dpu \<Rightarrow> fpu \<Rightarrow> (32 word \<Rightarrow> double) \<Rightarrow> (double \<Rightarrow> double \<Rightarrow> bool) \<Rightarrow> 32 word
    \<Rightarrow> int \<Rightarrow> logger \<Rightarrow> logger option" where
  "logger_scan K D F d_of_float eq mhz fd s =
     (let (read_ret, bs, h) = sys_read K fd 160 (c_hist s); s1 = s\<lparr>c_hist := h\<rparr>
      in if read_ret = 160 then do {
           (seq, rs, ps) \<leftarrow> commCopyRanger (bytes_range_pose bs) (lg_ranges s1) (lg_pose s1);
           logger_command K D F d_of_float eq mhz (s1\<lparr>lg_seq_count := seq, lg_ranges := rs, lg_pose := ps\<rparr>)
         }
         else Some s1)"

definition logger_turn :: "posix \<Rightarrow> dpu \<Rightarrow> fpu \<Rightarrow> (32 word \<Rightarrow> double) \<Rightarrow> (double \<Rightarrow> double \<Rightarrow> bool) \<Rightarrow> 32 word \<Rightarrow> (nat \<Rightarrow> byte)
    \<Rightarrow> comm_msg_buffer \<Rightarrow> logger \<Rightarrow> (bool \<times> logger) option" where
  "logger_turn K D F d_of_float eq mhz g msg0 s =
     do {
       d \<leftarrow> aget (c_pipes s) (lg_data_index s);
       fds \<leftarrow> for_upto 1 (c_pipe_count s) (\<lambda>i fds. do { p \<leftarrow> aget (c_pipes s) i; Some (fds @ [tp_fd_in p]) }) [];
       let (retval, ready, h) = sys_select K (tp_fd_in d # fds) 1000000 (c_hist s);
       let s1 = s\<lparr>c_hist := h\<rparr>;
       if retval > 0 then do {
         s2 \<leftarrow> (if tp_fd_in d \<in> set ready then logger_scan K D F d_of_float eq mhz (tp_fd_in d) s1 else Some s1);
         s3 \<leftarrow> for_upto 1 (c_pipe_count s2) (\<lambda>i s. do {
                  p \<leftarrow> aget (c_pipes s) i;
                  if tp_fd_in p \<in> set ready then logger_msg K g msg0 p s else Some s
                }) s2;
         Some (True, s3)
       }
       else Some (True, s1)
     }"

text \<open>
  \<open>openFile\<close> returns -1 when it fails and has no \<open>return\<close> otherwise: the value the caller tests is
  whatever is left (\<open>stray_word\<close>).
\<close>

definition openFile :: "posix \<Rightarrow> logger \<Rightarrow> int \<times> logger" where
  "openFile K s =
     (let (t, h1) = sys_call K ''time'' [] [] (c_hist s);
          (len, h2) = sys_call K ''asprintf'' [t] ''_log.txt'' h1
      in if len < 0 then (-1, s\<lparr>c_hist := h2\<rparr>)
         else let (f, h3) = sys_call K ''fopen'' [t] ''w'' h2
         in if f = 0 then (-1, s\<lparr>c_hist := h3\<rparr>)
            else (stray_word K h3 0, s\<lparr>c_hist := h3, log_file := [LogHeader]\<rparr>))"

definition logger_globals :: logger where
  "logger_globals =
     \<lparr>c_pipes = replicate 5 blank_typed_pipe, c_pipe_count = LOGGER_PIPES, c_name = ''Logger'', c_priority = 0,
      c_pinned_cpu = 0, insertSDC = False, insertCFE = False, c_hist = [], lg_seq_count = 0, lg_ranges = replicate 16 0,
      lg_pose = replicate 3 0, lg_data_index = 0, finished = False, prev_x = L_m7, prev_y = L_m7, prev_time = 0,
      time_elapsed = D_0, log_file = []\<rparr>"

definition logger_main :: "posix \<Rightarrow> dpu \<Rightarrow> fpu \<Rightarrow> (32 word \<Rightarrow> double) \<Rightarrow> (double \<Rightarrow> double \<Rightarrow> bool) \<Rightarrow> 32 word \<Rightarrow> (nat \<Rightarrow> byte)
    \<Rightarrow> comm_msg_buffer \<Rightarrow> string list \<Rightarrow> nat \<Rightarrow> (int option \<times> logger) option" where
  "logger_main K D F d_of_float eq mhz g msg0 argv n =
     do {
       (ret, s1) \<leftarrow> logger_parseArgs K argv logger_globals;
       if ret < 0 then Some (Some (-1), s1)
       else
         let (r, s2) = initController K s1
         in if r < 0 then Some (Some (-1), s2)
            else let (o_ret, s3) = openFile K s2
            in if o_ret < 0 then Some (Some (-1), s3)
               else do { (go, s4) \<leftarrow> turns (logger_turn K D F d_of_float eq mhz g msg0) n s3; Some (None, s4) }
     }"

section \<open>Load\<close>

record load = controller +
  out_to_log :: int

definition load_setPipeIndexes :: "load \<Rightarrow> load option" where
  "load_setPipeIndexes s = Some (s\<lparr>out_to_log := 0\<rparr>)"

definition load_parseArgs :: "posix \<Rightarrow> string list \<Rightarrow> load \<Rightarrow> (int \<times> load) option" where
  "load_parseArgs K argv s =
     (if int (length argv) < 2 then Some (-1, s)
      else do {
        s0 \<leftarrow> load_setPipeIndexes s;
        prio \<leftarrow> aget argv 1;
        let s1 = s0\<lparr>c_priority := atoi prio, c_pipe_count := 1\<rparr>;
        if int (length argv) < 4 then do {
          let (pid, h) = sys_call K ''getpid'' [] [] (c_hist s1);
          (r, s2) \<leftarrow> take_over_pipes K pid (c_pipe_count s1) ''Load'' (s1\<lparr>c_hist := h\<rparr>);
          Some (0, s2)
        }
        else do {
          a \<leftarrow> aget argv 3;
          p \<leftarrow> deserializePipe a;
          ps \<leftarrow> aset (c_pipes s1) 0 p;
          Some (0, s1\<lparr>c_pipes := ps\<rparr>)
        }
      })"

text \<open>
  \<open>perCyclePrime\<close> counts as prime what no \<open>j\<close> divides; its test compares a quotient of doubles with the
  truncated one.
\<close>

definition looks_prime :: "dpu \<Rightarrow> (double \<Rightarrow> double \<Rightarrow> bool) \<Rightarrow> int \<Rightarrow> bool" where
  "looks_prime D eq i =
     list_all (\<lambda>j. \<not> eq (d_div D (d_of_int D i) (d_of_int D j)) (d_of_int D (i sdiv j))) [2..i sdiv 2]"

definition perCyclePrime :: "dpu \<Rightarrow> (double \<Rightarrow> double \<Rightarrow> bool) \<Rightarrow> int" where
  "perCyclePrime D eq = int (length (filter (looks_prime D eq) [3..4999]))"

text \<open>The text of the message, without its NUL: \<open>asprintf\<close> returns the length that excludes it.\<close>

definition ped_text :: "int \<Rightarrow> int \<Rightarrow> string" where
  "ped_text rnum elapsed_time = ''Ped total: '' @ show_int rnum @ '' in time '' @ show_int elapsed_time @ ''ms'' @ [CHR 0x0A]"

text \<open>The clock gives microseconds; in milliseconds they are cut off to 32 bits, and so is their difference.\<close>

definition get_current_time :: "posix \<Rightarrow> history \<Rightarrow> 32 word \<times> history" where
  "get_current_time K h =
     (let (us, h') = sys_call K ''gettimeofday'' [] [] h
      in (word_of_int (us div 1000000 * 1000 + us mod 1000000 div 1000), h'))"

text \<open>Ends the process. \<open>detect\<close> is libccv: the number of pedestrians it finds, \<open>None\<close> when there is no image.\<close>

definition perCyclePedestrian :: "posix \<Rightarrow> (history \<Rightarrow> int option) \<Rightarrow> load \<Rightarrow> (int \<times> load) option" where
  "perCyclePedestrian K detect s =
     (case detect (c_hist s) of
        None \<Rightarrow> Some (0, s)
      | Some rnum \<Rightarrow>
          let (start, h1) = get_current_time K (c_hist s);
              (stop, h2) = get_current_time K h1;
              t = ped_text rnum (sint (stop - start))
          in do {
            out \<leftarrow> aget (c_pipes s) (out_to_log s);
            (r, h3) \<leftarrow> commSendMsgBuffer K out \<lparr>msg_length = int (length t), message = text_bytes t @ [0]\<rparr> h2;
            Some (0, s\<lparr>c_hist := h3\<rparr>)
          })"

definition load_globals :: load where
  "load_globals =
     \<lparr>c_pipes = [blank_typed_pipe], c_pipe_count = 1, c_name = ''Load'', c_priority = 0, c_pinned_cpu = 0, insertSDC = False,
      insertCFE = False, c_hist = [], out_to_log = 0\<rparr>"

text \<open>The loop never starts a second round, since the first ends the process.\<close>

definition load_main :: "posix \<Rightarrow> (history \<Rightarrow> int option) \<Rightarrow> string list \<Rightarrow> (int \<times> load) option" where
  "load_main K detect argv =
     do {
       (ret, s1) \<leftarrow> load_parseArgs K argv load_globals;
       if ret < 0 then Some (-1, s1)
       else let (r, s2) = initController K s1 in if r < 0 then Some (-1, s2) else perCyclePedestrian K detect s2
     }"

end
