(* ===== verification/LoggerProps.thy ===== *)
theory LoggerProps
  imports Logger MapperProps
begin

text \<open>
  Properties of the logger and of the load component: what a text message must look like to be logged, and
  that those of the load component do not.
\<close>

lemma block_text_bytes: "block_text (text_bytes t) = c_str t"
  by (simp add: block_text_def text_bytes_def comp_def)

lemma c_str_iff: "c_str t = None \<longleftrightarrow> NUL \<notin> set t"
  by (induction t) auto

lemma logger_msg_eq:
  assumes "tp_fd_in p \<noteq> 0" "tp_type p = MSG_BUFFER" "c_int (int (length t))" "t \<noteq> []"
    and read: "on_read K (c_hist s) (tp_fd_in p) 4 = Some (int_bytes (int (length t)))"
      "on_read K (c_hist s @ [SysRead (tp_fd_in p) 4 (Some (int_bytes (int (length t))))]) (tp_fd_in p) (int (length t)) = Some (text_bytes t)"
    and "\<not> finished s"
  shows "logger_msg K g msg0 p s =
    (case c_str t of None \<Rightarrow> None
     | Some u \<Rightarrow> Some (s\<lparr>c_hist := c_hist s @ [SysRead (tp_fd_in p) 4 (Some (int_bytes (int (length t)))),
         SysRead (tp_fd_in p) (int (length t)) (Some (text_bytes t))], log_file := log_file s @ [LogMsg u]\<rparr>))"
proof -
  have len: "length (text_bytes t) = length t" by (simp add: text_bytes_def)
  have r1: "sys_read K (tp_fd_in p) 4 (c_hist s) = (4, int_bytes (int (length t)), c_hist s @ [SysRead (tp_fd_in p) 4 (Some (int_bytes (int (length t))))])"
    using read(1) by (simp add: sys_read_def Let_def)
  have "commRecvMsgBuffer K g p msg0 (c_hist s) = Some (int (length t), msg0\<lparr>msg_length := int (length t), message := text_bytes t\<rparr>,
      c_hist s @ [SysRead (tp_fd_in p) 4 (Some (int_bytes (int (length t)))), SysRead (tp_fd_in p) (int (length t)) (Some (text_bytes t))])"
    using assms(1-4) r1 read(2) len by (simp add: commRecvMsgBuffer_def sys_read_def mem_write_def Let_def)
  moreover have "msg_allocated K p (c_hist s)" using assms(1,2) r1 by (simp add: msg_allocated_def)
  ultimately show ?thesis
    using assms(7) by (simp add: logger_msg_def block_text_bytes split: option.split)
qed

text \<open>A message is logged when it carries its own end: one that arrives complete is printed up to its first NUL, and
  one without a NUL makes the logger read behind the block it was received into.\<close>

theorem logger_needs_terminator:
  assumes "tp_fd_in p \<noteq> 0" "tp_type p = MSG_BUFFER" "c_int (int (length t))" "t \<noteq> []"
    and "on_read K (c_hist s) (tp_fd_in p) 4 = Some (int_bytes (int (length t)))"
      "on_read K (c_hist s @ [SysRead (tp_fd_in p) 4 (Some (int_bytes (int (length t))))]) (tp_fd_in p) (int (length t)) = Some (text_bytes t)"
    and "\<not> finished s"
  shows "map_option log_file (logger_msg K g msg0 p s) = map_option (\<lambda>u. log_file s @ [LogMsg u]) (c_str t)
    \<and> (logger_msg K g msg0 p s = None \<longleftrightarrow> NUL \<notin> set t)"
  using logger_msg_eq [OF assms, of g msg0] c_str_iff [of t] by (auto split: option.splits)

definition text_pipe :: typed_pipe where
  "text_pipe = \<lparr>tp_type = MSG_BUFFER, tp_fd_in = 3, tp_fd_out = 0\<rparr>"

definition hears :: "byte list \<Rightarrow> byte list \<Rightarrow> posix" where
  "hears as bs = quiet\<lparr>on_read := \<lambda>h fd n. Some (if n = 4 then as else bs)\<rparr>"

theorem logger_needs_terminator_witness:
  "logger_msg (hears (int_bytes 2) [72, 105]) (\<lambda>_. 0) \<lparr>msg_length = 0, message = []\<rparr> text_pipe logger_globals = None"
proof -
  have "text_bytes ''Hi'' = [72, 105]" by (simp add: text_bytes_def of_char_def)
  then show ?thesis
    using logger_needs_terminator [of text_pipe "''Hi''" "hears (int_bytes 2) [72, 105]" logger_globals "\<lambda>_. 0" "\<lparr>msg_length = 0, message = []\<rparr>"]
    by (simp add: text_pipe_def hears_def c_int_def logger_globals_def NUL_def)
qed

lemma ped_text_no_NUL: "NUL \<notin> set (ped_text r e)"
  using show_int_chars [of NUL] by (auto simp: ped_text_def NUL_def)

lemma get_current_time_writes: "get_current_time K h = (t, h') \<Longrightarrow> writes h' = writes h"
  using sys_silent(9) [of K "''gettimeofday''" "[]" "[]" h] silently_writes
  by (fastforce simp: get_current_time_def Let_def split: prod.splits)

text \<open>C40: The load component crashes the logger: what it sends is its text without the NUL, and a logger that receives
  exactly those bytes makes an undefined access.\<close>

theorem load_crashes_logger:
  assumes send: "perCyclePedestrian K detect l = Some (r, l')" "detect (c_hist l) \<noteq> None"
      "aget (c_pipes l) (out_to_log l) = Some out" "tp_type out = MSG_BUFFER" "tp_fd_out out \<noteq> 0"
    and sent: "writes (c_hist l') = writes (c_hist l) @ [(tp_fd_out out, bs)]" "length bs < 2 ^ 31"
    and p: "tp_fd_in p \<noteq> 0" "tp_type p = MSG_BUFFER" "\<not> finished s"
    and read: "on_read L (c_hist s) (tp_fd_in p) 4 = Some (take 4 bs)"
      "on_read L (c_hist s @ [SysRead (tp_fd_in p) 4 (Some (take 4 bs))]) (tp_fd_in p) (int (length bs) - 4) = Some (drop 4 bs)"
  shows "logger_msg L g msg0 p s = None"
proof -
  obtain rnum where rnum: "detect (c_hist l) = Some rnum" using send(2) by auto
  obtain start h1 stop h2 where t: "get_current_time K (c_hist l) = (start, h1)" "get_current_time K h1 = (stop, h2)"
    by (metis surj_pair)
  have quiet: "writes h2 = writes (c_hist l)"
    using get_current_time_writes [OF t(1)] get_current_time_writes [OF t(2)] by simp
  let ?t = "ped_text rnum (sint (stop - start))"
  have tx: "length (text_bytes ?t) = length ?t" "?t \<noteq> []" by (simp_all add: text_bytes_def ped_text_def)
  have "commSendMsgBuffer K out \<lparr>msg_length = int (length ?t), message = text_bytes ?t @ [0]\<rparr> h2
      = Some (sys_write K (tp_fd_out out) (int_bytes (int (length ?t)) @ text_bytes ?t) h2)"
    using send(4,5) tx by (simp add: commSendMsgBuffer_def mem_read_def)
  then have "writes (c_hist l') = writes (c_hist l) @ [(tp_fd_out out, int_bytes (int (length ?t)) @ text_bytes ?t)]"
    using send(1,3) rnum t quiet by (auto simp: perCyclePedestrian_def Let_def case_prod_unfold)
  then have bs: "bs = int_bytes (int (length ?t)) @ text_bytes ?t" using sent(1) by simp
  have c: "c_int (int (length ?t))" using sent(2) bs tx by (simp add: c_int_def)
  have "logger_msg L g msg0 p s = (case c_str ?t of None \<Rightarrow> None
     | Some u \<Rightarrow> Some (s\<lparr>c_hist := c_hist s @ [SysRead (tp_fd_in p) 4 (Some (int_bytes (int (length ?t)))),
         SysRead (tp_fd_in p) (int (length ?t)) (Some (text_bytes ?t))], log_file := log_file s @ [LogMsg u]\<rparr>))"
    by (rule logger_msg_eq [OF p(1,2) c tx(2) _ _ p(3)]) (use read bs tx in simp_all)
  then show ?thesis using c_str_iff [of ?t] ped_text_no_NUL by simp
qed

definition loaded :: load where
  "loaded = load_globals\<lparr>c_pipes := [\<lparr>tp_type = MSG_BUFFER, tp_fd_in = 0, tp_fd_out = 4\<rparr>]\<rparr>"

theorem load_crashes_logger_witness:
  "\<exists>l' bs. perCyclePedestrian quiet (\<lambda>h. Some 3) loaded = Some (0, l') \<and> writes (c_hist l') = [(4, bs)]
     \<and> logger_msg (hears (take 4 bs) (drop 4 bs)) (\<lambda>_. 0) \<lparr>msg_length = 0, message = []\<rparr> text_pipe logger_globals = None"
proof -
  let ?t = "ped_text 3 0"
  let ?bs = "int_bytes (int (length ?t)) @ text_bytes ?t"
  have "length (text_bytes ?t) = length ?t" by (simp add: text_bytes_def)
  then have "\<exists>l'. perCyclePedestrian quiet (\<lambda>h. Some 3) loaded = Some (0, l') \<and> writes (c_hist l') = [(4, ?bs)]"
    by (simp add: perCyclePedestrian_def get_current_time_def loaded_def load_globals_def sys_call_def commSendMsgBuffer_def mem_read_def sys_write_def
        quiet_def aget_def Let_def)
  then obtain l' where l': "perCyclePedestrian quiet (\<lambda>h. Some 3) loaded = Some (0, l')" "writes (c_hist l') = [(4, ?bs)]"
    by blast
  have len: "length ?bs = 29" by (simp add: text_bytes_def ped_text_def show_int_def show_nat.simps)
  have "logger_msg (hears (take 4 ?bs) (drop 4 ?bs)) (\<lambda>_. 0) \<lparr>msg_length = 0, message = []\<rparr> text_pipe logger_globals = None"
    by (rule load_crashes_logger [OF l'(1), where out = "\<lparr>tp_type = MSG_BUFFER, tp_fd_in = 0, tp_fd_out = 4\<rparr>" and bs = ?bs])
      (use l'(2) len in \<open>simp_all add: loaded_def load_globals_def text_pipe_def hears_def logger_globals_def NUL_def aget_def\<close>)
  then show ?thesis using l' by blast
qed

end
