(* ===== verification/Translator.thy ===== *)
theory Translator
  imports Replicas CommTypes
begin

text \<open>
  The translator (\<open>player_translator_driver/translator_driver.cc\<close>): a Player driver that turns scans and odometry
  into messages for the benchmarker and move commands into commands of the robot. Player itself is
  not part of the sources: what it delivers are \<open>player_msg\<close>s, what it is asked to do is recorded in
  \<open>tr_commands\<close> (\<open>PutMsg\<close>) and in the two subscriptions, and whether an address is configured and a device
  can be had and subscribed to are arguments. A device pointer is null or not.
\<close>

type_synonym double_bits = "64 word"

datatype player_msg =
    OdomState double_bits double_bits double_bits
  | RangerRange "double_bits list"
  | RangerIntensity
  | PositionCommand double_bits double_bits double_bits
  | OtherMessage

record translator =
  tr_pose :: "double_bits list"
  curr_goal :: "double_bits list"
  rep :: replica
  odom :: bool
  ranger :: bool
  odom_subscribed :: bool
  ranger_subscribed :: bool
  tr_seq_count :: int
  tr_commands :: "(double_bits \<times> double_bits) list"
  tr_hist :: history

section \<open>Setting up\<close>

text \<open>
  The constructor: what \<open>ReadDeviceAddr\<close> and \<open>AddInterface\<close> return decides whether the driver starts with an
  error; no device is there yet.
\<close>

definition TranslatorDriver :: "int \<Rightarrow> int \<Rightarrow> int \<Rightarrow> int \<Rightarrow> translator \<Rightarrow> int option \<times> translator" where
  "TranslatorDriver provides_ret add_ret odom_addr_ret ranger_addr_ret s =
     (if provides_ret = 0 \<and> add_ret \<noteq> 0 then (Some (-1), s)
      else let s1 = s\<lparr>odom := False\<rparr>
      in if odom_addr_ret \<noteq> 0 then (Some (-1), s1)
         else let s2 = s1\<lparr>ranger := False\<rparr>
         in if ranger_addr_ret \<noteq> 0 then (Some (-1), s2) else (None, s2))"

text \<open>
  Player loads the driver by \<open>player_driver_init\<close>, which enters it in a table of factories; the factory makes
  the object with the constructor.
\<close>

type_synonym driver_factory = "int \<Rightarrow> int \<Rightarrow> int \<Rightarrow> int \<Rightarrow> translator \<Rightarrow> int option \<times> translator"

definition TranslatorDriver_Init :: driver_factory where
  "TranslatorDriver_Init provides_ret add_ret odom_addr_ret ranger_addr_ret s =
     TranslatorDriver provides_ret add_ret odom_addr_ret ranger_addr_ret s"

definition TranslatorDriver_Register :: "(string \<times> driver_factory) list \<Rightarrow> (string \<times> driver_factory) list" where
  "TranslatorDriver_Register table = table @ [(''translatordriver'', TranslatorDriver_Init)]"

definition player_driver_init :: "(string \<times> driver_factory) list \<Rightarrow> int \<times> (string \<times> driver_factory) list" where
  "player_driver_init table = (0, TranslatorDriver_Register table)"

text \<open>\<open>GetDevice\<close> gives a device or null, \<open>Subscribe\<close> returns 0 when it succeeds.\<close>

definition SetupOdom :: "bool \<Rightarrow> int \<Rightarrow> translator \<Rightarrow> int \<times> translator" where
  "SetupOdom device subscribe_ret s =
     (let s1 = s\<lparr>odom := device\<rparr>
      in if \<not> device then (-1, s1) else if subscribe_ret \<noteq> 0 then (-1, s1) else (0, s1\<lparr>odom_subscribed := True\<rparr>))"

definition SetupRanger :: "bool \<Rightarrow> int \<Rightarrow> translator \<Rightarrow> int \<times> translator" where
  "SetupRanger device subscribe_ret s =
     (let s1 = s\<lparr>ranger := device\<rparr>
      in if \<not> device then (-1, s1) else if subscribe_ret \<noteq> 0 then (-1, s1) else (0, s1\<lparr>ranger_subscribed := True\<rparr>))"

text \<open>
  The replica of the driver object is not initialised (\<open>rep s\<close> is arbitrary), its arrays come from
  \<open>malloc\<close>, and \<open>initReplicas\<close> resets as many pipes of them as the stale \<open>pipe_count\<close> says.
\<close>

definition fake_pipes :: "vote_pipe \<Rightarrow> vote_pipe list" where
  "fake_pipes v0 =
     [v0\<lparr>rep_info := MESSAGE_T RANGE_POSE_DATA, fd_in := 1, fd_out := 0\<rparr>,
      v0\<lparr>rep_info := MESSAGE_T MOV_CMD, fd_in := 0, fd_out := 1\<rparr>]"

definition start_benchmarker :: "posix \<Rightarrow> (nat \<Rightarrow> char) \<Rightarrow> vote_pipe \<Rightarrow> typed_pipe \<Rightarrow> int \<Rightarrow> translator \<Rightarrow> translator option" where
  "start_benchmarker K g v0 t0 c0 s =
     do {
       let s1 = s\<lparr>rep := (rep s)\<lparr>vot_pipes := [v0, v0], voter_rep_in_copy := [c0, c0], rep_pipes := [v0, v0]\<rparr>\<rparr>;
       (reps1, h2) \<leftarrow> initReplicas [rep s1] 1 ''BenchMarker'' 98 (tr_hist s1);
       (reps2, h3) \<leftarrow> createPipes K reps1 1 (fake_pipes v0) 2 h2;
       r \<leftarrow> aget reps2 0;
       pipes \<leftarrow> convertVoteToTyped (rep_pipes r) 2 [t0, t0];
       p0 \<leftarrow> aget pipes 0;
       p1 \<leftarrow> aget pipes 1;
       a0 \<leftarrow> serializePipe g p0;
       a1 \<leftarrow> serializePipe g p1;
       (reps3, h4) \<leftarrow> forkReplicas K reps2 1 [a0, a1] h3;
       r' \<leftarrow> aget reps3 0;
       Some (s1\<lparr>rep := r', tr_hist := h4\<rparr>)
     }"

text \<open>\<open>has_ranger\<close>: the address of the ranger has an interface. The start position is (-7, -7).\<close>

definition MainSetup :: "posix \<Rightarrow> (nat \<Rightarrow> char) \<Rightarrow> vote_pipe \<Rightarrow> typed_pipe \<Rightarrow> int \<Rightarrow> bool \<times> int \<Rightarrow> bool \<Rightarrow> bool \<times> int \<Rightarrow> translator
    \<Rightarrow> (int \<times> translator) option" where
  "MainSetup K g v0 t0 c0 odom_dev has_ranger ranger_dev s =
     (let (r1, s1) = SetupOdom (fst odom_dev) (snd odom_dev) s
      in if r1 \<noteq> 0 then Some (-1, s1)
         else let (r2, s2) = (if has_ranger then SetupRanger (fst ranger_dev) (snd ranger_dev) s1 else (0, s1))
         in if r2 \<noteq> 0 then Some (-1, s2)
            else do {
              s3 \<leftarrow> start_benchmarker K g v0 t0 c0 (s2\<lparr>tr_hist := snd (InitTAS K 0 45 (tr_hist s2)), curr_goal := [0, 0, 0],
                tr_pose := [0xC01C000000000000, 0xC01C000000000000, 0]\<rparr>);
              Some (0, s3)
            })"

section \<open>Messages of Player\<close>

definition ProcessOdom :: "double_bits \<Rightarrow> double_bits \<Rightarrow> double_bits \<Rightarrow> translator \<Rightarrow> translator" where
  "ProcessOdom px py pa s = s\<lparr>tr_pose := [px, py, pa]\<rparr>"

definition ProcessCommand :: "double_bits \<Rightarrow> double_bits \<Rightarrow> double_bits \<Rightarrow> translator \<Rightarrow> translator" where
  "ProcessCommand px py pa s = s\<lparr>curr_goal := [px, py, pa]\<rparr>"

text \<open>The struct is not cleared: its padding is whatever the stack holds (\<open>pad\<close>).\<close>

definition ProcessRanger :: "posix \<Rightarrow> byte list \<Rightarrow> double_bits list \<Rightarrow> translator \<Rightarrow> translator option" where
  "ProcessRanger K pad data s =
     do {
       rs \<leftarrow> mem_read data 0 16;
       ps \<leftarrow> mem_read (tr_pose s) 0 3;
       out \<leftarrow> aget (vot_pipes (rep s)) 0;
       let (r, h) = sys_write K (fd_out out) (int_bytes (tr_seq_count s) @ pad @ doubles_bytes rs @ doubles_bytes ps) (tr_hist s);
       Some (s\<lparr>tr_hist := h\<rparr>)
     }"

text \<open>A position command leaves the function without a value.\<close>

definition ProcessMessage :: "posix \<Rightarrow> byte list \<Rightarrow> player_msg \<Rightarrow> translator \<Rightarrow> (int option \<times> translator) option" where
  "ProcessMessage K pad msg s =
     (case msg of
        OdomState px py pa \<Rightarrow> Some (Some 0, ProcessOdom px py pa s)
      | RangerRange data \<Rightarrow> do { s' \<leftarrow> ProcessRanger K pad data s; Some (Some 0, s') }
      | RangerIntensity \<Rightarrow> Some (Some 0, s)
      | PositionCommand px py pa \<Rightarrow> Some (None, ProcessCommand px py pa s)
      | OtherMessage \<Rightarrow> Some (Some (-1), s))"

text \<open>The device pointers are used without a test.\<close>

definition PutCommand :: "double_bits \<Rightarrow> double_bits \<Rightarrow> translator \<Rightarrow> translator option" where
  "PutCommand cmd_speed cmd_turnrate s =
     (if odom s then Some (s\<lparr>tr_commands := tr_commands s @ [(cmd_speed, cmd_turnrate)]\<rparr>) else None)"

definition ShutdownOdom :: "translator \<Rightarrow> translator option" where
  "ShutdownOdom s = do { s1 \<leftarrow> PutCommand 0 0 s; Some (s1\<lparr>odom_subscribed := False\<rparr>) }"

definition ShutdownRanger :: "translator \<Rightarrow> translator option" where
  "ShutdownRanger s = (if ranger s then Some (s\<lparr>ranger_subscribed := False\<rparr>) else None)"

definition MainShutdown :: "translator \<Rightarrow> translator option" where
  "MainShutdown s = do { s1 \<leftarrow> (if ranger s then ShutdownRanger s else Some s); ShutdownOdom s1 }"

section \<open>One update\<close>

text \<open>
  The messages that wait, then at most one answer. The result of \<open>read\<close> is not looked at: what it does
  not fill of the local struct is stale (\<open>old\<close>), and is executed all the same.
\<close>

definition DoOneUpdate :: "posix \<Rightarrow> byte list \<Rightarrow> byte list \<Rightarrow> player_msg list \<Rightarrow> translator \<Rightarrow> translator option" where
  "DoOneUpdate K pad old inbox s =
     do {
       s1 \<leftarrow> foldM (\<lambda>msg s. do { (r, s') \<leftarrow> ProcessMessage K pad msg s; Some s' }) inbox s;
       v \<leftarrow> aget (vot_pipes (rep s1)) 1;
       let (retval, ready, h) = sys_select K [fd_in v] 100000 (tr_hist s1);
       let s2 = s1\<lparr>tr_hist := h\<rparr>;
       if retval > 0 \<and> fd_in v \<in> set ready then do {
         let (r, bs, h2) = sys_read K (fd_in v) 24 h;
         let recv_msg = bytes_mov_cmd (bs @ drop (length bs) old);
         v0 \<leftarrow> aget (vel_cmd recv_msg) 0;
         v1 \<leftarrow> aget (vel_cmd recv_msg) 1;
         PutCommand v0 v1 (s2\<lparr>tr_seq_count := mov_seq_count recv_msg + 1, tr_hist := h2\<rparr>)
       }
       else Some s2
     }"

text \<open>The thread of the driver: each update has the padding, the stale command and the messages it finds.\<close>

definition translator_main :: "posix \<Rightarrow> (byte list \<times> byte list \<times> player_msg list) list \<Rightarrow> translator \<Rightarrow> translator option" where
  "translator_main K updates s = foldM (\<lambda>(pad, old, inbox). DoOneUpdate K pad old inbox) updates s"

section \<open>What reaches the robot\<close>

lemma DoOneUpdate_executes:
  assumes "vot_pipes (rep s) = [v0, v1]" "sys_select K [fd_in v1] 100000 (tr_hist s) = (r, [fd_in v1], h)" "0 < r"
    and "sys_read K (fd_in v1) 24 h = (24, mov_cmd_bytes m, h2)" "length (vel_cmd m) = 2" "c_int (mov_seq_count m)" "odom s"
  shows "DoOneUpdate K pad old [] s = Some (s\<lparr>tr_seq_count := mov_seq_count m + 1, tr_hist := h2,
    tr_commands := tr_commands s @ [(vel_cmd m ! 0, vel_cmd m ! 1)]\<rparr>)"
proof -
  obtain a b where m: "vel_cmd m = [a, b]" using assms(5) by (auto simp: length_Suc_conv numeral_2_eq_2)
  have "bytes_mov_cmd (mov_cmd_bytes m @ drop (length (mov_cmd_bytes m)) old) = m"
    using assms(6) m by (cases m) (simp add: bytes_mov_cmd_def mov_cmd_bytes_def doubles_bytes_def numeral_2_eq_2)
  then show ?thesis
    using assms m by (simp add: DoOneUpdate_def aget_def PutCommand_def Let_def)
qed

text \<open>A short read is executed as if it were whole.\<close>

lemma DoOneUpdate_stale:
  assumes "vot_pipes (rep s) = [v0, v1]" "sys_select K [fd_in v1] 100000 (tr_hist s) = (r, [fd_in v1], h)" "0 < r"
    and "sys_read K (fd_in v1) 24 h = (-1, [], h2)" "odom s"
  shows "\<exists>s'. DoOneUpdate K pad (mov_cmd_bytes m) [] s = Some s' \<and> length (tr_commands s') = Suc (length (tr_commands s))"
  using assms by (simp add: DoOneUpdate_def aget_def PutCommand_def bytes_mov_cmd_def numeral_2_eq_2 Let_def)

text \<open>After a set-up that succeeded, shutting down stops the robot and gives both subscriptions back.\<close>

lemma SetupOdom_odom: "SetupOdom d r s = (0, s') \<Longrightarrow> odom s'"
  by (auto simp: SetupOdom_def Let_def split: if_splits)

lemma MainShutdown_stops:
  assumes "odom s" "ranger_subscribed s \<longrightarrow> ranger s"
  shows "\<exists>s'. MainShutdown s = Some s' \<and> last (tr_commands s') = (0, 0) \<and> \<not> odom_subscribed s' \<and> \<not> ranger_subscribed s'"
  using assms by (auto simp: MainShutdown_def ShutdownOdom_def ShutdownRanger_def PutCommand_def)

text \<open>When the odometry device could not be had, a shut-down would follow a null pointer.\<close>

lemma MainShutdown_null: "MainSetup K g v0 t0 c0 (False, r) has_ranger rd s = Some (r', s') \<Longrightarrow> r' = -1 \<and> MainShutdown s' = None"
  by (auto simp: MainSetup_def SetupOdom_def MainShutdown_def ShutdownOdom_def ShutdownRanger_def PutCommand_def Let_def)

end
