(* ===== verification/Force.thy ===== *)
theory Force
  imports Posix
begin

text \<open>
  Paging in memory (\<open>tas_lib/force.c\<close>): every line of \<open>/proc/self/maps\<close> is parsed, and one byte in each half
  page of a region that can be read and written is read and written back. The result is the list of
  the addresses that are touched; \<open>None\<close> is an access outside the line or the local buffers.
\<close>

section \<open>A line\<close>

text \<open>The characters up to \<open>stop\<close>; a buffer of 17 has room for 16 of them and the NUL.\<close>

fun take_until :: "char \<Rightarrow> nat \<Rightarrow> string \<Rightarrow> (string \<times> string) option" where
  "take_until stop n [] = None"
| "take_until stop n (c # cs) =
     (if c = stop then Some ([], cs)
      else case n of 0 \<Rightarrow> None | Suc m \<Rightarrow> map_option (\<lambda>(a, b). (c # a, b)) (take_until stop m cs))"

definition hex_digit :: "char \<Rightarrow> nat option" where
  "hex_digit c =
     (let n = of_char c
      in if 48 \<le> n \<and> n \<le> (57 :: nat) then Some (n - 48)
         else if 97 \<le> n \<and> n \<le> 102 then Some (n - 87)
         else if 65 \<le> n \<and> n \<le> 70 then Some (n - 55) else None)"

text \<open>\<open>strtoul\<close> with base 16, up to the first other character.\<close>

fun strtoul16 :: "nat \<Rightarrow> string \<Rightarrow> nat" where
  "strtoul16 acc [] = acc"
| "strtoul16 acc (c # cs) = (case hex_digit c of None \<Rightarrow> acc | Some d \<Rightarrow> strtoul16 (16 * acc + d) cs)"

definition HALF_PAGE :: nat where "HALF_PAGE = 0x800"

function touch :: "nat \<Rightarrow> nat \<Rightarrow> nat list" where
  "touch current_address end_address =
     (if current_address < end_address then current_address # touch (current_address + HALF_PAGE) end_address else [])"
  by pat_completeness auto

termination
  by (relation "measure (\<lambda>(a, e). e - a)") (auto simp: HALF_PAGE_def)

declare touch.simps [simp del]

definition parseLine :: "string \<Rightarrow> nat list option" where
  "parseLine line =
     do {
       (start_s, rest) \<leftarrow> take_until (CHR ''-'') 16 line;
       (end_s, perms) \<leftarrow> take_until (CHR '' '') 16 rest;
       r \<leftarrow> aget perms 0;
       w \<leftarrow> aget perms 1;
       x \<leftarrow> aget perms 2;
       p \<leftarrow> aget perms 3;
       Some (if r = CHR ''r'' \<and> w = CHR ''w'' then touch (strtoul16 0 start_s) (strtoul16 0 end_s) else [])
     }"

text \<open>\<open>forceMaps\<close>: all lines, when the file can be opened (\<open>fgets\<close> splits lines of more than 199 characters).\<close>

definition forceMaps :: "string list option \<Rightarrow> (int \<times> nat list) option" where
  "forceMaps maps =
     (case maps of
        None \<Rightarrow> Some (-1, [])
      | Some ls \<Rightarrow> do { ts \<leftarrow> foldM (\<lambda>l ts. do { t \<leftarrow> parseLine l; Some (ts @ t) }) ls []; Some (0, ts) })"

definition lockItUp :: "posix \<Rightarrow> history \<Rightarrow> int \<times> history" where
  "lockItUp K h = (let (r, h') = sys_call K ''mlockall'' [3] [] h in if r = -1 then (-1, h') else (0, h'))"

section \<open>No page is missed\<close>

lemma touch_covers:
  "a \<le> x \<Longrightarrow> x < e \<Longrightarrow> \<exists>t \<in> set (touch a e). t \<le> x \<and> x < t + HALF_PAGE"
proof (induction a e rule: touch.induct)
  case (1 a e)
  then have step: "touch a e = a # touch (a + HALF_PAGE) e" by (subst touch.simps) simp
  show ?case
  proof (cases "x < a + HALF_PAGE")
    case True
    then show ?thesis using 1(2) step by auto
  next
    case False
    then have "\<exists>t \<in> set (touch (a + HALF_PAGE) e). t \<le> x \<and> x < t + HALF_PAGE" using 1 by auto
    then show ?thesis using step by auto
  qed
qed

lemma touch_inside: "t \<in> set (touch a e) \<Longrightarrow> a \<le> t \<and> t < e"
proof (induction a e rule: touch.induct)
  case (1 a e)
  then show ?case by (subst (asm) touch.simps) (auto split: if_splits)
qed

text \<open>A region that can be written is touched in every half page, and nothing outside it is.\<close>

lemma parseLine_touches:
  assumes "take_until (CHR ''-'') 16 line = Some (s, rest)" "take_until (CHR '' '') 16 rest = Some (e, CHR ''r'' # CHR ''w'' # x # p # tail)"
  shows "\<exists>ts. parseLine line = Some ts \<and> (\<forall>t \<in> set ts. strtoul16 0 s \<le> t \<and> t < strtoul16 0 e)
    \<and> (\<forall>a. strtoul16 0 s \<le> a \<longrightarrow> a < strtoul16 0 e \<longrightarrow> (\<exists>t \<in> set ts. t \<le> a \<and> a < t + HALF_PAGE))"
proof -
  have "parseLine line = Some (touch (strtoul16 0 s) (strtoul16 0 e))"
    using assms by (simp add: parseLine_def aget_def)
  then show ?thesis using touch_inside touch_covers by auto
qed

end
