(* ===== verification/Fault_Injection.thy ===== *)
theory Fault_Injection
  imports Tas
begin

text \<open>
  The fault injectors: \<open>fault_injection/c_injector.c\<close> sends signals to running controllers,
  \<open>fault_injection/register_util.c\<close> flips one bit of a register of a stopped process. \<open>rand\<close> is an argument, and
  so are the lines that \<open>ps\<close> prints (process, share of the CPU, name).
\<close>

section \<open>Signals\<close>

text \<open>
  \<open>getPIDs\<close> fills three arrays of \<open>count\<close> entries and checks the index only after it has written there, and
  against \<open>count\<close> instead of one less: the entry behind the arrays is written before the check fires.
\<close>

fun getPIDs :: "int \<Rightarrow> int \<Rightarrow> (int \<times> 32 word \<times> string) list \<Rightarrow> int list \<times> 32 word list \<times> string list
    \<Rightarrow> (int \<times> int list \<times> 32 word list \<times> string list) option" where
  "getPIDs count i [] (pids, weights, names) = Some (i, pids, weights, names)"
| "getPIDs count i ((pid, weight, name) # lines) (pids, weights, names) =
     do {
       ps \<leftarrow> aset pids i pid;
       ws \<leftarrow> aset weights i weight;
       ns \<leftarrow> aset names i name;
       if i + 1 > count then Some (i + 1, ps, ws, ns) else getPIDs count (i + 1) lines (ps, ws, ns)
     }"

text \<open>The names, separated for \<open>grep\<close>.\<close>

fun names_string :: "string list \<Rightarrow> string" where
  "names_string [] = []"
| "names_string [n] = n"
| "names_string (n # ns) = n @ [CHR 0x5C] @ ''|'' @ names_string ns"

definition default_names :: "string list" where
  "default_names = [''AStar'', ''Filter'', ''Mapper'', ''ArtPot'']"

definition cmd_str :: "string list \<Rightarrow> string" where
  "cmd_str names = ''ps -ao pid,pcpu,comm | grep '' @ [CHR 0x22] @ names_string names @ [CHR 0x22]
     @ '' | grep -v '' @ [CHR 0x22] @ ''Test'' @ [CHR 0x22] @ '' | grep -v '' @ [CHR 0x22] @ ''defunct'' @ [CHR 0x22]"

text \<open>One round: a process of the list is chosen and signalled. With no process at all the remainder is undefined.\<close>

definition inject_once :: "posix \<Rightarrow> int \<Rightarrow> int \<Rightarrow> int \<Rightarrow> (int \<times> 32 word \<times> string) list \<Rightarrow> int list \<times> 32 word list \<times> string list \<Rightarrow> history
    \<Rightarrow> ((int list \<times> 32 word list \<times> string list) \<times> history) option" where
  "inject_once K kill_cmd rnd process_count ps_lines arrays h =
     do {
       (total, pids, weights, names) \<leftarrow> getPIDs process_count 0 ps_lines arrays;
       if total < process_count then Some ((pids, weights, names), h)
       else if total = 0 then None
       else do {
         pid \<leftarrow> aget pids (rnd smod total);
         name \<leftarrow> aget names (rnd smod total);
         Some ((pids, weights, names), snd (sys_kill K pid kill_cmd h))
       }
     }"

text \<open>\<open>main\<close> up to its loop, and \<open>n\<close> rounds of it; \<open>None\<close> in the result is the exit after the usage message.\<close>

fun inject_rounds :: "posix \<Rightarrow> int \<Rightarrow> int \<Rightarrow> (int \<times> (int \<times> 32 word \<times> string) list) list \<Rightarrow> int list \<times> 32 word list \<times> string list
    \<Rightarrow> history \<Rightarrow> history option" where
  "inject_rounds K kill_cmd process_count [] arrays h = Some h"
| "inject_rounds K kill_cmd process_count ((rnd, ps_lines) # rounds) arrays h =
     do {
       (arrays', h') \<leftarrow> inject_once K kill_cmd rnd process_count ps_lines arrays h;
       inject_rounds K kill_cmd process_count rounds arrays' h'
     }"

definition c_injector_main :: "posix \<Rightarrow> (string \<Rightarrow> int) \<Rightarrow> string list \<Rightarrow> (int \<times> 32 word \<times> string) list
    \<Rightarrow> (int \<times> (int \<times> 32 word \<times> string) list) list \<Rightarrow> history option" where
  "c_injector_main K atoi argv first_lines rounds =
     (let h0 = snd (InitTAS K 0 49 [])
      in if length argv < 2 then Some h0
         else
           let names = (if length argv = 2 then default_names else drop 2 argv);
               size = length names * 3;
               arrays = (replicate size 0, replicate size 0, replicate size [])
           in do {
             (process_count, pids, weights, ns) \<leftarrow> getPIDs (int size) 0 first_lines arrays;
             inject_rounds K (atoi (argv ! 1)) process_count rounds (pids, weights, ns) h0
           })"

lemma getPIDs_fits:
  "length ls + nat i \<le> length pids \<Longrightarrow> length pids = length weights \<Longrightarrow> length names = length pids \<Longrightarrow> 0 \<le> i \<Longrightarrow>
   int (length pids) \<le> count \<Longrightarrow>
   \<exists>ps ws ns. getPIDs count i ls (pids, weights, names) = Some (i + int (length ls), ps, ws, ns)
     \<and> length ps = length pids \<and> length ns = length pids"
proof (induction count i ls "(pids, weights, names)" arbitrary: pids weights names rule: getPIDs.induct)
  case (2 count i pid weight name ls pids weights names)
  have i: "nat i < length pids" "nat (i + 1) = Suc (nat i)" using 2(2,5) by auto
  have "\<exists>ps ws ns. getPIDs count (i + 1) ls (pids[nat i := pid], weights[nat i := weight], names[nat i := name])
      = Some (i + 1 + int (length ls), ps, ws, ns) \<and> length ps = length pids \<and> length ns = length pids"
    using 2(1) [of "pids[nat i := pid]" "weights[nat i := weight]" "names[nat i := name]"] 2(2-6) i
    by (auto simp: aset_def)
  then show ?case using 2(3-6) i by (auto simp: aset_def algebra_simps)
qed auto

text \<open>One process more than the arrays have room for is written behind them.\<close>

lemma getPIDs_overrun: "getPIDs 1 0 [(1, 0, ''AStar''), (2, 0, ''AStar'')] ([0], [0], [[]]) = None"
  by (simp add: aset_def)

section \<open>Registers\<close>

text \<open>
  On x86-64 there are 27 registers of 64 bits; the last four are spared, code and stack segments keep
  their lowest two bits, and the segment bases have 47.
\<close>

definition WORDSIZE :: int where "WORDSIZE = 64"
definition REG_NUM :: int where "REG_NUM = 27"

definition reg_pick :: "int \<Rightarrow> int" where
  "reg_pick rnd = rnd smod (REG_NUM - 4)"

definition bit_pick :: "int \<Rightarrow> int \<Rightarrow> int" where
  "bit_pick reg rnd =
     (if 17 = reg \<or> 20 = reg then rnd smod (WORDSIZE - 2) + 2
      else if 21 = reg \<or> 22 = reg then rnd smod 47
      else rnd smod WORDSIZE)"

text \<open>The registers as they are read, and what is written back; -1 when they cannot be read.\<close>

definition injectRegError :: "int \<Rightarrow> int \<Rightarrow> 64 word list option \<Rightarrow> (int \<times> 64 word list option) option" where
  "injectRegError rnd1 rnd2 regs =
     (case regs of
        None \<Rightarrow> Some (-1, None)
      | Some rs \<Rightarrow> do {
          let reg = reg_pick rnd1;
          v \<leftarrow> aget rs reg;
          rs' \<leftarrow> aset rs reg (v XOR push_bit (nat (bit_pick reg rnd2)) 1);
          Some (0, Some rs')
        })"

lemma injectRegError_flips_one_bit:
  assumes "length rs = 27" "0 \<le> rnd1" "0 \<le> rnd2"
  shows "\<exists>rs' r b. injectRegError rnd1 rnd2 (Some rs) = Some (0, Some rs') \<and> r < 23 \<and> b < 64 \<and> length rs' = 27
    \<and> (\<forall>i < 27. \<forall>j < 64. bit (rs' ! i) j = (if i = r \<and> j = b then \<not> bit (rs ! i) j else bit (rs ! i) j))"
proof -
  let ?r = "nat (reg_pick rnd1)" and ?b = "nat (bit_pick (reg_pick rnd1) rnd2)"
  have r: "0 \<le> reg_pick rnd1" "reg_pick rnd1 < 23" using assms(2) by (simp_all add: reg_pick_def REG_NUM_def)
  have "rnd2 mod 62 < 62" "rnd2 mod 47 < 47" "rnd2 mod 64 < 64" by simp_all
  then have b: "0 \<le> bit_pick (reg_pick rnd1) rnd2" "bit_pick (reg_pick rnd1) rnd2 < 64"
    using assms(3) by (auto simp: bit_pick_def WORDSIZE_def)
  have flip: "bit (v XOR push_bit n (1 :: 64 word)) j = (if j = n then \<not> bit v j else bit v j)" if "j < 64" "n < 64" for v n j
    using that by (auto simp: bit_simps)
  have "injectRegError rnd1 rnd2 (Some rs) = Some (0, Some (rs[?r := (rs ! ?r) XOR push_bit ?b 1]))"
    using assms(1) r by (simp add: injectRegError_def aget_def aset_def Let_def)
  moreover have "?r < 23" "?b < 64" using r b by auto
  ultimately show ?thesis using assms(1) flip
    by (intro exI [of _ "rs[?r := (rs ! ?r) XOR push_bit ?b 1]"] exI [of _ ?r] exI [of _ ?b]) (auto simp: nth_list_update)
qed

text \<open>\<open>main\<close> attaches, injects and lets the process go on, whatever the injection returned.\<close>

definition inject_error_main :: "posix \<Rightarrow> int \<Rightarrow> int \<Rightarrow> 64 word list option \<Rightarrow> string list \<Rightarrow> (string \<Rightarrow> int) \<Rightarrow> (64 word list option \<times> history) option" where
  "inject_error_main K rnd1 rnd2 regs argv atoi =
     (if length argv < 2 then Some (None, [])
      else
        let pid = atoi (argv ! 1); (r1, h1) = sys_call K ''PTRACE_ATTACH'' [pid] [] []
        in if r1 < 0 then Some (None, h1)
           else do {
             let h2 = snd (sys_waitpid K h1);
             (r, regs') \<leftarrow> injectRegError rnd1 rnd2 regs;
             Some (regs', snd (sys_call K ''PTRACE_CONT'' [pid] [] h2))
           })"

end
