(* ===== verification/TestBuff.thy ===== *)
theory TestBuff
  imports CommProps
begin

text \<open>
  The test of the vote pipes (\<open>voter/test_buff.c\<close>) as the program it is: it writes to pipes of the system, moves the
  bytes through vote pipes and complains about what does not come back. The complaints are collected in
  a list. On a system whose pipes are queues the loops of the test complain about nothing.
\<close>

section \<open>The operations of the test\<close>

definition complain :: "bool \<Rightarrow> string \<Rightarrow> string list \<Rightarrow> string list" where
  "complain bad msg out = (if bad then out @ [msg] else out)"

definition writeTest :: "posix \<Rightarrow> int \<Rightarrow> string \<Rightarrow> int \<Rightarrow> vote_pipe \<times> history \<times> string list
    \<Rightarrow> (vote_pipe \<times> history \<times> string list) option" where
  "writeTest K fd str len st =
     (let (vp, h, out) = st
      in do {
        bs \<leftarrow> mem_read (text_bytes str @ [0]) 0 len;
        let (r, h1) = sys_write K fd bs h;
        let out1 = complain (r \<noteq> len) ''Write fail'' out;
        (ret, vp', h2) \<leftarrow> pipeToBuff K vp h1;
        Some (vp', h2, complain (ret \<noteq> 0) ''pipeToBuff error.'' out1)
      })"

text \<open>What was read is compared as a string, in a block of 100 zeros.\<close>

definition readTest :: "posix \<Rightarrow> int \<times> int \<Rightarrow> int \<Rightarrow> string \<Rightarrow> vote_pipe \<times> history \<times> string list
    \<Rightarrow> (vote_pipe \<times> history \<times> string list) option" where
  "readTest K fds len expected st =
     (let (vp, h, out) = st
      in do {
        (ret, vp', h1) \<leftarrow> buffToPipe K vp (snd fds) len h;
        let out1 = complain (ret \<noteq> 0) ''buffToPipe error.'' out;
        let (n, bs, h2) = sys_read K (fst fds) len h1;
        block \<leftarrow> mem_write (replicate 100 0) 0 bs;
        let out2 = complain (n \<noteq> len) ''Read fail'' out1;
        s \<leftarrow> c_str (map (\<lambda>b. char_of (unat b)) block);
        Some (vp', h2, complain (s \<noteq> expected) (''Read back data: '' @ s) out2)
      })"

text \<open>
  A vote pipe filled with \<open>#\<close>, and the two pipes of its replica. Where \<open>pipe\<close> fails the code goes on
  with descriptors that were never set.
\<close>

definition setupPipe :: "posix \<Rightarrow> vote_pipe \<Rightarrow> history \<Rightarrow> (vote_pipe \<times> (int \<times> int) \<times> (int \<times> int) \<times> history) option" where
  "setupPipe K vp h =
     (let vp' = vp\<lparr>fd_in := 0, fd_out := 0, buff_count := 0, buff_index := 0, buffer := replicate (nat MAX_VOTE_PIPE_BUFF) 35\<rparr>;
          (to_rep, h1) = sys_pipe K h;
          (from_rep, h2) = sys_pipe K h1
      in do { t \<leftarrow> to_rep; f \<leftarrow> from_rep; Some (vp', t, f, h2) })"

definition read_write_loop :: "posix \<Rightarrow> int \<times> int \<Rightarrow> int \<times> int \<Rightarrow> vote_pipe \<times> history \<times> string list
    \<Rightarrow> (vote_pipe \<times> history \<times> string list) option" where
  "read_write_loop K to_rep from_rep st =
     for_upto 0 (2 * MAX_VOTE_PIPE_BUFF) (\<lambda>i st. do {
       st1 \<leftarrow> writeTest K (snd to_rep) ''Seven C'' 7 st;
       readTest K from_rep 7 ''Seven C'' st1
     }) st"

definition test_compare :: "string \<Rightarrow> vote_pipe \<Rightarrow> vote_pipe \<Rightarrow> int \<Rightarrow> history \<times> string list \<Rightarrow> (history \<times> string list) option" where
  "test_compare hint a b n st =
     do { c \<leftarrow> compareBuffs a b n; Some (fst st, snd st @ [''Compare buffers '' @ hint @ show_int c]) }"

definition same_message :: string where "same_message = ''This is the same message''"
definition other_message :: string where "other_message = ''This is NOT same message''"
definition longer_message :: string where "longer_message = ''This is the same message!''"

definition long_message :: string where
  "long_message = ''This is a long message to see how things are working out. Well I hope.''"

text \<open>Both pipes get a message; the same is read back from both.\<close>

definition write_both :: "posix \<Rightarrow> int \<Rightarrow> int \<Rightarrow> string \<times> int \<Rightarrow> string \<times> int \<Rightarrow> vote_pipe \<times> vote_pipe \<times> history \<times> string list
    \<Rightarrow> (vote_pipe \<times> vote_pipe \<times> history \<times> string list) option" where
  "write_both K wb wc mb mc st =
     (let (b, c, io) = st
      in do {
        (b', io1) \<leftarrow> writeTest K wb (fst mb) (snd mb) (b, io);
        (c', io2) \<leftarrow> writeTest K wc (fst mc) (snd mc) (c, io1);
        Some (b', c', io2)
      })"

definition read_both :: "posix \<Rightarrow> int \<times> int \<Rightarrow> int \<times> int \<Rightarrow> int \<Rightarrow> int \<Rightarrow> vote_pipe \<times> vote_pipe \<times> history \<times> string list
    \<Rightarrow> (vote_pipe \<times> vote_pipe \<times> history \<times> string list) option" where
  "read_both K rb rc nb nc st =
     (let (b, c, io) = st
      in do {
        (b', io1) \<leftarrow> readTest K rb nb ''will error'' (b, io);
        (c', io2) \<leftarrow> readTest K rc nc ''will error'' (c, io1);
        Some (b', c', io2)
      })"

definition compare_both :: "string \<Rightarrow> int \<Rightarrow> vote_pipe \<times> vote_pipe \<times> history \<times> string list
    \<Rightarrow> (vote_pipe \<times> vote_pipe \<times> history \<times> string list) option" where
  "compare_both hint n st =
     (let (b, c, io) = st in do { io' \<leftarrow> test_compare hint b c n io; Some (b, c, io') })"

definition compare_tests :: "posix \<Rightarrow> int \<Rightarrow> int \<Rightarrow> int \<times> int \<Rightarrow> int \<times> int \<Rightarrow> vote_pipe \<times> vote_pipe \<times> history \<times> string list
    \<Rightarrow> (vote_pipe \<times> vote_pipe \<times> history \<times> string list) option" where
  "compare_tests K wb wc rb rc st =
     do {
       s1 \<leftarrow> write_both K wb wc (same_message, 24) (same_message, 24) st;
       s2 \<leftarrow> compare_both ''(==0): '' 24 s1;
       s3 \<leftarrow> write_both K wb wc (other_message, 24) (same_message, 24) s2;
       s4 \<leftarrow> compare_both ''(==0): '' 24 s3;
       s5 \<leftarrow> compare_both ''(!=0): '' 48 s4;
       s6 \<leftarrow> read_both K rb rc 48 48 s5;
       s7 \<leftarrow> write_both K wb wc (long_message, 70) (long_message, 70) s6;
       s8 \<leftarrow> read_both K rb rc 70 70 s7;
       s9 \<leftarrow> write_both K wb wc (longer_message, 25) (same_message, 24) s8;
       s10 \<leftarrow> compare_both ''(==0): '' 24 s9;
       s11 \<leftarrow> read_both K rb rc 25 24 s10;
       s12 \<leftarrow> write_both K wb wc (longer_message, 25) (same_message, 24) s11;
       compare_both ''(==-1): '' 24 s12
     }"

definition copy_loop :: "posix \<Rightarrow> int \<times> int \<Rightarrow> int \<times> int \<Rightarrow> int \<times> int \<Rightarrow> vote_pipe \<times> vote_pipe \<times> history \<times> string list
    \<Rightarrow> (vote_pipe \<times> vote_pipe \<times> history \<times> string list) option" where
  "copy_loop K to_d from_d from_e st =
     for_upto 0 (2 * MAX_VOTE_PIPE_BUFF) (\<lambda>i (d, e, h, out). do {
       (d1, h1, out1) \<leftarrow> writeTest K (snd to_d) ''ABCDEFG'' 7 (d, h, out);
       e1 \<leftarrow> copyPipe e d1;
       c \<leftarrow> compareBuffs d1 e1 7;
       let out2 = complain (c \<noteq> 0) ''Compare buffs failed'' out1;
       (d2, h3, out3) \<leftarrow> readTest K from_d 7 ''ABCDEFG'' (d1, h1, out2);
       (e2, h4, out4) \<leftarrow> readTest K from_e 7 ''ABCDEFG'' (e1, h3, out3);
       Some (d2, e2, h4, out4)
     }) st"

definition test_buff_main :: "posix \<Rightarrow> (nat \<Rightarrow> vote_pipe) \<Rightarrow> history \<Rightarrow> (int \<times> history \<times> string list) option" where
  "test_buff_main K v h =
     do {
       (a, to_a, from_a, h1) \<leftarrow> setupPipe K (v 0) h;
       (a', h2, out1) \<leftarrow> read_write_loop K to_a from_a (a\<lparr>fd_in := fst to_a\<rparr>, h1, []);
       (b, to_b, from_b, h3) \<leftarrow> setupPipe K (v 1) h2;
       (c, to_c, from_c, h4) \<leftarrow> setupPipe K (v 2) h3;
       (b', c', h5, out2) \<leftarrow> compare_tests K (snd to_b) (snd to_c) from_b from_c
         (b\<lparr>fd_in := fst to_b\<rparr>, c\<lparr>fd_in := fst to_c\<rparr>, h4, out1);
       (d, to_d, from_d, h6) \<leftarrow> setupPipe K (v 3) h5;
       (e, to_e, from_e, h7) \<leftarrow> setupPipe K (v 4) h6;
       (d', e', h8, out3) \<leftarrow> copy_loop K to_d from_d from_e
         (d\<lparr>fd_in := fst to_d\<rparr>, e\<lparr>fd_in := fst to_e\<rparr>, h7, out2);
       Some (0, h8, out3)
     }"

section \<open>A system whose pipes are queues\<close>

text \<open>The write end of a pipe is the descriptor after its read end; a read gets what was written and not yet read.\<close>

fun got :: "int \<Rightarrow> history \<Rightarrow> byte list" where
  "got fd [] = []"
| "got fd (SysRead fd' n (Some bs) # h) = (if fd' = fd then bs @ got fd h else got fd h)"
| "got fd (_ # h) = got fd h"

lemma got_append [simp]: "got fd (h @ h') = got fd h @ got fd h'"
  by (induction fd h rule: got.induct) auto

definition waiting :: "int \<Rightarrow> history \<Rightarrow> byte list" where
  "waiting fd h = drop (length (got fd h)) (concat (written_to (fd + 1) h))"

definition queues :: "posix \<Rightarrow> bool" where
  "queues K \<longleftrightarrow> (\<forall>h fd n. on_read K h fd n = (if waiting fd h = [] then None else Some (take (nat n) (waiting fd h))))
     \<and> (\<forall>h fd bs. on_write K h fd bs = int (length bs))"

definition drained :: "int \<Rightarrow> history \<Rightarrow> bool" where
  "drained fd h \<longleftrightarrow> got fd h = concat (written_to (fd + 1) h)"

lemma queue_write:
  assumes "queues K"
  shows "sys_write K fd bs h = (int (length bs), h @ [SysWrite fd bs (int (length bs))])"
  using assms by (simp add: queues_def sys_write_def Let_def)

lemma queue_read:
  assumes "queues K" "drained fd h" "bs \<noteq> []" "int (length bs) \<le> n"
  shows "sys_read K fd n (h @ [SysWrite (fd + 1) bs r]) = (int (length bs), bs, h @ [SysWrite (fd + 1) bs r, SysRead fd n (Some bs)])"
proof -
  have "waiting fd (h @ [SysWrite (fd + 1) bs r]) = bs"
    using assms(2) by (simp add: waiting_def drained_def)
  moreover have "take (nat n) bs = bs" using assms(4) by simp
  ultimately show ?thesis using assms(1,3) by (simp add: sys_read_def queues_def)
qed

text \<open>An empty vote pipe whose two pipes hold nothing, and one which holds \<open>bs\<close>.\<close>

definition idle :: "int \<Rightarrow> int \<Rightarrow> byte list \<Rightarrow> vote_pipe \<Rightarrow> history \<Rightarrow> bool" where
  "idle a b bs vp h \<longleftrightarrow> wf_pipe vp \<and> fd_in vp = a \<and> content vp = bs \<and> drained a h \<and> drained b h"

lemma idle_empty: "idle a b [] vp h \<Longrightarrow> buff_count vp = 0"
  using length_content [of vp] by (auto simp: idle_def wf_pipe_def)

lemma pipeToBuff_queue:
  assumes K: "queues K" and vp: "wf_pipe vp" "buff_count vp = 0" "fd_in vp = a" and h: "drained a h"
    and bs: "bs \<noteq> []" "length bs < 100"
  obtains vp' where "pipeToBuff K vp (h @ [SysWrite (a + 1) bs r]) =
      Some (0, vp', h @ [SysWrite (a + 1) bs r, SysRead a MAX_VOTE_PIPE_BUFF (Some bs)])"
    "wf_pipe vp'" "content vp' = content vp @ bs" "buff_count vp' = int (length bs)" "buff_index vp' = buff_index vp"
    "fd_in vp' = a"
proof -
  have rd: "sys_read K (fd_in vp) MAX_VOTE_PIPE_BUFF (h @ [SysWrite (a + 1) bs r]) =
      (int (length bs), bs, h @ [SysWrite (a + 1) bs r, SysRead a MAX_VOTE_PIPE_BUFF (Some bs)])"
    using queue_read [OF K h bs(1)] vp(3) bs(2) by (simp add: MAX_VOTE_PIPE_BUFF_def)
  show ?thesis
    using vp(1) rd
  proof (cases rule: pipeToBuff_cases)
    case (room vp')
    then show ?thesis using that vp(2,3) by simp
  next
    case none
    then show ?thesis using bs vp(2) by (auto simp: MAX_VOTE_PIPE_BUFF_def)
  qed
qed

lemma writeTest_queue:
  assumes K: "queues K" and vp: "idle a b [] vp h" and ab: "a \<noteq> b" and str: "str \<noteq> []" "length str < 100"
  shows "\<exists>vp' es. writeTest K (a + 1) str (int (length str)) (vp, h, out) = Some (vp', h @ es, out)
    \<and> idle a b (text_bytes str) vp' (h @ es) \<and> (\<forall>fd. fd \<noteq> a \<longrightarrow> drained fd h \<longrightarrow> drained fd (h @ es))"
proof -
  let ?bs = "text_bytes str"
  let ?es = "[SysWrite (a + 1) ?bs (int (length ?bs)), SysRead a MAX_VOTE_PIPE_BUFF (Some ?bs)]"
  have bs: "mem_read (?bs @ [0]) 0 (int (length str)) = Some ?bs" "?bs \<noteq> []"
    using str(1) by (auto simp: mem_read_def text_bytes_def)
  have wf: "wf_pipe vp" "fd_in vp = a" "drained a h" "drained b h" "content vp = []" using vp by (auto simp: idle_def)
  from K wf(1) idle_empty [OF vp] wf(2,3) bs(2) obtain vp' where
    vp': "pipeToBuff K vp (h @ [SysWrite (a + 1) ?bs (int (length str))]) = Some (0, vp', h @ ?es)"
    "wf_pipe vp'" "content vp' = ?bs" "fd_in vp' = a"
    by (rule pipeToBuff_queue [where r = "int (length str)"]) (use str(2) wf(5) in auto)
  have "writeTest K (a + 1) str (int (length str)) (vp, h, out) = Some (vp', h @ ?es, out)"
    using bs(1) vp'(1) by (simp add: writeTest_def queue_write [OF K] complain_def)
  moreover have "idle a b ?bs vp' (h @ ?es)"
    using vp' wf(3,4) ab by (simp add: idle_def drained_def)
  moreover have "\<forall>fd. fd \<noteq> a \<longrightarrow> drained fd h \<longrightarrow> drained fd (h @ ?es)"
    by (simp add: drained_def)
  ultimately show ?thesis by blast
qed

lemma text_chars: "map (\<lambda>b. char_of (unat b)) (text_bytes str) = str"
  by (simp add: text_bytes_def map_idI)

lemma readTest_queue:
  assumes K: "queues K" and vp: "idle a b (text_bytes str) vp h" and ab: "a \<noteq> b"
    and str: "str \<noteq> []" "length str < 100" "NUL \<notin> set str"
  shows "\<exists>vp' es. readTest K (b, b + 1) (int (length str)) str (vp, h, out) = Some (vp', h @ es, out)
    \<and> idle a b [] vp' (h @ es) \<and> (\<forall>fd. fd \<noteq> b \<longrightarrow> drained fd h \<longrightarrow> drained fd (h @ es))"
proof -
  let ?bs = "text_bytes str" and ?n = "int (length str)"
  let ?es = "[SysWrite (b + 1) ?bs ?n, SysRead b ?n (Some ?bs)]" and ?vp = "fakeToPipe vp ?n"
  have wf: "wf_pipe vp" "content vp = ?bs" "fd_in vp = a" "drained a h" "drained b h" using vp by (auto simp: idle_def)
  have n: "buff_count vp = ?n" using wf(1,2) length_content [OF wf(1)] by (simp add: wf_pipe_def)
  have w: "buffToPipe K vp (b + 1) ?n h = Some (0, ?vp, h @ [SysWrite (b + 1) ?bs ?n])"
    using buffToPipe_eq [OF wf(1), of ?n K "b + 1" h] n wf(2) by (simp add: queue_write [OF K])
  have r: "sys_read K b ?n (h @ [SysWrite (b + 1) ?bs ?n]) = (?n, ?bs, h @ ?es)"
    using queue_read [OF K wf(5), of ?bs ?n ?n] str(1) by (simp add: text_bytes_def)
  have blk: "mem_write (replicate 100 0) 0 ?bs = Some (?bs @ replicate (100 - length str) 0)"
    using str(2) by (simp add: mem_write_def)
  have c: "c_str (map (\<lambda>b. char_of (unat b)) (?bs @ replicate (100 - length str) (0::byte))) = Some str"
  proof -
    have "replicate (100 - length str) (0::byte) = 0 # replicate (99 - length str) 0"
      using str(2) by (simp flip: replicate_Suc add: Suc_diff_le)
    moreover have "char_of (0::nat) = NUL" by code_simp
    moreover have "\<forall>c \<in> set str. c \<noteq> NUL" using str(3) by auto
    ultimately show ?thesis using c_str_append [of str "replicate (99 - length str) NUL"]
      by (simp add: text_chars del: char_of_quasi_inj)
  qed
  have "readTest K (b, b + 1) ?n str (vp, h, out) = Some (?vp, h @ ?es, out)"
    using w r blk c by (simp add: readTest_def complain_def)
  moreover have "idle a b [] ?vp (h @ ?es)"
    using wf n ab fakeToPipe_wf [OF wf(1), of ?n] fakeToPipe_content [OF wf(1), of ?n]
    by (simp add: idle_def drained_def)
  moreover have "\<forall>fd. fd \<noteq> b \<longrightarrow> drained fd h \<longrightarrow> drained fd (h @ ?es)"
    by (simp add: drained_def)
  ultimately show ?thesis by blast
qed

lemma read_write_loop_silent:
  assumes K: "queues K" and vp: "idle a b [] vp h" and ab: "a \<noteq> b"
  shows "\<exists>vp' h'. read_write_loop K (a, a + 1) (b, b + 1) (vp, h, out) = Some (vp', h', out) \<and> idle a b [] vp' h'"
proof -
  have "\<exists>s'. read_write_loop K (a, a + 1) (b, b + 1) (vp, h, out) = Some s' \<and> snd (snd s') = out \<and> idle a b [] (fst s') (fst (snd s'))"
    unfolding read_write_loop_def
  proof (rule for_upto_rule [where P = "\<lambda>i s. snd (snd s) = out \<and> idle a b [] (fst s) (fst (snd s))"])
    fix i and s :: "vote_pipe \<times> history \<times> string list"
    assume s: "snd (snd s) = out \<and> idle a b [] (fst s) (fst (snd s))"
    obtain vp1 h1 where s_eq: "s = (vp1, h1, out)" and vp1: "idle a b [] vp1 h1" using s by (cases s) auto
    from writeTest_queue [OF K vp1 ab, of "''Seven C''" out] obtain vp2 h2 where
      w: "writeTest K (a + 1) ''Seven C'' 7 s = Some (vp2, h2, out)" "idle a b (text_bytes ''Seven C'') vp2 h2"
      by (auto simp: s_eq)
    have "NUL \<notin> set ''Seven C''" by code_simp
    with readTest_queue [OF K w(2) ab, of out] obtain vp3 h3 where
      "readTest K (b, b + 1) 7 ''Seven C'' (vp2, h2, out) = Some (vp3, h3, out)" "idle a b [] vp3 h3"
      by auto
    with w(1) show "\<exists>s'. (do { st1 \<leftarrow> writeTest K (snd (a, a + 1)) ''Seven C'' 7 s; readTest K (b, b + 1) 7 ''Seven C'' st1 }) = Some s'
        \<and> snd (snd s') = out \<and> idle a b [] (fst s') (fst (snd s'))"
      by (simp add: exI [of _ "(vp3, h3, out)"])
  qed (use vp in \<open>auto simp: MAX_VOTE_PIPE_BUFF_def\<close>)
  then show ?thesis by (metis prod.collapse)
qed

text \<open>
  The second loop has two vote pipes, and fills the second one with a copy of the first: what the replica
  of the second pipe reads is what the first one was sent.
\<close>

lemma copy_loop_silent:
  assumes K: "queues K" and d: "idle a b [] d h" and e: "idle a' b' [] e h"
    and fds: "a \<noteq> b" "a' \<noteq> b'" "a' \<noteq> a" "b' \<noteq> a" "a' \<noteq> b" "b' \<noteq> b"
  shows "\<exists>d' e' h'. copy_loop K (a, a + 1) (b, b + 1) (b', b' + 1) (d, e, h, out) = Some (d', e', h', out)
    \<and> idle a b [] d' h' \<and> idle a' b' [] e' h'"
proof -
  let ?P = "\<lambda>s. snd (snd (snd s)) = out \<and> idle a b [] (fst s) (fst (snd (snd s))) \<and> idle a' b' [] (fst (snd s)) (fst (snd (snd s)))"
  let ?t = "''ABCDEFG''"
  have nul: "NUL \<notin> set ?t" by code_simp
  have "\<exists>s'. copy_loop K (a, a + 1) (b, b + 1) (b', b' + 1) (d, e, h, out) = Some s' \<and> ?P s'"
    unfolding copy_loop_def
  proof (rule for_upto_rule [where P = "\<lambda>i. ?P"])
    fix i and s :: "vote_pipe \<times> vote_pipe \<times> history \<times> string list"
    assume s: "?P s"
    obtain d1 e1 h1 where s_eq: "s = (d1, e1, h1, out)" and d1: "idle a b [] d1 h1" and e1: "idle a' b' [] e1 h1"
      using s by (cases s) auto
    from writeTest_queue [OF K d1 fds(1), of ?t out] obtain d2 h2 where
      w: "writeTest K (a + 1) ?t 7 (d1, h1, out) = Some (d2, h2, out)" "idle a b (text_bytes ?t) d2 h2"
        "\<And>fd. fd \<noteq> a \<Longrightarrow> drained fd h1 \<Longrightarrow> drained fd h2"
      by auto
    have wf: "wf_pipe d2" "content d2 = text_bytes ?t" "wf_pipe e1" "drained a' h1" "drained b' h1" "fd_in e1 = a'"
      using w(2) e1 by (auto simp: idle_def)
    then have n: "buff_count d2 = 7" using length_content [OF wf(1)] by (simp add: wf_pipe_def)
    from wf(1) obtain e2 where c: "copyPipe e1 d2 = Some e2" "wf_pipe e2" "content e2 = text_bytes ?t"
      "buff_index e2 = buff_index d2" "buff_count e2 = 7" "fd_in e2 = a'"
      by (rule copyPipe_spec [of d2 e1]) (use wf n in \<open>auto simp: wf_pipe_def\<close>)
    have cmp: "compareBuffs d2 e2 7 = Some 0"
      using compareBuffs_eq [OF wf(1) c(2), of 7] n c wf(2) by simp
    from readTest_queue [OF K w(2) fds(1) _ _ nul, of out] obtain d3 h3 where
      r: "readTest K (b, b + 1) 7 ?t (d2, h2, out) = Some (d3, h3, out)" "idle a b [] d3 h3"
        "\<And>fd. fd \<noteq> b \<Longrightarrow> drained fd h2 \<Longrightarrow> drained fd h3"
      by auto
    have "idle a' b' (text_bytes ?t) e2 h3" using c wf w(3) r(3) fds by (simp add: idle_def)
    from readTest_queue [OF K this fds(2) _ _ nul, of out] obtain e3 h4 where
      q: "readTest K (b', b' + 1) 7 ?t (e2, h3, out) = Some (e3, h4, out)" "idle a' b' [] e3 h4"
        "\<And>fd. fd \<noteq> b' \<Longrightarrow> drained fd h3 \<Longrightarrow> drained fd h4"
      by auto
    have "idle a b [] d3 h4" using r(2) q(3) fds by (simp add: idle_def)
    with w(1) c(1) cmp r(1) q show "\<exists>s'. (case s of (d, e, h, out) \<Rightarrow> do {
       (d1, h1, out1) \<leftarrow> writeTest K (snd (a, a + 1)) ?t 7 (d, h, out);
       e1 \<leftarrow> copyPipe e d1;
       c \<leftarrow> compareBuffs d1 e1 7;
       let out2 = complain (c \<noteq> 0) ''Compare buffs failed'' out1;
       (d2, h3, out3) \<leftarrow> readTest K (b, b + 1) 7 ?t (d1, h1, out2);
       (e2, h4, out4) \<leftarrow> readTest K (b', b' + 1) 7 ?t (e1, h3, out3);
       Some (d2, e2, h4, out4)
     }) = Some s' \<and> ?P s'"
      by (simp add: s_eq complain_def exI [of _ "(d3, e3, h4, out)"])
  qed (use d e in \<open>auto simp: MAX_VOTE_PIPE_BUFF_def\<close>)
  then show ?thesis by (metis prod.collapse)
qed

end
