(* ===== verification/VoteTests.thy ===== *)
theory VoteTests
  imports PlumberProps ArtPot Pingpong
begin

text \<open>
  The programs of \<open>src/test/\<close> (\<open>*_vote_test.c\<close>): each starts one controller, alone or behind a voter, with the
  pipes it opened, feeds it by hand and times the answer. What a struct on the stack holds before it is
  set is an argument (\<open>junk\<close>). A child whose \<open>execv\<close> fails is not followed.
\<close>

section \<open>Starting the controller\<close>

definition D_m2 :: double where "D_m2 = 0xC000000000000000"
definition D_m5 :: double where "D_m5 = 0xC014000000000000"
definition D_1_5 :: double where "D_1_5 = 0x3FF8000000000000"
definition D_8 :: double where "D_8 = 0x4020000000000000"

text \<open>\<open>argv[i]\<close>, with the null pointer that ends the array.\<close>

definition arg_at :: "string list \<Rightarrow> nat \<Rightarrow> string option option" where
  "arg_at argv i = (if i < length argv then Some (Some (argv ! i)) else if i = length argv then Some None else None)"

text \<open>What the program started by \<open>execv\<close> finds: the arguments up to the first null pointer.\<close>

definition exec_args :: "string option list \<Rightarrow> string list" where
  "exec_args as = map the (takeWhile (\<lambda>a. a \<noteq> None) as)"

text \<open>One pipe of the controller with the time flag of the voter: \<open>asprintf\<close> with \<open>%s:%d:%d\<close> and \<open>%s:%d:%d:%d\<close>.\<close>

definition plain_arg :: "typed_pipe \<times> int \<Rightarrow> string" where
  "plain_arg l = MESSAGE_T (tp_type (fst l)) @ '':'' @ show_int (tp_fd_in (fst l)) @ '':'' @ show_int (tp_fd_out (fst l))"

definition voted_arg :: "typed_pipe \<times> int \<Rightarrow> string" where
  "voted_arg l = plain_arg l @ '':'' @ show_int (snd l)"

definition plain_argv :: "string \<Rightarrow> string \<Rightarrow> string \<Rightarrow> (typed_pipe \<times> int) list \<Rightarrow> string list" where
  "plain_argv name prio count ls = [name, prio, count] @ map plain_arg ls"

definition voted_argv :: "string option \<Rightarrow> string \<Rightarrow> string option \<Rightarrow> string \<Rightarrow> string \<Rightarrow> (typed_pipe \<times> int) list \<Rightarrow> string list" where
  "voted_argv voter name redundancy timeout prio ls =
     exec_args ([voter, Some name, redundancy, Some timeout, Some prio] @ map (\<lambda>l. Some (voted_arg l)) ls)"

text \<open>Five of the programs take the voter and the level of redundancy as their arguments.\<close>

definition test_argv :: "string list \<Rightarrow> string \<Rightarrow> string \<Rightarrow> string \<Rightarrow> string \<Rightarrow> string \<Rightarrow> (typed_pipe \<times> int) list \<Rightarrow> string list option" where
  "test_argv argv name prio count timeout vprio ls =
     (if length argv = 1 then Some (plain_argv name prio count ls)
      else do {
        v \<leftarrow> arg_at argv 1;
        r \<leftarrow> arg_at argv 2;
        Some (voted_argv v name r timeout vprio ls)
      })"

definition open_pipe :: "posix \<Rightarrow> history \<Rightarrow> ((int \<times> int) \<times> history) option" where
  "open_pipe K h = (let (p, h') = sys_pipe K h in map_option (\<lambda>p. (p, h')) p)"

definition start_test :: "posix \<Rightarrow> string list \<Rightarrow> history \<Rightarrow> history" where
  "start_test K argv h = snd (sys_call K ''sleep'' [2] [] (snd (sys_fork_exec K argv h)))"

section \<open>The rounds\<close>

record vote_test =
  vt_seq :: int
  vt_add :: double
  vt_times :: "32 word list"
  vt_hist :: history

definition vote_test_init :: "history \<Rightarrow> vote_test" where
  "vote_test_init h = \<lparr>vt_seq = -1, vt_add = D_0, vt_times = [], vt_hist = h\<rparr>"

text \<open>The scan every test sends: only the pose differs. Sequence number and padding are \<open>junk\<close> where they are not set.\<close>

definition test_ranges :: "dpu \<Rightarrow> double list" where
  "test_ranges D = map (\<lambda>i. d_mul D (d_of_int D i) D_1_5) [0..15]"

definition scan_block :: "byte list \<Rightarrow> dpu \<Rightarrow> double list \<Rightarrow> byte list" where
  "scan_block junk D ps = take 8 junk @ doubles_bytes (test_ranges D) @ doubles_bytes ps"

definition test_read :: "posix \<Rightarrow> int \<Rightarrow> int \<Rightarrow> history \<Rightarrow> history" where
  "test_read K fd n h = snd (snd (sys_read K fd n h))"

definition time_round :: "posix \<Rightarrow> fpu \<Rightarrow> timestamp \<Rightarrow> vote_test \<Rightarrow> vote_test" where
  "time_round K F sent s =
     (let (current, h) = generate_timestamp K (vt_hist s)
      in s\<lparr>vt_times := vt_times s @ [diff_time F current sent CPU_MHZ], vt_hist := h\<rparr>)"

text \<open>Send a block, wait for each answer, print the time of the round trip.\<close>

definition send_and_read :: "posix \<Rightarrow> fpu \<Rightarrow> int \<Rightarrow> byte list \<Rightarrow> (int \<times> int) list \<Rightarrow> vote_test \<Rightarrow> vote_test" where
  "send_and_read K F fd bs answers s =
     (let (sent, h1) = generate_timestamp K (vt_hist s);
          h2 = snd (sys_write K fd bs h1)
      in time_round K F sent (s\<lparr>vt_hist := fold (\<lambda>(fd, n). test_read K fd n) answers h2\<rparr>))"

definition test_call :: "posix \<Rightarrow> string \<Rightarrow> int \<Rightarrow> vote_test \<Rightarrow> vote_test" where
  "test_call K name n s = s\<lparr>vt_hist := snd (sys_call K name [n] [] (vt_hist s))\<rparr>"

section \<open>The filter\<close>

definition filter_links :: "int \<Rightarrow> int \<Rightarrow> int \<Rightarrow> int \<Rightarrow> (typed_pipe \<times> int) list" where
  "filter_links i o0 o1 o2 =
     [(\<lparr>tp_type = RANGE_POSE_DATA, tp_fd_in = i, tp_fd_out = 0\<rparr>, 1), (\<lparr>tp_type = RANGE_POSE_DATA, tp_fd_in = 0, tp_fd_out = o0\<rparr>, 0),
      (\<lparr>tp_type = RANGE_POSE_DATA, tp_fd_in = 0, tp_fd_out = o1\<rparr>, 0), (\<lparr>tp_type = RANGE_POSE_DATA, tp_fd_in = 0, tp_fd_out = o2\<rparr>, 1)]"

definition filter_round :: "posix \<Rightarrow> fpu \<Rightarrow> dpu \<Rightarrow> byte list \<Rightarrow> int \<Rightarrow> int \<Rightarrow> int \<Rightarrow> int \<Rightarrow> vote_test \<Rightarrow> vote_test" where
  "filter_round K F D junk i o0 o1 o2 s =
     (let bs = scan_block junk D [d_add D D_m2 (vt_add s), D_m5, D_1_0];
          s1 = s\<lparr>vt_add := d_add D (vt_add s) D_1_0\<rparr>
      in test_call K ''sleep'' 1 (send_and_read K F i bs [(o0, 160), (o1, 160), (o2, 160)] s1))"

definition filter_test_main :: "posix \<Rightarrow> fpu \<Rightarrow> dpu \<Rightarrow> byte list \<Rightarrow> string list \<Rightarrow> history \<Rightarrow> vote_test option" where
  "filter_test_main K F D junk argv h =
     do {
       (i, h1) \<leftarrow> open_pipe K h;
       (o0, h2) \<leftarrow> open_pipe K h1;
       (o1, h3) \<leftarrow> open_pipe K h2;
       (o2, h4) \<leftarrow> open_pipe K h3;
       as \<leftarrow> test_argv argv ''Filter'' ''40'' ''4'' ''800'' ''40'' (filter_links (fst i) (snd o0) (snd o1) (snd o2));
       Some ((filter_round K F D junk (snd i) (fst o0) (fst o1) (fst o2) ^^ 10000000) (vote_test_init (start_test K as h4)))
     }"

section \<open>The empty controllers\<close>

definition empty_links :: "int \<Rightarrow> int \<Rightarrow> (typed_pipe \<times> int) list" where
  "empty_links i out = [(\<lparr>tp_type = RANGE_POSE_DATA, tp_fd_in = i, tp_fd_out = 0\<rparr>, 1), (\<lparr>tp_type = MOV_CMD, tp_fd_in = 0, tp_fd_out = out\<rparr>, 1)]"

definition empty_round :: "posix \<Rightarrow> fpu \<Rightarrow> dpu \<Rightarrow> byte list \<Rightarrow> int \<Rightarrow> int \<Rightarrow> vote_test \<Rightarrow> vote_test" where
  "empty_round K F D junk i out s =
     (let bs = scan_block junk D [d_add D D_m2 (vt_add s), D_m5, D_1_0];
          s1 = s\<lparr>vt_add := d_add D (vt_add s) D_1_0\<rparr>
      in test_call K ''sleep'' 1 (send_and_read K F i bs [(out, 24)] s1))"

definition empty_test_main :: "posix \<Rightarrow> fpu \<Rightarrow> dpu \<Rightarrow> byte list \<Rightarrow> string list \<Rightarrow> history \<Rightarrow> vote_test option" where
  "empty_test_main K F D junk argv h =
     do {
       (i, h1) \<leftarrow> open_pipe K h;
       (out, h2) \<leftarrow> open_pipe K h1;
       as \<leftarrow> test_argv argv ''Empty'' ''40'' ''2'' ''800'' ''40'' (empty_links (fst i) (snd out));
       Some ((empty_round K F D junk (snd i) (fst out) ^^ 10000000) (vote_test_init (start_test K as h2)))
     }"

text \<open>
  The test of the generic controller has options. What \<open>getopt\<close> answers, one option after the other, is an
  argument; the result is the exit code, or the state after \<open>n\<close> rounds.
\<close>

record generic_options =
  send_size :: int
  voter_opt :: "string option"
  redundancy_opt :: "string option"
  controller_opt :: string

fun generic_getopt :: "(char \<times> string) list \<Rightarrow> generic_options \<Rightarrow> (int option \<times> generic_options) option" where
  "generic_getopt [] o' = Some (None, o')"
| "generic_getopt ((c, optarg) # opts) o' =
     (if c = CHR ''s'' then generic_getopt opts (o'\<lparr>send_size := atoi optarg\<rparr>)
      else if c = CHR ''v'' then generic_getopt opts (o'\<lparr>voter_opt := Some optarg\<rparr>)
      else if c = CHR ''c'' then generic_getopt opts (o'\<lparr>controller_opt := optarg\<rparr>)
      else if c = CHR ''r'' then generic_getopt opts (o'\<lparr>redundancy_opt := Some optarg\<rparr>)
      else if c = CHR ''?'' then Some (Some 1, o')
      else None)"

definition generic_links :: "int \<Rightarrow> int \<Rightarrow> (typed_pipe \<times> int) list" where
  "generic_links i out = [(\<lparr>tp_type = MSG_BUFFER, tp_fd_in = i, tp_fd_out = 0\<rparr>, 1), (\<lparr>tp_type = MSG_BUFFER, tp_fd_in = 0, tp_fd_out = out\<rparr>, 1)]"

definition generic_round :: "posix \<Rightarrow> fpu \<Rightarrow> int \<Rightarrow> int \<Rightarrow> int \<Rightarrow> vote_test \<Rightarrow> vote_test" where
  "generic_round K F nbytes i out s =
     test_call K ''usleep'' 100000 (send_and_read K F i (replicate (nat nbytes) 97) [(out, nbytes)] s)"

definition generic_test_main :: "posix \<Rightarrow> fpu \<Rightarrow> (char \<times> string) list \<Rightarrow> nat \<Rightarrow> history \<Rightarrow> (int option \<times> vote_test) option" where
  "generic_test_main K F opts n h =
     do {
       (code, o') \<leftarrow> generic_getopt opts \<lparr>send_size = 8, voter_opt = None, redundancy_opt = None, controller_opt = ''GenericEmpty''\<rparr>;
       if code \<noteq> None then Some (code, vote_test_init h)
       else do {
         let h0 = snd (InitTAS K VOTER_PIN 49 h);
         (i, h1) \<leftarrow> open_pipe K h0;
         (out, h2) \<leftarrow> open_pipe K h1;
         let ls = generic_links (fst i) (snd out);
         let as = (if voter_opt o' = None then plain_argv (controller_opt o') ''40'' ''2'' ls
           else voted_argv (voter_opt o') (controller_opt o') (redundancy_opt o') ''800'' ''40'' ls);
         let (pid, h3) = sys_fork_exec K as h2;
         let h4 = (if pid > 0 then snd (InitTAS K VOTER_PIN 50 h3) else h3);
         let h5 = snd (sys_call K ''sleep'' [2] [] h4);
         Some (None, (generic_round K F (send_size o') (snd i) (fst out) ^^ n) (vote_test_init h5))
       }
     }"

section \<open>The mapper\<close>

definition mapper_links :: "int \<Rightarrow> int \<Rightarrow> int \<Rightarrow> (typed_pipe \<times> int) list" where
  "mapper_links i out acks =
     [(\<lparr>tp_type = RANGE_POSE_DATA, tp_fd_in = i, tp_fd_out = 0\<rparr>, 1), (\<lparr>tp_type = MAP_UPDATE, tp_fd_in = 0, tp_fd_out = out\<rparr>, 1),
      (\<lparr>tp_type = COMM_ACK, tp_fd_in = acks, tp_fd_out = 0\<rparr>, 0)]"

definition mapper_round :: "posix \<Rightarrow> fpu \<Rightarrow> dpu \<Rightarrow> byte list \<Rightarrow> int \<Rightarrow> int \<Rightarrow> int \<Rightarrow> vote_test \<Rightarrow> vote_test" where
  "mapper_round K F D junk i out acks s =
     (let s1 = send_and_read K F i (scan_block junk D [D_m2, D_m2, D_1_0]) [(out, 1024)] s;
          h = snd (sys_write K acks (le_bytes8 0 @ take 8 junk) (vt_hist s1))
      in test_call K ''sleep'' 1 (s1\<lparr>vt_hist := h\<rparr>))"

definition mapper_test_main :: "posix \<Rightarrow> fpu \<Rightarrow> dpu \<Rightarrow> byte list \<Rightarrow> string list \<Rightarrow> history \<Rightarrow> vote_test option" where
  "mapper_test_main K F D junk argv h =
     do {
       let h0 = snd (InitTAS K VOTER_PIN 49 h);
       (i, h1) \<leftarrow> open_pipe K h0;
       (out, h2) \<leftarrow> open_pipe K h1;
       (acks, h3) \<leftarrow> open_pipe K h2;
       as \<leftarrow> test_argv argv ''Mapper'' ''40'' ''3'' ''800'' ''40'' (mapper_links (fst i) (snd out) (fst acks));
       Some ((mapper_round K F D junk (snd i) (fst out) (snd acks) ^^ 100) (vote_test_init (start_test K as h3)))
     }"

section \<open>The planner\<close>

definition planner_links :: "int \<Rightarrow> int \<Rightarrow> int \<Rightarrow> int \<Rightarrow> (typed_pipe \<times> int) list" where
  "planner_links m a q r =
     [(\<lparr>tp_type = MAP_UPDATE, tp_fd_in = m, tp_fd_out = 0\<rparr>, 1), (\<lparr>tp_type = COMM_ACK, tp_fd_in = 0, tp_fd_out = a\<rparr>, 1),
      (\<lparr>tp_type = WAY_REQ, tp_fd_in = q, tp_fd_out = 0\<rparr>, 2), (\<lparr>tp_type = WAY_RES, tp_fd_in = 0, tp_fd_out = r\<rparr>, 2)]"

definition hand_made_map :: "byte list" where
  "hand_made_map = [0, 0, 0, 4, 0, 0, 0, 5, 0, 0, 0, 5, 0, 0, 1, 1, 2, 2, 3, 3, 4, 4]"

text \<open>A request for waypoints, its answer, a map, its acknowledgement. No time is printed.\<close>

definition planner_round :: "posix \<Rightarrow> byte list \<Rightarrow> int \<Rightarrow> int \<Rightarrow> int \<Rightarrow> int \<Rightarrow> history \<Rightarrow> history" where
  "planner_round K junk m a q r h =
     (let h1 = test_read K r 48 (snd (sys_write K q (take 4 junk) h));
          h2 = snd (generate_timestamp K h1);
          h3 = test_read K a 16 (snd (sys_write K m hand_made_map h2));
          h4 = snd (generate_timestamp K h3)
      in snd (sys_call K ''usleep'' [1000] [] h4))"

definition planner_test_main :: "posix \<Rightarrow> byte list \<Rightarrow> string list \<Rightarrow> nat \<Rightarrow> history \<Rightarrow> history option" where
  "planner_test_main K junk argv n h =
     do {
       (m, h1) \<leftarrow> open_pipe K h;
       (a, h2) \<leftarrow> open_pipe K h1;
       (q, h3) \<leftarrow> open_pipe K h2;
       (r, h4) \<leftarrow> open_pipe K h3;
       as \<leftarrow> test_argv argv ''AStar'' ''30'' ''4'' ''80000'' ''30'' (planner_links (fst m) (snd a) (fst q) (snd r));
       Some ((planner_round K junk (snd m) (fst a) (snd q) (fst r) ^^ n) (start_test K as h4))
     }"

section \<open>The potential controller\<close>

definition art_pot_links :: "int \<Rightarrow> int \<Rightarrow> int \<Rightarrow> int \<Rightarrow> (typed_pipe \<times> int) list" where
  "art_pot_links i q r m =
     [(\<lparr>tp_type = RANGE_POSE_DATA, tp_fd_in = i, tp_fd_out = 0\<rparr>, 1), (\<lparr>tp_type = WAY_REQ, tp_fd_in = 0, tp_fd_out = q\<rparr>, 0),
      (\<lparr>tp_type = WAY_RES, tp_fd_in = r, tp_fd_out = 0\<rparr>, 0), (\<lparr>tp_type = MOV_CMD, tp_fd_in = 0, tp_fd_out = m\<rparr>, 1)]"

text \<open>A request for waypoints is answered with (8, 8); the rest of the answer is never set.\<close>

definition art_pot_round :: "posix \<Rightarrow> fpu \<Rightarrow> dpu \<Rightarrow> byte list \<Rightarrow> int \<Rightarrow> int \<Rightarrow> int \<Rightarrow> int \<Rightarrow> vote_test \<Rightarrow> vote_test" where
  "art_pot_round K F D junk i q r m s =
     (let seq = vt_seq s + 1;
          (sent, h1) = generate_timestamp K (vt_hist s);
          h2 = snd (sys_write K i (scan_block (int_bytes seq @ take 4 junk) D [D_m7, D_m7, D_1_0]) h1);
          (retval, ready, h3) = sys_select K [q, m] 1000000 h2;
          s1 = s\<lparr>vt_seq := seq, vt_hist := h3\<rparr>;
          s2 = (if retval > 0 \<and> q \<in> set ready then
                  s1\<lparr>vt_hist := snd (sys_write K r (doubles_bytes [D_8, D_8, D_0] @ take 24 junk) (test_read K q 4 (vt_hist s1)))\<rparr>
                else s1);
          s3 = (if retval > 0 \<and> m \<in> set ready then
                  time_round K F sent (s2\<lparr>vt_hist := test_read K m 24 (vt_hist s2)\<rparr>)
                else s2)
      in test_call K ''sleep'' 1 s3)"

definition art_pot_test_main :: "posix \<Rightarrow> fpu \<Rightarrow> dpu \<Rightarrow> byte list \<Rightarrow> string list \<Rightarrow> history \<Rightarrow> vote_test option" where
  "art_pot_test_main K F D junk argv h =
     do {
       let h0 = snd (InitTAS K VOTER_PIN 49 h);
       (i, h1) \<leftarrow> open_pipe K h0;
       (q, h2) \<leftarrow> open_pipe K h1;
       (r, h3) \<leftarrow> open_pipe K h2;
       (m, h4) \<leftarrow> open_pipe K h3;
       as \<leftarrow> test_argv argv ''ArtPot'' ''40'' ''4'' ''2000'' ''80'' (art_pot_links (fst i) (snd q) (fst r) (snd m));
       Some ((art_pot_round K F D junk (snd i) (fst q) (snd r) (fst m) ^^ 100) (vote_test_init (start_test K as h4)))
     }"

section \<open>What the voter and the controller find\<close>

text \<open>The voter reads from a test what it reads from the plumber: the links of the tests satisfy its restrictions.\<close>

lemma voted_args_eq:
  assumes "voter_links ls"
  shows "map voted_arg ls = link_args ls"
proof -
  have "voted_arg (p, t) = pipe_text p @ '':'' @ fd_string t" if "(p, t) \<in> set ls" for p t
    using that assms by (force simp: voter_links_def list_all_iff one_end_def voted_arg_def plain_arg_def pipe_text_def show_int_fd)
  then show ?thesis by (auto simp: link_args_def)
qed

lemma voted_argv_all: "voted_argv (Some v) name (Some r) timeout prio ls = [v, name, r, timeout, prio] @ map voted_arg ls"
proof -
  have "map the (takeWhile (\<lambda>a. a \<noteq> None) (map (\<lambda>l. Some (voted_arg l)) ls)) = map voted_arg ls" by (induction ls) auto
  then show ?thesis by (simp add: voted_argv_def exec_args_def)
qed

lemma test_links_voted:
  assumes "\<forall>fd \<in> {a, b, c, d}. 1 \<le> fd \<and> fd < 100"
  shows "voter_links (filter_links a b c d)" "voter_links (empty_links a b)" "voter_links (generic_links a b)"
    "voter_links (mapper_links a b c)" "voter_links (planner_links a b c d)" "voter_links (art_pot_links a b c d)"
  using assms by (simp_all add: voter_links_def one_end_def PIPE_LIMIT_def filter_links_def empty_links_def
      generic_links_def mapper_links_def planner_links_def art_pot_links_def)

lemma test_argv_parsed:
  assumes ls: "voter_links ls" and type: "type \<in> {SMR, DMR, TMR}"
    and argv: "argv = [prog, voter, REP_TYPE_T type]"
  shows "\<exists>as s. test_argv argv name prio count timeout vprio ls = Some as \<and> parseArgs g tail as voterd_globals = Some (0, s)
    \<and> controller_name s = name \<and> rep_count s = reptypeToCount type
    \<and> voting_timeout s = (if atoi timeout = 0 then PERIOD_USEC else atoi timeout) \<and> voter_priority s = atoi vprio
    \<and> map (\<lambda>e. (fd_in e, fd_out e, timed e)) (ext_pipes s) = map (\<lambda>(p, t). (tp_fd_in p, tp_fd_out p, if t \<noteq> 0 then 1 else 0)) ls"
proof -
  have "test_argv argv name prio count timeout vprio ls = Some ([voter, name, REP_TYPE_T type, timeout, vprio] @ link_args ls)"
    using argv voted_args_eq [OF ls] by (simp add: test_argv_def arg_at_def voted_argv_all)
  then show ?thesis
    using voter_args_parsed [OF ls type, of g tail voter name timeout vprio] by auto
qed

text \<open>Started without a level of redundancy, the voter gets two arguments.\<close>

lemma test_argv_cut: "test_argv [prog, voter] name prio count timeout vprio ls = Some [voter, name]"
  by (simp add: test_argv_def arg_at_def voted_argv_def exec_args_def)

text \<open>The map of the planner's test is what the mapper sends for the robot at (4, 5) and five obstacles on the diagonal.\<close>

definition test_map :: comm_map_update where
  "test_map = \<lparr>pose_x = 4, pose_y = 5, obs_count = 5, obs_x = [0, 1, 2, 3, 4], obs_y = [0, 1, 2, 3, 4]\<rparr>"

lemma hand_made_map_eq: "hand_made_map = map_header test_map @ obstacle_bytes test_map 5"
  by code_simp

lemma hand_made_map_received:
  assumes "tp_type q = MAP_UPDATE" "tp_fd_in q \<noteq> 0" "5 \<le> length (obs_x old)" "5 \<le> length (obs_y old)"
    and "delivers K (tp_fd_in q) hand_made_map h"
  shows "\<exists>r msg h'. commRecvMapUpdate K q old h = Some (r, msg, h') \<and> 0 < r \<and> pose_x msg = 4 \<and> pose_y msg = 5
    \<and> obs_count msg = 5 \<and> take 5 (obs_x msg) = [0, 1, 2, 3, 4] \<and> take 5 (obs_y msg) = [0, 1, 2, 3, 4]"
  using recv_map_update [of q test_map 5 old K h] assms by (simp add: hand_made_map_eq test_map_def c_int_def)

text \<open>The scans of the tests are whole messages: 160 bytes that read back as the pose that was written.\<close>

lemma scan_block_pose:
  assumes "8 \<le> length junk" "length ps = 3"
  shows "length (scan_block junk D ps) = 160" "pose (bytes_range_pose (scan_block junk D ps)) = ps"
    "ranges (bytes_range_pose (scan_block junk D ps)) = test_ranges D"
proof -
  have "length (test_ranges D) = 16" by (simp add: test_ranges_def)
  then show "length (scan_block junk D ps) = 160" "pose (bytes_range_pose (scan_block junk D ps)) = ps"
    "ranges (bytes_range_pose (scan_block junk D ps)) = test_ranges D"
    using assms bytes_doubles_take [of "test_ranges D" 16] bytes_doubles_take [of ps 3 "[]"]
    by (simp_all add: scan_block_def bytes_range_pose_def)
qed

end
