(* ===== verification/StageControl.thy ===== *)
theory StageControl
  imports ArtPot
begin

text \<open>
  The program that starts the robot (\<open>stage_control/basic.c\<close>): it connects to the driver and to the
  simulator, puts the robot into its corner and sends it off. The Player client library is reached by
  named calls whose answers are those of the system (\<open>on_call\<close>): a created object is the number it answers. \<open>open_mode\<close> is the
  library's \<open>PLAYER_OPEN_MODE\<close>.
\<close>

definition D_4_5 :: double where "D_4_5 = 0x4012000000000000"

text \<open>The arguments of a call that are doubles are passed as their patterns.\<close>

definition set_pose2d :: "posix \<Rightarrow> int \<Rightarrow> string \<Rightarrow> double list \<Rightarrow> history \<Rightarrow> history" where
  "set_pose2d K sim name ps h = snd (sys_call K ''playerc_simulation_set_pose2d'' (sim # map uint ps) name h)"

definition set_cmd_pose :: "posix \<Rightarrow> int \<Rightarrow> double list \<Rightarrow> int \<Rightarrow> history \<Rightarrow> history" where
  "set_cmd_pose K dev ps state h = snd (sys_call K ''playerc_position2d_set_cmd_pose'' (dev # map uint ps @ [state]) [] h)"

text \<open>Create a client and connect it; \<open>None\<close> when the connection is refused.\<close>

definition connect_client :: "posix \<Rightarrow> string \<Rightarrow> int \<Rightarrow> history \<Rightarrow> int option \<times> history" where
  "connect_client K host port h =
     (let (client, h1) = sys_call K ''playerc_client_create'' [0, port] host h;
          (r, h2) = sys_call K ''playerc_client_connect'' [client] [] h1
      in (if r = 0 then Some client else None, h2))"

text \<open>Create a proxy for a device of the client and subscribe to it.\<close>

definition subscribe :: "posix \<Rightarrow> int \<Rightarrow> string \<Rightarrow> string \<Rightarrow> int \<Rightarrow> int \<Rightarrow> history \<Rightarrow> int option \<times> history" where
  "subscribe K open_mode create sub client index h =
     (let (dev, h1) = sys_call K create [client, index] [] h;
          (r, h2) = sys_call K sub [dev, open_mode] [] h1
      in (if r = 0 then Some dev else None, h2))"

text \<open>
  The exit code, or \<open>None\<close> when the program sleeps for good (\<open>n\<close> seconds of it): the calls that would shut it
  down are never reached.
\<close>

definition stage_main :: "posix \<Rightarrow> int \<Rightarrow> string list \<Rightarrow> nat \<Rightarrow> history \<Rightarrow> int option \<times> history" where
  "stage_main K open_mode argv n h =
     (if length argv < 2 then (Some 0, h)
      else let (client, h1) = connect_client K ''127.0.0.1'' 6666 h in
        case client of None \<Rightarrow> (Some (-1), h1)
        | Some c \<Rightarrow> let (sim_client, h2) = connect_client K (argv ! 1) 6665 h1 in
        case sim_client of None \<Rightarrow> (Some (-1), h2)
        | Some sc \<Rightarrow> let (position2d, h3) = subscribe K open_mode ''playerc_position2d_create'' ''playerc_position2d_subscribe'' c 1 h2 in
        case position2d of None \<Rightarrow> (Some (-1), h3)
        | Some p \<Rightarrow> let (simulation, h4) = subscribe K open_mode ''playerc_simulation_create'' ''playerc_simulation_subscribe'' sc 0 h3 in
        case simulation of None \<Rightarrow> (Some (-1), h4)
        | Some sim \<Rightarrow>
            (None, ((\<lambda>h. snd (sys_call K ''sleep'' [1] [] h)) ^^ n)
               (set_cmd_pose K p [D_4_5, D_4_5, D_0] 1 (set_pose2d K sim ''hank'' [D_m7, D_m7, D_0] h4))))"

section \<open>What moves\<close>

text \<open>The commands of a history that move the robot.\<close>

fun moves :: "history \<Rightarrow> (string \<times> int list) list" where
  "moves [] = []"
| "moves (SysCall name args t r # es) =
     (if name \<in> {''playerc_simulation_set_pose2d'', ''playerc_position2d_set_cmd_pose''} then (name, args) # moves es else moves es)"
| "moves (_ # es) = moves es"

lemma moves_append [simp]: "moves (h @ h') = moves h @ moves h'"
  by (induction h rule: moves.induct) auto

lemma moves_call: "moves (snd (sys_call K name args t h)) = moves h @ moves [SysCall name args t 0]"
  by (simp add: sys_call_def Let_def)

lemma moves_sleep: "moves (((\<lambda>h. snd (sys_call K ''sleep'' [1] [] h)) ^^ n) h) = moves h"
  by (induction n) (simp_all add: moves_call)

lemma connect_client_moves: "connect_client K host port h = (c, h') \<Longrightarrow> moves h' = moves h"
  by (auto simp: connect_client_def sys_call_def Let_def)

lemma subscribe_moves:
  "subscribe K open_mode create sub client index h = (d, h') \<Longrightarrow> create \<in> {''playerc_position2d_create'', ''playerc_simulation_create''} \<Longrightarrow>
    sub \<in> {''playerc_position2d_subscribe'', ''playerc_simulation_subscribe''} \<Longrightarrow> moves h' = moves h"
  by (auto simp: subscribe_def sys_call_def Let_def)

text \<open>
  The robot is put into its corner and sent to (4.5, 4.5), once each and in this order, when all four
  connections stand; a program that ends has moved nothing.
\<close>

lemma stage_main_moves:
  assumes "stage_main K open_mode argv n h = (code, h')"
  shows "code = None \<longleftrightarrow> moves h' \<noteq> moves h"
    and "code = None \<Longrightarrow> \<exists>p sim. moves h' = moves h
      @ [(''playerc_simulation_set_pose2d'', [sim, uint D_m7, uint D_m7, 0]),
         (''playerc_position2d_set_cmd_pose'', [p, uint D_4_5, uint D_4_5, 0, 1])]"
proof -
  have "code = None \<and> (\<exists>p sim. moves h' = moves h
      @ [(''playerc_simulation_set_pose2d'', [sim, uint D_m7, uint D_m7, 0]),
         (''playerc_position2d_set_cmd_pose'', [p, uint D_4_5, uint D_4_5, 0, 1])])
    \<or> code \<noteq> None \<and> moves h' = moves h"
    using assms unfolding stage_main_def
    by (auto simp: Let_def set_cmd_pose_def set_pose2d_def moves_sleep moves_call D_0_def
        dest!: connect_client_moves subscribe_moves split: if_splits prod.splits option.splits)
  then show "code = None \<longleftrightarrow> moves h' \<noteq> moves h"
    "code = None \<Longrightarrow> \<exists>p sim. moves h' = moves h
      @ [(''playerc_simulation_set_pose2d'', [sim, uint D_m7, uint D_m7, 0]),
         (''playerc_position2d_set_cmd_pose'', [p, uint D_4_5, uint D_4_5, 0, 1])]"
    by auto
qed

end
